(* ===== verification/Prelude.thy ===== *)
theory Prelude
  imports Main "HOL-Library.Word" "HOL-Library.Multiset"
begin

text \<open>
  Shared ground of the development: the machine types of \<open>misc/fixed_types.h\<close>, the ways in
  which the simulator stops (\<open>assert\<close>, \<open>LOG_ASSERT_ERROR\<close>, \<open>LOG_PRINT_ERROR\<close>) as error
  values, sequencing of fallible steps, loops over array indices and the generic lemmas on
  lists and words that the components use.
\<close>

unbundle bit_operations_syntax

section \<open>Machine types\<close>

type_synonym UInt8 = "8 word"
type_synonym UInt32 = "32 word"
type_synonym UInt64 = "64 word"
type_synonym IntPtr = "64 word"
type_synonym SInt32 = "32 word"
type_synonym SInt64 = "64 word"
type_synonym core_id_t = "32 word"
type_synonym byte = "8 word"

section \<open>Fallible code\<close>

text \<open>
  \<open>Assert\<close> is a failed \<open>assert\<close> or \<open>LOG_ASSERT_ERROR\<close>, \<open>Print_Error\<close> a reached
  \<open>LOG_PRINT_ERROR\<close> (both abort the simulation), \<open>Undefined\<close> a C++ undefined behaviour
  (a null dereference, an index out of range, a division by zero), and \<open>Diverges\<close> a
  recursion or loop that does not return.
\<close>

datatype sim_error =
    Assert string
  | Print_Error string
  | Undefined string
  | Diverges

type_synonym 'a result = "sim_error + 'a"

definition bindE :: "'a result \<Rightarrow> ('a \<Rightarrow> 'b result) \<Rightarrow> 'b result" where
  "bindE r f = (case r of Inl e \<Rightarrow> Inl e | Inr a \<Rightarrow> f a)"

definition mapE :: "('a \<Rightarrow> 'b) \<Rightarrow> 'a result \<Rightarrow> 'b result" where
  "mapE f r = (case r of Inl e \<Rightarrow> Inl e | Inr a \<Rightarrow> Inr (f a))"

definition check :: "bool \<Rightarrow> sim_error \<Rightarrow> 'a result \<Rightarrow> 'a result" where
  "check b e k = (if b then k else Inl e)"

text \<open>Array reads: out of range is undefined behaviour.\<close>

definition at :: "'a list \<Rightarrow> nat \<Rightarrow> 'a result" where
  "at xs i = (if i < length xs then Inr (xs ! i) else Inl (Undefined ''index out of range''))"

named_theorems result_simps \<open>evaluation of sequenced fallible steps\<close>

lemma bindE_Inr [simp, result_simps]: "bindE (Inr a) f = f a"
  by (simp add: bindE_def)

lemma bindE_Inl [simp, result_simps]: "bindE (Inl e) f = Inl e"
  by (simp add: bindE_def)

lemma bindE_eq_Inr [result_simps]: "bindE r f = Inr b \<longleftrightarrow> (\<exists>a. r = Inr a \<and> f a = Inr b)"
  by (cases r) auto

lemma mapE_Inr [simp, result_simps]: "mapE f (Inr a) = Inr (f a)"
  by (simp add: mapE_def)

lemma mapE_Inl [simp, result_simps]: "mapE f (Inl e) = Inl e"
  by (simp add: mapE_def)

lemma mapE_eq_Inr [result_simps]: "mapE f r = Inr b \<longleftrightarrow> (\<exists>a. r = Inr a \<and> f a = b)"
  by (cases r) auto

lemma check_True [simp, result_simps]: "check True e k = k"
  by (simp add: check_def)

lemma check_False [simp, result_simps]: "check False e k = Inl e"
  by (simp add: check_def)

lemma check_eq_Inr [result_simps]: "check b e k = Inr a \<longleftrightarrow> b \<and> k = Inr a"
  by (simp add: check_def)

lemma at_Inr [simp]: "i < length xs \<Longrightarrow> at xs i = Inr (xs ! i)"
  by (simp add: at_def)

lemma at_eq_Inr [result_simps]: "at xs i = Inr a \<longleftrightarrow> i < length xs \<and> a = xs ! i"
  by (auto simp: at_def)

section \<open>Loops over the ways of an array\<close>

text \<open>
  \<open>for (i = 0; i < n; i++) if (p i) return i;\<close> is the first index that satisfies \<open>p\<close>;
  the loops that count down from the last index return the last one.
\<close>

fun first_from :: "(nat \<Rightarrow> bool) \<Rightarrow> nat \<Rightarrow> nat \<Rightarrow> nat option" where
  "first_from p i 0 = None"
| "first_from p i (Suc k) = (if p i then Some i else first_from p (Suc i) k)"

definition first_index :: "(nat \<Rightarrow> bool) \<Rightarrow> nat \<Rightarrow> nat option" where
  "first_index p n = first_from p 0 n"

fun last_index :: "(nat \<Rightarrow> bool) \<Rightarrow> nat \<Rightarrow> nat option" where
  "last_index p 0 = None"
| "last_index p (Suc k) = (if p k then Some k else last_index p k)"

lemma first_from_Some:
  "first_from p i k = Some j \<longleftrightarrow> i \<le> j \<and> j < i + k \<and> p j \<and> (\<forall>m. i \<le> m \<and> m < j \<longrightarrow> \<not> p m)"
proof (induction k arbitrary: i)
  case 0
  then show ?case by auto
next
  case (Suc k)
  show ?case
  proof (cases "p i")
    case True
    then show ?thesis by (auto intro: le_neq_implies_less)
  next
    case False
    have "(\<forall>m. i \<le> m \<and> m < j \<longrightarrow> \<not> p m) \<longleftrightarrow> (\<forall>m. Suc i \<le> m \<and> m < j \<longrightarrow> \<not> p m)"
      using False by (metis Suc_leI le_eq_less_or_eq Suc_leD)
    moreover have "p j \<Longrightarrow> i \<le> j \<Longrightarrow> Suc i \<le> j"
      using False by (metis Suc_leI le_eq_less_or_eq)
    ultimately show ?thesis using False Suc by auto
  qed
qed

lemma first_from_None: "first_from p i k = None \<longleftrightarrow> (\<forall>m. i \<le> m \<and> m < i + k \<longrightarrow> \<not> p m)"
proof (induction k arbitrary: i)
  case (Suc k)
  show ?case
    using Suc [of "Suc i"] by (auto simp: Suc_le_eq) (metis le_eq_less_or_eq)
qed auto

lemma first_index_Some:
  "first_index p n = Some j \<longleftrightarrow> j < n \<and> p j \<and> (\<forall>m < j. \<not> p m)"
  by (auto simp: first_index_def first_from_Some)

lemma first_index_None: "first_index p n = None \<longleftrightarrow> (\<forall>m < n. \<not> p m)"
  by (auto simp: first_index_def first_from_None)

lemma last_index_Some:
  "last_index p n = Some j \<longleftrightarrow> j < n \<and> p j \<and> (\<forall>m. j < m \<and> m < n \<longrightarrow> \<not> p m)"
proof (induction n)
  case (Suc n)
  then show ?case by (cases "p n") (auto simp: less_Suc_eq)
qed simp

lemma last_index_None: "last_index p n = None \<longleftrightarrow> (\<forall>m < n. \<not> p m)"
  by (induction n) (auto simp: less_Suc_eq)

section \<open>Lists and words\<close>

lemma unat_of_nat_le: "n < 2 ^ LENGTH('a) \<Longrightarrow> unat (of_nat n :: 'a::len word) = n"
  by (simp add: unat_of_nat take_bit_nat_eq_self)

lemma unat_2p:
  assumes "k < LENGTH('a)"
  shows "unat ((2 :: 'a::len word) ^ k) = 2 ^ k"
proof -
  have "unat (of_nat (2 ^ k) :: 'a word) = 2 ^ k"
    using assms by (intro unat_of_nat_le) simp
  then show ?thesis by simp
qed

lemma unat_lt2p: "unat (x :: 'a::len word) < 2 ^ LENGTH('a)"
  by (rule unsigned_less)

lemma unat_ucast_mod: "unat (ucast (x :: 'a::len word) :: 'b::len word) = unat x mod 2 ^ LENGTH('b)"
  by (simp add: unsigned_ucast_eq take_bit_eq_mod)

lemma unat_ucast_up:
  assumes "LENGTH('a) \<le> LENGTH('b)"
  shows "unat (ucast (x :: 'a::len word) :: 'b::len word) = unat x"
proof -
  have "unat x < 2 ^ LENGTH('b)"
    using unat_lt2p [of x] assms by (meson less_le_trans one_le_numeral power_increasing)
  then show ?thesis by (simp add: unat_ucast_mod)
qed

lemma unat_drop_bit_div: "unat (drop_bit k (x :: 'a::len word)) = unat x div 2 ^ k"
  by (subst unat_drop_bit_eq) (rule drop_bit_eq_div)

lemma unat_add_1_less:
  assumes "(x :: 'a::len word) < y"
  shows "unat (x + 1) = Suc (unat x)"
proof -
  have "unat x < unat y" using assms by (simp add: word_less_nat_alt)
  then have "Suc (unat x) < 2 ^ LENGTH('a)"
    using unat_lt2p [of y] by linarith
  then show ?thesis by (simp add: unat_word_ariths)
qed

lemma nth_unat_eq_iff:
  "distinct bits \<Longrightarrow> i < length bits \<Longrightarrow> j < length bits \<Longrightarrow> unat (bits ! i) = unat (bits ! j) \<longleftrightarrow> i = j"
  for bits :: "'a::len word list"
  by (simp add: word_unat_eq_iff [symmetric] nth_eq_iff_index_eq)

lemma distinct_map_nthD:
  "distinct (map f xs) \<Longrightarrow> i < length xs \<Longrightarrow> j < length xs \<Longrightarrow> f (xs ! i) = f (xs ! j) \<Longrightarrow> i = j"
  by (metis distinct_conv_nth length_map nth_map)

text \<open>
  An assignment inside an index loop: running over \<open>[0..<n]\<close> and updating entry \<open>i\<close> from
  entry \<open>i\<close> alone is a \<open>map\<close> over the array.
\<close>

lemma foldl_update_upt:
  assumes "n \<le> length xs"
  shows "foldl (\<lambda>ys i. ys[i := f (ys ! i)]) xs [0..<n] = map f (take n xs) @ drop n xs"
  using assms
proof (induction n)
  case (Suc n)
  then have "n < length xs" by simp
  with Suc show ?case
    by (simp add: nth_append list_update_append take_Suc_conv_app_nth Cons_nth_drop_Suc [symmetric])
qed simp

lemma sorted_filter_le_prefix:
  assumes "sorted (map f xs)"
  shows "xs = filter (\<lambda>x. f x \<le> (b::'b::linorder)) xs @ filter (\<lambda>x. \<not> f x \<le> b) xs"
  using assms
proof (induction xs)
  case (Cons x xs)
  show ?case
  proof (cases "f x \<le> b")
    case True
    with Cons show ?thesis by simp
  next
    case False
    with Cons.prems have "\<forall>y \<in> set xs. \<not> f y \<le> b" by auto
    then have "filter (\<lambda>x. f x \<le> b) xs = []" and "filter (\<lambda>x. \<not> f x \<le> b) xs = xs"
      by (auto simp: filter_empty_conv)
    with False show ?thesis by simp
  qed
qed simp

end
