(* ===== verification/Cache_Block.thy ===== *)
theory Cache_Block
  imports Prelude
begin

text \<open>
  Cache lines: the coherence states of \<open>cache/cache_state.h\<close> and the per-line metadata of
  \<open>cache/cache_block_info.{h,cc}\<close> with its subclasses (\<open>pr_l1_\<close>, \<open>pr_l2_\<close>,
  \<open>shared_cache_block_info\<close>), including the epoch identifier that PiCL adds to a line.
\<close>

section \<open>cache/cache_state.h\<close>

datatype cstate_t =
    INVALID | SHARED | SHARED_UPGRADING | EXCLUSIVE | OWNED | MODIFIED
  | INVALID_COLD | INVALID_EVICT | INVALID_COHERENCY

fun cstate_index :: "cstate_t \<Rightarrow> nat" where
  "cstate_index INVALID = 0"
| "cstate_index SHARED = 1"
| "cstate_index SHARED_UPGRADING = 2"
| "cstate_index EXCLUSIVE = 3"
| "cstate_index OWNED = 4"
| "cstate_index MODIFIED = 5"
| "cstate_index INVALID_COLD = 6"
| "cstate_index INVALID_EVICT = 7"
| "cstate_index INVALID_COHERENCY = 8"

lemma cstate_index_inj: "cstate_index s = cstate_index t \<Longrightarrow> s = t"
  by (cases s; cases t) simp_all

text \<open>The enumeration is ordered by its integer values, as the C++ comparisons read it.\<close>

instantiation cstate_t :: linorder
begin

definition less_eq_cstate_t :: "cstate_t \<Rightarrow> cstate_t \<Rightarrow> bool" where
  "less_eq_cstate_t s t \<longleftrightarrow> cstate_index s \<le> cstate_index t"

definition less_cstate_t :: "cstate_t \<Rightarrow> cstate_t \<Rightarrow> bool" where
  "less_cstate_t s t \<longleftrightarrow> cstate_index s < cstate_index t"

instance
  by standard (auto simp: less_eq_cstate_t_def less_cstate_t_def cstate_index_inj)

end

definition readable :: "cstate_t \<Rightarrow> bool" where
  "readable cstate \<longleftrightarrow> cstate = MODIFIED \<or> cstate = OWNED \<or> cstate = SHARED \<or> cstate = EXCLUSIVE"

definition writable :: "cstate_t \<Rightarrow> bool" where
  "writable cstate \<longleftrightarrow> cstate = MODIFIED"

fun CStateString :: "cstate_t \<Rightarrow> char" where
  "CStateString INVALID = CHR ''I''"
| "CStateString SHARED = CHR ''S''"
| "CStateString SHARED_UPGRADING = CHR ''u''"
| "CStateString MODIFIED = CHR ''M''"
| "CStateString EXCLUSIVE = CHR ''E''"
| "CStateString OWNED = CHR ''O''"
| "CStateString INVALID_COLD = CHR ''_''"
| "CStateString INVALID_EVICT = CHR ''e''"
| "CStateString INVALID_COHERENCY = CHR ''c''"

lemma CStateString_inj: "CStateString s = CStateString t \<Longrightarrow> s = t"
  by (cases s; cases t) simp_all

section \<open>Memory components\<close>

text \<open>\<open>mem_component.h\<close>: the numbers matter, since they index bits of the cached-location vector.\<close>

datatype mem_component =
    INVALID_MEM_COMPONENT | CORE | L1_ICACHE | L1_DCACHE | L2_CACHE | L3_CACHE | L4_CACHE
  | LAST_LEVEL_CACHE | TAG_DIR | ONCHIP_UNDO_BUFFER | NUCA_CACHE | DRAM_CACHE | DRAM

fun mem_component_num :: "mem_component \<Rightarrow> nat" where
  "mem_component_num INVALID_MEM_COMPONENT = 0"
| "mem_component_num CORE = 1"
| "mem_component_num L1_ICACHE = 2"
| "mem_component_num L1_DCACHE = 3"
| "mem_component_num L2_CACHE = 4"
| "mem_component_num L3_CACHE = 5"
| "mem_component_num L4_CACHE = 6"
| "mem_component_num LAST_LEVEL_CACHE = 20"
| "mem_component_num TAG_DIR = 21"
| "mem_component_num ONCHIP_UNDO_BUFFER = 22"
| "mem_component_num NUCA_CACHE = 23"
| "mem_component_num DRAM_CACHE = 24"
| "mem_component_num DRAM = 25"

lemma mem_component_num_inj [simp]: "mem_component_num a = mem_component_num b \<longleftrightarrow> a = b"
  by (cases a; cases b) simp_all

lemma mem_component_num_less: "mem_component_num a < 32"
  by (cases a) simp_all

section \<open>cache/cache_block_info\<close>

datatype cache_t = INVALID_CACHE_TYPE | PR_L1_CACHE | PR_L2_CACHE | SHARED_CACHE

datatype option_t = PREFETCH | WARMUP

fun option_num :: "option_t \<Rightarrow> nat" where
  "option_num PREFETCH = 0"
| "option_num WARMUP = 1"

lemma option_num_inj [simp]: "option_num a = option_num b \<longleftrightarrow> a = b"
  by (cases a; cases b) simp_all

lemma option_num_less: "option_num a < 8"
  by (cases a) simp_all

text \<open>
  One record for the class hierarchy: \<open>m_kind\<close> is the dynamic class, and
  \<open>m_cached_loc_bitvec\<close> is the field that only \<open>PrL2CacheBlockInfo\<close> has (the sharing set
  of \<open>SharedCacheBlockInfo\<close> is compiled out).
\<close>

record block_info =
  m_kind :: cache_t
  m_tag :: IntPtr
  m_cstate :: cstate_t
  m_owner :: UInt64
  m_used :: UInt8
  m_options :: UInt8
  m_eid :: UInt64
  m_cached_loc_bitvec :: UInt32

definition CacheBlockInfo_new :: "cache_t \<Rightarrow> IntPtr \<Rightarrow> cstate_t \<Rightarrow> UInt64 \<Rightarrow> block_info" where
  "CacheBlockInfo_new kind tag cstate options =
     \<lparr>m_kind = kind, m_tag = tag, m_cstate = cstate, m_owner = 0, m_used = 0,
      m_options = ucast options, m_eid = 0, m_cached_loc_bitvec = 0\<rparr>"

definition CacheBlockInfo_create :: "cache_t \<Rightarrow> block_info result" where
  "CacheBlockInfo_create cache_type =
     (case cache_type of
        INVALID_CACHE_TYPE \<Rightarrow> Inl (Print_Error ''Unrecognized cache type'')
      | _ \<Rightarrow> Inr (CacheBlockInfo_new cache_type (NOT 0) INVALID 0))"

definition isValid :: "block_info \<Rightarrow> bool" where
  "isValid b \<longleftrightarrow> m_tag b \<noteq> NOT 0"

definition invalidate :: "block_info \<Rightarrow> block_info" where
  "invalidate b =
     (let b' = (if m_kind b = PR_L2_CACHE then b\<lparr>m_cached_loc_bitvec := 0\<rparr> else b)
      in b'\<lparr>m_tag := NOT 0, m_cstate := INVALID, m_eid := 0\<rparr>)"

text \<open>\<open>clone dst src\<close> overwrites the fields of \<open>dst\<close>; its class stays what it is.\<close>

definition clone :: "block_info \<Rightarrow> block_info \<Rightarrow> block_info" where
  "clone dst src =
     (let b = (if m_kind dst = PR_L2_CACHE
               then dst\<lparr>m_cached_loc_bitvec := m_cached_loc_bitvec src\<rparr> else dst)
      in b\<lparr>m_tag := m_tag src, m_cstate := m_cstate src, m_owner := m_owner src,
            m_used := m_used src, m_options := m_options src, m_eid := m_eid src\<rparr>)"

definition hasOption :: "option_t \<Rightarrow> block_info \<Rightarrow> bool" where
  "hasOption opt b \<longleftrightarrow> (m_options b AND push_bit (option_num opt) 1) \<noteq> 0"

definition setOption :: "option_t \<Rightarrow> block_info \<Rightarrow> block_info" where
  "setOption opt b = b\<lparr>m_options := m_options b OR push_bit (option_num opt) 1\<rparr>"

definition clearOption :: "option_t \<Rightarrow> block_info \<Rightarrow> block_info" where
  "clearOption opt b =
     b\<lparr>m_options := m_options b AND ucast (NOT (push_bit (option_num opt) (1 :: UInt64)))\<rparr>"

definition updateUsage_mask :: "UInt8 \<Rightarrow> block_info \<Rightarrow> bool \<times> block_info" where
  "updateUsage_mask used b =
     ((used AND NOT (m_used b)) \<noteq> 0, b\<lparr>m_used := m_used b OR used\<rparr>)"

text \<open>
  \<open>updateUsage(offset, size)\<close>: the sums are 32-bit, the masks 64-bit (a shift by 64 or more is
  undefined), and the mask is truncated to the 8-bit \<open>BitsUsedType\<close> of the overload it calls.
\<close>

definition updateUsage :: "UInt32 \<Rightarrow> UInt32 \<Rightarrow> block_info \<Rightarrow> (bool \<times> block_info) result" where
  "updateUsage offset sz b =
     (let first = ucast (drop_bit 3 offset) :: UInt64;
          last = ucast (drop_bit 3 (offset + sz - 1)) :: UInt64
      in check (unat first < 64 \<and> unat (last + 1) < 64) (Undefined ''shift count too large'')
           (let first_mask = push_bit (unat first) (1 :: UInt64) - 1;
                last_mask = push_bit (unat (last + 1)) (1 :: UInt64) - 1;
                usage_mask = last_mask AND NOT first_mask
            in Inr (updateUsage_mask (ucast usage_mask) b)))"

section \<open>cache/pr_l2_cache_block_info.cc\<close>

definition loc_bit :: "mem_component \<Rightarrow> UInt32" where
  "loc_bit c = push_bit (mem_component_num c) 1"

definition getCachedLoc :: "block_info \<Rightarrow> mem_component result" where
  "getCachedLoc b =
     (let v = m_cached_loc_bitvec b
      in check (v \<noteq> (loc_bit L1_ICACHE OR loc_bit L1_DCACHE)) (Assert ''m_cached_loc_bitvec'')
        (if v = loc_bit L1_ICACHE then Inr L1_ICACHE
         else if v = loc_bit L1_DCACHE then Inr L1_DCACHE
         else if v = 0 then Inr INVALID_MEM_COMPONENT
         else Inl (Print_Error ''m_cached_loc_bitvec'')))"

definition setCachedLoc :: "mem_component \<Rightarrow> block_info \<Rightarrow> block_info result" where
  "setCachedLoc c b =
     check (c \<noteq> INVALID_MEM_COMPONENT) (Assert ''cached_loc'')
       (check ((m_cached_loc_bitvec b AND loc_bit c) = 0) (Assert ''cached_loc already set'')
         (Inr (b\<lparr>m_cached_loc_bitvec := m_cached_loc_bitvec b OR loc_bit c\<rparr>)))"

definition clearCachedLoc :: "mem_component \<Rightarrow> block_info \<Rightarrow> block_info result" where
  "clearCachedLoc c b =
     check (c \<noteq> INVALID_MEM_COMPONENT) (Assert ''cached_loc'')
       (check ((m_cached_loc_bitvec b AND loc_bit c) \<noteq> 0) (Assert ''cached_loc not set'')
         (Inr (b\<lparr>m_cached_loc_bitvec := m_cached_loc_bitvec b AND NOT (loc_bit c)\<rparr>)))"

section \<open>Lemmas\<close>

lemma create_simps [simp]:
  "CacheBlockInfo_create PR_L1_CACHE = Inr (CacheBlockInfo_new PR_L1_CACHE (NOT 0) INVALID 0)"
  "CacheBlockInfo_create PR_L2_CACHE = Inr (CacheBlockInfo_new PR_L2_CACHE (NOT 0) INVALID 0)"
  "CacheBlockInfo_create SHARED_CACHE = Inr (CacheBlockInfo_new SHARED_CACHE (NOT 0) INVALID 0)"
  by (simp_all add: CacheBlockInfo_create_def)

lemma create_invalid: "CacheBlockInfo_create t = Inr b \<Longrightarrow> \<not> isValid b \<and> m_cstate b = INVALID \<and> m_eid b = 0"
  by (cases t) (auto simp: CacheBlockInfo_create_def CacheBlockInfo_new_def isValid_def)

lemma invalidate_fields [simp]:
  "m_tag (invalidate b) = NOT 0" "m_cstate (invalidate b) = INVALID" "m_eid (invalidate b) = 0"
  "m_kind (invalidate b) = m_kind b" "\<not> isValid (invalidate b)"
  by (simp_all add: invalidate_def Let_def isValid_def)

lemma clone_fields [simp]:
  "m_tag (clone dst src) = m_tag src" "m_cstate (clone dst src) = m_cstate src"
  "m_eid (clone dst src) = m_eid src" "m_options (clone dst src) = m_options src"
  "m_used (clone dst src) = m_used src" "m_owner (clone dst src) = m_owner src"
  "m_kind (clone dst src) = m_kind dst" "isValid (clone dst src) = isValid src"
  by (simp_all add: clone_def Let_def isValid_def)

lemma bit_and_push_bit_1: "k < LENGTH('a) \<Longrightarrow> ((x :: 'a::len word) AND push_bit k 1) \<noteq> 0 \<longleftrightarrow> bit x k"
  by (metis and_exp_eq_0_iff_not_bit push_bit_of_1)

lemma hasOption_bit: "hasOption opt b \<longleftrightarrow> bit (m_options b) (option_num opt)"
  unfolding hasOption_def using option_num_less [of opt] by (intro bit_and_push_bit_1) simp

lemma hasOption_setOption [simp]: "hasOption o1 (setOption o2 b) \<longleftrightarrow> o1 = o2 \<or> hasOption o1 b"
  using option_num_less [of o1] option_num_less [of o2]
  by (auto simp: hasOption_bit setOption_def bit_simps)

lemma hasOption_clearOption [simp]: "hasOption o1 (clearOption o2 b) \<longleftrightarrow> o1 \<noteq> o2 \<and> hasOption o1 b"
  using option_num_less [of o1] option_num_less [of o2]
  by (auto simp: hasOption_bit clearOption_def bit_simps)

lemma bit_range_mask:
  assumes "l < 64"
  shows "bit ((push_bit l (1 :: UInt64) - 1) AND NOT (push_bit f 1 - 1)) k \<longleftrightarrow> f \<le> k \<and> k < l"
proof -
  have "push_bit n (1 :: UInt64) - 1 = mask n" for n
    by (simp add: mask_eq_exp_minus_1 push_bit_of_1)
  then show ?thesis using assms by (auto simp: bit_simps)
qed

text \<open>
  Usage tracking of a 64-byte line: after touching bytes \<open>[offset, offset + size)\<close> exactly the
  8-byte elements that overlap the range are added to the mask, and the result tells whether one
  of them is new.
\<close>

lemma updateUsage_spec:
  assumes "0 < unat sz" and "unat offset + unat sz \<le> 64"
  shows "\<exists>fresh b'. updateUsage offset sz b = Inr (fresh, b') \<and>
    (\<forall>k < 8. bit (m_used b') k \<longleftrightarrow>
       bit (m_used b) k \<or> unat offset div 8 \<le> k \<and> k \<le> (unat offset + unat sz - 1) div 8) \<and>
    (fresh \<longleftrightarrow> m_used b' \<noteq> m_used b)"
proof -
  let ?lo = "unat offset div 8" and ?hi = "(unat offset + unat sz - 1) div 8"
  have sum: "unat (offset + sz - 1) = unat offset + unat sz - 1"
  proof -
    have "unat (offset + sz) = unat offset + unat sz"
      using assms(2) by (simp add: unat_word_ariths)
    moreover from this assms(1) have "offset + sz \<noteq> 0" by (metis add_gr_0 less_irrefl unat_0)
    ultimately show ?thesis by (simp add: unat_minus_one)
  qed
  have hi: "?hi < 8" and lo: "?lo \<le> ?hi" using assms by auto
  have first: "unat (ucast (drop_bit 3 offset) :: UInt64) = ?lo"
    by (subst unat_ucast_up) (simp_all only: unat_drop_bit_div, simp_all)
  have last: "unat (ucast (drop_bit 3 (offset + sz - 1)) :: UInt64) = ?hi"
    by (subst unat_ucast_up) (simp_all only: unat_drop_bit_div sum, simp_all)
  have last1: "unat (ucast (drop_bit 3 (offset + sz - 1)) + 1 :: UInt64) = Suc ?hi"
    using last hi by (simp add: unat_word_ariths)
  define um where "um = (ucast ((push_bit (Suc ?hi) (1 :: UInt64) - 1) AND NOT (push_bit ?lo 1 - 1)) :: UInt8)"
  have um: "bit um k \<longleftrightarrow> ?lo \<le> k \<and> k \<le> ?hi" if "k < 8" for k
    using that hi bit_range_mask [of "Suc ?hi" ?lo k]
    unfolding um_def bit_ucast_iff by (simp add: less_Suc_eq_le del: push_bit_of_1 push_bit_Suc)
  have res: "updateUsage offset sz b = Inr (updateUsage_mask um b)"
    using first last1 hi lo by (simp add: updateUsage_def Let_def um_def)
  have "(um AND NOT (m_used b)) \<noteq> 0 \<longleftrightarrow> m_used b OR um \<noteq> m_used b"
    by (auto simp: bit_eq_iff bit_simps)
  then show ?thesis
    using um by (auto simp: res updateUsage_mask_def bit_or_iff)
qed

text \<open>Round trip of the cached-location bits of a private second-level line.\<close>

lemma clear_setCachedLoc:
  assumes "setCachedLoc c b = Inr b'"
  shows "clearCachedLoc c b' = Inr b"
proof -
  let ?v = "m_cached_loc_bitvec b" and ?m = "loc_bit c"
  from assms have c: "c \<noteq> INVALID_MEM_COMPONENT" and v: "(?v AND ?m) = 0"
    and b': "b' = b\<lparr>m_cached_loc_bitvec := ?v OR ?m\<rparr>"
    by (auto simp: setCachedLoc_def result_simps)
  have m: "bit ?m k \<longleftrightarrow> k = mem_component_num c" for k
    using mem_component_num_less [of c] by (auto simp: loc_bit_def bit_simps)
  have nv: "\<not> bit ?v (mem_component_num c)"
    using v m bit_and_iff [of ?v ?m "mem_component_num c"] by simp
  have "bit ((?v OR ?m) AND ?m) (mem_component_num c)" by (simp add: bit_and_iff bit_or_iff m)
  then have ne: "((?v OR ?m) AND ?m) \<noteq> 0" by (metis bit_0_eq bot_apply bot_bool_def)
  have "((?v OR ?m) AND NOT ?m) = ?v"
    using m nv by (intro bit_eqI) (auto simp: bit_and_iff bit_or_iff bit_not_iff)
  with c ne b' show ?thesis by (simp add: clearCachedLoc_def)
qed

lemma getCachedLoc_single:
  assumes "m_cached_loc_bitvec b = 0" and "c \<in> {L1_ICACHE, L1_DCACHE}"
  shows "bindE (setCachedLoc c b) getCachedLoc = Inr c"
  using assms by (auto simp: setCachedLoc_def getCachedLoc_def loc_bit_def Let_def)

end
