(* ===== verification/Recency.thy ===== *)
theory Recency
  imports Cache_Block
begin

text \<open>
  What the replacement policies share: the statistics object \<open>CacheSetInfoLRU\<close>, the controller
  they may query (QBS), the victim filter \<open>isValidReplacement\<close>, and the age counters that
  \<open>CacheSetLRU\<close>, \<open>CacheSetMRU\<close> and \<open>CacheSetNMRU\<close> keep with the same loop. The counters are
  related to an abstract recency stack of ways.
\<close>

section \<open>Statistics, queries and the victim filter\<close>

record cache_set_info =
  si_associativity :: nat
  si_access :: "UInt64 list"
  si_attempts :: "UInt64 list option"

definition CacheSetInfoLRU_new :: "nat \<Rightarrow> UInt8 \<Rightarrow> cache_set_info" where
  "CacheSetInfoLRU_new associativity num_attempts =
     \<lparr>si_associativity = associativity, si_access = replicate associativity 0,
      si_attempts = (if 1 < num_attempts then Some (replicate (unat num_attempts) 0) else None)\<rparr>"

definition si_increment :: "UInt8 \<Rightarrow> cache_set_info \<Rightarrow> cache_set_info result" where
  "si_increment index info =
     check (unat index < si_associativity info) (Assert ''Index >= Associativity'')
       (check (unat index < length (si_access info)) (Undefined ''index out of range'')
         (Inr (info\<lparr>si_access := (si_access info)[unat index := si_access info ! unat index + 1]\<rparr>)))"

definition si_incrementAttempt :: "nat \<Rightarrow> cache_set_info \<Rightarrow> cache_set_info result" where
  "si_incrementAttempt attempt info =
     (case si_attempts info of
        Some as \<Rightarrow>
          check (attempt < length as) (Undefined ''index out of range'')
            (Inr (info\<lparr>si_attempts := Some (as[attempt := as ! attempt + 1])\<rparr>))
      | None \<Rightarrow> check (attempt = 0) (Assert ''No place to store attempt# histogram'') (Inr info))"

text \<open>
  \<open>::CacheCntlr\<close>, the interface the sets call back: whether a block is also held by a cache
  closer to the core. The calls of \<open>incrementQBSLookupCost\<close> are counted in the results.
\<close>

type_synonym cntlr = "block_info \<Rightarrow> bool"

definition isValidReplacement :: "block_info list \<Rightarrow> nat \<Rightarrow> bool" where
  "isValidReplacement blocks index \<longleftrightarrow> m_cstate (blocks ! index) \<noteq> SHARED_UPGRADING"

definition first_invalid :: "block_info list \<Rightarrow> nat option" where
  "first_invalid blocks = first_index (\<lambda>i. \<not> isValid (blocks ! i)) (length blocks)"

lemma first_invalid_Some:
  "first_invalid blocks = Some i \<Longrightarrow> i < length blocks \<and> \<not> isValid (blocks ! i) \<and> (\<forall>j < i. isValid (blocks ! j))"
  by (simp add: first_invalid_def first_index_Some)

lemma first_invalid_None: "first_invalid blocks = None \<longleftrightarrow> (\<forall>i < length blocks. isValid (blocks ! i))"
  by (simp add: first_invalid_def first_index_None)

section \<open>The age counters\<close>

definition age_init :: "nat \<Rightarrow> UInt8 list" where
  "age_init associativity = map of_nat [0..<associativity]"

definition moveToMRU :: "nat \<Rightarrow> UInt8 list \<Rightarrow> UInt8 list" where
  "moveToMRU accessed_index lru_bits =
     (foldl (\<lambda>bits i. if bits ! i < bits ! accessed_index then bits[i := bits ! i + 1] else bits)
        lru_bits [0..<length lru_bits])[accessed_index := 0]"

text \<open>The counters of a set of \<open>n\<close> ways are a permutation of \<open>0, \<dots>, n - 1\<close>.\<close>

definition age_inv :: "nat \<Rightarrow> UInt8 list \<Rightarrow> bool" where
  "age_inv n bits \<longleftrightarrow> length bits = n \<and> distinct bits \<and> (\<forall>b \<in> set bits. unat b < n)"

lemma moveToMRU_loop:
  fixes bits :: "UInt8 list"
  assumes "a < length bits" and "k \<le> length bits"
  shows "foldl (\<lambda>bs i. if bs ! i < bs ! a then bs[i := bs ! i + 1] else bs) bits [0..<k] =
    map (\<lambda>i. if i < k \<and> bits ! i < bits ! a then bits ! i + 1 else bits ! i) [0..<length bits]"
  using assms(2)
proof (induction k)
  case 0
  then show ?case by (simp add: map_nth)
next
  case (Suc k)
  let ?L = "map (\<lambda>i. if i < k \<and> bits ! i < bits ! a then bits ! i + 1 else bits ! i) [0..<length bits]"
  have "?L ! a = bits ! a" and "?L ! k = bits ! k" using assms(1) Suc.prems by simp_all
  with Suc show ?case
    by (auto intro!: nth_equalityI simp: nth_list_update less_Suc_eq)
qed

lemma moveToMRU_length [simp]: "a < length bits \<Longrightarrow> length (moveToMRU a bits) = length bits"
  by (simp add: moveToMRU_def moveToMRU_loop)

lemma moveToMRU_nth:
  assumes "a < length bits" and "i < length bits"
  shows "moveToMRU a bits ! i =
    (if i = a then 0 else if bits ! i < bits ! a then bits ! i + 1 else bits ! i)"
  using assms by (simp add: moveToMRU_def moveToMRU_loop nth_list_update)

lemma unat_moveToMRU_nth:
  assumes "a < length bits" and "i < length bits"
  shows "unat (moveToMRU a bits ! i) =
    (if i = a then 0 else if bits ! i < bits ! a then Suc (unat (bits ! i)) else unat (bits ! i))"
  using assms by (simp add: moveToMRU_nth unat_add_1_less)

lemma age_inv_init: "n \<le> 256 \<Longrightarrow> age_inv n (age_init n)"
  by (auto simp: age_inv_def age_init_def distinct_map inj_on_def unat_of_nat_le dest!: arg_cong [of _ _ unat])

lemma age_bump_inj:
  fixes x y p :: nat
  assumes "x \<noteq> p"
  shows "y \<noteq> p \<Longrightarrow> x \<noteq> y \<Longrightarrow> (if x < p then Suc x else x) \<noteq> (if y < p then Suc y else y)"
    and "(if x < p then Suc x else x) \<noteq> 0"
  using assms by auto

lemma age_inv_moveToMRU:
  assumes "age_inv n bits" and "a < n"
  shows "age_inv n (moveToMRU a bits)"
proof -
  from assms have l: "length bits = n" and d: "distinct bits" and b: "\<And>i. i < n \<Longrightarrow> unat (bits ! i) < n"
    by (auto simp: age_inv_def)
  let ?m = "\<lambda>i. unat (moveToMRU a bits ! i)"
  have m: "?m i = (if i = a then 0 else if unat (bits ! i) < unat (bits ! a) then Suc (unat (bits ! i)) else unat (bits ! i))"
    if "i < n" for i using that assms(2) l by (simp add: unat_moveToMRU_nth word_less_nat_alt)
  have inj: "unat (bits ! i) \<noteq> unat (bits ! j)" if "i < n" "j < n" "i \<noteq> j" for i j
    using that d l by (simp add: nth_unat_eq_iff)
  have less: "?m i < n" if "i < n" for i
    using m [OF that] b [OF that] b [OF assms(2)] by auto
  have ne: "?m i \<noteq> ?m j" if "i < n" "j < n" "i \<noteq> j" for i j
  proof (cases "i = a \<or> j = a")
    case True
    with that age_bump_inj(2) inj assms(2) show ?thesis
      unfolding m [OF that(1)] m [OF that(2)] by metis
  next
    case False
    then have "unat (bits ! i) \<noteq> unat (bits ! a)" "unat (bits ! j) \<noteq> unat (bits ! a)"
      using inj that assms(2) by simp_all
    from age_bump_inj(1) [OF this inj [OF that]] False show ?thesis
      unfolding m [OF that(1)] m [OF that(2)] by simp
  qed
  have len: "length (moveToMRU a bits) = n" using l assms(2) by simp
  have "distinct (moveToMRU a bits)"
    unfolding distinct_conv_nth len using ne by metis
  moreover have "\<forall>b \<in> set (moveToMRU a bits). unat b < n"
    using less len by (metis in_set_conv_nth)
  ultimately show ?thesis using len by (simp add: age_inv_def)
qed

section \<open>The recency stack\<close>

text \<open>\<open>recency_stack bits\<close> lists the ways from most to least recently used.\<close>

definition recency_stack :: "UInt8 list \<Rightarrow> nat list" where
  "recency_stack bits = sort_key (\<lambda>i. unat (bits ! i)) [0..<length bits]"

definition stack_of :: "UInt8 list \<Rightarrow> nat list \<Rightarrow> bool" where
  "stack_of bits xs \<longleftrightarrow>
     length xs = length bits \<and> (\<forall>k < length xs. xs ! k < length bits \<and> unat (bits ! (xs ! k)) = k)"

lemma stack_of_unique:
  assumes "stack_of bits xs" "stack_of bits ys" "distinct bits"
  shows "xs = ys"
proof (rule nth_equalityI)
  show "length xs = length ys" using assms by (simp add: stack_of_def)
  fix k assume "k < length xs"
  with assms have "unat (bits ! (xs ! k)) = unat (bits ! (ys ! k))" "xs ! k < length bits" "ys ! k < length bits"
    by (auto simp: stack_of_def)
  with assms(3) show "xs ! k = ys ! k" by (simp add: nth_unat_eq_iff)
qed

lemma stack_of_recency_stack:
  assumes "age_inv n bits"
  shows "stack_of bits (recency_stack bits)"
proof -
  let ?xs = "recency_stack bits" and ?f = "\<lambda>i. unat (bits ! i)"
  from assms have l: "length bits = n" and d: "distinct bits" and b: "\<And>i. i < n \<Longrightarrow> ?f i < n"
    by (auto simp: age_inv_def)
  have set: "set ?xs = {0..<n}" and len: "length ?xs = n" by (simp_all add: recency_stack_def l)
  have "inj_on ?f {0..<n}" using d l by (auto simp: inj_on_def nth_unat_eq_iff)
  moreover have "distinct ?xs" by (simp add: recency_stack_def)
  ultimately have dist: "distinct (map ?f ?xs)" by (simp add: distinct_map set)
  have "?f ` {0..<n} = {0..<n}"
    using b \<open>inj_on ?f {0..<n}\<close> by (intro endo_inj_surj) auto
  then have "set (map ?f ?xs) = set [0..<n]" by (simp add: set)
  moreover have "sorted (map ?f ?xs)" by (simp add: recency_stack_def)
  ultimately have "map ?f ?xs = [0..<n]"
    using dist by (intro sorted_distinct_set_unique) simp_all
  then have "?f (?xs ! k) = k" if "k < n" for k
    using that len by (metis add_0 nth_map nth_upt)
  moreover have "?xs ! k < n" if "k < n" for k
    using that len set by (metis atLeastLessThan_iff nth_mem)
  ultimately show ?thesis by (simp add: stack_of_def len l)
qed

lemma stack_of_distinct: "stack_of bits xs \<Longrightarrow> distinct xs"
  by (metis distinct_conv_nth stack_of_def)

lemma stack_of_position:
  assumes "stack_of bits xs" "distinct bits" "a < length bits" "unat (bits ! a) < length bits"
  shows "xs ! unat (bits ! a) = a"
proof -
  have "xs ! unat (bits ! a) < length bits" and "unat (bits ! (xs ! unat (bits ! a))) = unat (bits ! a)"
    using assms by (simp_all add: stack_of_def)
  with nth_unat_eq_iff [OF assms(2) _ assms(3)] show ?thesis by blast
qed

text \<open>The loop on the counters is move-to-front on the stack.\<close>

lemma remove1_nth_position:
  assumes "distinct xs" and "p < length xs"
  shows "remove1 (xs ! p) xs = take p xs @ drop (Suc p) xs"
proof -
  have split: "xs = take p xs @ xs ! p # drop (Suc p) xs"
    using assms(2) by (simp add: id_take_nth_drop)
  have "xs ! p \<notin> set (take p xs)"
    using assms by (auto simp: in_set_conv_nth nth_eq_iff_index_eq)
  then show ?thesis by (subst split) (simp add: remove1_append)
qed

lemma stack_of_moveToMRU:
  assumes "stack_of bits xs" and "age_inv n bits" and "a < n"
  shows "stack_of (moveToMRU a bits) (a # remove1 a xs)"
proof -
  from assms(2) have l: "length bits = n" and d: "distinct bits" and pn: "unat (bits ! a) < n"
    using assms(3) by (auto simp: age_inv_def)
  let ?p = "unat (bits ! a)"
  have lx: "length xs = n" using assms(1) l by (simp add: stack_of_def)
  have xp: "xs ! ?p = a" using stack_of_position [OF assms(1) d] assms(3) l pn by simp
  have rem: "remove1 a xs = take ?p xs @ drop (Suc ?p) xs"
    using remove1_nth_position [OF stack_of_distinct [OF assms(1)], of ?p] pn lx xp by simp
  have old: "xs ! k < n" "unat (bits ! (xs ! k)) = k" if "k < n" for k
    using assms(1) that lx l by (auto simp: stack_of_def)
  have ne: "xs ! k \<noteq> a" if "k < n" "k \<noteq> ?p" for k using old(2) [OF that(1)] that(2) by auto
  have "unat (moveToMRU a bits ! ((a # remove1 a xs) ! k)) = k \<and> (a # remove1 a xs) ! k < n" if "k < n" for k
  proof (cases k)
    case 0
    then show ?thesis using assms(3) l by (simp add: moveToMRU_nth)
  next
    case (Suc j)
    then have j: "j < n" using that by simp
    show ?thesis
    proof (cases "j < ?p")
      case True
      then have e: "(a # remove1 a xs) ! k = xs ! j" using j by (simp add: Suc rem nth_append lx)
      show ?thesis unfolding e using old [OF j] ne [OF j] True Suc assms(3) l
        by (simp add: unat_moveToMRU_nth word_less_nat_alt)
    next
      case False
      then have e: "(a # remove1 a xs) ! k = xs ! k"
        using that Suc lx pn by (simp add: rem nth_append)
      show ?thesis unfolding e using old [OF that] ne [OF that] False Suc assms(3) l
        by (simp add: unat_moveToMRU_nth word_less_nat_alt)
    qed
  qed
  moreover have "length (a # remove1 a xs) = n"
    using pn lx by (simp add: rem)
  ultimately show ?thesis using l assms(3) by (simp add: stack_of_def)
qed

lemma recency_stack_moveToMRU:
  assumes "age_inv n bits" and "a < n"
  shows "recency_stack (moveToMRU a bits) = a # remove1 a (recency_stack bits)"
proof -
  have inv: "age_inv n (moveToMRU a bits)" using assms by (rule age_inv_moveToMRU)
  then have "distinct (moveToMRU a bits)" by (simp add: age_inv_def)
  with stack_of_recency_stack [OF inv]
    stack_of_moveToMRU [OF stack_of_recency_stack [OF assms(1)] assms]
  show ?thesis by (metis stack_of_unique)
qed

end
