(* ===== verification/Policy_Recency.thy ===== *)
theory Policy_Recency
  imports Recency
begin

text \<open>
  The replacement policies that keep age counters: \<open>cache/cache_set_lru.cc\<close> (with Query-Based
  Selection), \<open>cache/cache_set_mru.cc\<close> and \<open>cache/cache_set_nmru.cc\<close>. A policy sees the array of
  block infos of its set (whose length is \<open>m_associativity\<close>) and returns the chosen way, its new
  state and, for LRU, the statistics and the number of QBS look-ups it paid for.
\<close>

section \<open>LRU\<close>

record lru =
  lru_num_attempts :: UInt8
  lru_bits :: "UInt8 list"

definition lru_new :: "nat \<Rightarrow> UInt8 \<Rightarrow> lru" where
  "lru_new associativity num_attempts =
     \<lparr>lru_num_attempts = num_attempts, lru_bits = age_init associativity\<rparr>"

text \<open>The scan for the largest counter among the admissible ways; way 0 if there is none.\<close>

definition lru_scan :: "UInt8 list \<Rightarrow> block_info list \<Rightarrow> nat \<Rightarrow> nat \<times> UInt8" where
  "lru_scan bits blocks n =
     foldl (\<lambda>(index, max_bits) i.
        if bits ! i > max_bits \<and> isValidReplacement blocks i then (i, bits ! i) else (index, max_bits))
       (0, 0) [0..<n]"

text \<open>The attempts loop; \<open>remaining\<close> is \<open>m_num_attempts - attempt\<close>.\<close>

fun lru_attempts ::
  "cntlr option \<Rightarrow> block_info list \<Rightarrow> nat \<Rightarrow> nat \<Rightarrow> UInt8 list \<Rightarrow> cache_set_info \<Rightarrow> nat
    \<Rightarrow> (nat \<times> UInt8 list \<times> cache_set_info \<times> nat) result" where
  "lru_attempts cn blocks num 0 bits info cost = Inl (Print_Error ''Should not reach here'')"
| "lru_attempts cn blocks num (Suc r) bits info cost =
     (let attempt = num - Suc r;
          index = fst (lru_scan bits blocks (length blocks));
          evict = bindE (si_incrementAttempt attempt info)
                    (\<lambda>info'. Inr (index, moveToMRU index bits, info', cost))
      in check (index < length blocks) (Assert ''Error Finding LRU bits'')
          (if 0 < r
           then (case cn of
                   None \<Rightarrow> Inl (Assert ''CacheCntlr == NULL'')
                 | Some in_lower \<Rightarrow>
                     if in_lower (blocks ! index)
                     then lru_attempts cn blocks num r (moveToMRU index bits) info (Suc cost)
                     else evict)
           else evict))"

definition lru_getReplacementIndex ::
  "cntlr option \<Rightarrow> block_info list \<Rightarrow> lru \<times> cache_set_info \<Rightarrow> (nat \<times> (lru \<times> cache_set_info) \<times> nat) result" where
  "lru_getReplacementIndex cn blocks st =
     (let (s, info) = st
      in case first_invalid blocks of
           Some i \<Rightarrow> Inr (i, (s\<lparr>lru_bits := moveToMRU i (lru_bits s)\<rparr>, info), 0)
         | None \<Rightarrow>
             mapE (\<lambda>(i, bits, info', cost). (i, (s\<lparr>lru_bits := bits\<rparr>, info'), cost))
               (lru_attempts cn blocks (unat (lru_num_attempts s)) (unat (lru_num_attempts s))
                  (lru_bits s) info 0))"

definition lru_updateReplacementIndex ::
  "nat \<Rightarrow> lru \<times> cache_set_info \<Rightarrow> (lru \<times> cache_set_info) result" where
  "lru_updateReplacementIndex accessed_index st =
     (let (s, info) = st
      in bindE (at (lru_bits s) accessed_index) (\<lambda>b.
         bindE (si_increment b info) (\<lambda>info'.
           Inr (s\<lparr>lru_bits := moveToMRU accessed_index (lru_bits s)\<rparr>, info'))))"

section \<open>MRU\<close>

fun mru_search :: "UInt8 list \<Rightarrow> block_info list \<Rightarrow> nat \<Rightarrow> nat \<Rightarrow> nat option" where
  "mru_search bits blocks target 0 = None"
| "mru_search bits blocks target (Suc r) =
     (case first_index (\<lambda>i. unat (bits ! i) = target \<and> isValidReplacement blocks i) (length blocks) of
        Some i \<Rightarrow> Some i
      | None \<Rightarrow> mru_search bits blocks (Suc target) r)"

definition mru_getReplacementIndex :: "block_info list \<Rightarrow> UInt8 list \<Rightarrow> (nat \<times> UInt8 list) result" where
  "mru_getReplacementIndex blocks bits =
     (case first_invalid blocks of
        Some i \<Rightarrow> Inr (i, moveToMRU i bits)
      | None \<Rightarrow>
          (case mru_search bits blocks 0 (length blocks) of
             Some i \<Rightarrow> Inr (i, moveToMRU i bits)
           | None \<Rightarrow> Inl (Print_Error ''Error Finding LRU bits'')))"

section \<open>NMRU\<close>

record nmru =
  nmru_bits :: "UInt8 list"
  nmru_pointer :: UInt8

definition nmru_new :: "nat \<Rightarrow> nmru" where
  "nmru_new associativity = \<lparr>nmru_bits = age_init associativity, nmru_pointer = 0\<rparr>"

text \<open>\<open>(m_replacement_pointer + 1) % m_associativity\<close>, stored in 8 bits.\<close>

definition next_pointer :: "nat \<Rightarrow> UInt8 \<Rightarrow> UInt8" where
  "next_pointer n ptr = of_nat ((unat ptr + 1) mod n)"

text \<open>
  The victim loops of NMRU and NRU: starting at the replacement pointer, at most \<open>k\<close> ways are
  tried in ring order; the pointer moves past every way that was tried.
\<close>

fun ring_scan :: "(nat \<Rightarrow> bool) \<Rightarrow> nat \<Rightarrow> UInt8 \<Rightarrow> nat \<Rightarrow> (nat \<times> UInt8) option" where
  "ring_scan p n ptr 0 = None"
| "ring_scan p n ptr (Suc k) =
     (if p (unat ptr) then Some (unat ptr, next_pointer n ptr) else ring_scan p n (next_pointer n ptr) k)"

definition nmru_getReplacementIndex :: "block_info list \<Rightarrow> nmru \<Rightarrow> (nat \<times> nmru) result" where
  "nmru_getReplacementIndex blocks s =
     (case first_invalid blocks of
        Some i \<Rightarrow> Inr (i, s\<lparr>nmru_bits := moveToMRU i (nmru_bits s)\<rparr>)
      | None \<Rightarrow>
          (case ring_scan (\<lambda>i. nmru_bits s ! i \<noteq> 0 \<and> isValidReplacement blocks i) (length blocks)
                  (nmru_pointer s) (length blocks) of
             Some (i, ptr) \<Rightarrow> Inr (i, s\<lparr>nmru_bits := moveToMRU i (nmru_bits s), nmru_pointer := ptr\<rparr>)
           | None \<Rightarrow> Inl (Print_Error ''Error Finding LRU bits'')))"

text \<open>MRU and NMRU update their counters with the loop of LRU, without statistics.\<close>

definition age_updateReplacementIndex :: "nat \<Rightarrow> UInt8 list \<Rightarrow> UInt8 list result" where
  "age_updateReplacementIndex accessed_index bits =
     check (accessed_index < length bits) (Undefined ''index out of range'')
       (Inr (moveToMRU accessed_index bits))"

definition nmru_updateReplacementIndex :: "nat \<Rightarrow> nmru \<Rightarrow> nmru result" where
  "nmru_updateReplacementIndex accessed_index s =
     mapE (\<lambda>bits. s\<lparr>nmru_bits := bits\<rparr>) (age_updateReplacementIndex accessed_index (nmru_bits s))"

section \<open>The LRU scan\<close>

lemma lru_scan_spec:
  "case lru_scan bits blocks k of (index, mb) \<Rightarrow>
     (index = 0 \<and> mb = 0 \<and> (\<forall>i < k. isValidReplacement blocks i \<longrightarrow> bits ! i = 0)) \<or>
     (index < k \<and> mb = bits ! index \<and> 0 < mb \<and> isValidReplacement blocks index \<and>
      (\<forall>i < k. isValidReplacement blocks i \<longrightarrow> bits ! i \<le> mb))"
proof (induction k)
  case 0
  then show ?case by (simp add: lru_scan_def)
next
  case (Suc k)
  obtain index mb where s: "lru_scan bits blocks k = (index, mb)" by (cases "lru_scan bits blocks k")
  have step: "lru_scan bits blocks (Suc k) =
    (if bits ! k > mb \<and> isValidReplacement blocks k then (k, bits ! k) else (index, mb))"
    using s by (simp add: lru_scan_def)
  show ?case
  proof (cases "bits ! k > mb \<and> isValidReplacement blocks k")
    case True
    with Suc s have "\<forall>i < Suc k. isValidReplacement blocks i \<longrightarrow> bits ! i \<le> bits ! k"
      by (auto simp: less_Suc_eq intro: order_trans less_imp_le)
    moreover have "0 < bits ! k" using True by (meson le_less_trans word_zero_le)
    ultimately show ?thesis using True step by simp
  next
    case False
    then have "isValidReplacement blocks k \<Longrightarrow> bits ! k \<le> mb" by auto
    with False Suc s step show ?thesis by (auto simp: less_Suc_eq)
  qed
qed

lemma lru_scan_index_less: "0 < k \<Longrightarrow> fst (lru_scan bits blocks k) < k"
  using lru_scan_spec [where bits = bits and blocks = blocks and k = k] by (auto split: prod.splits)

text \<open>
  The victim of LRU: when some admissible way is not the most recently used one, the scan returns
  the admissible way deepest in the recency stack; otherwise it falls back to way 0, admissible or
  not.
\<close>

definition lru_victim :: "UInt8 list \<Rightarrow> block_info list \<Rightarrow> nat" where
  "lru_victim bits blocks =
     (let ys = filter (isValidReplacement blocks) (tl (recency_stack bits))
      in if ys = [] then 0 else last ys)"

lemma stack_order:
  assumes "stack_of bits xs" "i < length xs" "j < length xs"
  shows "bits ! (xs ! i) < bits ! (xs ! j) \<longleftrightarrow> i < j"
  using assms by (simp add: stack_of_def word_less_nat_alt)

lemma lru_scan_victim:
  assumes "age_inv n bits" "length blocks = n" "0 < n"
  shows "fst (lru_scan bits blocks n) = lru_victim bits blocks"
proof -
  define xs where "xs = recency_stack bits"
  let ?ok = "isValidReplacement blocks"
  have so: "stack_of bits xs" unfolding xs_def by (rule stack_of_recency_stack [OF assms(1)])
  have l: "length xs = n" using so assms(1) by (simp add: stack_of_def age_inv_def)
  have age: "unat (bits ! (xs ! k)) = k" "xs ! k < n" if "k < n" for k
    using so that l assms(1) by (auto simp: stack_of_def age_inv_def)
  have pos: "xs ! unat (bits ! i) = i" "unat (bits ! i) < n" if "i < n" for i
    using stack_of_position [OF so] assms(1) that by (auto simp: age_inv_def)
  obtain index mb where sc: "lru_scan bits blocks n = (index, mb)" by (cases "lru_scan bits blocks n")
  from lru_scan_spec [where bits = bits and blocks = blocks and k = n] sc consider
    (none) "index = 0" "\<forall>i < n. ?ok i \<longrightarrow> bits ! i = 0"
  | (some) "index < n" "0 < bits ! index" "?ok index" "\<forall>i < n. ?ok i \<longrightarrow> bits ! i \<le> bits ! index"
    by auto
  then show ?thesis
  proof cases
    case none
    have "\<not> ?ok (tl xs ! k)" if "k < length (tl xs)" for k
    proof
      assume ok: "?ok (tl xs ! k)"
      have k: "Suc k < n" and e: "tl xs ! k = xs ! Suc k" using that l by (simp_all add: nth_tl)
      from none(2) age(2) [OF k] ok e have "bits ! (xs ! Suc k) = 0" by simp
      with age(1) [OF k] show False by simp
    qed
    then have "filter ?ok (tl xs) = []" by (auto simp: filter_empty_conv in_set_conv_nth)
    with none(1) sc show ?thesis by (simp add: lru_victim_def xs_def)
  next
    case some
    let ?p = "unat (bits ! index)"
    have p: "?p < n" "0 < ?p" "xs ! ?p = index"
      using pos [OF some(1)] some(2) by (auto simp: unat_gt_0 word_gt_0)
    have split: "tl xs = take (?p - 1) (tl xs) @ index # drop ?p (tl xs)"
    proof -
      have "?p - 1 < length (tl xs)" using p l by simp
      from id_take_nth_drop [OF this] show ?thesis using p l by (simp add: nth_tl)
    qed
    have "\<not> ?ok y" if y: "y \<in> set (drop ?p (tl xs))" for y
    proof
      assume ok: "?ok y"
      from y have "y \<in> set (drop (Suc ?p) xs)" by (simp add: drop_Suc)
      then obtain k where "k < n - Suc ?p" "y = xs ! (Suc ?p + k)"
        using l by (auto simp: in_set_conv_nth)
      then have k: "Suc ?p + k < n" "y = xs ! (Suc ?p + k)" by simp_all
      with some(4) ok age(2) have "bits ! (xs ! (Suc ?p + k)) \<le> bits ! index" by simp
      then have "Suc ?p + k \<le> ?p" using age(1) [OF k(1)] by (simp add: word_le_nat_alt)
      then show False by simp
    qed
    then have none: "filter ?ok (drop ?p (tl xs)) = []" by (auto simp: filter_empty_conv)
    have "filter ?ok (tl xs) = filter ?ok (take (?p - 1) (tl xs)) @ [index]"
      by (subst split) (simp add: some(3) none)
    with sc show ?thesis by (simp add: lru_victim_def xs_def)
  qed
qed

section \<open>Invariants and totality\<close>

definition info_inv :: "nat \<Rightarrow> nat \<Rightarrow> cache_set_info \<Rightarrow> bool" where
  "info_inv n num info \<longleftrightarrow>
     si_associativity info = n \<and> length (si_access info) = n \<and>
     (if 1 < num then \<exists>as. si_attempts info = Some as \<and> length as = num else si_attempts info = None)"

lemma info_inv_new: "info_inv n (unat num) (CacheSetInfoLRU_new n num)"
  by (simp add: info_inv_def CacheSetInfoLRU_new_def word_less_nat_alt)

lemma si_incrementAttempt_total:
  assumes "info_inv n num info" "attempt < num"
  shows "\<exists>info'. si_incrementAttempt attempt info = Inr info' \<and> info_inv n num info'"
  using assms by (auto simp: info_inv_def si_incrementAttempt_def split: if_splits)

lemma si_increment_total:
  assumes "info_inv n num info" "unat b < n"
  shows "\<exists>info'. si_increment b info = Inr info' \<and> info_inv n num info'"
  using assms by (auto simp: info_inv_def si_increment_def split: if_splits)

definition lru_inv :: "nat \<Rightarrow> lru \<times> cache_set_info \<Rightarrow> bool" where
  "lru_inv n st \<longleftrightarrow>
     age_inv n (lru_bits (fst st)) \<and> 0 < lru_num_attempts (fst st) \<and>
     info_inv n (unat (lru_num_attempts (fst st))) (snd st)"

lemma lru_inv_new: "n \<le> 256 \<Longrightarrow> 0 < num \<Longrightarrow> lru_inv n (lru_new n num, CacheSetInfoLRU_new n num)"
  by (simp add: lru_inv_def lru_new_def age_inv_init info_inv_new)

lemma lru_attempts_total:
  assumes "length blocks = n" "0 < n" "0 < r" "r \<le> num" "age_inv n bits" "info_inv n num info"
    and "1 < r \<Longrightarrow> cn \<noteq> None"
  shows "\<exists>i bits' info' cost'. lru_attempts cn blocks num r bits info cost = Inr (i, bits', info', cost') \<and>
    i < n \<and> age_inv n bits' \<and> info_inv n num info'"
  using assms(3-)
proof (induction r arbitrary: bits info cost)
  case 0
  then show ?case by simp
next
  case (Suc r)
  let ?i = "fst (lru_scan bits blocks n)"
  have i: "?i < n" using lru_scan_index_less [OF assms(2)] .
  have inv': "age_inv n (moveToMRU ?i bits)" using Suc.prems i by (intro age_inv_moveToMRU)
  obtain info1 where info1: "si_incrementAttempt (num - Suc r) info = Inr info1" "info_inv n num info1"
    using si_incrementAttempt_total [OF Suc.prems(4), of "num - Suc r"] Suc.prems by auto
  show ?case
  proof (cases "0 < r \<and> the cn (blocks ! ?i)")
    case True
    with Suc.prems have "cn \<noteq> None" by simp
    then obtain f where "cn = Some f" by blast
    with True i assms(1) Suc.IH [of "moveToMRU ?i bits" info "Suc cost"] Suc.prems inv' show ?thesis
      by simp
  next
    case False
    with Suc.prems i inv' info1 assms(1) show ?thesis
      by (auto simp: Let_def split: option.splits)
  qed
qed

lemma lru_get_total:
  assumes "lru_inv (length blocks) st" "blocks \<noteq> []"
    and "1 < lru_num_attempts (fst st) \<Longrightarrow> cn \<noteq> None"
  shows "\<exists>i st' cost. lru_getReplacementIndex cn blocks st = Inr (i, st', cost) \<and>
    i < length blocks \<and> lru_inv (length blocks) st'"
proof -
  obtain s info where st: "st = (s, info)" by (cases st)
  let ?num = "unat (lru_num_attempts s)" and ?n = "length blocks"
  from assms(1) have inv: "age_inv ?n (lru_bits s)" "0 < ?num" "info_inv ?n ?num info"
    by (auto simp: lru_inv_def st unat_gt_0 word_gt_0)
  show ?thesis
  proof (cases "first_invalid blocks")
    case None
    have "1 < ?num \<Longrightarrow> cn \<noteq> None" using assms(3) by (simp add: st word_less_nat_alt)
    with lru_attempts_total [of blocks ?n ?num ?num "lru_bits s" info cn 0] inv assms(2)
    obtain i bits' info' cost' where
      "lru_attempts cn blocks ?num ?num (lru_bits s) info 0 = Inr (i, bits', info', cost')"
      "i < ?n" "age_inv ?n bits'" "info_inv ?n ?num info'" by auto
    with None assms(1) show ?thesis
      by (simp add: lru_getReplacementIndex_def st lru_inv_def)
  next
    case (Some i)
    with first_invalid_Some [OF Some] inv assms(1) show ?thesis
      by (simp add: lru_getReplacementIndex_def st lru_inv_def age_inv_moveToMRU)
  qed
qed

lemma lru_update_total:
  assumes "lru_inv n st" "i < n"
  shows "\<exists>st'. lru_updateReplacementIndex i st = Inr st' \<and> lru_inv n st'"
proof -
  obtain s info where st: "st = (s, info)" by (cases st)
  from assms have inv: "age_inv n (lru_bits s)" "info_inv n (unat (lru_num_attempts s)) info" "i < length (lru_bits s)"
    by (auto simp: lru_inv_def st age_inv_def)
  then have "unat (lru_bits s ! i) < n" by (auto simp: age_inv_def)
  from si_increment_total [OF inv(2) this] inv assms show ?thesis
    by (auto simp: lru_updateReplacementIndex_def st lru_inv_def age_inv_moveToMRU)
qed

text \<open>
  Without QBS the victim of a full set is the one of \<open>lru_victim\<close>, and the ways are reordered by
  move-to-front.
\<close>

lemma lru_get_full:
  assumes "lru_inv (length blocks) (s, info)" "blocks \<noteq> []" "lru_num_attempts s = 1"
    and "\<forall>b \<in> set blocks. isValid b"
  shows "lru_getReplacementIndex cn blocks (s, info) =
    Inr (lru_victim (lru_bits s) blocks,
         (s\<lparr>lru_bits := moveToMRU (lru_victim (lru_bits s) blocks) (lru_bits s)\<rparr>, info), 0)"
proof -
  let ?n = "length blocks"
  have n: "0 < ?n" using assms(2) by simp
  have inv: "age_inv ?n (lru_bits s)" "si_attempts info = None"
    using assms(1,3) by (auto simp: lru_inv_def info_inv_def)
  have full: "first_invalid blocks = None" using assms(4) by (simp add: first_invalid_None)
  have "fst (lru_scan (lru_bits s) blocks ?n) = lru_victim (lru_bits s) blocks"
    by (rule lru_scan_victim [OF inv(1) refl n])
  moreover have "fst (lru_scan (lru_bits s) blocks ?n) < ?n" by (rule lru_scan_index_less [OF n])
  ultimately show ?thesis
    using full inv(2) assms(3)
    by (simp add: lru_getReplacementIndex_def Let_def si_incrementAttempt_def)
qed

section \<open>Runs of accesses\<close>

text \<open>\<open>keep_first\<close> keeps the first occurrence of every element.\<close>

fun keep_first :: "'a list \<Rightarrow> 'a list" where
  "keep_first [] = []"
| "keep_first (x # xs) = x # removeAll x (keep_first xs)"

lemma set_keep_first [simp]: "set (keep_first xs) = set xs"
  by (induction xs) auto

lemma distinct_keep_first [simp]: "distinct (keep_first xs)"
  by (induction xs) (auto simp: distinct_removeAll)

lemma keep_first_distinct: "distinct xs \<Longrightarrow> keep_first xs = xs"
  by (induction xs) auto

definition touch_all :: "nat list \<Rightarrow> UInt8 list \<Rightarrow> UInt8 list" where
  "touch_all ws bits = foldl (\<lambda>b w. moveToMRU w b) bits ws"

lemma touch_all_stack:
  assumes "age_inv n bits" "set ws \<subseteq> {0..<n}"
  shows "age_inv n (touch_all ws bits) \<and>
    recency_stack (touch_all ws bits) = keep_first (rev ws @ recency_stack bits)"
  using assms(2)
proof (induction ws rule: rev_induct)
  case Nil
  have "distinct (recency_stack bits)" by (simp add: recency_stack_def)
  with assms show ?case by (simp add: touch_all_def keep_first_distinct)
next
  case (snoc w ws)
  then have "age_inv n (touch_all ws bits)" "w < n"
    and st: "recency_stack (touch_all ws bits) = keep_first (rev ws @ recency_stack bits)" by auto
  then show ?case
    by (simp add: touch_all_def age_inv_moveToMRU recency_stack_moveToMRU distinct_remove1_removeAll)
qed

lemma keep_first_snoc:
  "keep_first (xs @ [x]) = (if x \<in> set xs then keep_first xs else keep_first xs @ [x])"
  by (induction xs) auto

lemma keep_first_last:
  assumes "xs \<noteq> []"
  shows "\<exists>ys zs. xs = ys @ last (keep_first xs) # zs \<and> set xs - {last (keep_first xs)} \<subseteq> set ys"
  using assms
proof (induction xs rule: rev_induct)
  case (snoc x xs)
  show ?case
  proof (cases "x \<in> set xs")
    case True
    with snoc.IH obtain ys zs where "xs = ys @ last (keep_first xs) # zs" "set xs - {last (keep_first xs)} \<subseteq> set ys"
      by (metis empty_iff list.set(1))
    with True show ?thesis
      by (intro exI [of _ ys] exI [of _ "zs @ [x]"]) (auto simp: keep_first_snoc)
  next
    case False
    then show ?thesis by (intro exI [of _ xs] exI [of _ "[]"]) (simp add: keep_first_snoc)
  qed
qed simp

lemma lru_victim_last:
  assumes "age_inv n bits" "0 < n" "length blocks = n" "\<forall>b \<in> set blocks. m_cstate b \<noteq> SHARED_UPGRADING"
  shows "lru_victim bits blocks = last (recency_stack bits)"
proof -
  let ?xs = "recency_stack bits"
  have l: "length ?xs = n" "set ?xs = {0..<n}"
    using assms(1) by (simp_all add: recency_stack_def age_inv_def)
  then have "set (tl ?xs) \<subseteq> {0..<n}" by (metis list.set_sel(2) subsetI tl_Nil)
  then have all: "filter (isValidReplacement blocks) (tl ?xs) = tl ?xs"
    using assms(3,4) by (auto simp: filter_id_conv isValidReplacement_def)
  show ?thesis
  proof (cases "tl ?xs = []")
    case True
    then have one: "?xs = [hd ?xs]" using l(1) assms(2) by (cases ?xs) auto
    then have "length ?xs = 1" by (metis length_Cons list.size(3) One_nat_def)
    with l(1) have "n = 1" by simp
    have "set ?xs = {hd ?xs}" by (subst one) simp
    with l(2) \<open>n = 1\<close> have "hd ?xs = 0" by auto
    with one have "last ?xs = 0" by (metis last.simps)
    then show ?thesis using True by (simp add: lru_victim_def)
  next
    case False
    then show ?thesis by (simp add: lru_victim_def all last_tl)
  qed
qed

section \<open>MRU\<close>

lemma mru_search_stack:
  assumes "age_inv n bits" "length blocks = n" "t + r \<le> n"
  shows "mru_search bits blocks t r =
    (case filter (isValidReplacement blocks) (take r (drop t (recency_stack bits))) of
       [] \<Rightarrow> None | x # _ \<Rightarrow> Some x)"
  using assms(3)
proof (induction r arbitrary: t)
  case (Suc r)
  let ?xs = "recency_stack bits" and ?ok = "isValidReplacement blocks"
  have so: "stack_of bits ?xs" by (rule stack_of_recency_stack [OF assms(1)])
  have l: "length ?xs = n" "length bits = n" "distinct bits" using so assms(1) by (simp_all add: stack_of_def age_inv_def)
  have t: "t < n" "?xs ! t < n" "unat (bits ! (?xs ! t)) = t" using so Suc.prems l by (auto simp: stack_of_def)
  have uniq: "unat (bits ! i) = t \<longleftrightarrow> i = ?xs ! t" if "i < n" for i
    using nth_unat_eq_iff [OF l(3), of i "?xs ! t"] that t l by simp
  have split: "take (Suc r) (drop t ?xs) = ?xs ! t # take r (drop (Suc t) ?xs)"
    using t(1) l(1) by (simp add: Cons_nth_drop_Suc [symmetric])
  show ?case
  proof (cases "?ok (?xs ! t)")
    case True
    then have "first_index (\<lambda>i. unat (bits ! i) = t \<and> ?ok i) n = Some (?xs ! t)"
      using t uniq by (auto simp: first_index_Some)
    with True split assms(2) show ?thesis by simp
  next
    case False
    then have "first_index (\<lambda>i. unat (bits ! i) = t \<and> ?ok i) n = None"
      using uniq by (auto simp: first_index_None)
    with False split assms(2) Suc.IH [of "Suc t"] Suc.prems show ?thesis by simp
  qed
qed simp

lemma mru_get_total:
  assumes "age_inv (length blocks) bits" "\<exists>i < length blocks. isValidReplacement blocks i"
  shows "\<exists>i. mru_getReplacementIndex blocks bits = Inr (i, moveToMRU i bits) \<and> i < length blocks \<and>
    age_inv (length blocks) (moveToMRU i bits) \<and>
    (first_invalid blocks = None \<longrightarrow>
       (\<exists>zs. filter (isValidReplacement blocks) (recency_stack bits) = i # zs))"
proof (cases "first_invalid blocks")
  case None
  let ?n = "length blocks" and ?xs = "recency_stack bits"
  have l: "length ?xs = ?n" "set ?xs = {0..<?n}"
    using assms(1) by (simp_all add: recency_stack_def age_inv_def)
  with assms(2) obtain x zs where x: "filter (isValidReplacement blocks) ?xs = x # zs"
    by (metis atLeastLessThan_iff filter_empty_conv neq_Nil_conv zero_le)
  then have "x \<in> set (filter (isValidReplacement blocks) ?xs)" by simp
  then have "x \<in> set ?xs" by simp
  moreover have "mru_search bits blocks 0 ?n = Some x"
    using mru_search_stack [OF assms(1) refl, of 0 ?n] x l(1) by simp
  ultimately show ?thesis
    using None x l assms(1) by (simp add: mru_getReplacementIndex_def age_inv_moveToMRU)
next
  case (Some i)
  with first_invalid_Some [OF Some] assms(1) show ?thesis
    by (simp add: mru_getReplacementIndex_def age_inv_moveToMRU)
qed

lemma mru_get_inv:
  assumes "age_inv (length blocks) bits" "mru_getReplacementIndex blocks bits = Inr (i, bits')"
  shows "i < length blocks \<and> age_inv (length blocks) bits'"
proof (cases "\<exists>i < length blocks. isValidReplacement blocks i")
  case True
  from mru_get_total [OF assms(1) True] assms(2) show ?thesis by auto
next
  case False
  show ?thesis
  proof (cases "first_invalid blocks")
    case None
    have "filter (isValidReplacement blocks) (take (length blocks) (recency_stack bits)) = []"
      using False assms(1) by (auto simp: filter_empty_conv recency_stack_def age_inv_def dest!: in_set_takeD)
    with mru_search_stack [OF assms(1) refl, of 0 "length blocks"]
    have "mru_search bits blocks 0 (length blocks) = None" by simp
    with None assms(2) show ?thesis by (simp add: mru_getReplacementIndex_def)
  next
    case (Some j)
    with first_invalid_Some [OF Some] assms show ?thesis
      by (auto simp: mru_getReplacementIndex_def age_inv_moveToMRU)
  qed
qed

section \<open>NMRU\<close>

lemma unat_next_pointer: "0 < n \<Longrightarrow> n \<le> 256 \<Longrightarrow> unat (next_pointer n ptr) = (unat ptr + 1) mod n"
proof -
  assume n: "0 < n" "n \<le> 256"
  have "(unat ptr + 1) mod n < n" using n(1) by (rule mod_less_divisor)
  with n(2) show ?thesis unfolding next_pointer_def by (intro unat_of_nat_le) simp
qed

definition nmru_inv :: "nat \<Rightarrow> nmru \<Rightarrow> bool" where
  "nmru_inv n s \<longleftrightarrow> n \<le> 256 \<and> age_inv n (nmru_bits s) \<and> (0 < n \<longrightarrow> unat (nmru_pointer s) < n)"

lemma ring_scan_Some:
  assumes "ring_scan p n ptr k = Some (i, ptr')" "unat ptr < n" "n \<le> 256"
  shows "i < n \<and> unat ptr' < n \<and> p i"
  using assms
proof (induction k arbitrary: ptr)
  case (Suc k)
  have "unat (next_pointer n ptr) < n"
    using Suc.prems by (simp add: unat_next_pointer)
  with Suc show ?case by (auto split: if_splits)
qed simp

lemma ring_scan_None:
  assumes "ring_scan p n ptr k = None" "unat ptr < n" "n \<le> 256" "j < k"
  shows "\<not> p ((unat ptr + j) mod n)"
  using assms
proof (induction k arbitrary: ptr j)
  case (Suc k)
  let ?q = "next_pointer n ptr"
  have n: "0 < n" using Suc.prems by auto
  have q: "unat ?q = (unat ptr + 1) mod n" using n Suc.prems(3) by (simp add: unat_next_pointer)
  from Suc.prems(1) have here: "\<not> p (unat ptr)"
    and rest: "ring_scan p n ?q k = None" by (auto split: if_splits)
  show ?case
  proof (cases j)
    case 0
    with here Suc.prems(2) show ?thesis by simp
  next
    case (Suc m)
    have "(unat ?q + m) mod n = (unat ptr + j) mod n" by (simp add: q Suc mod_add_left_eq)
    with Suc.IH [OF rest, of m] q n Suc.prems Suc show ?thesis by simp
  qed
qed simp

lemma ring_scan_finds:
  assumes "i < n" "p i" "unat ptr < n" "n \<le> 256"
  shows "\<exists>v q. ring_scan p n ptr n = Some (v, q) \<and> v < n \<and> unat q < n \<and> p v"
proof -
  let ?j = "(i + n - unat ptr) mod n"
  have "(unat ptr + ?j) mod n = i" using assms(1,3) by (simp add: mod_add_right_eq)
  moreover have "?j < n" using assms(1) by (intro mod_less_divisor) linarith
  ultimately have "ring_scan p n ptr n \<noteq> None"
    using ring_scan_None [of p n ptr n ?j] assms by metis
  then obtain v q where v: "ring_scan p n ptr n = Some (v, q)" by auto
  with ring_scan_Some [OF v assms(3,4)] show ?thesis by blast
qed

lemma nmru_get_total:
  assumes "nmru_inv (length blocks) s"
    and "\<exists>i < length blocks. nmru_bits s ! i \<noteq> 0 \<and> isValidReplacement blocks i"
  shows "\<exists>i s'. nmru_getReplacementIndex blocks s = Inr (i, s') \<and>
    (first_invalid blocks = None \<longrightarrow> nmru_bits s ! i \<noteq> 0 \<and> isValidReplacement blocks i)"
proof (cases "first_invalid blocks")
  case None
  from assms obtain i where i: "i < length blocks" "nmru_bits s ! i \<noteq> 0 \<and> isValidReplacement blocks i"
    and p: "unat (nmru_pointer s) < length blocks" "length blocks \<le> 256"
    by (auto simp: nmru_inv_def)
  from ring_scan_finds [of i _ "\<lambda>i. nmru_bits s ! i \<noteq> 0 \<and> isValidReplacement blocks i", OF i p] None
  show ?thesis by (auto simp: nmru_getReplacementIndex_def)
next
  case (Some i)
  then show ?thesis by (simp add: nmru_getReplacementIndex_def)
qed

lemma nmru_get_inv:
  assumes "nmru_inv (length blocks) s" "nmru_getReplacementIndex blocks s = Inr (i, s')"
  shows "i < length blocks \<and> nmru_inv (length blocks) s'"
proof (cases "first_invalid blocks")
  case None
  let ?p = "\<lambda>i. nmru_bits s ! i \<noteq> 0 \<and> isValidReplacement blocks i"
  from assms(2) None obtain q where q: "ring_scan ?p (length blocks) (nmru_pointer s) (length blocks) = Some (i, q)"
    and s': "s' = s\<lparr>nmru_bits := moveToMRU i (nmru_bits s), nmru_pointer := q\<rparr>"
    by (auto simp: nmru_getReplacementIndex_def split: option.splits)
  from q have "0 < length blocks" by (cases "length blocks") auto
  with ring_scan_Some [OF q] assms(1) s' show ?thesis
    by (auto simp: nmru_inv_def age_inv_moveToMRU)
next
  case (Some j)
  with first_invalid_Some [OF Some] assms show ?thesis
    by (auto simp: nmru_getReplacementIndex_def nmru_inv_def age_inv_moveToMRU)
qed

lemma nmru_inv_new: "n \<le> 256 \<Longrightarrow> nmru_inv n (nmru_new n)"
  by (simp add: nmru_inv_def nmru_new_def age_inv_init)

text \<open>A direct-mapped NMRU set stops at its first eviction: its only way is always the most recent.\<close>

lemma nmru_one_way_stops:
  assumes "nmru_inv 1 s" "isValid b"
  shows "nmru_getReplacementIndex [b] s = Inl (Print_Error ''Error Finding LRU bits'')"
proof -
  have "first_invalid [b] = None" using assms(2) by (simp add: first_invalid_None)
  moreover have "nmru_bits s ! 0 = 0" "nmru_pointer s = 0"
    using assms(1) by (auto simp: nmru_inv_def age_inv_def unat_eq_zero length_Suc_conv)
  ultimately show ?thesis by (simp add: nmru_getReplacementIndex_def)
qed

end
