(* ===== verification/Utils.thy ===== *)
theory Utils
  imports Prelude
begin

text \<open>
  Bit utilities (\<open>misc/utils.cc\<close>) and the two random number generators (\<open>misc/rng.h\<close>,
  \<open>misc/random.h\<close>), with their correctness against arithmetic on \<open>nat\<close>.
\<close>

section \<open>misc/utils.cc\<close>

definition isPower2 :: "UInt32 \<Rightarrow> bool" where
  "isPower2 n \<longleftrightarrow> (n AND (n - 1)) = 0"

text \<open>
  The five tests of \<open>floorLog2\<close>, each of which shifts the value when its upper half is set.
  The accumulator \<open>p\<close> stays below 32, so a plain \<open>int\<close> stands for the \<open>SInt32\<close>.
\<close>

definition floorLog2_step :: "UInt32 \<Rightarrow> nat \<Rightarrow> int \<times> UInt32 \<Rightarrow> int \<times> UInt32" where
  "floorLog2_step mask_bits k pn =
     (let (p, n) = pn in if n AND mask_bits \<noteq> 0 then (p + int k, drop_bit k n) else (p, n))"

definition floorLog2 :: "UInt32 \<Rightarrow> int" where
  "floorLog2 n =
     (if n = 0 then - 1
      else
        let s1 = floorLog2_step 0xffff0000 16 (0, n);
            s2 = floorLog2_step 0x0000ff00 8 s1;
            s3 = floorLog2_step 0x000000f0 4 s2;
            s4 = floorLog2_step 0x0000000c 2 s3
        in if snd s4 AND 0x00000002 \<noteq> 0 then fst s4 + 1 else fst s4)"

definition ceilLog2 :: "UInt32 \<Rightarrow> int" where
  "ceilLog2 n = floorLog2 (n - 1) + 1"

text \<open>The loop of \<open>countBits\<close>: the condition assigns \<open>n &= n - 1\<close>.\<close>

lemma and_minus_one_less: "(n :: 'a::len word) \<noteq> 0 \<Longrightarrow> unat (n AND (n - 1)) < unat n"
proof -
  assume n: "n \<noteq> 0"
  have "unat (n AND (n - 1)) \<le> unat (n - 1)"
    by (metis word_and_le1 word_le_nat_alt)
  also have "unat (n - 1) < unat n"
    using n by (metis unat_minus_one unat_eq_zero diff_less neq0_conv zero_less_one)
  finally show ?thesis .
qed

function countBits_loop :: "UInt64 \<Rightarrow> UInt64 \<Rightarrow> UInt64" where
  "countBits_loop n result =
     (if n = 0 then result else
      (let n' = n AND (n - 1) in if n' \<noteq> 0 then countBits_loop n' (result + 1) else result))"
  by pat_completeness auto
termination
  by (relation "measure (\<lambda>(n, _). unat n)") (auto simp: and_minus_one_less)

declare countBits_loop.simps [simp del]

definition countBits :: "UInt64 \<Rightarrow> UInt64" where
  "countBits n = (if n = 0 then 0 else countBits_loop n 1)"

section \<open>misc/rng.h and misc/random.h\<close>

definition rng_next :: "UInt64 \<Rightarrow> UInt64 \<times> UInt64" where
  \<comment> \<open>(returned value, new state)\<close>
  "rng_next state =
     (let state' = (0x5DEECE66D * state + 0xB) AND (push_bit 48 1 - 1)
      in (drop_bit 16 state', state'))"

definition rng_seed :: "UInt64 \<Rightarrow> UInt64" where
  "rng_seed seed = push_bit 16 seed + 0x330E"

record random =
  rnd_seed :: UInt32

definition Random_new :: random where
  "Random_new = \<lparr>rnd_seed = 1\<rparr>"

definition Random_seed :: "UInt32 \<Rightarrow> random \<Rightarrow> random" where
  "Random_seed s r = r\<lparr>rnd_seed := s\<rparr>"

definition Random_next :: "UInt32 \<Rightarrow> random \<Rightarrow> (UInt32 \<times> random) result" where
  "Random_next limit r =
     (let seed' = rnd_seed r * 1103515245 + 12345
      in check (limit \<noteq> 0) (Undefined ''modulo by zero'')
           (Inr ((seed' div 65536) mod limit, r\<lparr>rnd_seed := seed'\<rparr>)))"

section \<open>floorLog2 and ceilLog2 compute logarithms\<close>

lemma and_upper_half_eq_0:
  fixes n :: nat
  assumes "n < 2 ^ (k + k)"
  shows "(n AND push_bit k (mask k)) = 0 \<longleftrightarrow> n < 2 ^ k"
proof -
  have "(n AND push_bit k (mask k)) = push_bit k (take_bit k (drop_bit k n))"
    by (rule bit_eqI) (auto simp: bit_simps)
  moreover have "drop_bit k n < 2 ^ k"
    using assms by (simp add: drop_bit_eq_div power_add less_mult_imp_div_less)
  ultimately have "(n AND push_bit k (mask k)) = 0 \<longleftrightarrow> drop_bit k n = 0"
    by (simp add: take_bit_nat_eq_self)
  also have "\<dots> \<longleftrightarrow> n < 2 ^ k"
    by (simp add: drop_bit_eq_div div_eq_0_iff)
  finally show ?thesis .
qed

lemma and_upper_half_word:
  fixes n :: UInt32
  assumes "unat n < 2 ^ (k + k)" and "unat m = push_bit k (mask k)"
  shows "(n AND m) = 0 \<longleftrightarrow> unat n < 2 ^ k"
proof -
  have "(n AND m) = 0 \<longleftrightarrow> unat (n AND m) = 0"
    by (simp add: unat_eq_zero)
  also have "unat (n AND m) = (unat n AND push_bit k (mask k))"
    using assms(2) by (simp add: unsigned_and_eq)
  finally show ?thesis
    using and_upper_half_eq_0 [OF assms(1)] by simp
qed

text \<open>One step keeps the value \<open>N\<close> between \<open>n * 2^p\<close> and \<open>(n + 1) * 2^p\<close> and halves the width.\<close>

definition log2_inv :: "nat \<Rightarrow> nat \<Rightarrow> int \<times> UInt32 \<Rightarrow> bool" where
  "log2_inv N w pn \<longleftrightarrow>
     0 \<le> fst pn \<and> 0 < unat (snd pn) \<and> unat (snd pn) < 2 ^ w \<and>
     unat (snd pn) = N div 2 ^ nat (fst pn)"

lemma floorLog2_step_inv:
  assumes "log2_inv N (k + k) pn" and "unat m = push_bit k (mask k)"
  shows "log2_inv N k (floorLog2_step m k pn)"
proof -
  obtain p n where pn: "pn = (p, n)" by (cases pn)
  from assms(1) have n: "0 \<le> p" "0 < unat n" "unat n < 2 ^ (k + k)" "unat n = N div 2 ^ nat p"
    by (auto simp: log2_inv_def pn)
  have test: "(n AND m) = 0 \<longleftrightarrow> unat n < 2 ^ k"
    using n(3) assms(2) by (rule and_upper_half_word)
  show ?thesis
  proof (cases "unat n < 2 ^ k")
    case True
    with test n show ?thesis by (simp add: floorLog2_step_def log2_inv_def pn)
  next
    case False
    have shift: "unat (drop_bit k n) = unat n div 2 ^ k"
      by (rule unat_drop_bit_div)
    have "unat n div 2 ^ k < 2 ^ k"
      using n(3) by (simp add: power_add less_mult_imp_div_less)
    moreover have "0 < unat n div 2 ^ k"
      using False by (simp add: div_greater_zero_iff)
    moreover have "unat n div 2 ^ k = N div 2 ^ nat (p + int k)"
      using n by (simp add: nat_add_distrib power_add div_mult2_eq)
    ultimately show ?thesis
      using False test n(1) by (simp add: floorLog2_step_def log2_inv_def pn shift)
  qed
qed

lemma floorLog2_bounds:
  assumes "n \<noteq> 0"
  shows "0 \<le> floorLog2 n \<and> 2 ^ nat (floorLog2 n) \<le> unat n \<and> unat n < 2 ^ Suc (nat (floorLog2 n))"
proof -
  let ?N = "unat n"
  define s1 where "s1 = floorLog2_step 0xffff0000 16 (0, n)"
  define s2 where "s2 = floorLog2_step 0x0000ff00 8 s1"
  define s3 where "s3 = floorLog2_step 0x000000f0 4 s2"
  define s4 where "s4 = floorLog2_step 0x0000000c 2 s3"
  have n0: "0 < ?N" using assms by (simp add: unat_gt_0)
  have "log2_inv ?N 32 (0, n)"
    using n0 unat_lt2p [of n] by (simp add: log2_inv_def)
  then have "log2_inv ?N 16 s1"
    using floorLog2_step_inv [of ?N 16 "(0, n)" "0xffff0000"]
    by (simp add: s1_def mask_eq_exp_minus_1 push_bit_eq_mult)
  then have "log2_inv ?N 8 s2"
    using floorLog2_step_inv [of ?N 8 s1 "0x0000ff00"]
    by (simp add: s2_def mask_eq_exp_minus_1 push_bit_eq_mult)
  then have "log2_inv ?N 4 s3"
    using floorLog2_step_inv [of ?N 4 s2 "0x000000f0"]
    by (simp add: s3_def mask_eq_exp_minus_1 push_bit_eq_mult)
  then have "log2_inv ?N 2 s4"
    using floorLog2_step_inv [of ?N 2 s3 "0x0000000c"]
    by (simp add: s4_def mask_eq_exp_minus_1 push_bit_eq_mult)
  then have i5: "log2_inv ?N 1 (floorLog2_step 2 1 s4)"
    using floorLog2_step_inv [of ?N 1 s4 2]
    by (simp add: mask_eq_exp_minus_1 push_bit_eq_mult del: One_nat_def)
  have res: "floorLog2 n = fst (floorLog2_step 2 1 s4)"
    using assms by (simp add: floorLog2_def Let_def s1_def s2_def s3_def s4_def floorLog2_step_def [of 2]
        case_prod_beta)
  from i5 have p: "0 \<le> floorLog2 n" and one: "?N div 2 ^ nat (floorLog2 n) = 1"
    unfolding res log2_inv_def by auto
  from one have "2 ^ nat (floorLog2 n) \<le> ?N"
    by (metis div_less leI zero_neq_one)
  moreover from one have "?N < 2 ^ nat (floorLog2 n) * 2"
    using div_less_iff_less_mult [of "2 ^ nat (floorLog2 n)" ?N 2] by (simp add: mult.commute)
  ultimately show ?thesis using p by (simp add: mult.commute)
qed

text \<open>
  The helper on which every address split rests: for a non-zero argument,
  \<open>floorLog2\<close> is the integer \<open>p\<close> with \<open>2^p \<le> n < 2^(p+1)\<close>, and it is \<open>-1\<close> at 0.
\<close>

lemma floorLog2_power2 [simp]: "k < 32 \<Longrightarrow> floorLog2 (2 ^ k) = int k"
proof -
  assume k: "k < 32"
  then have u: "unat ((2::UInt32) ^ k) = 2 ^ k"
    by (simp add: unat_2p)
  then have "(2::UInt32) ^ k \<noteq> 0" by (metis unat_eq_zero power_not_zero zero_neq_numeral)
  from floorLog2_bounds [OF this] u
  have "0 \<le> floorLog2 (2 ^ k)" "(2::nat) ^ nat (floorLog2 (2 ^ k)) \<le> 2 ^ k"
    "(2::nat) ^ k < 2 ^ Suc (nat (floorLog2 (2 ^ k)))" by auto
  then have "nat (floorLog2 (2 ^ k)) \<le> k" and "k < Suc (nat (floorLog2 (2 ^ k)))"
    by (simp_all only: power_increasing_iff power_strict_increasing_iff one_less_numeral_iff
        semiring_norm)
  with \<open>0 \<le> floorLog2 (2 ^ k)\<close> show ?thesis by simp
qed

lemma log2_unique:
  assumes "2 ^ p \<le> (N::nat)" "N < 2 ^ Suc p" "2 ^ q \<le> N" "N < 2 ^ Suc q"
  shows "p = q"
proof -
  have "(2::nat) ^ p < 2 ^ Suc q" and "(2::nat) ^ q < 2 ^ Suc p"
    using assms by linarith+
  then have "p < Suc q" and "q < Suc p"
    by (simp_all only: power_strict_increasing_iff one_less_numeral_iff semiring_norm)
  then show ?thesis by simp
qed

lemma ceilLog2_bounds:
  assumes "1 < n"
  shows "0 < ceilLog2 n \<and> 2 ^ nat (ceilLog2 n - 1) < unat n \<and> unat n \<le> 2 ^ nat (ceilLog2 n)"
proof -
  have "n \<noteq> 0" using assms by auto
  then have u: "unat (n - 1) = unat n - 1" by (rule unat_minus_one)
  have "1 < unat n" using assms by (simp add: word_less_nat_alt)
  with u have "n - 1 \<noteq> 0" by (metis unat_0 zero_less_diff less_irrefl)
  from floorLog2_bounds [OF this] u have "0 \<le> floorLog2 (n - 1)"
    "2 ^ nat (floorLog2 (n - 1)) \<le> unat n - 1" "unat n - 1 < 2 ^ Suc (nat (floorLog2 (n - 1)))"
    by auto
  with \<open>1 < unat n\<close> show ?thesis
    unfolding ceilLog2_def by (simp add: nat_add_distrib) linarith
qed

lemma ceilLog2_small: "ceilLog2 0 = 32" "ceilLog2 1 = 0"
  by code_simp+

section \<open>countBits counts bits\<close>

fun popcount :: "nat \<Rightarrow> nat" where
  "popcount n = (if n = 0 then 0 else n mod 2 + popcount (n div 2))"

declare popcount.simps [simp del]

lemma popcount_0 [simp]: "popcount 0 = 0"
  by (simp add: popcount.simps)

lemma popcount_double [simp]: "popcount (2 * n) = popcount n"
  by (cases "n = 0") (simp_all add: popcount.simps [of "2 * n"])

lemma popcount_Suc_double [simp]: "popcount (Suc (2 * n)) = Suc (popcount n)"
  by (simp add: popcount.simps [of "Suc (2 * n)"])

lemma popcount_clear_lowest:
  "0 < n \<Longrightarrow> popcount n = Suc (popcount (n AND (n - 1)))"
proof (induction n rule: less_induct)
  case (less n)
  show ?case
  proof (cases "even n")
    case True
    then obtain m where m: "n = 2 * m" by blast
    with less.prems have pos: "0 < m" and "m < n" by auto
    obtain k where k: "m = Suc k" using pos by (metis gr0_conv_Suc)
    have "(2 * Suc k AND Suc (2 * k)) = 2 * (Suc k AND k)"
    proof (rule bit_eqI)
      show "bit (2 * Suc k AND Suc (2 * k)) i = bit (2 * (Suc k AND k)) i" for i
        unfolding bit_and_iff [of "2 * Suc k"]
        by (cases i) (simp_all add: bit_Suc bit_0 bit_and_iff [of "Suc k"] del: mult_Suc_right)
    qed
    then have "(2 * m AND (2 * m - 1)) = 2 * (m AND (m - 1))"
      by (simp add: k)
    with less.IH [OF \<open>m < n\<close> pos] show ?thesis by (simp add: m)
  next
    case False
    then obtain m where m: "n = Suc (2 * m)" by (metis oddE Suc_eq_plus1)
    have "(Suc (2 * m) AND 2 * m) = 2 * m"
    proof (rule bit_eqI)
      show "bit (Suc (2 * m) AND 2 * m) i = bit (2 * m) i" for i
        unfolding bit_and_iff by (cases i) (simp_all add: bit_Suc bit_0)
    qed
    then show ?thesis by (simp add: m)
  qed
qed

lemma unat_and_minus_one: "n \<noteq> 0 \<Longrightarrow> unat (n AND (n - 1)) = (unat n AND (unat n - 1))" for n :: "'a::len word"
  by (simp add: unsigned_and_eq unat_minus_one)

lemma countBits_loop_popcount:
  "n \<noteq> 0 \<Longrightarrow> Suc 0 \<le> popcount (unat n) \<and>
     countBits_loop n result = result + of_nat (popcount (unat n) - 1)"
proof (induction n result rule: countBits_loop.induct)
  case (1 n result)
  let ?n' = "n AND (n - 1)"
  from 1(2) have pos: "0 < unat n" by (simp add: unat_gt_0)
  have step: "popcount (unat n) = Suc (popcount (unat ?n'))"
    using popcount_clear_lowest [OF pos] 1(2) by (simp add: unat_and_minus_one)
  show ?case
  proof (cases "?n' = 0")
    case True
    with step 1(2) show ?thesis by (simp add: countBits_loop.simps [of n])
  next
    case False
    with 1 have "Suc 0 \<le> popcount (unat ?n')"
      and "countBits_loop ?n' (result + 1) = result + 1 + of_nat (popcount (unat ?n') - 1)"
      by auto
    with step 1(2) False show ?thesis
      by (simp add: countBits_loop.simps [of n] of_nat_diff)
  qed
qed

lemma popcount_le: "n < 2 ^ k \<Longrightarrow> popcount n \<le> k"
proof (induction k arbitrary: n)
  case (Suc k)
  then have "n div 2 < 2 ^ k" by auto
  with Suc.IH have "popcount (n div 2) \<le> k" by blast
  then show ?case by (subst popcount.simps) auto
qed simp

lemma countBits_popcount: "unat (countBits n) = popcount (unat n)"
proof (cases "n = 0")
  case False
  from countBits_loop_popcount [OF this, of 1]
  have "countBits n = of_nat (popcount (unat n))"
    using False by (simp add: countBits_def of_nat_diff)
  moreover have "popcount (unat n) \<le> 64"
    using popcount_le [of "unat n" 64] unat_lt2p [of n] by simp
  ultimately show ?thesis by (simp add: unat_of_nat_le)
qed (simp add: countBits_def)

lemma popcount_1_power: "popcount n = 1 \<Longrightarrow> \<exists>k. n = 2 ^ k"
proof (induction n rule: less_induct)
  case (less n)
  show ?case
  proof (cases "even n")
    case True
    then obtain m where m: "n = 2 * m" by blast
    with less.prems have "popcount m = 1" and "m < n" by (auto intro: Nat.gr0I)
    with less.IH obtain k where "m = 2 ^ k" by blast
    with m have "n = 2 ^ Suc k" by simp
    then show ?thesis ..
  next
    case False
    then obtain m where m: "n = Suc (2 * m)" by (metis oddE Suc_eq_plus1)
    with less.prems have "popcount m = 0" by simp
    then have "m = 0" 
      by (metis popcount_clear_lowest neq0_conv nat.distinct(1))
    with m have "n = 2 ^ 0" by simp
    then show ?thesis ..
  qed
qed

lemma popcount_power: "popcount (2 ^ k) = 1"
  by (induction k) (simp_all add: popcount.simps [of "Suc 0"])

lemma isPower2_iff: "isPower2 n \<longleftrightarrow> n = 0 \<or> (\<exists>k. unat n = 2 ^ k)"
proof (cases "n = 0")
  case False
  then have pos: "0 < unat n" by (simp add: unat_gt_0)
  have "isPower2 n \<longleftrightarrow> (unat n AND (unat n - 1)) = 0"
    unfolding isPower2_def using False by (metis unat_and_minus_one unat_eq_zero)
  also have "\<dots> \<longleftrightarrow> popcount (unat n) = 1"
    using popcount_clear_lowest [OF pos] popcount_clear_lowest [of "unat n AND (unat n - 1)"]
    by (cases "(unat n AND (unat n - 1)) = 0") auto
  also have "\<dots> \<longleftrightarrow> (\<exists>k. unat n = 2 ^ k)"
    using popcount_1_power popcount_power by metis
  finally show ?thesis using False by simp
qed (simp add: isPower2_def)

section \<open>The generators stay in range\<close>

lemma Random_next_less: "Random_next limit r = Inr (v, r') \<Longrightarrow> v < limit"
  by (auto simp: Random_next_def Let_def result_simps word_mod_less_divisor word_gt_0)

lemma Random_next_total: "limit \<noteq> 0 \<Longrightarrow> \<exists>v r'. Random_next limit r = Inr (v, r') \<and> v < limit"
  by (simp add: Random_next_def Let_def word_mod_less_divisor word_gt_0)

end
