(* ===== verification/Policy_Counters.thy ===== *)
theory Policy_Counters
  imports Policy_Recency Utils
begin

text \<open>
  The other replacement policies: \<open>cache/cache_set_nru.cc\<close>, \<open>cache_set_plru.cc\<close>,
  \<open>cache_set_srrip.cc\<close>, \<open>cache_set_round_robin.cc\<close> and \<open>cache_set_random.cc\<close>. The last two
  retry by recursion and may not return: they are \<open>partial_function\<close>s whose \<open>None\<close> is divergence.
\<close>

section \<open>NRU\<close>

record nru =
  nru_bits :: "UInt8 list"
  nru_num_bits_set :: UInt8
  nru_pointer :: UInt8

definition nru_new :: "nat \<Rightarrow> nru" where
  "nru_new associativity =
     \<lparr>nru_bits = replicate associativity 0, nru_num_bits_set = 0, nru_pointer = 0\<rparr>"

definition nru_updateReplacementIndex :: "nat \<Rightarrow> nru \<Rightarrow> nru" where
  "nru_updateReplacementIndex accessed_index s =
     (let n = length (nru_bits s);
          bits = (nru_bits s)[accessed_index := 1];
          num = nru_num_bits_set s + 1
      in if unat num = n
         then s\<lparr>nru_bits := replicate n 0, nru_num_bits_set := 0\<rparr>
         else s\<lparr>nru_bits := bits, nru_num_bits_set := num\<rparr>)"

definition nru_getReplacementIndex :: "block_info list \<Rightarrow> nru \<Rightarrow> (nat \<times> nru) result" where
  "nru_getReplacementIndex blocks s =
     (case first_invalid blocks of
        Some i \<Rightarrow> Inr (i, nru_updateReplacementIndex i s)
      | None \<Rightarrow>
          (let have_zero_bit = list_ex (\<lambda>i. nru_bits s ! i = 0 \<and> isValidReplacement blocks i) [0..<length blocks]
           in case ring_scan (\<lambda>i. (nru_bits s ! i = 0 \<or> \<not> have_zero_bit) \<and> isValidReplacement blocks i)
                     (length blocks) (nru_pointer s) (length blocks) of
                Some (i, ptr) \<Rightarrow> Inr (i, nru_updateReplacementIndex i (s\<lparr>nru_pointer := ptr\<rparr>))
              | None \<Rightarrow> Inl (Print_Error ''Error Finding LRU bits'')))"

section \<open>PLRU\<close>

type_synonym plru = "UInt8 list"

definition plru_new :: "nat \<Rightarrow> plru result" where
  "plru_new associativity =
     check (associativity = 4 \<or> associativity = 8) (Assert ''PLRU not implemented for associativity'')
       (Inr (replicate 8 0))"

definition plru_updateReplacementIndex :: "nat \<Rightarrow> nat \<Rightarrow> plru \<Rightarrow> plru result" where
  "plru_updateReplacementIndex n i b =
     (if n = 4 then
        Inr (if i = 0 then b[0 := 1, 1 := 1]
             else if i = 1 then b[0 := 1, 1 := 0]
             else if i = 2 then b[0 := 0, 2 := 1]
             else if i = 3 then b[0 := 0, 2 := 0]
             else b)
      else if n = 8 then
        Inr (if i = 0 then b[0 := 1, 1 := 1, 2 := 1]
             else if i = 1 then b[0 := 1, 1 := 1, 2 := 0]
             else if i = 2 then b[0 := 1, 1 := 0, 3 := 1]
             else if i = 3 then b[0 := 1, 1 := 0, 3 := 0]
             else if i = 4 then b[0 := 0, 4 := 1, 5 := 1]
             else if i = 5 then b[0 := 0, 4 := 1, 5 := 0]
             else if i = 6 then b[0 := 0, 4 := 0, 6 := 1]
             else if i = 7 then b[0 := 0, 4 := 0, 6 := 0]
             else b)
      else Inl (Print_Error ''PLRU does not support this associativity''))"

definition plru_victim :: "nat \<Rightarrow> plru \<Rightarrow> nat result" where
  "plru_victim n b =
     (if n = 4 then
        Inr (if b ! 0 = 0 then (if b ! 1 = 0 then 0 else 1)
             else (if b ! 2 = 0 then 2 else 3))
      else if n = 8 then
        Inr (if b ! 0 = 0
             then (if b ! 1 = 0 then (if b ! 2 = 0 then 0 else 1) else (if b ! 3 = 0 then 2 else 3))
             else (if b ! 4 = 0 then (if b ! 5 = 0 then 4 else 5) else (if b ! 6 = 0 then 6 else 7)))
      else Inl (Print_Error ''PLRU does not support this associativity''))"

definition plru_getReplacementIndex :: "block_info list \<Rightarrow> plru \<Rightarrow> (nat \<times> plru) result" where
  "plru_getReplacementIndex blocks b =
     (case first_invalid blocks of
        Some i \<Rightarrow> mapE (Pair i) (plru_updateReplacementIndex (length blocks) i b)
      | None \<Rightarrow>
          bindE (plru_victim (length blocks) b) (\<lambda>v.
            check (isValidReplacement blocks v) (Assert ''PLRU selected an invalid replacement candidate'')
              (mapE (Pair v) (plru_updateReplacementIndex (length blocks) v b))))"

section \<open>Round robin\<close>

definition rr_prev :: "nat \<Rightarrow> UInt32 \<Rightarrow> UInt32" where
  "rr_prev associativity index = (if index = 0 then of_nat associativity - 1 else index - 1)"

partial_function (option) rr_getReplacementIndex ::
  "block_info list \<Rightarrow> UInt32 \<Rightarrow> (nat \<times> UInt32) option" where
  "rr_getReplacementIndex blocks index =
     (let index' = rr_prev (length blocks) index
      in if \<not> isValidReplacement blocks (unat index')
         then rr_getReplacementIndex blocks index'
         else Some (unat index, index'))"

declare rr_getReplacementIndex.simps [code]

section \<open>Random\<close>

partial_function (option) random_getReplacementIndex ::
  "block_info list \<Rightarrow> random \<Rightarrow> (nat \<times> random) result option" where
  "random_getReplacementIndex blocks r =
     (case first_invalid blocks of
        Some i \<Rightarrow> Some (Inr (i, r))
      | None \<Rightarrow>
          (case Random_next 32768 r of
             Inl e \<Rightarrow> Some (Inl e)
           | Inr (v, r') \<Rightarrow>
               if blocks = [] then Some (Inl (Undefined ''modulo by zero''))
               else (let index = unat v mod length blocks
                     in if isValidReplacement blocks index then Some (Inr (index, r'))
                        else random_getReplacementIndex blocks r')))"

declare random_getReplacementIndex.simps [code]

section \<open>SRRIP\<close>

record srrip =
  rrip_max :: UInt8
  rrip_insert :: UInt8
  rrip_num_attempts :: UInt8
  rrip_bits :: "UInt8 list"
  rrip_pointer :: UInt8

definition srrip_new :: "nat \<Rightarrow> UInt8 \<Rightarrow> UInt8 \<Rightarrow> srrip" where
  "srrip_new associativity numbits num_attempts =
     (let mx = ucast (push_bit (unat numbits) (1 :: UInt32) - 1) :: UInt8
      in \<lparr>rrip_max = mx, rrip_insert = mx - 1, rrip_num_attempts = num_attempts,
          rrip_bits = replicate associativity (mx - 1), rrip_pointer = 0\<rparr>)"

text \<open>
  One pass of the inner loop. It ends with a victim, with an error, or with the pointer, the
  counters, the attempt number and the QBS cost at which the next pass starts.
\<close>

datatype srrip_pass =
    Victim nat srrip cache_set_info nat
  | Fail sim_error
  | Continue srrip nat nat

definition srrip_evict :: "block_info list \<Rightarrow> cache_set_info \<Rightarrow> srrip \<Rightarrow> nat \<Rightarrow> nat \<Rightarrow> srrip_pass" where
  "srrip_evict blocks info s attempt cost =
     (let p = unat (rrip_pointer s)
      in case si_incrementAttempt attempt info of
           Inl e \<Rightarrow> Fail e
         | Inr info' \<Rightarrow>
             if isValidReplacement blocks p
             then Victim p (s\<lparr>rrip_pointer := next_pointer (length blocks) (rrip_pointer s),
                              rrip_bits := (rrip_bits s)[p := rrip_insert s]\<rparr>) info' cost
             else Fail (Assert ''SRRIP selected an invalid replacement candidate''))"

fun srrip_inner :: "cntlr option \<Rightarrow> block_info list \<Rightarrow> cache_set_info \<Rightarrow> srrip \<Rightarrow> nat \<Rightarrow> nat \<Rightarrow> nat \<Rightarrow> srrip_pass" where
  "srrip_inner cn blocks info s attempt cost 0 = Continue s attempt cost"
| "srrip_inner cn blocks info s attempt cost (Suc k) =
     (let p = unat (rrip_pointer s)
      in if rrip_bits s ! p \<ge> rrip_max s
         then (if int attempt < uint (rrip_num_attempts s) - 1
               then (case cn of
                       None \<Rightarrow> Fail (Assert ''CacheCntlr == NULL'')
                     | Some in_lower \<Rightarrow>
                         if in_lower (blocks ! p)
                         then srrip_inner cn blocks info (s\<lparr>rrip_bits := (rrip_bits s)[p := 0]\<rparr>)
                                (Suc attempt mod 256) (Suc cost) k
                         else srrip_evict blocks info s attempt cost)
               else srrip_evict blocks info s attempt cost)
         else srrip_inner cn blocks info
                (s\<lparr>rrip_pointer := next_pointer (length blocks) (rrip_pointer s)\<rparr>) attempt cost k)"

definition srrip_age :: "srrip \<Rightarrow> srrip" where
  "srrip_age s = s\<lparr>rrip_bits := map (\<lambda>b. if b < rrip_max s then b + 1 else b) (rrip_bits s)\<rparr>"

fun srrip_outer :: "cntlr option \<Rightarrow> block_info list \<Rightarrow> cache_set_info \<Rightarrow> srrip \<Rightarrow> nat \<Rightarrow> nat \<Rightarrow> nat
  \<Rightarrow> (nat \<times> (srrip \<times> cache_set_info) \<times> nat) result" where
  "srrip_outer cn blocks info s attempt cost 0 = Inl (Print_Error ''Error finding replacement index'')"
| "srrip_outer cn blocks info s attempt cost (Suc rounds) =
     (case srrip_inner cn blocks info s attempt cost (length blocks) of
        Victim i s' info' cost' \<Rightarrow> Inr (i, (s', info'), cost')
      | Fail e \<Rightarrow> Inl e
      | Continue s' attempt' cost' \<Rightarrow> srrip_outer cn blocks info (srrip_age s') attempt' cost' rounds)"

definition srrip_getReplacementIndex ::
  "cntlr option \<Rightarrow> block_info list \<Rightarrow> srrip \<times> cache_set_info \<Rightarrow> (nat \<times> (srrip \<times> cache_set_info) \<times> nat) result" where
  "srrip_getReplacementIndex cn blocks st =
     (let (s, info) = st
      in case first_invalid blocks of
           Some i \<Rightarrow> Inr (i, (s\<lparr>rrip_bits := (rrip_bits s)[i := rrip_insert s]\<rparr>, info), 0)
         | None \<Rightarrow> srrip_outer cn blocks info s 0 0 (Suc (unat (rrip_max s))))"

definition srrip_updateReplacementIndex ::
  "nat \<Rightarrow> srrip \<times> cache_set_info \<Rightarrow> (srrip \<times> cache_set_info) result" where
  "srrip_updateReplacementIndex accessed_index st =
     (let (s, info) = st
      in bindE (at (rrip_bits s) accessed_index) (\<lambda>b.
         bindE (si_increment b info) (\<lambda>info'.
           Inr (if 0 < b then s\<lparr>rrip_bits := (rrip_bits s)[accessed_index := b - 1]\<rparr> else s, info'))))"

section \<open>NRU: invariant and totality\<close>

definition nru_inv :: "nat \<Rightarrow> nru \<Rightarrow> bool" where
  "nru_inv n s \<longleftrightarrow>
     n \<le> 256 \<and> length (nru_bits s) = n \<and>
     (0 < n \<longrightarrow> unat (nru_pointer s) < n \<and> unat (nru_num_bits_set s) < n)"

lemma nru_inv_new: "n \<le> 256 \<Longrightarrow> nru_inv n (nru_new n)"
  by (simp add: nru_inv_def nru_new_def)

lemma nru_inv_update:
  assumes "nru_inv n s" "i < n"
  shows "nru_inv n (nru_updateReplacementIndex i s)"
proof -
  have "unat (nru_num_bits_set s + 1) \<le> n"
    using assms unat_lt2p [of "nru_num_bits_set s"]
    by (auto simp: nru_inv_def unat_word_ariths mod_Suc)
  with assms show ?thesis
    by (auto simp: nru_inv_def nru_updateReplacementIndex_def Let_def)
qed

lemma nru_get_inv:
  assumes "nru_inv (length blocks) s" "nru_getReplacementIndex blocks s = Inr (i, s')"
  shows "i < length blocks \<and> nru_inv (length blocks) s'"
proof (cases "first_invalid blocks")
  case None
  let ?hz = "list_ex (\<lambda>i. nru_bits s ! i = 0 \<and> isValidReplacement blocks i) [0..<length blocks]"
  from assms(2) None obtain q where
    q: "ring_scan (\<lambda>i. (nru_bits s ! i = 0 \<or> \<not> ?hz) \<and> isValidReplacement blocks i)
          (length blocks) (nru_pointer s) (length blocks) = Some (i, q)"
    and s': "s' = nru_updateReplacementIndex i (s\<lparr>nru_pointer := q\<rparr>)"
    by (auto simp: nru_getReplacementIndex_def Let_def split: option.splits)
  from q have "0 < length blocks" by (cases "length blocks") auto
  with ring_scan_Some [OF q] assms(1) have "i < length blocks" "nru_inv (length blocks) (s\<lparr>nru_pointer := q\<rparr>)"
    by (auto simp: nru_inv_def)
  with s' show ?thesis by (simp add: nru_inv_update)
next
  case (Some j)
  with first_invalid_Some [OF Some] assms show ?thesis
    by (auto simp: nru_getReplacementIndex_def nru_inv_update)
qed

text \<open>
  NRU never stops while one way is admissible: the victim of a full set is admissible, and its bit
  is clear whenever some admissible way has a clear bit.
\<close>

lemma nru_get_total:
  assumes "nru_inv (length blocks) s" "w < length blocks" "isValidReplacement blocks w"
  shows "\<exists>i s'. nru_getReplacementIndex blocks s = Inr (i, s') \<and>
    (first_invalid blocks = None \<longrightarrow> isValidReplacement blocks i \<and>
      ((\<exists>j < length blocks. nru_bits s ! j = 0 \<and> isValidReplacement blocks j) \<longrightarrow> nru_bits s ! i = 0))"
proof (cases "first_invalid blocks")
  case None
  let ?n = "length blocks"
  let ?z = "\<lambda>i. nru_bits s ! i = 0 \<and> isValidReplacement blocks i"
  let ?hz = "list_ex ?z [0..<?n]"
  let ?p = "\<lambda>i. (nru_bits s ! i = 0 \<or> \<not> ?hz) \<and> isValidReplacement blocks i"
  have hz: "?hz \<longleftrightarrow> (\<exists>j < ?n. ?z j)" by (auto simp: list_ex_iff)
  have "\<exists>i < ?n. ?p i" using assms(2,3) hz by (cases ?hz) auto
  then obtain j where "j < ?n" "?p j" by blast
  moreover have "unat (nru_pointer s) < ?n" "?n \<le> 256" using assms(1,2) by (auto simp: nru_inv_def)
  ultimately obtain v q where "ring_scan ?p ?n (nru_pointer s) ?n = Some (v, q)" "?p v"
    using ring_scan_finds [of j ?n ?p "nru_pointer s"] by blast
  with None hz show ?thesis by (auto simp: nru_getReplacementIndex_def Let_def)
next
  case (Some i)
  then show ?thesis by (simp add: nru_getReplacementIndex_def)
qed

text \<open>
  The counter counts accesses, not set bits: two accesses to way 0 of a two-way set clear all
  bits although way 1 was never used.
\<close>

lemma nru_counts_accesses:
  "nru_updateReplacementIndex 0 (nru_updateReplacementIndex 0 (nru_new 2)) = nru_new 2"
  "nru_bits (nru_updateReplacementIndex 0 (nru_new 2)) = [1, 0]"
  by code_simp+

section \<open>PLRU: the most recent way is never the victim\<close>

lemma plru_not_most_recent:
  assumes "length b = 8" "n = 4 \<or> n = 8" "i < n"
  shows "\<exists>b' v. plru_updateReplacementIndex n i b = Inr b' \<and> length b' = 8 \<and>
    plru_victim n b' = Inr v \<and> v < n \<and> v \<noteq> i"
proof -
  consider (four) "n = 4" "i \<in> {0, 1, 2, 3}" | (eight) "n = 8" "i \<in> {0, 1, 2, 3, 4, 5, 6, 7}"
    using assms(2,3) by force
  then show ?thesis
    using assms(1) by cases (auto simp: plru_updateReplacementIndex_def plru_victim_def)
qed

lemma plru_get_inv:
  assumes "length b = 8" "length blocks = 4 \<or> length blocks = 8"
    and "plru_getReplacementIndex blocks b = Inr (i, b')"
  shows "i < length blocks \<and> length b' = 8"
proof -
  have v: "plru_victim (length blocks) b = Inr w \<Longrightarrow> w < length blocks" for w
    using assms(2) by (auto simp: plru_victim_def split: if_splits)
  have l: "plru_updateReplacementIndex (length blocks) w b = Inr c \<Longrightarrow> length c = 8" for w c
    using assms(1,2) by (auto simp: plru_updateReplacementIndex_def split: if_splits)
  show ?thesis
    using assms(3) v l by (auto simp: plru_getReplacementIndex_def result_simps split: option.splits
        dest: first_invalid_Some)
qed

lemma plru_get_total:
  assumes "length b = 8" "length blocks = 4 \<or> length blocks = 8"
    and "\<forall>i < length blocks. isValidReplacement blocks i"
  shows "\<exists>i b'. plru_getReplacementIndex blocks b = Inr (i, b')"
proof -
  obtain v where v: "plru_victim (length blocks) b = Inr v" using assms(2) by (auto simp: plru_victim_def)
  then have "v < length blocks" using assms(2) by (auto simp: plru_victim_def split: if_splits)
  then have adm: "isValidReplacement blocks v" using assms(3) by simp
  have upd: "\<exists>c. mapE (Pair w) (plru_updateReplacementIndex (length blocks) w b) = Inr (w, c)" for w
    using assms(2) by (auto simp: plru_updateReplacementIndex_def)
  show ?thesis
  proof (cases "first_invalid blocks")
    case None
    with v adm upd [of v] show ?thesis by (auto simp: plru_getReplacementIndex_def)
  next
    case (Some w)
    with upd [of w] show ?thesis by (auto simp: plru_getReplacementIndex_def)
  qed
qed

section \<open>Round robin: an admissible way makes it return\<close>

definition rr_inv :: "nat \<Rightarrow> UInt32 \<Rightarrow> bool" where
  "rr_inv n index \<longleftrightarrow> n < 2 ^ 32 \<and> unat index < n"

lemma unat_rr_prev:
  assumes "rr_inv n index"
  shows "unat (rr_prev n index) = (if unat index = 0 then n - 1 else unat index - 1)"
proof (cases "index = 0")
  case True
  with assms have "1 \<le> (of_nat n :: UInt32)"
    by (simp add: word_le_nat_alt rr_inv_def unat_of_nat_le)
  then have "unat ((of_nat n :: UInt32) - 1) = n - 1"
    using assms by (simp add: unat_sub rr_inv_def unat_of_nat_le)
  with True show ?thesis by (simp add: rr_prev_def)
next
  case False
  then have "1 \<le> index" by (simp add: word_le_nat_alt unat_gt_0 Suc_le_eq)
  with False show ?thesis by (simp add: rr_prev_def unat_sub unat_eq_0)
qed

lemma rr_inv_prev: "rr_inv n index \<Longrightarrow> rr_inv n (rr_prev n index)"
  using unat_rr_prev [of n index] by (auto simp: rr_inv_def)

lemma rr_inv_less: "rr_inv n index \<Longrightarrow> unat index < n"
  by (simp add: rr_inv_def)

lemma rr_get_inv:
  assumes "rr_getReplacementIndex blocks index = Some (i, index')" "rr_inv (length blocks) index"
  shows "i < length blocks \<and> rr_inv (length blocks) index' \<and> isValidReplacement blocks (unat index')"
proof -
  let ?P = "\<lambda>blocks index y. rr_inv (length blocks) index \<longrightarrow>
    fst y < length blocks \<and> rr_inv (length blocks) (snd y) \<and> isValidReplacement blocks (unat (snd y))"
  have "?P blocks index (i, index')"
  proof (rule rr_getReplacementIndex.raw_induct [of ?P, OF _ assms(1)], goal_cases)
    case (1 get blocks index y)
    let ?q = "rr_prev (length blocks) index"
    show ?case
    proof (cases "isValidReplacement blocks (unat ?q)")
      case True
      with 1(2) have "y = (unat index, ?q)" by (simp add: Let_def)
      with True show ?thesis by (simp add: rr_inv_prev rr_inv_less)
    next
      case False
      with 1(2) have "get blocks ?q = Some y" by (simp add: Let_def)
      from 1(1) [OF this] show ?thesis by (simp add: rr_inv_prev)
    qed
  qed
  with assms(2) show ?thesis by simp
qed

lemma rr_returns_above:
  assumes "isValidReplacement blocks w" "w < unat index" "rr_inv (length blocks) index"
  shows "\<exists>y. rr_getReplacementIndex blocks index = Some y"
  using assms(2,3)
proof (induction "unat index" arbitrary: index)
  case (Suc k)
  let ?q = "rr_prev (length blocks) index"
  have q: "unat ?q = k" using unat_rr_prev [OF Suc.prems(2)] Suc.hyps(2) by simp
  show ?case
  proof (cases "w = k")
    case True
    with assms(1) q show ?thesis by (subst rr_getReplacementIndex.simps) (simp add: Let_def)
  next
    case False
    with Suc.hyps(1) [of ?q] Suc.hyps(2) Suc.prems q rr_inv_prev [OF Suc.prems(2)] show ?thesis
      by (subst rr_getReplacementIndex.simps) (simp add: Let_def)
  qed
qed simp

lemma rr_returns:
  assumes "isValidReplacement blocks w" "w < length blocks" "rr_inv (length blocks) index"
  shows "\<exists>y. rr_getReplacementIndex blocks index = Some y"
  using assms(3)
proof (induction "unat index" arbitrary: index)
  case 0
  let ?q = "rr_prev (length blocks) index"
  have q: "unat ?q = length blocks - 1" using unat_rr_prev [OF 0(2)] 0(1) by simp
  show ?case
  proof (cases "w = unat ?q")
    case True
    with assms(1) show ?thesis by (subst rr_getReplacementIndex.simps) (simp add: Let_def)
  next
    case False
    with rr_returns_above [OF assms(1) _ rr_inv_prev [OF 0(2)]] q assms(2) show ?thesis
      by (subst rr_getReplacementIndex.simps) (simp add: Let_def)
  qed
next
  case (Suc k)
  let ?q = "rr_prev (length blocks) index"
  have "unat ?q = k" using unat_rr_prev [OF Suc.prems] Suc.hyps(2) by simp
  with Suc.hyps(1) [of ?q] rr_inv_prev [OF Suc.prems] show ?case
    by (subst rr_getReplacementIndex.simps) (simp add: Let_def)
qed

lemma rr_diverges:
  assumes "\<forall>w < length blocks. \<not> isValidReplacement blocks w" "rr_inv (length blocks) index"
  shows "rr_getReplacementIndex blocks index = None"
proof (cases "rr_getReplacementIndex blocks index")
  case (Some y)
  with rr_get_inv [of blocks index "fst y" "snd y"] assms show ?thesis by (auto simp: rr_inv_def)
qed

section \<open>Random\<close>

lemma random_get_inv:
  assumes "random_getReplacementIndex blocks r = Some (Inr (i, r'))"
  shows "i < length blocks"
proof -
  let ?P = "\<lambda>blocks (r :: random) (y :: (nat \<times> random) result). \<forall>i r'. y = Inr (i, r') \<longrightarrow> i < length blocks"
  have "?P blocks r (Inr (i, r'))"
  proof (rule random_getReplacementIndex.raw_induct [of ?P, OF _ assms], goal_cases)
    case (1 get blocks r y)
    then show ?case
      by (auto simp: Let_def dest: first_invalid_Some split: option.splits sum.splits prod.splits if_splits)
  qed
  then show ?thesis by simp
qed

text \<open>Without lines being upgraded, the first draw is the victim.\<close>

lemma random_get_total:
  assumes "blocks \<noteq> []" "\<forall>i < length blocks. isValidReplacement blocks i"
  shows "\<exists>i r'. random_getReplacementIndex blocks r = Some (Inr (i, r'))"
proof (cases "first_invalid blocks")
  case None
  obtain v r' where v: "Random_next 32768 r = Inr (v, r')" using Random_next_total [of 32768 r] by auto
  have "unat v mod length blocks < length blocks" using assms(1) by simp
  with assms(2) have "isValidReplacement blocks (unat v mod length blocks)" by blast
  with None v assms(1) show ?thesis
    by (subst random_getReplacementIndex.simps) (simp add: Let_def)
next
  case (Some i)
  then show ?thesis by (subst random_getReplacementIndex.simps) simp
qed

section \<open>SRRIP\<close>

definition srrip_inv :: "nat \<Rightarrow> srrip \<times> cache_set_info \<Rightarrow> bool" where
  "srrip_inv n st \<longleftrightarrow>
     n \<le> 256 \<and> length (rrip_bits (fst st)) = n \<and> unat (rrip_pointer (fst st)) < n \<and>
     rrip_insert (fst st) \<le> rrip_max (fst st) \<and> (\<forall>b \<in> set (rrip_bits (fst st)). b \<le> rrip_max (fst st)) \<and>
     0 < rrip_num_attempts (fst st) \<and> info_inv n (unat (rrip_num_attempts (fst st))) (snd st)"

lemma srrip_new_max:
  assumes "1 \<le> bits" "bits \<le> 8"
  shows "unat (rrip_max (srrip_new n bits num)) = 2 ^ unat bits - 1"
    and "unat (rrip_insert (srrip_new n bits num)) = 2 ^ unat bits - 2"
proof -
  let ?k = "unat bits" and ?m = "rrip_max (srrip_new n bits num)"
  have k: "1 \<le> ?k" "?k \<le> 8" using assms by (simp_all add: word_le_nat_alt)
  have "(2::nat) ^ ?k \<le> 2 ^ 8" "(2::nat) ^ 1 \<le> 2 ^ ?k" using k by (intro power_increasing; simp)+
  then have p: "(2::nat) ^ ?k \<le> 256" "2 \<le> (2::nat) ^ ?k" by simp_all
  have u: "unat (2 ^ ?k :: UInt32) = 2 ^ ?k" using k by (intro unat_2p) simp
  then have "1 \<le> (2 ^ ?k :: UInt32)" by (simp add: word_le_nat_alt)
  then have s: "unat ((2 ^ ?k :: UInt32) - 1) = 2 ^ ?k - 1" by (simp add: unat_sub u)
  then have "unat ?m = (2 ^ ?k - 1) mod 256"
    by (simp add: srrip_new_def Let_def push_bit_eq_mult unat_ucast_mod)
  with p show m: "unat ?m = 2 ^ ?k - 1" by simp
  then have "1 \<le> ?m" using p by (simp add: word_le_nat_alt)
  then have "unat (?m - 1) = 2 ^ ?k - 2" using m by (simp add: unat_sub)
  then show "unat (rrip_insert (srrip_new n bits num)) = 2 ^ ?k - 2" by (simp add: srrip_new_def Let_def)
qed

lemma srrip_inv_new:
  assumes "1 \<le> bits" "bits \<le> 8" "0 < n" "n \<le> 256" "0 < num"
  shows "srrip_inv n (srrip_new n bits num, CacheSetInfoLRU_new n num)"
proof -
  have "rrip_insert (srrip_new n bits num) \<le> rrip_max (srrip_new n bits num)"
    using srrip_new_max [OF assms(1,2)] by (simp add: word_le_nat_alt)
  moreover have "\<forall>b \<in> set (rrip_bits (srrip_new n bits num)). b = rrip_insert (srrip_new n bits num)"
    by (simp add: srrip_new_def Let_def)
  moreover have "rrip_num_attempts (srrip_new n bits num) = num" "rrip_pointer (srrip_new n bits num) = 0"
    "length (rrip_bits (srrip_new n bits num)) = n"
    by (simp_all add: srrip_new_def Let_def)
  ultimately show ?thesis using assms(3-5) by (auto simp: srrip_inv_def info_inv_new)
qed

lemma srrip_inv_set:
  assumes "srrip_inv n (s, info)" "v \<le> rrip_max s"
  shows "srrip_inv n (s\<lparr>rrip_bits := (rrip_bits s)[i := v]\<rparr>, info)"
  using assms by (auto simp: srrip_inv_def dest: set_update_subset_insert [THEN subsetD])

lemma srrip_inv_next:
  "srrip_inv n (s, info) \<Longrightarrow> srrip_inv n (s\<lparr>rrip_pointer := next_pointer n (rrip_pointer s)\<rparr>, info)"
  by (auto simp: srrip_inv_def unat_next_pointer)

lemma srrip_inv_info:
  assumes "srrip_inv n (s, info)" "si_incrementAttempt a info = Inr info'"
  shows "srrip_inv n (s, info')"
  using assms by (auto simp: srrip_inv_def info_inv_def si_incrementAttempt_def result_simps split: option.splits if_splits)

lemma srrip_inv_age: "srrip_inv n (s, info) \<Longrightarrow> srrip_inv n (srrip_age s, info)"
  by (auto simp: srrip_inv_def srrip_age_def intro: inc_le)

lemma srrip_evict_inv:
  assumes "srrip_inv (length blocks) (s, info)" "srrip_evict blocks info s attempt cost = Victim i s' info' cost'"
  shows "i < length blocks \<and> srrip_inv (length blocks) (s', info')"
proof -
  let ?next = "s\<lparr>rrip_pointer := next_pointer (length blocks) (rrip_pointer s)\<rparr>"
  have bounds: "unat (rrip_pointer s) < length blocks" "rrip_insert s \<le> rrip_max ?next"
    using assms(1) by (auto simp: srrip_inv_def)
  from assms(2) have s': "i = unat (rrip_pointer s)" "s' = ?next\<lparr>rrip_bits := (rrip_bits ?next)[i := rrip_insert s]\<rparr>"
    and info': "si_incrementAttempt attempt info = Inr info'"
    by (auto simp: srrip_evict_def Let_def split: sum.splits if_splits)
  from srrip_inv_info [OF srrip_inv_set [OF srrip_inv_next [OF assms(1)] bounds(2)] info'] bounds(1) s'
  show ?thesis by simp
qed

lemma srrip_inner_inv:
  assumes "srrip_inv (length blocks) (s, info)"
  shows "(\<forall>i s' info' cost'. srrip_inner cn blocks info s attempt cost k = Victim i s' info' cost' \<longrightarrow>
            i < length blocks \<and> srrip_inv (length blocks) (s', info')) \<and>
         (\<forall>s' attempt' cost'. srrip_inner cn blocks info s attempt cost k = Continue s' attempt' cost' \<longrightarrow>
            srrip_inv (length blocks) (s', info))"
  using assms
proof (induction k arbitrary: s attempt cost)
  case (Suc k)
  have evict: "\<And>s' attempt' cost'. srrip_evict blocks info s attempt cost \<noteq> Continue s' attempt' cost'"
    by (simp add: srrip_evict_def Let_def split: sum.splits)
  note IH = Suc.IH [OF srrip_inv_next [OF Suc.prems]] Suc.IH [OF srrip_inv_set [OF Suc.prems word_zero_le]]
  have victim: "\<forall>i s' info'. (\<exists>cost'. srrip_evict blocks info s attempt cost = Victim i s' info' cost') \<longrightarrow>
      i < length blocks \<and> srrip_inv (length blocks) (s', info')"
    using srrip_evict_inv [OF Suc.prems, of attempt cost] by blast
  show ?case
    using IH evict victim by (simp add: Let_def split: option.splits)
qed simp

lemma srrip_outer_inv:
  assumes "srrip_inv (length blocks) (s, info)"
    and "srrip_outer cn blocks info s attempt cost k = Inr (i, st', cost')"
  shows "i < length blocks \<and> srrip_inv (length blocks) st'"
  using assms
proof (induction k arbitrary: s attempt cost)
  case (Suc k)
  note inner = srrip_inner_inv [OF Suc.prems(1), of cn attempt cost "length blocks"]
  show ?case
  proof (cases "srrip_inner cn blocks info s attempt cost (length blocks)")
    case (Continue s1 a1 c1)
    with inner have "srrip_inv (length blocks) (srrip_age s1, info)" by (simp add: srrip_inv_age)
    from Suc.IH [OF this] Suc.prems(2) Continue show ?thesis by simp
  next
    case (Victim j s1 info1 c1)
    with inner Suc.prems(2) show ?thesis by auto
  next
    case (Fail e)
    with Suc.prems(2) show ?thesis by simp
  qed
qed simp

lemma srrip_get_inv:
  assumes "srrip_inv (length blocks) st" "srrip_getReplacementIndex cn blocks st = Inr (i, st', cost)"
  shows "i < length blocks \<and> srrip_inv (length blocks) st'"
proof -
  obtain s info where st: "st = (s, info)" by (cases st)
  show ?thesis
  proof (cases "first_invalid blocks")
    case None
    with assms(2) st have
      "srrip_outer cn blocks info s 0 0 (Suc (unat (rrip_max s))) = Inr (i, st', cost)"
      by (simp add: srrip_getReplacementIndex_def del: srrip_outer.simps)
    from srrip_outer_inv [OF _ this] assms(1) st show ?thesis by simp
  next
    case (Some j)
    with assms st first_invalid_Some [OF Some] show ?thesis
      by (auto simp: srrip_getReplacementIndex_def intro!: srrip_inv_set) (simp add: srrip_inv_def)
  qed
qed

lemma srrip_update_inv:
  assumes "srrip_inv n st" "srrip_updateReplacementIndex i st = Inr st'"
  shows "srrip_inv n st'"
proof -
  obtain s info where st: "st = (s, info)" by (cases st)
  with assms(2) obtain info' where i: "i < length (rrip_bits s)"
    and info': "si_increment (rrip_bits s ! i) info = Inr info'"
    and st': "st' = (if 0 < rrip_bits s ! i then s\<lparr>rrip_bits := (rrip_bits s)[i := rrip_bits s ! i - 1]\<rparr> else s, info')"
    by (auto simp: srrip_updateReplacementIndex_def result_simps)
  have "srrip_inv n (s, info')"
    using assms(1) info' st by (auto simp: srrip_inv_def info_inv_def si_increment_def result_simps)
  moreover have "rrip_bits s ! i - 1 \<le> rrip_max s" if "0 < rrip_bits s ! i"
  proof -
    have "rrip_bits s ! i \<le> rrip_max s" using assms(1) i st by (auto simp: srrip_inv_def)
    with that show ?thesis by (auto simp: word_le_nat_alt unat_sub word_gt_0 unat_gt_0 Suc_le_eq)
  qed
  ultimately show ?thesis using st' by (auto intro: srrip_inv_set)
qed

text \<open>
  Without QBS, SRRIP always finds a victim: after \<open>j\<close> agings every counter is at least \<open>j\<close>, so
  the last of the \<open>m_rrip_max + 1\<close> rounds meets a saturated counter.
\<close>

lemma srrip_inner_plain:
  assumes "srrip_inv (length blocks) (s, info)" "rrip_num_attempts s = 1"
    and "\<forall>i < length blocks. isValidReplacement blocks i"
  shows "(\<exists>i s' info'. srrip_inner cn blocks info s 0 cost k = Victim i s' info' cost) \<or>
    (\<exists>p. srrip_inner cn blocks info s 0 cost k = Continue (s\<lparr>rrip_pointer := p\<rparr>) 0 cost \<and>
      (0 < k \<longrightarrow> rrip_bits s ! unat (rrip_pointer s) < rrip_max s))"
  using assms(1,2)
proof (induction k arbitrary: s)
  case 0
  then show ?case by (auto intro: exI [of _ "rrip_pointer s"])
next
  case (Suc k)
  let ?next = "s\<lparr>rrip_pointer := next_pointer (length blocks) (rrip_pointer s)\<rparr>"
  show ?case
  proof (cases "rrip_bits s ! unat (rrip_pointer s) \<ge> rrip_max s")
    case True
    obtain info' where "si_incrementAttempt 0 info = Inr info'"
      using si_incrementAttempt_total [of "length blocks" 1 info 0] Suc.prems by (auto simp: srrip_inv_def)
    moreover have "unat (rrip_pointer s) < length blocks" using Suc.prems(1) by (simp add: srrip_inv_def)
    ultimately show ?thesis using True Suc.prems(2) assms(3) by (simp add: srrip_evict_def Let_def)
  next
    case False
    with Suc.IH [of ?next] Suc.prems srrip_inv_next [OF Suc.prems(1)] show ?thesis by auto
  qed
qed

lemma srrip_outer_plain:
  assumes "srrip_inv (length blocks) (s, info)" "rrip_num_attempts s = 1"
    and "\<forall>i < length blocks. isValidReplacement blocks i"
    and "\<forall>b \<in> set (rrip_bits s). unat (rrip_max s) \<le> unat b + k"
  shows "\<exists>i st'. srrip_outer cn blocks info s 0 cost (Suc k) = Inr (i, st', cost)"
  using assms(1,2,4)
proof (induction k arbitrary: s)
  case 0
  have n: "unat (rrip_pointer s) < length (rrip_bits s)" "length blocks > 0"
    using 0(1) by (auto simp: srrip_inv_def)
  with 0 have "rrip_max s \<le> rrip_bits s ! unat (rrip_pointer s)" by (simp add: word_le_nat_alt)
  with srrip_inner_plain [OF 0(1,2) assms(3), of cn cost "length blocks"] n(2) show ?case
    by (auto simp: not_less [symmetric])
next
  case (Suc k)
  from srrip_inner_plain [OF Suc.prems(1,2) assms(3), of cn cost "length blocks"]
  consider (victim) i s' info' where "srrip_inner cn blocks info s 0 cost (length blocks) = Victim i s' info' cost"
    | (continue) p where "srrip_inner cn blocks info s 0 cost (length blocks) = Continue (s\<lparr>rrip_pointer := p\<rparr>) 0 cost"
    by blast
  then show ?case
  proof cases
    case victim
    then show ?thesis by simp
  next
    case continue
    let ?s = "srrip_age (s\<lparr>rrip_pointer := p\<rparr>)"
    have "srrip_inv (length blocks) (s\<lparr>rrip_pointer := p\<rparr>, info)"
      using srrip_inner_inv [OF Suc.prems(1), of cn 0 cost "length blocks"] continue by simp
    then have "srrip_inv (length blocks) (?s, info)" by (rule srrip_inv_age)
    moreover have "rrip_num_attempts ?s = 1" using Suc.prems(2) by (simp add: srrip_age_def)
    moreover have "\<forall>b \<in> set (rrip_bits ?s). unat (rrip_max ?s) \<le> unat b + k"
      using Suc.prems(3) by (auto simp: srrip_age_def word_less_nat_alt unat_add_1_less not_less)
    ultimately obtain i st' where "srrip_outer cn blocks info ?s 0 cost (Suc k) = Inr (i, st', cost)"
      using Suc.IH by blast
    with continue show ?thesis by simp
  qed
qed

lemma srrip_get_total:
  assumes "srrip_inv (length blocks) st" "rrip_num_attempts (fst st) = 1"
    and "\<forall>i < length blocks. isValidReplacement blocks i"
  shows "\<exists>i st'. srrip_getReplacementIndex cn blocks st = Inr (i, st', 0)"
proof -
  obtain s info where st: "st = (s, info)" by (cases st)
  from srrip_outer_plain [of blocks s info "unat (rrip_max s)" cn 0] assms st show ?thesis
    by (cases "first_invalid blocks") (auto simp: srrip_getReplacementIndex_def simp del: srrip_outer.simps)
qed

text \<open>
  With QBS the rounds can be used up by rejections: a one-way set whose only block is also held
  closer to the core stops the simulation. The statistics index of an access is the RRIP counter,
  which the associativity does not bound: with two-bit counters the first hit in a two-way set
  fails the assertion of \<open>CacheSetInfoLRU::increment\<close>.
\<close>

lemma srrip_qbs_stops:
  "srrip_getReplacementIndex (Some (\<lambda>b. True)) [CacheBlockInfo_new PR_L2_CACHE 5 SHARED 0]
     (srrip_new 1 2 2, CacheSetInfoLRU_new 1 2) = Inl (Print_Error ''Error finding replacement index'')"
  by code_simp

lemma srrip_hit_stops:
  "srrip_updateReplacementIndex 0 (srrip_new 2 2 1, CacheSetInfoLRU_new 2 1) = Inl (Assert ''Index >= Associativity'')"
  by code_simp

end
