(* ===== verification/Replacement_Policy.thy ===== *)
theory Replacement_Policy
  imports Policy_Counters
begin

text \<open>
  The two virtual functions of \<open>CacheSet\<close> as an interface: \<open>getReplacementIndex\<close> and
  \<open>updateReplacementIndex\<close>. Each policy class is an instance of the contract, and so is the
  dispatch over the classes that \<open>CacheSet::createCacheSet\<close> can build.
\<close>

section \<open>The classes createCacheSet can build\<close>

datatype replacement_policy_t =
    ROUND_ROBIN | LRU | LRU_QBS | NRU | MRU | NMRU | PLRU | SRRIP | SRRIP_QBS | RANDOM

definition parsePolicyType :: "string \<Rightarrow> replacement_policy_t result" where
  "parsePolicyType policy =
     (if policy = ''round_robin'' then Inr ROUND_ROBIN
      else if policy = ''lru'' then Inr LRU
      else if policy = ''lru_qbs'' then Inr LRU_QBS
      else if policy = ''nru'' then Inr NRU
      else if policy = ''mru'' then Inr MRU
      else if policy = ''nmru'' then Inr NMRU
      else if policy = ''plru'' then Inr PLRU
      else if policy = ''srrip'' then Inr SRRIP
      else if policy = ''srrip_qbs'' then Inr SRRIP_QBS
      else if policy = ''random'' then Inr RANDOM
      else Inl (Print_Error ''Unknown replacement policy''))"

text \<open>The configuration keys a set reads: \<open>qbs/attempts\<close>, \<open>srrip/bits\<close>, and the clock that seeds Random.\<close>

record set_cfg =
  cfg_qbs_attempts :: UInt8
  cfg_srrip_bits :: UInt8
  cfg_time :: UInt32

definition getNumQBSAttempts :: "replacement_policy_t \<Rightarrow> set_cfg \<Rightarrow> UInt8" where
  "getNumQBSAttempts policy cfg =
     (if policy = LRU_QBS \<or> policy = SRRIP_QBS then cfg_qbs_attempts cfg else 1)"

datatype policy =
    CacheSetRoundRobin UInt32
  | CacheSetLRU lru
  | CacheSetNRU nru
  | CacheSetMRU "UInt8 list"
  | CacheSetNMRU nmru
  | CacheSetPLRU plru
  | CacheSetSRRIP srrip
  | CacheSetRandom random

definition createPolicy :: "replacement_policy_t \<Rightarrow> set_cfg \<Rightarrow> nat \<Rightarrow> policy result" where
  "createPolicy policy cfg associativity =
     (case policy of
        ROUND_ROBIN \<Rightarrow> Inr (CacheSetRoundRobin (of_nat associativity - 1))
      | LRU \<Rightarrow> Inr (CacheSetLRU (lru_new associativity (getNumQBSAttempts policy cfg)))
      | LRU_QBS \<Rightarrow> Inr (CacheSetLRU (lru_new associativity (getNumQBSAttempts policy cfg)))
      | NRU \<Rightarrow> Inr (CacheSetNRU (nru_new associativity))
      | MRU \<Rightarrow> Inr (CacheSetMRU (age_init associativity))
      | NMRU \<Rightarrow> Inr (CacheSetNMRU (nmru_new associativity))
      | PLRU \<Rightarrow> mapE CacheSetPLRU (plru_new associativity)
      | SRRIP \<Rightarrow> Inr (CacheSetSRRIP (srrip_new associativity (cfg_srrip_bits cfg) (getNumQBSAttempts policy cfg)))
      | SRRIP_QBS \<Rightarrow> Inr (CacheSetSRRIP (srrip_new associativity (cfg_srrip_bits cfg) (getNumQBSAttempts policy cfg)))
      | RANDOM \<Rightarrow> Inr (CacheSetRandom (Random_seed (cfg_time cfg) Random_new)))"

definition createCacheSetInfo :: "replacement_policy_t \<Rightarrow> set_cfg \<Rightarrow> nat \<Rightarrow> cache_set_info option" where
  "createCacheSetInfo policy cfg associativity =
     (if policy \<in> {LRU, LRU_QBS, SRRIP, SRRIP_QBS}
      then Some (CacheSetInfoLRU_new associativity (getNumQBSAttempts policy cfg))
      else None)"

section \<open>Virtual dispatch\<close>

text \<open>
  The state of a call is the policy object of the set and the statistics object, which all sets of
  a cache share; the last component of the result is the number of QBS look-ups.
\<close>

type_synonym policy_state = "policy \<times> cache_set_info option"

definition no_cost :: "('s \<Rightarrow> policy) \<Rightarrow> cache_set_info option \<Rightarrow> (nat \<times> 's) result \<Rightarrow> (nat \<times> policy_state \<times> nat) result" where
  "no_cost C info r = mapE (\<lambda>(i, s). (i, (C s, info), 0)) r"

definition with_info :: "('s \<Rightarrow> policy) \<Rightarrow> cache_set_info option
  \<Rightarrow> (cache_set_info \<Rightarrow> (nat \<times> ('s \<times> cache_set_info) \<times> nat) result) \<Rightarrow> (nat \<times> policy_state \<times> nat) result" where
  "with_info C info f =
     (case info of
        None \<Rightarrow> Inl (Undefined ''null dereference'')
      | Some si \<Rightarrow> mapE (\<lambda>(i, (s, si'), cost). (i, (C s, Some si'), cost)) (f si))"

definition returning :: "'a result option \<Rightarrow> 'a result" where
  "returning r = (case r of None \<Rightarrow> Inl Diverges | Some x \<Rightarrow> x)"

definition getReplacementIndex ::
  "cntlr option \<Rightarrow> block_info list \<Rightarrow> policy_state \<Rightarrow> (nat \<times> policy_state \<times> nat) result" where
  "getReplacementIndex cn blocks st =
     (let (p, info) = st
      in case p of
           CacheSetRoundRobin s \<Rightarrow>
             no_cost CacheSetRoundRobin info (returning (map_option Inr (rr_getReplacementIndex blocks s)))
         | CacheSetLRU s \<Rightarrow> with_info CacheSetLRU info (\<lambda>si. lru_getReplacementIndex cn blocks (s, si))
         | CacheSetNRU s \<Rightarrow> no_cost CacheSetNRU info (nru_getReplacementIndex blocks s)
         | CacheSetMRU s \<Rightarrow> no_cost CacheSetMRU info (mru_getReplacementIndex blocks s)
         | CacheSetNMRU s \<Rightarrow> no_cost CacheSetNMRU info (nmru_getReplacementIndex blocks s)
         | CacheSetPLRU s \<Rightarrow> no_cost CacheSetPLRU info (plru_getReplacementIndex blocks s)
         | CacheSetSRRIP s \<Rightarrow> with_info CacheSetSRRIP info (\<lambda>si. srrip_getReplacementIndex cn blocks (s, si))
         | CacheSetRandom s \<Rightarrow> no_cost CacheSetRandom info (returning (random_getReplacementIndex blocks s)))"

definition updateReplacementIndex :: "nat \<Rightarrow> nat \<Rightarrow> policy_state \<Rightarrow> policy_state result" where
  "updateReplacementIndex n accessed_index st =
     (let (p, info) = st
      in case p of
           CacheSetRoundRobin s \<Rightarrow> Inr st
         | CacheSetLRU s \<Rightarrow>
             (case info of
                None \<Rightarrow> Inl (Undefined ''null dereference'')
              | Some si \<Rightarrow> mapE (\<lambda>(s', si'). (CacheSetLRU s', Some si')) (lru_updateReplacementIndex accessed_index (s, si)))
         | CacheSetNRU s \<Rightarrow> Inr (CacheSetNRU (nru_updateReplacementIndex accessed_index s), info)
         | CacheSetMRU s \<Rightarrow> mapE (\<lambda>s'. (CacheSetMRU s', info)) (age_updateReplacementIndex accessed_index s)
         | CacheSetNMRU s \<Rightarrow> mapE (\<lambda>s'. (CacheSetNMRU s', info)) (nmru_updateReplacementIndex accessed_index s)
         | CacheSetPLRU s \<Rightarrow> mapE (\<lambda>s'. (CacheSetPLRU s', info)) (plru_updateReplacementIndex n accessed_index s)
         | CacheSetSRRIP s \<Rightarrow>
             (case info of
                None \<Rightarrow> Inl (Undefined ''null dereference'')
              | Some si \<Rightarrow> mapE (\<lambda>(s', si'). (CacheSetSRRIP s', Some si')) (srrip_updateReplacementIndex accessed_index (s, si)))
         | CacheSetRandom s \<Rightarrow> Inr st)"

section \<open>The contract\<close>

text \<open>
  What a cache set relies on: a victim is a way of the set, and both calls keep the policy's
  invariant (which does not depend on the blocks).
\<close>

locale replacement_policy =
  fixes get :: "cntlr option \<Rightarrow> block_info list \<Rightarrow> 's \<Rightarrow> (nat \<times> 's \<times> nat) result"
    and upd :: "nat \<Rightarrow> nat \<Rightarrow> 's \<Rightarrow> 's result"
    and inv :: "nat \<Rightarrow> 's \<Rightarrow> bool"
  assumes get_ok: "inv (length blocks) s \<Longrightarrow> get cn blocks s = Inr (i, s', cost) \<Longrightarrow>
      i < length blocks \<and> inv (length blocks) s'"
    and upd_ok: "inv n s \<Longrightarrow> i < n \<Longrightarrow> upd n i s = Inr s' \<Longrightarrow> inv n s'"

text \<open>The policies that fill invalid ways before they evict.\<close>

locale fills_invalid_first = replacement_policy +
  assumes get_invalid: "first_invalid blocks = Some j \<Longrightarrow> get cn blocks s = Inr (i, s', cost) \<Longrightarrow> i = j"

text \<open>
  The policies that cannot stop while no line of the set is being upgraded (a controller being
  present).
\<close>

locale never_stuck = replacement_policy +
  assumes get_total: "inv (length blocks) s \<Longrightarrow> blocks \<noteq> [] \<Longrightarrow>
      \<forall>i < length blocks. isValidReplacement blocks i \<Longrightarrow>
      \<exists>i s' cost. get (Some c) blocks s = Inr (i, s', cost)"

section \<open>The policy classes meet the contract\<close>

lemma lru_attempts_inv:
  assumes "length blocks = n" "age_inv n bits" "info_inv n num info"
    and "lru_attempts cn blocks num r bits info cost = Inr (i, bits', info', cost')"
  shows "i < n \<and> age_inv n bits' \<and> info_inv n num info'"
  using assms(2-)
proof (induction r arbitrary: bits info cost)
  case (Suc r)
  let ?i = "fst (lru_scan bits blocks n)"
  from Suc.prems(3) assms(1) have i: "?i < n" by (auto simp: Let_def result_simps)
  then have age: "age_inv n (moveToMRU ?i bits)" using Suc.prems(1) by (intro age_inv_moveToMRU)
  have attempt: "si_incrementAttempt (num - Suc r) info = Inr info'' \<Longrightarrow> info_inv n num info''" for info''
    using Suc.prems(2) by (auto simp: info_inv_def si_incrementAttempt_def result_simps split: option.splits if_splits)
  from Suc.prems(3) assms(1) i consider
    (again) "lru_attempts cn blocks num r (moveToMRU ?i bits) info (Suc cost) = Inr (i, bits', info', cost')"
  | (evict) info'' where "si_incrementAttempt (num - Suc r) info = Inr info''"
      "(i, bits', info', cost') = (?i, moveToMRU ?i bits, info'', cost)"
    by (auto simp: Let_def result_simps split: if_splits option.splits)
  then show ?case
  proof cases
    case again
    from Suc.IH [OF age Suc.prems(2) again] show ?thesis .
  next
    case evict
    with i age attempt show ?thesis by simp
  qed
qed simp

lemma lru_get_inv:
  assumes "lru_inv (length blocks) st" "lru_getReplacementIndex cn blocks st = Inr (i, st', cost)"
  shows "i < length blocks \<and> lru_inv (length blocks) st'"
proof -
  obtain s info where st: "st = (s, info)" by (cases st)
  show ?thesis
  proof (cases "first_invalid blocks")
    case None
    with assms(2) st obtain bits' info' where
      a: "lru_attempts cn blocks (unat (lru_num_attempts s)) (unat (lru_num_attempts s)) (lru_bits s) info 0
        = Inr (i, bits', info', cost)" and st': "st' = (s\<lparr>lru_bits := bits'\<rparr>, info')"
      by (auto simp: lru_getReplacementIndex_def result_simps)
    from lru_attempts_inv [OF refl _ _ a] assms(1) st st' show ?thesis by (simp add: lru_inv_def)
  next
    case (Some j)
    with assms st first_invalid_Some [OF Some] show ?thesis
      by (auto simp: lru_getReplacementIndex_def lru_inv_def age_inv_moveToMRU)
  qed
qed

interpretation lru: never_stuck lru_getReplacementIndex "\<lambda>n. lru_updateReplacementIndex" lru_inv
proof unfold_locales
  fix blocks :: "block_info list" and st c assume "lru_inv (length blocks) st" "blocks \<noteq> []"
  then show "\<exists>i s' cost. lru_getReplacementIndex (Some c) blocks st = Inr (i, s', cost)"
    using lru_get_total [of blocks st "Some c"] by blast
next
  fix n st i st' assume "lru_inv n st" "i < n" "lru_updateReplacementIndex i st = Inr st'"
  then show "lru_inv n st'" using lru_update_total by fastforce
qed (rule lru_get_inv)

interpretation lru: fills_invalid_first lru_getReplacementIndex "\<lambda>n. lru_updateReplacementIndex" lru_inv
  by unfold_locales (auto simp: lru_getReplacementIndex_def split: prod.splits)

text \<open>The policies without statistics, at the type of the interface.\<close>

definition plain :: "(block_info list \<Rightarrow> 's \<Rightarrow> (nat \<times> 's) result)
  \<Rightarrow> cntlr option \<Rightarrow> block_info list \<Rightarrow> 's \<Rightarrow> (nat \<times> 's \<times> nat) result" where
  "plain f cn blocks s = mapE (\<lambda>(i, s'). (i, s', 0)) (f blocks s)"

lemma plain_Inr: "plain f cn blocks s = Inr (i, s', cost) \<longleftrightarrow> f blocks s = Inr (i, s') \<and> cost = 0"
  by (auto simp: plain_def result_simps)

interpretation nru: never_stuck "plain nru_getReplacementIndex" "\<lambda>n i s. Inr (nru_updateReplacementIndex i s)" nru_inv
proof unfold_locales
  fix blocks :: "block_info list" and s c
  assume "nru_inv (length blocks) s" "blocks \<noteq> []" "\<forall>i < length blocks. isValidReplacement blocks i"
  then show "\<exists>i s' cost. plain nru_getReplacementIndex (Some c) blocks s = Inr (i, s', cost)"
    using nru_get_total [of blocks s 0] by (auto simp: plain_Inr)
qed (auto simp: plain_Inr nru_inv_update dest: nru_get_inv)

interpretation nru: fills_invalid_first "plain nru_getReplacementIndex" "\<lambda>n i s. Inr (nru_updateReplacementIndex i s)" nru_inv
  by unfold_locales (simp add: plain_Inr nru_getReplacementIndex_def)

interpretation mru: never_stuck "plain mru_getReplacementIndex" "\<lambda>n. age_updateReplacementIndex" age_inv
proof unfold_locales
  fix blocks :: "block_info list" and s c
  assume "age_inv (length blocks) s" "blocks \<noteq> []" "\<forall>i < length blocks. isValidReplacement blocks i"
  then have "\<exists>i. mru_getReplacementIndex blocks s = Inr (i, moveToMRU i s)"
    using mru_get_total [of blocks s] by (metis length_greater_0_conv)
  then show "\<exists>i s' cost. plain mru_getReplacementIndex (Some c) blocks s = Inr (i, s', cost)"
    by (auto simp: plain_Inr)
qed (auto simp: plain_Inr age_updateReplacementIndex_def result_simps age_inv_moveToMRU dest: mru_get_inv)

interpretation mru: fills_invalid_first "plain mru_getReplacementIndex" "\<lambda>n. age_updateReplacementIndex" age_inv
  by unfold_locales (simp add: plain_Inr mru_getReplacementIndex_def)

lemma nmru_update_inv: "nmru_updateReplacementIndex i s = Inr s' \<Longrightarrow> i < n \<Longrightarrow> nmru_inv n s \<Longrightarrow> nmru_inv n s'"
  by (auto simp: nmru_updateReplacementIndex_def age_updateReplacementIndex_def result_simps
      nmru_inv_def age_inv_moveToMRU)

interpretation nmru: never_stuck "plain nmru_getReplacementIndex" "\<lambda>n. nmru_updateReplacementIndex"
  "\<lambda>n s. 2 \<le> n \<and> nmru_inv n s"
proof unfold_locales
  fix blocks :: "block_info list" and s c
  assume inv: "2 \<le> length blocks \<and> nmru_inv (length blocks) s" "\<forall>i < length blocks. isValidReplacement blocks i"
  have "nmru_bits s ! 0 \<noteq> nmru_bits s ! 1"
    using inv(1) by (subst nth_eq_iff_index_eq) (auto simp: nmru_inv_def age_inv_def)
  then have "nmru_bits s ! 0 \<noteq> 0 \<or> nmru_bits s ! 1 \<noteq> 0" by auto
  moreover have "0 < length blocks" "1 < length blocks" using inv(1) by linarith+
  ultimately have "\<exists>i < length blocks. nmru_bits s ! i \<noteq> 0 \<and> isValidReplacement blocks i"
    using inv(2) by blast
  with inv(1) nmru_get_total [of blocks s]
  show "\<exists>i s' cost. plain nmru_getReplacementIndex (Some c) blocks s = Inr (i, s', cost)"
    by (auto simp: plain_Inr)
qed (auto simp: plain_Inr dest: nmru_get_inv nmru_update_inv)

interpretation nmru: fills_invalid_first "plain nmru_getReplacementIndex" "\<lambda>n. nmru_updateReplacementIndex"
  "\<lambda>n s. 2 \<le> n \<and> nmru_inv n s"
  by unfold_locales (simp add: plain_Inr nmru_getReplacementIndex_def)

definition plru_inv :: "nat \<Rightarrow> plru \<Rightarrow> bool" where
  "plru_inv n b \<longleftrightarrow> length b = 8 \<and> (n = 4 \<or> n = 8)"

interpretation plru: never_stuck "plain plru_getReplacementIndex" plru_updateReplacementIndex plru_inv
proof unfold_locales
  fix blocks :: "block_info list" and s c
  assume "plru_inv (length blocks) s" "\<forall>i < length blocks. isValidReplacement blocks i"
  then show "\<exists>i s' cost. plain plru_getReplacementIndex (Some c) blocks s = Inr (i, s', cost)"
    using plru_get_total [of s blocks] by (auto simp: plain_Inr plru_inv_def)
next
  fix n i and s s' :: plru assume "plru_inv n s" "i < n" "plru_updateReplacementIndex n i s = Inr s'"
  with plru_not_most_recent [of s n i] show "plru_inv n s'" by (auto simp: plru_inv_def)
qed (auto simp: plain_Inr plru_inv_def dest: plru_get_inv)

interpretation plru: fills_invalid_first "plain plru_getReplacementIndex" plru_updateReplacementIndex plru_inv
  by unfold_locales (auto simp: plain_Inr plru_getReplacementIndex_def result_simps)

definition rr_get :: "block_info list \<Rightarrow> UInt32 \<Rightarrow> (nat \<times> UInt32) result" where
  "rr_get blocks s = returning (map_option Inr (rr_getReplacementIndex blocks s))"

lemma rr_get_Inr: "rr_get blocks s = Inr y \<longleftrightarrow> rr_getReplacementIndex blocks s = Some y"
  by (auto simp: rr_get_def returning_def split: option.splits)

interpretation rr: never_stuck "plain rr_get" "\<lambda>n i s. Inr s" rr_inv
proof unfold_locales
  fix blocks :: "block_info list" and s c
  assume "rr_inv (length blocks) s" "blocks \<noteq> []" "\<forall>i < length blocks. isValidReplacement blocks i"
  then show "\<exists>i s' cost. plain rr_get (Some c) blocks s = Inr (i, s', cost)"
    using rr_returns [of blocks 0 s] by (auto simp: plain_Inr rr_get_Inr)
qed (auto simp: plain_Inr rr_get_Inr dest: rr_get_inv)

definition random_get :: "block_info list \<Rightarrow> random \<Rightarrow> (nat \<times> random) result" where
  "random_get blocks s = returning (random_getReplacementIndex blocks s)"

lemma random_get_Inr: "random_get blocks s = Inr y \<longleftrightarrow> random_getReplacementIndex blocks s = Some (Inr y)"
  by (auto simp: random_get_def returning_def split: option.splits)

interpretation random: never_stuck "plain random_get" "\<lambda>n i s. Inr s" "\<lambda>n s. True"
proof unfold_locales
  fix blocks :: "block_info list" and s c
  assume "blocks \<noteq> []" "\<forall>i < length blocks. isValidReplacement blocks i"
  then show "\<exists>i s' cost. plain random_get (Some c) blocks s = Inr (i, s', cost)"
    using random_get_total [of blocks s] by (auto simp: plain_Inr random_get_Inr)
qed (auto simp: plain_Inr random_get_Inr dest: random_get_inv)

interpretation random: fills_invalid_first "plain random_get" "\<lambda>n i s. Inr s" "\<lambda>n s. True"
  by unfold_locales (auto simp: plain_Inr random_get_def returning_def random_getReplacementIndex.simps)

interpretation srrip: fills_invalid_first srrip_getReplacementIndex "\<lambda>n. srrip_updateReplacementIndex" srrip_inv
  by unfold_locales (auto simp: srrip_getReplacementIndex_def split: prod.splits dest: srrip_get_inv srrip_update_inv)

lemma srrip_inner_attempts:
  "(\<forall>i s' info' cost'. srrip_inner cn blocks info s attempt cost k = Victim i s' info' cost' \<longrightarrow>
      rrip_num_attempts s' = rrip_num_attempts s) \<and>
   (\<forall>s' attempt' cost'. srrip_inner cn blocks info s attempt cost k = Continue s' attempt' cost' \<longrightarrow>
      rrip_num_attempts s' = rrip_num_attempts s)"
proof (induction k arbitrary: s attempt cost)
  case (Suc k)
  have evict: "\<And>s' a' c'. srrip_evict blocks info s attempt cost \<noteq> Continue s' a' c'"
    and victim: "\<And>i s' info' c'. srrip_evict blocks info s attempt cost = Victim i s' info' c' \<Longrightarrow>
      rrip_num_attempts s' = rrip_num_attempts s"
    by (auto simp: srrip_evict_def Let_def split: sum.splits if_splits)
  show ?case using Suc.IH evict by (simp add: Let_def split: option.splits) (use victim in blast)
qed simp

lemma srrip_outer_attempts:
  "srrip_outer cn blocks info s attempt cost k = Inr (i, st', cost') \<Longrightarrow>
   rrip_num_attempts (fst st') = rrip_num_attempts s"
proof (induction k arbitrary: s attempt cost)
  case (Suc k)
  note inner = srrip_inner_attempts [of cn blocks info s attempt cost "length blocks"]
  show ?case
  proof (cases "srrip_inner cn blocks info s attempt cost (length blocks)")
    case (Continue s1 a1 c1)
    with Suc.IH [of "srrip_age s1" a1 c1] Suc.prems inner show ?thesis by (simp add: srrip_age_def)
  next
    case (Victim j s1 info1 c1)
    with inner Suc.prems show ?thesis by auto
  next
    case (Fail e)
    with Suc.prems show ?thesis by simp
  qed
qed simp

lemma srrip_get_attempts:
  assumes "srrip_getReplacementIndex cn blocks st = Inr (i, st', cost)"
  shows "rrip_num_attempts (fst st') = rrip_num_attempts (fst st)"
  using assms srrip_outer_attempts
  by (auto simp: srrip_getReplacementIndex_def simp del: srrip_outer.simps split: option.splits prod.splits)

definition srrip_plain_inv :: "nat \<Rightarrow> srrip \<times> cache_set_info \<Rightarrow> bool" where
  "srrip_plain_inv n st \<longleftrightarrow> srrip_inv n st \<and> rrip_num_attempts (fst st) = 1"

interpretation srrip_plain: never_stuck srrip_getReplacementIndex "\<lambda>n. srrip_updateReplacementIndex" srrip_plain_inv
proof unfold_locales
  fix n i and st st' :: "srrip \<times> cache_set_info"
  assume "srrip_plain_inv n st" "srrip_updateReplacementIndex i st = Inr st'"
  then show "srrip_plain_inv n st'"
    using srrip_update_inv [of n st i st']
    by (auto simp: srrip_plain_inv_def srrip_updateReplacementIndex_def result_simps split: prod.splits if_splits)
next
  fix blocks :: "block_info list" and st c
  assume "srrip_plain_inv (length blocks) st" "\<forall>i < length blocks. isValidReplacement blocks i"
  then show "\<exists>i st' cost. srrip_getReplacementIndex (Some c) blocks st = Inr (i, st', cost)"
    using srrip_get_total [of blocks st "Some c"] by (auto simp: srrip_plain_inv_def)
qed (auto simp: srrip_plain_inv_def srrip_get_attempts dest: srrip_get_inv)

section \<open>The dispatch meets the contract\<close>

definition policy_inv :: "nat \<Rightarrow> policy_state \<Rightarrow> bool" where
  "policy_inv n st =
     (case st of
        (CacheSetRoundRobin s, info) \<Rightarrow> rr_inv n s
      | (CacheSetLRU s, Some si) \<Rightarrow> lru_inv n (s, si)
      | (CacheSetLRU s, None) \<Rightarrow> False
      | (CacheSetNRU s, info) \<Rightarrow> nru_inv n s
      | (CacheSetMRU s, info) \<Rightarrow> age_inv n s
      | (CacheSetNMRU s, info) \<Rightarrow> 2 \<le> n \<and> nmru_inv n s
      | (CacheSetPLRU s, info) \<Rightarrow> plru_inv n s
      | (CacheSetSRRIP s, Some si) \<Rightarrow> srrip_inv n (s, si)
      | (CacheSetSRRIP s, None) \<Rightarrow> False
      | (CacheSetRandom s, info) \<Rightarrow> True)"

lemma no_cost_Inr: "no_cost C info r = Inr (i, st, cost) \<longleftrightarrow> (\<exists>s. r = Inr (i, s) \<and> st = (C s, info) \<and> cost = 0)"
  by (auto simp: no_cost_def result_simps)

lemma with_info_Inr:
  "with_info C info f = Inr (i, st, cost) \<longleftrightarrow>
     (\<exists>si s si'. info = Some si \<and> f si = Inr (i, (s, si'), cost) \<and> st = (C s, Some si'))"
  by (cases info) (auto simp: with_info_def result_simps)

lemmas dispatch_simps = no_cost_Inr with_info_Inr result_simps rr_get_def [symmetric] random_get_def [symmetric]

lemma policy_get_ok:
  assumes "policy_inv (length blocks) st" "getReplacementIndex cn blocks st = Inr (i, st', cost)"
  shows "i < length blocks \<and> policy_inv (length blocks) st'"
proof -
  obtain p info where st: "st = (p, info)" by (cases st)
  show ?thesis
  proof (cases p)
    case (CacheSetRoundRobin s)
    then show ?thesis using assms st rr.get_ok [of blocks s cn i _ 0]
      by (auto simp: getReplacementIndex_def policy_inv_def dispatch_simps plain_Inr)
  next
    case (CacheSetLRU s)
    then show ?thesis using assms st lru.get_ok
      by (auto simp: getReplacementIndex_def policy_inv_def dispatch_simps)
  next
    case (CacheSetNRU s)
    then show ?thesis using assms st nru.get_ok [of blocks s cn i _ 0]
      by (auto simp: getReplacementIndex_def policy_inv_def dispatch_simps plain_Inr)
  next
    case (CacheSetMRU s)
    then show ?thesis using assms st mru.get_ok [of blocks s cn i _ 0]
      by (auto simp: getReplacementIndex_def policy_inv_def dispatch_simps plain_Inr)
  next
    case (CacheSetNMRU s)
    then show ?thesis using assms st nmru.get_ok [of blocks s cn i _ 0]
      by (auto simp: getReplacementIndex_def policy_inv_def dispatch_simps plain_Inr)
  next
    case (CacheSetPLRU s)
    then show ?thesis using assms st plru.get_ok [of blocks s cn i _ 0]
      by (auto simp: getReplacementIndex_def policy_inv_def dispatch_simps plain_Inr)
  next
    case (CacheSetSRRIP s)
    then show ?thesis using assms st srrip.get_ok
      by (auto simp: getReplacementIndex_def policy_inv_def dispatch_simps)
  next
    case (CacheSetRandom s)
    then show ?thesis using assms st random.get_ok [of cn blocks s i _ 0]
      by (auto simp: getReplacementIndex_def policy_inv_def dispatch_simps plain_Inr)
  qed
qed

lemma policy_upd_ok:
  assumes "policy_inv n st" "i < n" "updateReplacementIndex n i st = Inr st'"
  shows "policy_inv n st'"
proof -
  obtain p info where st: "st = (p, info)" by (cases st)
  show ?thesis
    using assms st lru.upd_ok nru.upd_ok mru.upd_ok nmru.upd_ok plru.upd_ok srrip.upd_ok
    by (cases p) (auto simp: updateReplacementIndex_def policy_inv_def result_simps split: option.splits)
qed

interpretation policy: replacement_policy getReplacementIndex updateReplacementIndex policy_inv
  by unfold_locales (use policy_get_ok policy_upd_ok in blast)+

text \<open>
  Every policy that \<open>createCacheSet\<close> builds starts in its invariant, for up to 256 ways (the
  counters are 8 bits wide), two ways at least for NMRU and 1 to 8 counter bits for SRRIP.
\<close>

lemma createPolicy_inv:
  assumes "createPolicy ty cfg n = Inr p" "0 < n" "n \<le> 256" "ty = NMRU \<Longrightarrow> 2 \<le> n"
    and "ty = LRU_QBS \<or> ty = SRRIP_QBS \<Longrightarrow> 0 < cfg_qbs_attempts cfg"
    and "ty = SRRIP \<or> ty = SRRIP_QBS \<Longrightarrow> 1 \<le> cfg_srrip_bits cfg \<and> cfg_srrip_bits cfg \<le> 8"
  shows "policy_inv n (p, createCacheSetInfo ty cfg n)"
proof -
  have rr: "rr_inv n (of_nat n - 1)"
  proof -
    have "unat (of_nat n :: UInt32) = n" using assms(3) by (intro unat_of_nat_le) simp
    moreover from this have "1 \<le> (of_nat n :: UInt32)" using assms(2) by (simp add: word_le_nat_alt)
    ultimately show ?thesis using assms(2,3) by (simp add: rr_inv_def unat_sub)
  qed
  show ?thesis
    using assms rr
    by (cases ty) (auto simp: createPolicy_def policy_inv_def createCacheSetInfo_def getNumQBSAttempts_def
        lru_inv_new nru_inv_new age_inv_init nmru_inv_new plru_inv_def plru_new_def srrip_inv_new result_simps)
qed

text \<open>The dispatch does not stop while no line is being upgraded, unless SRRIP uses QBS.\<close>

definition policy_live_inv :: "nat \<Rightarrow> policy_state \<Rightarrow> bool" where
  "policy_live_inv n st \<longleftrightarrow>
     policy_inv n st \<and> (case fst st of CacheSetSRRIP s \<Rightarrow> rrip_num_attempts s = 1 | _ \<Rightarrow> True)"

lemma policy_get_total:
  assumes "policy_live_inv (length blocks) st" "blocks \<noteq> []" "\<forall>i < length blocks. isValidReplacement blocks i"
  shows "\<exists>i st' cost. getReplacementIndex (Some c) blocks st = Inr (i, st', cost)"
proof -
  obtain p info where st: "st = (p, info)" by (cases st)
  note total = rr.get_total [OF _ assms(2,3)] lru.get_total [OF _ assms(2,3)] nru.get_total [OF _ assms(2,3)]
    mru.get_total [OF _ assms(2,3)] nmru.get_total [OF _ assms(2,3)] plru.get_total [OF _ assms(2,3)]
    random.get_total [OF TrueI assms(2,3)] srrip_plain.get_total [OF _ assms(2,3)]
  have "\<exists>i st' cost. getReplacementIndex (Some c) blocks (p, info) = Inr (i, st', cost)"
    if inv: "policy_live_inv (length blocks) (p, info)"
  proof (cases p)
    case (CacheSetLRU s)
    with inv obtain si where "info = Some si" "lru_inv (length blocks) (s, si)"
      by (auto simp: policy_live_inv_def policy_inv_def split: option.splits)
    with CacheSetLRU total(2) [of "(s, si)" c] show ?thesis by (auto simp: getReplacementIndex_def with_info_def)
  next
    case (CacheSetSRRIP s)
    with inv obtain si where "info = Some si" "srrip_plain_inv (length blocks) (s, si)"
      by (auto simp: policy_live_inv_def policy_inv_def srrip_plain_inv_def split: option.splits)
    with CacheSetSRRIP total(8) [of "(s, si)" c] show ?thesis by (auto simp: getReplacementIndex_def with_info_def)
  next
    case (CacheSetRandom s)
    with total(7) [of c s] show ?thesis by (auto simp: getReplacementIndex_def dispatch_simps plain_Inr)
  next
    case (CacheSetRoundRobin s)
    with total(1) [of s c] inv show ?thesis
      by (auto simp: getReplacementIndex_def dispatch_simps plain_Inr policy_live_inv_def policy_inv_def)
  next
    case (CacheSetNRU s)
    with total(3) [of s c] inv show ?thesis
      by (auto simp: getReplacementIndex_def dispatch_simps plain_Inr policy_live_inv_def policy_inv_def)
  next
    case (CacheSetMRU s)
    with total(4) [of s c] inv show ?thesis
      by (auto simp: getReplacementIndex_def dispatch_simps plain_Inr policy_live_inv_def policy_inv_def)
  next
    case (CacheSetNMRU s)
    with total(5) [of s c] inv show ?thesis
      by (auto simp: getReplacementIndex_def dispatch_simps plain_Inr policy_live_inv_def policy_inv_def)
  next
    case (CacheSetPLRU s)
    with total(6) [of s c] inv show ?thesis
      by (auto simp: getReplacementIndex_def dispatch_simps plain_Inr policy_live_inv_def policy_inv_def)
  qed
  with assms(1) st show ?thesis by blast
qed

section \<open>Sharing the statistics object\<close>

text \<open>
  All sets of a cache update one statistics object. A call for one set changes its counts but not
  its dimensions, and the invariants of the other sets only depend on the dimensions.
\<close>

definition info_shape :: "cache_set_info option \<Rightarrow> (nat \<times> nat \<times> nat option) option" where
  "info_shape info =
     map_option (\<lambda>si. (si_associativity si, length (si_access si), map_option length (si_attempts si))) info"

lemma info_inv_shape:
  assumes "info_shape (Some si) = info_shape (Some si')"
  shows "info_inv n num si = info_inv n num si'"
  using assms by (cases "si_attempts si"; cases "si_attempts si'") (auto simp: info_shape_def info_inv_def)

lemma policy_inv_shape:
  assumes "info_shape info = info_shape info'"
  shows "policy_inv n (p, info) = policy_inv n (p, info')"
proof (cases info)
  case None
  with assms have "info' = None" by (auto simp: info_shape_def)
  with None show ?thesis by simp
next
  case (Some si)
  with assms obtain si' where "info' = Some si'" by (cases info') (auto simp: info_shape_def)
  with assms Some info_inv_shape [of si si'] show ?thesis
    by (cases p) (auto simp: policy_inv_def lru_inv_def srrip_inv_def)
qed

lemma incrementAttempt_shape: "si_incrementAttempt a si = Inr si' \<Longrightarrow> info_shape (Some si') = info_shape (Some si)"
  by (auto simp: si_incrementAttempt_def info_shape_def result_simps split: option.splits)

lemma increment_shape: "si_increment b si = Inr si' \<Longrightarrow> info_shape (Some si') = info_shape (Some si)"
  by (auto simp: si_increment_def info_shape_def result_simps)

lemma lru_attempts_shape:
  "lru_attempts cn blocks num r bits si cost = Inr (i, bits', si', cost') \<Longrightarrow> info_shape (Some si') = info_shape (Some si)"
proof (induction r arbitrary: bits cost)
  case (Suc r)
  from Suc.prems consider
    (again) bits1 cost1 where "lru_attempts cn blocks num r bits1 si cost1 = Inr (i, bits', si', cost')"
  | (evict) "si_incrementAttempt (num - Suc r) si = Inr si'"
    by (auto simp: Let_def result_simps split: if_splits option.splits)
  then show ?case using Suc.IH incrementAttempt_shape by cases blast+
qed simp

lemma srrip_inner_shape:
  "srrip_inner cn blocks si s attempt cost k = Victim i s' si' cost' \<Longrightarrow> info_shape (Some si') = info_shape (Some si)"
proof (induction k arbitrary: s attempt cost)
  case (Suc k)
  have "srrip_evict blocks si s attempt cost = Victim i s' si' cost' \<Longrightarrow> info_shape (Some si') = info_shape (Some si)"
    by (auto simp: srrip_evict_def Let_def incrementAttempt_shape split: sum.splits if_splits)
  with Suc show ?case by (auto simp: Let_def split: if_splits option.splits)
qed simp

lemma srrip_outer_shape:
  "srrip_outer cn blocks si s attempt cost k = Inr (i, (s', si'), cost') \<Longrightarrow> info_shape (Some si') = info_shape (Some si)"
proof (induction k arbitrary: s attempt cost)
  case (Suc k)
  then show ?case using srrip_inner_shape by (auto split: srrip_pass.splits)
qed simp

lemma lru_get_shape:
  "lru_getReplacementIndex cn blocks (s, si) = Inr (i, (s', si'), cost) \<Longrightarrow> info_shape (Some si') = info_shape (Some si)"
  using lru_attempts_shape by (auto simp: lru_getReplacementIndex_def result_simps split: option.splits)

lemma srrip_get_shape:
  "srrip_getReplacementIndex cn blocks (s, si) = Inr (i, (s', si'), cost) \<Longrightarrow> info_shape (Some si') = info_shape (Some si)"
  using srrip_outer_shape
  by (auto simp: srrip_getReplacementIndex_def simp del: srrip_outer.simps split: option.splits)

lemma get_shape:
  assumes "getReplacementIndex cn blocks st = Inr (i, st', cost)"
  shows "info_shape (snd st') = info_shape (snd st)"
proof -
  obtain p info where st: "st = (p, info)" by (cases st)
  show ?thesis
    using assms lru_get_shape srrip_get_shape
    by (cases p) (auto simp: st getReplacementIndex_def dispatch_simps)
qed

lemma update_shape:
  assumes "updateReplacementIndex n i st = Inr st'"
  shows "info_shape (snd st') = info_shape (snd st)"
proof -
  obtain p info where st: "st = (p, info)" by (cases st)
  show ?thesis
    using assms increment_shape
    by (cases p) (auto simp: st updateReplacementIndex_def result_simps lru_updateReplacementIndex_def
        srrip_updateReplacementIndex_def split: option.splits)
qed

end
