(* ===== verification/Fault_Injection.thy ===== *)
theory Fault_Injection
  imports Cache_Block Utils
begin

text \<open>
  \<open>common/fault_injection\<close>: the manager that applies fault masks to data, and the injectors the
  caches call before a read and after a write. A cache keeps a fault mask per byte, not data: the
  injector sets bits in the mask, and \<open>applyFault\<close> combines the mask with the value read.
\<close>

section \<open>FaultinjectionManager\<close>

datatype fault_type_t = FAULT_TYPE_TOGGLE | FAULT_TYPE_SET0 | FAULT_TYPE_SET1

datatype fault_injector_t = FAULT_INJECTOR_NONE | FAULT_INJECTOR_RANDOM

record fi_manager =
  fim_type :: fault_type_t
  fim_injector :: fault_injector_t

definition FaultinjectionManager_create :: "string \<Rightarrow> string \<Rightarrow> fi_manager option result" where
  "FaultinjectionManager_create s_type s_injector =
     (if s_type = ''none'' then Inr None
      else bindE (if s_type = ''toggle'' then Inr FAULT_TYPE_TOGGLE
                  else if s_type = ''set0'' then Inr FAULT_TYPE_SET0
                  else if s_type = ''set1'' then Inr FAULT_TYPE_SET1
                  else Inl (Print_Error ''Unknown fault-injection scheme'')) (\<lambda>ty.
           bindE (if s_injector = ''none'' then Inr FAULT_INJECTOR_NONE
                  else if s_injector = ''random'' then Inr FAULT_INJECTOR_RANDOM
                  else Inl (Print_Error ''Unknown fault injector'')) (\<lambda>injector.
             Inr (Some \<lparr>fim_type = ty, fim_injector = injector\<rparr>))))"

definition fault_byte :: "fault_type_t \<Rightarrow> byte \<Rightarrow> byte \<Rightarrow> byte" where
  "fault_byte ty d f =
     (case ty of
        FAULT_TYPE_TOGGLE \<Rightarrow> d XOR f
      | FAULT_TYPE_SET0 \<Rightarrow> d AND NOT f
      | FAULT_TYPE_SET1 \<Rightarrow> d OR f)"

definition applyFault :: "fi_manager \<Rightarrow> nat \<Rightarrow> byte list \<Rightarrow> byte list \<Rightarrow> byte list result" where
  "applyFault m data_size data fault =
     check (data_size \<le> length data \<and> data_size \<le> length fault) (Undefined ''index out of range'')
       (Inr (foldl (\<lambda>d i. d[i := fault_byte (fim_type m) (d ! i) (fault ! i)]) data [0..<data_size]))"

section \<open>FaultInjector and FaultInjectorRandom\<close>

record injector =
  fi_kind :: fault_injector_t
  fi_rng :: UInt64
  fi_active :: bool

definition getFaultInjector :: "fi_manager \<Rightarrow> mem_component \<Rightarrow> injector" where
  "getFaultInjector m mem_component =
     \<lparr>fi_kind = fim_injector m, fi_rng = rng_seed 0, fi_active = (mem_component = L1_DCACHE)\<rparr>"

text \<open>
  \<open>preRead\<close> gets a pointer into the mask array: the array and the position. The base class does
  nothing, the random injector flips one bit with probability 1/65535 in the L1 data cache.
\<close>

definition preRead :: "nat \<Rightarrow> byte list \<Rightarrow> nat \<Rightarrow> injector \<Rightarrow> (byte list \<times> injector) result" where
  "preRead data_size masks pos fi =
     (case fi_kind fi of
        FAULT_INJECTOR_NONE \<Rightarrow> Inr (masks, fi)
      | FAULT_INJECTOR_RANDOM \<Rightarrow>
          if \<not> fi_active fi then Inr (masks, fi)
          else (let (v, st) = rng_next (fi_rng fi)
                in if v mod 0xffff = 0
                   then check (data_size \<noteq> 0) (Undefined ''modulo by zero'')
                          (let (w, st') = rng_next st;
                               bit_location = unat (w mod of_nat data_size);
                               i = pos + bit_location div 8
                           in check (i < length masks) (Undefined ''index out of range'')
                                (Inr (masks[i := masks ! i OR push_bit (bit_location mod 8) 1],
                                      fi\<lparr>fi_rng := st'\<rparr>)))
                   else Inr (masks, fi\<lparr>fi_rng := st\<rparr>)))"

definition postWrite :: "nat \<Rightarrow> byte list \<Rightarrow> nat \<Rightarrow> injector \<Rightarrow> byte list \<times> injector" where
  "postWrite data_size masks pos fi = (masks, fi)"

section \<open>Properties\<close>

lemma applyFault_nth:
  assumes "applyFault m k data fault = Inr out"
  shows "length out = length data \<and>
    (\<forall>i < length data. out ! i = (if i < k then fault_byte (fim_type m) (data ! i) (fault ! i) else data ! i))"
proof -
  from assms have k: "k \<le> length data"
    and out: "out = foldl (\<lambda>d i. d[i := fault_byte (fim_type m) (d ! i) (fault ! i)]) data [0..<k]"
    by (auto simp: applyFault_def result_simps)
  have "length (foldl (\<lambda>d i. d[i := fault_byte (fim_type m) (d ! i) (fault ! i)]) data [0..<j]) = length data \<and>
    (\<forall>i < length data. foldl (\<lambda>d i. d[i := fault_byte (fim_type m) (d ! i) (fault ! i)]) data [0..<j] ! i =
      (if i < j then fault_byte (fim_type m) (data ! i) (fault ! i) else data ! i))" if "j \<le> k" for j
    using that k by (induction j) (auto simp: nth_list_update)
  with out show ?thesis by blast
qed

text \<open>A clean mask never changes data, and toggling twice restores it.\<close>

lemma fault_byte_zero [simp]: "fault_byte ty d 0 = d"
  by (cases ty) (simp_all add: fault_byte_def)

lemma fault_byte_toggle [simp]: "fault_byte FAULT_TYPE_TOGGLE (fault_byte FAULT_TYPE_TOGGLE d f) f = d"
  by (rule bit_eqI) (auto simp: fault_byte_def bit_simps)

lemma fault_byte_idem: "ty \<noteq> FAULT_TYPE_TOGGLE \<Longrightarrow> fault_byte ty (fault_byte ty d f) f = fault_byte ty d f"
  by (rule bit_eqI, cases ty) (auto simp: fault_byte_def bit_simps)

text \<open>
  An injected fault lies in the first eighth of the range read: the bit number is drawn modulo the
  size in bytes.
\<close>

lemma preRead_frame:
  assumes "preRead k masks pos fi = Inr (masks', fi')" "k < 2 ^ 64"
  shows "length masks' = length masks \<and>
    (\<forall>i < length masks. (i < pos \<or> pos + (k - 1) div 8 < i) \<longrightarrow> masks' ! i = masks ! i)"
proof -
  have small: "\<not> (k - Suc 0) div 8 < unat (w mod of_nat k :: UInt64) div 8" if "0 < k" for w
  proof -
    have "unat (of_nat k :: UInt64) = k" using assms(2) by (simp add: unat_of_nat_le)
    then have "unat (w mod of_nat k :: UInt64) < k" using that by (simp add: unat_mod_distrib)
    then have "unat (w mod of_nat k :: UInt64) \<le> k - Suc 0" by simp
    from div_le_mono [OF this, of 8] show ?thesis by simp
  qed
  with assms(1) show ?thesis
    by (auto simp: preRead_def Let_def result_simps nth_list_update
        split: fault_injector_t.splits if_splits prod.splits)
qed

end
