(* ===== verification/Cache_Set.thy ===== *)
theory Cache_Set
  imports Replacement_Policy Fault_Injection
begin

text \<open>
  \<open>cache/cache_set.cc\<close>: the block infos of a set, the fault masks it keeps when fault injection
  is on, and the operations that are written against the two virtual functions of the policy,
  which are parameters here. The lemmas hold for every policy that meets the contract.
\<close>

section \<open>State and operations\<close>

record cset =
  cs_blocks :: "block_info list"
  cs_data :: "byte list option"
  cs_blocksize :: nat

definition CacheSet_new :: "bool \<Rightarrow> cache_t \<Rightarrow> nat \<Rightarrow> nat \<Rightarrow> cset result" where
  "CacheSet_new fault_injection cache_type associativity blocksize =
     bindE (CacheBlockInfo_create cache_type) (\<lambda>b.
       Inr \<lparr>cs_blocks = replicate associativity b,
            cs_data = (if fault_injection then Some (replicate (unat (of_nat associativity * of_nat blocksize :: UInt32)) 0) else None),
            cs_blocksize = blocksize\<rparr>)"

text \<open>Positions in \<open>m_blocks\<close> are 32-bit; \<open>memcpy\<close> outside the array is undefined.\<close>

definition data_index :: "cset \<Rightarrow> nat \<Rightarrow> nat \<Rightarrow> nat" where
  "data_index cs line_index offset = unat (of_nat line_index * of_nat (cs_blocksize cs) + of_nat offset :: UInt32)"

definition memcpy_from :: "byte list \<Rightarrow> nat \<Rightarrow> nat \<Rightarrow> byte list result" where
  "memcpy_from d pos n =
     check (pos + n \<le> length d) (Undefined ''memcpy out of range'') (Inr (take n (drop pos d)))"

definition memcpy_to :: "byte list \<Rightarrow> nat \<Rightarrow> byte list \<Rightarrow> nat \<Rightarrow> byte list result" where
  "memcpy_to d pos buff n =
     check (n \<le> length buff \<and> pos + n \<le> length d) (Undefined ''memcpy out of range'')
       (Inr (take pos d @ take n buff @ drop (pos + n) d))"

text \<open>\<open>out_buff\<close> says whether the caller passed a buffer; what is copied into it is returned.\<close>

definition read_line ::
  "(nat \<Rightarrow> 's \<Rightarrow> 's result) \<Rightarrow> cset \<Rightarrow> nat \<Rightarrow> nat \<Rightarrow> bool \<Rightarrow> nat \<Rightarrow> bool \<Rightarrow> 's \<Rightarrow> (byte list option \<times> 's) result" where
  "read_line upd cs line_index offset out_buff bytes update_replacement st =
     check (unat (of_nat offset + of_nat bytes :: UInt32) \<le> cs_blocksize cs) (Assert ''offset + bytes <= m_blocksize'')
       (bindE (case cs_data cs of
                 Some d \<Rightarrow> if out_buff then mapE Some (memcpy_from d (data_index cs line_index offset) bytes) else Inr None
               | None \<Rightarrow> Inr None) (\<lambda>out.
        bindE (if update_replacement then upd line_index st else Inr st) (\<lambda>st'.
          Inr (out, st'))))"

definition write_line ::
  "(nat \<Rightarrow> 's \<Rightarrow> 's result) \<Rightarrow> cset \<Rightarrow> nat \<Rightarrow> nat \<Rightarrow> byte list option \<Rightarrow> nat \<Rightarrow> bool \<Rightarrow> 's \<Rightarrow> (cset \<times> 's) result" where
  "write_line upd cs line_index offset in_buff bytes update_replacement st =
     check (unat (of_nat offset + of_nat bytes :: UInt32) \<le> cs_blocksize cs) (Assert ''offset + bytes <= m_blocksize'')
       (bindE (case (in_buff, cs_data cs) of
                 (Some buff, Some d) \<Rightarrow>
                    mapE (\<lambda>d'. cs\<lparr>cs_data := Some d'\<rparr>) (memcpy_to d (data_index cs line_index offset) buff bytes)
               | _ \<Rightarrow> Inr cs) (\<lambda>cs'.
        bindE (if update_replacement then upd line_index st else Inr st) (\<lambda>st'.
          Inr (cs', st'))))"

definition find_index :: "block_info list \<Rightarrow> IntPtr \<Rightarrow> nat option" where
  "find_index blocks tag = last_index (\<lambda>i. m_tag (blocks ! i) = tag) (length blocks)"

definition cs_find :: "cset \<Rightarrow> IntPtr \<Rightarrow> (nat \<times> block_info) option" where
  "cs_find cs tag = map_option (\<lambda>i. (i, cs_blocks cs ! i)) (find_index (cs_blocks cs) tag)"

definition cs_invalidate :: "cset \<Rightarrow> IntPtr \<Rightarrow> bool \<times> cset" where
  "cs_invalidate cs tag =
     (case find_index (cs_blocks cs) tag of
        Some i \<Rightarrow> (True, cs\<lparr>cs_blocks := (cs_blocks cs)[i := invalidate (cs_blocks cs ! i)]\<rparr>)
      | None \<Rightarrow> (False, cs))"

text \<open>
  What \<open>insert\<close> writes through its pointers: \<open>*eviction\<close>, \<open>*evict_block_info\<close> and \<open>evict_buff\<close>;
  \<open>ins_cost\<close> counts the \<open>incrementQBSLookupCost\<close> calls of the policy.
\<close>

record insert_out =
  ins_eviction :: bool
  ins_evict_info :: block_info
  ins_evict_buff :: "byte list option"
  ins_cost :: nat

definition cs_insert ::
  "(cntlr option \<Rightarrow> block_info list \<Rightarrow> 's \<Rightarrow> (nat \<times> 's \<times> nat) result) \<Rightarrow> cntlr option \<Rightarrow> cset \<Rightarrow> block_info
    \<Rightarrow> byte list option \<Rightarrow> block_info \<Rightarrow> bool \<Rightarrow> 's \<Rightarrow> (insert_out \<times> cset \<times> 's) result" where
  "cs_insert get cn cs cache_block_info fill_buff evict_block_info evict_buff st =
     bindE (get cn (cs_blocks cs) st) (\<lambda>(index, st', cost).
     check (index < length (cs_blocks cs)) (Assert ''index < m_associativity'')
      (let old = cs_blocks cs ! index
       in bindE (if isValid old
                 then (case cs_data cs of
                         Some d \<Rightarrow>
                           if evict_buff
                           then mapE (\<lambda>bs. (True, clone evict_block_info old, Some bs))
                                  (memcpy_from d (data_index cs index 0) (cs_blocksize cs))
                           else Inr (True, clone evict_block_info old, None)
                       | None \<Rightarrow> Inr (True, clone evict_block_info old, None))
                 else Inr (False, evict_block_info, None)) (\<lambda>(eviction, evict_info, buff).
          bindE (case (fill_buff, cs_data cs) of
                   (Some fb, Some d) \<Rightarrow> mapE Some (memcpy_to d (data_index cs index 0) fb (cs_blocksize cs))
                 | _ \<Rightarrow> Inr (cs_data cs)) (\<lambda>d'.
            Inr (\<lparr>ins_eviction = eviction, ins_evict_info = evict_info, ins_evict_buff = buff, ins_cost = cost\<rparr>,
                 cs\<lparr>cs_blocks := (cs_blocks cs)[index := clone old cache_block_info], cs_data := d'\<rparr>,
                 st')))))"

definition getDataPtr :: "cset \<Rightarrow> nat \<Rightarrow> nat \<Rightarrow> nat result" where
  "getDataPtr cs line_index offset =
     (case cs_data cs of
        Some d \<Rightarrow> Inr (data_index cs line_index offset)
      | None \<Rightarrow> Inl (Undefined ''null pointer arithmetic''))"

section \<open>Resident tags\<close>

text \<open>The abstract content of a set: the tags of its valid blocks, each held by one way.\<close>

definition tags :: "block_info list \<Rightarrow> IntPtr set" where
  "tags blocks = m_tag ` {b \<in> set blocks. isValid b}"

definition unique_tags :: "block_info list \<Rightarrow> bool" where
  "unique_tags blocks \<longleftrightarrow>
     (\<forall>i < length blocks. \<forall>j < length blocks.
        isValid (blocks ! i) \<and> m_tag (blocks ! i) = m_tag (blocks ! j) \<longrightarrow> i = j)"

lemma isValid_tag: "m_tag x = m_tag y \<Longrightarrow> isValid x = isValid y"
  by (simp add: isValid_def)

lemma unique_tagsD:
  "unique_tags blocks \<Longrightarrow> i < length blocks \<Longrightarrow> j < length blocks \<Longrightarrow> isValid (blocks ! i) \<Longrightarrow>
   m_tag (blocks ! i) = m_tag (blocks ! j) \<Longrightarrow> i = j"
  by (simp add: unique_tags_def)

lemma find_index_Some:
  "find_index blocks tag = Some i \<Longrightarrow> i < length blocks \<and> m_tag (blocks ! i) = tag"
  by (simp add: find_index_def last_index_Some)

lemma find_index_None: "find_index blocks tag = None \<longleftrightarrow> (\<forall>i < length blocks. m_tag (blocks ! i) \<noteq> tag)"
  by (simp add: find_index_def last_index_None)

lemma tags_iff: "t \<in> tags blocks \<longleftrightarrow> (\<exists>i < length blocks. isValid (blocks ! i) \<and> m_tag (blocks ! i) = t)"
  by (auto simp: tags_def in_set_conv_nth image_iff)

lemma find_index_tags: "tag \<noteq> NOT 0 \<Longrightarrow> find_index blocks tag \<noteq> None \<longleftrightarrow> tag \<in> tags blocks"
  by (auto simp: find_index_None tags_iff isValid_def)

lemma find_index_unique:
  assumes "unique_tags blocks" "i < length blocks" "isValid (blocks ! i)"
  shows "find_index blocks (m_tag (blocks ! i)) = Some i"
proof (cases "find_index blocks (m_tag (blocks ! i))")
  case None
  then show ?thesis using assms(2) by (auto simp: find_index_None)
next
  case (Some j)
  have "i = j" using find_index_Some [OF Some] by (intro unique_tagsD [OF assms(1,2) _ assms(3)]) simp_all
  with Some show ?thesis by simp
qed

lemma card_tags: "card (tags blocks) \<le> length blocks"
proof -
  have "card (tags blocks) \<le> card (m_tag ` set blocks)" by (rule card_mono) (auto simp: tags_def)
  also have "\<dots> \<le> card (set blocks)" by (rule card_image_le) simp
  also have "\<dots> \<le> length blocks" by (rule card_length)
  finally show ?thesis .
qed

definition tag_of :: "block_info \<Rightarrow> IntPtr set" where
  "tag_of b = (if isValid b then {m_tag b} else {})"

lemma tags_update:
  assumes "unique_tags blocks" "i < length blocks"
  shows "tags (blocks[i := b]) = (tags blocks - tag_of (blocks ! i)) \<union> tag_of b"
proof (rule set_eqI)
  fix t
  have old: "t \<in> tags blocks - tag_of (blocks ! i) \<longleftrightarrow>
    (\<exists>j < length blocks. j \<noteq> i \<and> isValid (blocks ! j) \<and> m_tag (blocks ! j) = t)"
    using assms unique_tagsD [OF assms(1) _ assms(2)]
    by (auto simp: tags_iff tag_of_def)
  have "t \<in> tags (blocks[i := b]) \<longleftrightarrow>
    (isValid b \<and> m_tag b = t) \<or> (\<exists>j < length blocks. j \<noteq> i \<and> isValid (blocks ! j) \<and> m_tag (blocks ! j) = t)"
    using assms(2) by (auto simp: tags_iff nth_list_update)
  with old show "t \<in> tags (blocks[i := b]) \<longleftrightarrow> t \<in> (tags blocks - tag_of (blocks ! i)) \<union> tag_of b"
    by (auto simp: tag_of_def)
qed

lemma unique_tags_update:
  assumes "unique_tags blocks" "i < length blocks" "tag_of b \<inter> (tags blocks - tag_of (blocks ! i)) = {}"
  shows "unique_tags (blocks[i := b])"
proof -
  have new: False if "isValid b" "j < length blocks" "j \<noteq> i" "m_tag (blocks ! j) = m_tag b" for j
  proof -
    have "isValid (blocks ! j)" using that isValid_tag by metis
    then have "m_tag b \<in> tags blocks" "m_tag b \<notin> tag_of (blocks ! i)"
      using that unique_tagsD [OF assms(1), of j i] assms(2) by (auto simp: tags_iff tag_of_def)
    with assms(3) that(1) show False by (auto simp: tag_of_def)
  qed
  show ?thesis
    unfolding unique_tags_def
  proof (intro allI impI)
    fix k j assume kj: "k < length (blocks[i := b])" "j < length (blocks[i := b])"
      "isValid (blocks[i := b] ! k) \<and> m_tag (blocks[i := b] ! k) = m_tag (blocks[i := b] ! j)"
    show "k = j"
      using kj new [of k] new [of j] unique_tagsD [OF assms(1), of k j] isValid_tag [of "blocks ! k" b]
      by (cases "k = i"; cases "j = i") (auto simp: nth_list_update)
  qed
qed

section \<open>Invalidation\<close>

lemma cs_invalidate_spec:
  assumes "unique_tags (cs_blocks cs)" "tag \<noteq> NOT 0" "cs_invalidate cs tag = (found, cs')"
  shows "found = (tag \<in> tags (cs_blocks cs))" "tags (cs_blocks cs') = tags (cs_blocks cs) - {tag}"
    "unique_tags (cs_blocks cs')" "length (cs_blocks cs') = length (cs_blocks cs)" "cs_data cs' = cs_data cs"
proof -
  let ?bs = "cs_blocks cs"
  have fi: "found = (find_index ?bs tag \<noteq> None)"
    using assms(3) by (auto simp: cs_invalidate_def split: option.splits)
  then show "found = (tag \<in> tags ?bs)" using find_index_tags [OF assms(2)] by simp
  show "length (cs_blocks cs') = length ?bs" "cs_data cs' = cs_data cs"
    using assms(3) by (auto simp: cs_invalidate_def split: option.splits)
  show "tags (cs_blocks cs') = tags ?bs - {tag}" "unique_tags (cs_blocks cs')"
  proof (atomize (full), cases "find_index ?bs tag")
    case None
    with find_index_tags [OF assms(2), of ?bs] assms(1,3)
    show "tags (cs_blocks cs') = tags ?bs - {tag} \<and> unique_tags (cs_blocks cs')" by (auto simp: cs_invalidate_def)
  next
    case (Some i)
    note i = find_index_Some [OF Some]
    have "tag_of (?bs ! i) = {tag}" using i assms(2) by (simp add: tag_of_def isValid_def)
    moreover have "tag_of (invalidate (?bs ! i)) = {}" by (simp add: tag_of_def)
    ultimately show "tags (cs_blocks cs') = tags ?bs - {tag} \<and> unique_tags (cs_blocks cs')"
      using Some assms(1,3) i tags_update [of ?bs i] unique_tags_update [of ?bs i]
      by (auto simp: cs_invalidate_def)
  qed
qed

section \<open>Insertion, for every policy of the contract\<close>

lemma cs_insert_cases:
  assumes "cs_insert get cn cs b fill ev_info want st = Inr (out, cs', st')"
  obtains i cost where "get cn (cs_blocks cs) st = Inr (i, st', cost)" "i < length (cs_blocks cs)"
    "ins_eviction out = isValid (cs_blocks cs ! i)"
    "ins_evict_info out = (if isValid (cs_blocks cs ! i) then clone ev_info (cs_blocks cs ! i) else ev_info)"
    "ins_cost out = cost" "cs_blocks cs' = (cs_blocks cs)[i := clone (cs_blocks cs ! i) b]"
    "cs_blocksize cs' = cs_blocksize cs"
proof -
  obtain i st1 cost where g: "get cn (cs_blocks cs) st = Inr (i, st1, cost)"
    using assms by (cases "get cn (cs_blocks cs) st") (auto simp: cs_insert_def)
  have i: "i < length (cs_blocks cs)" using assms by (simp add: cs_insert_def g result_simps)
  have r: "ins_eviction out = isValid (cs_blocks cs ! i) \<and>
      ins_evict_info out = (if isValid (cs_blocks cs ! i) then clone ev_info (cs_blocks cs ! i) else ev_info) \<and>
      ins_cost out = cost \<and> cs_blocks cs' = (cs_blocks cs)[i := clone (cs_blocks cs ! i) b] \<and>
      cs_blocksize cs' = cs_blocksize cs \<and> st1 = st'"
    using assms i by (auto simp: cs_insert_def g Let_def result_simps split: if_splits option.splits)
  with g i show ?thesis by (intro that [of i cost]) simp_all
qed

context replacement_policy
begin

text \<open>
  An inserted block is found again, exactly the evicted tag leaves the set, and the set keeps one
  way per tag if the tag was not resident.
\<close>

lemma insert_refines:
  assumes "inv (length (cs_blocks cs)) st" "unique_tags (cs_blocks cs)"
    and "isValid b" "m_tag b \<notin> tags (cs_blocks cs)"
    and "cs_insert get cn cs b fill ev_info want st = Inr (out, cs', st')"
  shows "inv (length (cs_blocks cs')) st'" "length (cs_blocks cs') = length (cs_blocks cs)"
    and "unique_tags (cs_blocks cs')"
    and "tags (cs_blocks cs') =
      insert (m_tag b) (tags (cs_blocks cs) - (if ins_eviction out then {m_tag (ins_evict_info out)} else {}))"
    and "ins_eviction out \<Longrightarrow> m_tag (ins_evict_info out) \<in> tags (cs_blocks cs)"
    and "\<exists>i. find_index (cs_blocks cs') (m_tag b) = Some i \<and>
           cs_blocks cs' = (cs_blocks cs)[i := clone (cs_blocks cs ! i) b]"
proof -
  let ?bs = "cs_blocks cs"
  from cs_insert_cases [OF assms(5)] obtain i cost where
    g: "get cn ?bs st = Inr (i, st', cost)" and i: "i < length ?bs"
    and ev: "ins_eviction out = isValid (?bs ! i)"
      "ins_evict_info out = (if isValid (?bs ! i) then clone ev_info (?bs ! i) else ev_info)"
    and bs': "cs_blocks cs' = ?bs[i := clone (?bs ! i) b]" by metis
  have t: "tag_of (clone (?bs ! i) b) = {m_tag b}" using assms(3) by (simp add: tag_of_def)
  have old: "tag_of (?bs ! i) = (if ins_eviction out then {m_tag (ins_evict_info out)} else {})"
    by (simp add: ev tag_of_def)
  show l: "length (cs_blocks cs') = length ?bs" by (simp add: bs')
  from get_ok [OF assms(1) g] l show "inv (length (cs_blocks cs')) st'" by simp
  show u: "unique_tags (cs_blocks cs')"
    unfolding bs' using assms(2,4) i t by (intro unique_tags_update) auto
  show "tags (cs_blocks cs') =
      insert (m_tag b) (tags ?bs - (if ins_eviction out then {m_tag (ins_evict_info out)} else {}))"
    unfolding bs' tags_update [OF assms(2) i] t old by simp
  show "m_tag (ins_evict_info out) \<in> tags ?bs" if "ins_eviction out"
    using that i by (auto simp: ev tags_iff)
  have "find_index (cs_blocks cs') (m_tag b) = Some i"
    using find_index_unique [OF u, of i] i assms(3) by (simp add: bs')
  with bs' show "\<exists>i. find_index (cs_blocks cs') (m_tag b) = Some i \<and>
      cs_blocks cs' = ?bs[i := clone (?bs ! i) b]" by blast
qed

end

context fills_invalid_first
begin

text \<open>Nothing is evicted while a way is free.\<close>

lemma insert_evicts_only_full:
  assumes "cs_insert get cn cs b fill ev_info want st = Inr (out, cs', st')" "ins_eviction out"
  shows "\<forall>i < length (cs_blocks cs). isValid (cs_blocks cs ! i)"
proof (cases "first_invalid (cs_blocks cs)")
  case None
  then show ?thesis by (simp add: first_invalid_None)
next
  case (Some j)
  from cs_insert_cases [OF assms(1)] obtain i cost where
    "get cn (cs_blocks cs) st = Inr (i, st', cost)" "ins_eviction out = isValid (cs_blocks cs ! i)" by metis
  with get_invalid [OF Some] first_invalid_Some [OF Some] assms(2) show ?thesis by simp
qed

end

context never_stuck
begin

lemma insert_total:
  assumes "inv (length (cs_blocks cs)) st" "cs_blocks cs \<noteq> []" "cs_data cs = None"
    and "\<forall>b \<in> set (cs_blocks cs). m_cstate b \<noteq> SHARED_UPGRADING"
  shows "\<exists>r. cs_insert get (Some c) cs b fill ev_info want st = Inr r"
proof -
  have "\<forall>i < length (cs_blocks cs). isValidReplacement (cs_blocks cs) i"
    using assms(4) by (simp add: isValidReplacement_def)
  with get_total [OF assms(1,2)] obtain i st' cost where g: "get (Some c) (cs_blocks cs) st = Inr (i, st', cost)"
    by blast
  with get_ok [OF assms(1) g] assms(3) show ?thesis
    by (cases "isValid (cs_blocks cs ! i)"; cases fill) (simp_all add: cs_insert_def Let_def)
qed

end

end
