(* ===== verification/Cache_Base.thy ===== *)
theory Cache_Base
  imports Utils
begin

text \<open>
  Address arithmetic of the memory subsystem: the home node of an address
  (\<open>address_home_lookup.cc\<close>) and the split of an address into tag, set index and block offset
  (\<open>cache/cache_base.cc\<close>), with all hash functions. Machine words are kept at their width.
\<close>

section \<open>address_home_lookup.cc\<close>

record ahl =
  m_ahl_param :: UInt32
  m_ahl_mask :: UInt64
  m_core_list :: "core_id_t list"
  m_total_modules :: UInt32
  ahl_cache_block_size :: UInt32

definition AddressHomeLookup_new :: "UInt32 \<Rightarrow> core_id_t list \<Rightarrow> UInt32 \<Rightarrow> ahl result" where
  "AddressHomeLookup_new ahl_param core_list cache_block_size =
     check (unat ahl_param < 31) (Undefined ''shift count too large'')
       (check (sint cache_block_size \<le> 2 ^ unat ahl_param) (Assert ''2^AHL param must be >= Cache Block Size'')
         (Inr \<lparr>m_ahl_param = ahl_param, m_ahl_mask = push_bit (unat ahl_param) 1 - 1,
               m_core_list = core_list, m_total_modules = of_nat (length core_list),
               ahl_cache_block_size = cache_block_size\<rparr>))"

definition module_num :: "ahl \<Rightarrow> IntPtr \<Rightarrow> UInt64" where
  "module_num a address = drop_bit (unat (m_ahl_param a)) address mod ucast (m_total_modules a)"

definition getHome :: "ahl \<Rightarrow> IntPtr \<Rightarrow> core_id_t result" where
  "getHome a address =
     check (unat (m_ahl_param a) < 64 \<and> m_total_modules a \<noteq> 0) (Undefined ''shift or modulo'')
       (let m = (ucast (module_num a address) :: SInt32)
        in check (0 \<le> sint m \<and> sint m < sint (m_total_modules a)) (Assert ''module_num'')
             (at (m_core_list a) (unat m)))"

definition getLinearBlock :: "ahl \<Rightarrow> IntPtr \<Rightarrow> IntPtr" where
  "getLinearBlock a address = drop_bit (unat (m_ahl_param a)) address div ucast (m_total_modules a)"

definition getLinearAddress :: "ahl \<Rightarrow> IntPtr \<Rightarrow> IntPtr" where
  "getLinearAddress a address =
     push_bit (unat (m_ahl_param a)) (getLinearBlock a address) OR (address AND m_ahl_mask a)"

section \<open>cache/cache_base.cc\<close>

datatype hash_t =
    HASH_MASK | HASH_MOD | HASH_RNG1_MOD | HASH_RNG2_MOD | HASH_PRIME_DIS | HASH_XOR_MOD | HASH_MER_MOD

record cache_base =
  m_name :: string
  m_cache_size :: UInt64
  m_associativity :: UInt32
  m_blocksize :: UInt32
  m_hash :: hash_t
  m_num_sets :: UInt32
  m_ahl :: "ahl option"
  m_log_blocksize :: UInt32
  m_log_num_sets :: UInt32

definition CacheBase_new ::
  "string \<Rightarrow> UInt32 \<Rightarrow> UInt32 \<Rightarrow> UInt32 \<Rightarrow> hash_t \<Rightarrow> ahl option \<Rightarrow> cache_base result" where
  "CacheBase_new name num_sets associativity cache_block_size hash ahl_opt =
     (let b = \<lparr>m_name = name,
               m_cache_size = ucast num_sets * ucast associativity * ucast cache_block_size,
               m_associativity = associativity, m_blocksize = cache_block_size, m_hash = hash,
               m_num_sets = num_sets, m_ahl = ahl_opt,
               m_log_blocksize = of_int (floorLog2 cache_block_size),
               m_log_num_sets = of_int (floorLog2 num_sets)\<rparr>
      in check (num_sets \<noteq> 0) (Undefined ''shift count negative'')
          (check ((ucast num_sets :: UInt64) = push_bit (nat (floorLog2 num_sets)) 1 \<or> hash \<noteq> HASH_MASK)
             (Assert ''Caches of non-power of 2 size need funky hash function'')
             (Inr b)))"

definition parseAddressHash :: "string \<Rightarrow> hash_t result" where
  "parseAddressHash hash_name =
     (if hash_name = ''mask'' then Inr HASH_MASK
      else if hash_name = ''mod'' then Inr HASH_MOD
      else if hash_name = ''rng1_mod'' then Inr HASH_RNG1_MOD
      else if hash_name = ''rng2_mod'' then Inr HASH_RNG2_MOD
      else if hash_name = ''prime_dis'' then Inr HASH_PRIME_DIS
      else if hash_name = ''xor_mod'' then Inr HASH_XOR_MOD
      else if hash_name = ''mersenne_mod'' then Inr HASH_MER_MOD
      else Inl (Print_Error ''Invalid address hash function''))"

text \<open>The \<open>switch\<close> of \<open>splitAddress\<close>: the set index that each hash gives to a block number.\<close>

definition hash_set_index :: "cache_base \<Rightarrow> IntPtr \<Rightarrow> UInt32 result" where
  "hash_set_index c block_num =
     (let n = (ucast (m_num_sets c) :: UInt64)
      in case m_hash c of
           HASH_MASK \<Rightarrow> Inr (ucast (block_num AND ucast (m_num_sets c - 1)))
         | HASH_MOD \<Rightarrow> check (n \<noteq> 0) (Undefined ''modulo by zero'') (Inr (ucast (block_num mod n)))
         | HASH_RNG1_MOD \<Rightarrow>
             (let (r, _) = rng_next (rng_seed block_num)
              in check (n \<noteq> 0) (Undefined ''modulo by zero'') (Inr (ucast (r mod n))))
         | HASH_RNG2_MOD \<Rightarrow>
             (let (_, state) = rng_next (rng_seed block_num); (r, _) = rng_next state
              in check (n \<noteq> 0) (Undefined ''modulo by zero'') (Inr (ucast (r mod n))))
         | HASH_PRIME_DIS \<Rightarrow>
             check (n \<noteq> 0) (Undefined ''modulo by zero'')
               (let si = block_num mod n; Ti = drop_bit (unat (m_log_num_sets c)) block_num; rho = 3
                in Inr (ucast ((rho * Ti + si) mod n)))
         | HASH_XOR_MOD \<Rightarrow>
             check (n \<noteq> 0) (Undefined ''modulo by zero'')
               (let si = block_num mod n; ti = drop_bit (unat (m_log_num_sets c)) block_num mod n
                in Inr (ucast (si XOR ti)))
         | HASH_MER_MOD \<Rightarrow>
             (let d = (ucast (m_num_sets c - 1) :: UInt64)
              in check (d \<noteq> 0) (Undefined ''modulo by zero'') (Inr (ucast (block_num mod d)))))"

definition splitAddress :: "cache_base \<Rightarrow> IntPtr \<Rightarrow> (IntPtr \<times> UInt32) result" where
  "splitAddress c addr =
     check (unat (m_log_blocksize c) < 64) (Undefined ''shift count too large'')
       (let tag = drop_bit (unat (m_log_blocksize c)) addr;
            linearAddress = (case m_ahl c of Some a \<Rightarrow> getLinearAddress a addr | None \<Rightarrow> addr);
            block_num = drop_bit (unat (m_log_blocksize c)) linearAddress
        in mapE (\<lambda>set_index. (tag, set_index)) (hash_set_index c block_num))"

definition splitAddress_offset :: "cache_base \<Rightarrow> IntPtr \<Rightarrow> (IntPtr \<times> UInt32 \<times> UInt32) result" where
  "splitAddress_offset c addr =
     (let block_offset = (ucast (addr AND ucast (m_blocksize c - 1)) :: UInt32)
      in mapE (\<lambda>(tag, set_index). (tag, set_index, block_offset)) (splitAddress c addr))"

definition tagToAddress :: "cache_base \<Rightarrow> IntPtr \<Rightarrow> IntPtr" where
  "tagToAddress c tag = push_bit (unat (m_log_blocksize c)) tag"

section \<open>Home nodes\<close>

text \<open>Well-formed lookups are those the constructor builds from a non-empty list of fewer than $2^{31}$ nodes.\<close>

definition wf_ahl :: "ahl \<Rightarrow> bool" where
  "wf_ahl a \<longleftrightarrow>
     unat (m_ahl_param a) < 31 \<and> m_ahl_mask a = push_bit (unat (m_ahl_param a)) 1 - 1 \<and>
     m_core_list a \<noteq> [] \<and> length (m_core_list a) < 2 ^ 31 \<and>
     m_total_modules a = of_nat (length (m_core_list a))"

lemma AddressHomeLookup_new_wf:
  "AddressHomeLookup_new p cl bs = Inr a \<Longrightarrow> cl \<noteq> [] \<Longrightarrow> length cl < 2 ^ 31 \<Longrightarrow> wf_ahl a"
  by (auto simp: AddressHomeLookup_new_def wf_ahl_def result_simps)

lemma wf_ahl_modules:
  assumes "wf_ahl a"
  shows "unat (m_total_modules a) = length (m_core_list a)"
    and "unat (ucast (m_total_modules a) :: UInt64) = length (m_core_list a)"
    and "0 < length (m_core_list a)"
proof -
  show l: "unat (m_total_modules a) = length (m_core_list a)"
    using assms by (simp add: wf_ahl_def unat_of_nat_le)
  show "unat (ucast (m_total_modules a) :: UInt64) = length (m_core_list a)"
    using l by (simp add: unat_ucast_up)
  show "0 < length (m_core_list a)"
    using assms by (simp add: wf_ahl_def)
qed

lemma unat_module_num:
  assumes "wf_ahl a"
  shows "unat (module_num a x) = unat x div 2 ^ unat (m_ahl_param a) mod length (m_core_list a)"
  using wf_ahl_modules [OF assms] by (simp add: module_num_def unat_mod_distrib unat_drop_bit_div)

lemma sint_eq_unat:
  assumes "unat (x :: SInt32) < 2 ^ 31"
  shows "sint x = int (unat x)"
proof -
  have "int (unat x) < int (2 ^ 31)" using assms by (subst of_nat_less_iff)
  then have "uint x < 2 ^ 31" by simp
  moreover have "- (2 ^ 31) \<le> uint x" by (rule order_trans [of _ 0]) simp_all
  ultimately show ?thesis by (simp add: sint_uint signed_take_bit_int_eq_self)
qed

lemma getHome_total:
  assumes "wf_ahl a"
  shows "getHome a x = Inr (m_core_list a ! unat (module_num a x))"
    and "unat (module_num a x) < length (m_core_list a)"
proof -
  note m = wf_ahl_modules [OF assms]
  show less: "unat (module_num a x) < length (m_core_list a)"
    using m(3) by (simp add: unat_module_num [OF assms])
  have small: "length (m_core_list a) < 2 ^ 31" using assms by (simp add: wf_ahl_def)
  have u: "unat (ucast (module_num a x) :: SInt32) = unat (module_num a x)"
    using less small by (simp add: unat_ucast_mod)
  have nz: "m_total_modules a \<noteq> 0" using m by (metis unat_0 less_irrefl)
  have s1: "sint (ucast (module_num a x) :: SInt32) = int (unat (module_num a x))"
    using sint_eq_unat [of "ucast (module_num a x)"] less small u by simp
  have s2: "sint (m_total_modules a) = int (length (m_core_list a))"
    using sint_eq_unat [of "m_total_modules a"] small m(1) by simp
  have "int (unat (module_num a x)) < int (length (m_core_list a))"
    using less by (subst of_nat_less_iff)
  then show "getHome a x = Inr (m_core_list a ! unat (module_num a x))"
    using less nz assms unfolding getHome_def Let_def s1 s2 u by (simp add: wf_ahl_def)
qed

lemma unat_and_mask: "unat ((x :: UInt64) AND (push_bit k 1 - 1)) = unat x mod 2 ^ k"
proof -
  have "push_bit k (1 :: UInt64) - 1 = mask k"
    by (simp add: mask_eq_exp_minus_1 push_bit_of_1)
  then have "(x AND (push_bit k 1 - 1)) = take_bit k x"
    by (simp add: take_bit_eq_mask)
  moreover have "unat (take_bit k x) = take_bit k (unat x)"
    by (rule unsigned_take_bit_eq)
  ultimately show ?thesis by (simp only: take_bit_eq_mod)
qed

lemma unat_or_disjoint:
  assumes "unat hi * 2 ^ k < 2 ^ 64" and "unat lo < 2 ^ k"
  shows "unat (push_bit k (hi :: UInt64) OR lo) = unat hi * 2 ^ k + unat lo"
proof -
  have "unat (push_bit k hi) = take_bit 64 (push_bit k (unat hi))"
    by (subst unsigned_push_bit_eq) simp
  also have "\<dots> = unat hi * 2 ^ k"
    using assms(1) by (simp add: push_bit_eq_mult take_bit_nat_eq_self)
  finally have "unat (push_bit k hi) = unat hi * 2 ^ k" .
  moreover have "(push_bit k (unat hi) OR unat lo) = push_bit k (unat hi) + unat lo"
  proof (rule disjunctive_add [symmetric])
    have "\<not> bit (unat lo) n" if "k \<le> n" for n
      using assms(2) that by (metis bit_take_bit_iff leD take_bit_nat_eq_self)
    then show "\<not> bit (push_bit k (unat hi)) n \<or> \<not> bit (unat lo) n" for n
      by (auto simp: bit_push_bit_iff)
  qed
  ultimately show ?thesis
    by (simp add: unsigned_or_eq push_bit_eq_mult)
qed

lemma unat_getLinearAddress:
  assumes "wf_ahl a"
  shows "unat (getLinearAddress a x) =
    unat x div 2 ^ unat (m_ahl_param a) div length (m_core_list a) * 2 ^ unat (m_ahl_param a)
      + unat x mod 2 ^ unat (m_ahl_param a)"
proof -
  let ?p = "unat (m_ahl_param a)" and ?n = "length (m_core_list a)"
  note m = wf_ahl_modules [OF assms]
  have p: "?p < 31" using assms by (simp add: wf_ahl_def)
  have blk: "unat (getLinearBlock a x) = unat x div 2 ^ ?p div ?n"
    using m by (simp add: getLinearBlock_def unat_div_distrib unat_drop_bit_div)
  have "unat x div 2 ^ ?p div ?n * 2 ^ ?p \<le> unat x div 2 ^ ?p * 2 ^ ?p"
    by (simp add: div_le_dividend)
  also have "\<dots> \<le> unat x" by (simp add: div_times_less_eq_dividend)
  finally have hi: "unat (getLinearBlock a x) * 2 ^ ?p < 2 ^ 64"
    using unat_lt2p [of x] blk by simp
  have lo: "unat (x AND m_ahl_mask a) = unat x mod 2 ^ ?p"
    using assms unat_and_mask [of x ?p] by (simp add: wf_ahl_def)
  then have "unat (x AND m_ahl_mask a) < 2 ^ ?p" by simp
  from unat_or_disjoint [OF hi this] show ?thesis
    by (simp add: getLinearAddress_def blk lo)
qed

lemma linear_address_inj:
  assumes "wf_ahl a" and "getHome a x = getHome a y" and "distinct (m_core_list a)"
    and "getLinearAddress a x = getLinearAddress a y"
  shows "x = y"
proof -
  let ?P = "2 ^ unat (m_ahl_param a) :: nat" and ?n = "length (m_core_list a)"
  have "unat (module_num a x) = unat (module_num a y)"
    using assms getHome_total [OF assms(1), of x] getHome_total [OF assms(1), of y]
    by (simp add: nth_eq_iff_index_eq)
  then have m: "unat x div ?P mod ?n = unat y div ?P mod ?n"
    by (metis unat_module_num [OF assms(1)])
  let ?u = "unat x div ?P div ?n" and ?v = "unat y div ?P div ?n"
  have lin: "?u * ?P + unat x mod ?P = ?v * ?P + unat y mod ?P"
    using assms(4) by (metis unat_getLinearAddress [OF assms(1)])
  have r: "unat x mod ?P < ?P" "unat y mod ?P < ?P" by simp_all
  from arg_cong [OF lin, of "\<lambda>z. z mod ?P"] r have o: "unat x mod ?P = unat y mod ?P"
    by simp
  with lin have q: "?u = ?v" by simp
  from q m have "unat x div ?P = unat y div ?P"
    by (metis div_mult_mod_eq)
  with o have "unat x = unat y"
    by (metis div_mult_mod_eq)
  then show ?thesis by (simp add: word_unat_eq_iff)
qed

section \<open>Splitting an address\<close>

definition wf_base :: "cache_base \<Rightarrow> bool" where
  "wf_base c \<longleftrightarrow>
     (\<exists>lb < 32. m_blocksize c = 2 ^ lb \<and> unat (m_log_blocksize c) = lb \<and>
        (\<forall>a. m_ahl c = Some a \<longrightarrow> wf_ahl a \<and> lb \<le> unat (m_ahl_param a))) \<and>
     m_num_sets c \<noteq> 0 \<and> m_log_num_sets c = of_int (floorLog2 (m_num_sets c)) \<and>
     (m_hash c = HASH_MASK \<longrightarrow> unat (m_num_sets c) = 2 ^ nat (floorLog2 (m_num_sets c)))"

lemma CacheBase_new_wf:
  assumes "CacheBase_new nm n assoc (2 ^ lb) h ao = Inr c" and "lb < 32"
    and "\<And>a. ao = Some a \<Longrightarrow> wf_ahl a \<and> lb \<le> unat (m_ahl_param a)"
  shows "wf_base c"
proof -
  from assms(1) have n: "n \<noteq> 0" and c: "m_blocksize c = 2 ^ lb" "m_ahl c = ao" "m_num_sets c = n" "m_hash c = h"
    "m_log_blocksize c = of_int (floorLog2 (2 ^ lb))" "m_log_num_sets c = of_int (floorLog2 n)"
    and pow: "(ucast n :: UInt64) = push_bit (nat (floorLog2 n)) 1 \<or> h \<noteq> HASH_MASK"
    by (auto simp: CacheBase_new_def Let_def result_simps)
  have lb: "unat (m_log_blocksize c) = lb"
    using assms(2) c(5) by (simp add: unat_of_nat_le)
  have "unat n = 2 ^ nat (floorLog2 n)" if "h = HASH_MASK"
  proof -
    have b: "2 ^ nat (floorLog2 n) \<le> unat n" using floorLog2_bounds [OF n] by simp
    moreover have "unat n < 2 ^ 32" using unat_lt2p [of n] by simp
    ultimately have "(2::nat) ^ nat (floorLog2 n) < 2 ^ 32" by linarith
    then have l: "nat (floorLog2 n) < 32" by (simp only: power_strict_increasing_iff one_less_numeral_iff semiring_norm)
    from pow that have "(ucast n :: UInt64) = 2 ^ nat (floorLog2 n)" by (simp add: push_bit_of_1)
    then have "unat (ucast n :: UInt64) = unat ((2 :: UInt64) ^ nat (floorLog2 n))" by simp
    with l show ?thesis by (simp add: unat_ucast_up unat_2p)
  qed
  with assms c n lb show ?thesis
    by (auto simp: wf_base_def intro!: exI [of _ lb])
qed

lemma unat_mod_sets:
  "m_num_sets c \<noteq> 0 \<Longrightarrow> unat (ucast ((x :: UInt64) mod ucast (m_num_sets c)) :: UInt32) = unat x mod unat (m_num_sets c)"
proof -
  assume "m_num_sets c \<noteq> 0"
  then have pos: "0 < unat (m_num_sets c)" by (simp add: unat_gt_0)
  have eq: "unat (x mod ucast (m_num_sets c)) = unat x mod unat (m_num_sets c)"
    by (simp add: unat_mod_distrib unat_ucast_up)
  have "unat x mod unat (m_num_sets c) < unat (m_num_sets c)" using pos by simp
  also have "\<dots> < 2 ^ 32" using unat_lt2p [of "m_num_sets c"] by simp
  finally have "unat x mod unat (m_num_sets c) < 2 ^ 32" .
  then show ?thesis by (simp add: unat_ucast_mod eq)
qed

lemma nat_xor_less_power: "x < 2 ^ k \<Longrightarrow> y < 2 ^ k \<Longrightarrow> (x XOR y) < (2 ^ k :: nat)"
  by (metis take_bit_nat_eq_self take_bit_nat_less_exp take_bit_xor)

lemma hash_set_index_in_range:
  assumes "wf_base c"
    and "m_hash c = HASH_XOR_MOD \<Longrightarrow> unat (m_num_sets c) = 2 ^ k"
    and "m_hash c = HASH_MER_MOD \<Longrightarrow> 1 < unat (m_num_sets c)"
  shows "\<exists>s. hash_set_index c x = Inr s \<and> unat s < unat (m_num_sets c)"
proof -
  let ?n = "unat (m_num_sets c)"
  have nz: "m_num_sets c \<noteq> 0" using assms(1) by (simp add: wf_base_def)
  then have pos: "0 < ?n" by (simp add: unat_gt_0)
  have n64: "unat (ucast (m_num_sets c) :: UInt64) = ?n" by (simp add: unat_ucast_up)
  have nz64: "(ucast (m_num_sets c) :: UInt64) \<noteq> 0" using pos n64 by (metis unat_0 less_irrefl)
  have md: "\<exists>s. Inr (ucast ((y :: UInt64) mod ucast (m_num_sets c)) :: UInt32) = (Inr s :: UInt32 result) \<and> unat s < ?n" for y
    using unat_mod_sets [OF nz, of y] pos by simp
  have lt32: "?n < 2 ^ 32" using unat_lt2p [of "m_num_sets c"] by simp
  have trunc: "unat (ucast w :: UInt32) \<le> unat w" for w :: UInt64
    by (simp add: unat_ucast_mod)
  show ?thesis
  proof (cases "m_hash c")
    case HASH_MASK
    have "unat (x AND ucast (m_num_sets c - 1)) \<le> unat (ucast (m_num_sets c - 1) :: UInt64)"
      by (metis word_and_le1 word_le_nat_alt)
    also have "\<dots> = ?n - 1" using nz by (simp add: unat_ucast_up unat_minus_one)
    finally have "unat (x AND ucast (m_num_sets c - 1)) < ?n" using pos by simp
    with lt32 have "unat (ucast (x AND ucast (m_num_sets c - 1)) :: UInt32) < ?n"
      by (simp add: unat_ucast_mod)
    with HASH_MASK show ?thesis by (simp add: hash_set_index_def Let_def)
  next
    case HASH_XOR_MOD
    have "(unat y mod ?n XOR unat z mod ?n) < ?n" for y z :: UInt64
      using assms(2) [OF HASH_XOR_MOD] pos nat_xor_less_power [of _ k] by (metis mod_less_divisor)
    then have "unat ((y mod ucast (m_num_sets c)) XOR (z mod ucast (m_num_sets c))) < ?n" for y z :: UInt64
      by (simp add: unsigned_xor_eq unat_mod_distrib n64)
    then have "unat (ucast ((y mod ucast (m_num_sets c)) XOR (z mod ucast (m_num_sets c))) :: UInt32) < ?n"
      for y z :: UInt64
      using trunc le_less_trans by blast
    with HASH_XOR_MOD nz64 show ?thesis by (simp add: hash_set_index_def Let_def)
  next
    case HASH_MER_MOD
    have d: "unat (ucast (m_num_sets c - 1) :: UInt64) = ?n - 1"
      using nz by (simp add: unat_ucast_up unat_minus_one)
    with assms(3) [OF HASH_MER_MOD] have "(ucast (m_num_sets c - 1) :: UInt64) \<noteq> 0"
      by (metis unat_0 zero_less_diff less_irrefl)
    moreover have "unat (x mod ucast (m_num_sets c - 1)) < ?n - 1"
      using assms(3) [OF HASH_MER_MOD] by (simp add: unat_mod_distrib d)
    then have "unat (ucast (x mod ucast (m_num_sets c - 1)) :: UInt32) < ?n"
      using trunc [of "x mod ucast (m_num_sets c - 1)"] by linarith
    ultimately show ?thesis using HASH_MER_MOD by (simp add: hash_set_index_def Let_def)
  qed (use nz64 md in \<open>simp_all add: hash_set_index_def Let_def case_prod_beta\<close>)
qed

text \<open>
  The set that a line maps to is a function of its tag: two addresses of the same line have the
  same set, whatever the hash and the home lookup.
\<close>

lemma linear_block_tag:
  assumes "wf_ahl a" and "lb \<le> unat (m_ahl_param a)"
    and "drop_bit lb x = drop_bit lb (y :: IntPtr)"
  shows "drop_bit lb (getLinearAddress a x) = drop_bit lb (getLinearAddress a y)"
proof -
  let ?p = "unat (m_ahl_param a)"
  have p: "drop_bit ?p x = drop_bit ?p y"
    using assms(2,3) by (metis drop_bit_drop_bit le_add_diff_inverse2)
  have eq: "bit x n \<longleftrightarrow> bit y n" if "lb \<le> n" for n
  proof -
    have "bit (drop_bit lb x) (n - lb) = bit (drop_bit lb y) (n - lb)" using assms(3) by simp
    with that show ?thesis by (simp add: bit_drop_bit_eq)
  qed
  have blk: "getLinearBlock a x = getLinearBlock a y"
    by (simp add: getLinearBlock_def p)
  show ?thesis
  proof (rule bit_eqI)
    fix n
    have "bit x (lb + n) \<longleftrightarrow> bit y (lb + n)" using eq by simp
    then show "bit (drop_bit lb (getLinearAddress a x)) n = bit (drop_bit lb (getLinearAddress a y)) n"
      by (simp add: bit_drop_bit_eq getLinearAddress_def bit_or_iff bit_and_iff blk)
  qed
qed

lemma splitAddress_tag:
  assumes "wf_base c" and "drop_bit (unat (m_log_blocksize c)) x = drop_bit (unat (m_log_blocksize c)) y"
  shows "splitAddress c x = splitAddress c y"
proof (cases "m_ahl c")
  case None
  with assms show ?thesis by (simp add: splitAddress_def)
next
  case (Some a)
  with assms(1) have "wf_ahl a" and "unat (m_log_blocksize c) \<le> unat (m_ahl_param a)"
    by (auto simp: wf_base_def)
  from linear_block_tag [OF this assms(2)] assms(2) Some show ?thesis
    by (simp add: splitAddress_def)
qed

lemma splitAddress_offset_roundtrip:
  assumes "wf_base c" and "splitAddress_offset c x = Inr (tag, s, off)"
  shows "unat x = unat (tagToAddress c tag) + unat off \<and> unat off < unat (m_blocksize c)"
proof -
  from assms(1) obtain lb where lb: "lb < 32" "m_blocksize c = 2 ^ lb" "unat (m_log_blocksize c) = lb"
    by (auto simp: wf_base_def)
  from assms(2) have tag: "tag = drop_bit lb x" and off: "off = ucast (x AND ucast (m_blocksize c - 1))"
    by (auto simp: splitAddress_offset_def splitAddress_def Let_def lb result_simps)
  have bs: "unat (m_blocksize c) = 2 ^ lb" using lb by (simp add: unat_2p)
  have "m_blocksize c \<noteq> 0" using bs by (metis power_not_zero unat_0 zero_neq_numeral)
  then have "unat (ucast (m_blocksize c - 1) :: UInt64) = 2 ^ lb - 1"
    using bs by (simp add: unat_ucast_up unat_minus_one)
  then have "unat (x AND ucast (m_blocksize c - 1)) = (unat x AND mask lb)"
    by (simp add: unsigned_and_eq mask_eq_exp_minus_1)
  then have m: "unat (x AND ucast (m_blocksize c - 1)) = unat x mod 2 ^ lb"
    by (simp only: take_bit_eq_mask [symmetric] take_bit_eq_mod)
  have "(2::nat) ^ lb \<le> 2 ^ 32" using lb(1) by (intro power_increasing) simp_all
  moreover have "unat x mod 2 ^ lb < 2 ^ lb" by simp
  ultimately have "unat x mod 2 ^ lb < 2 ^ 32" by linarith
  then have o: "unat off = unat x mod 2 ^ lb"
    unfolding off unat_ucast_mod m by simp
  have "unat (push_bit lb (drop_bit lb x)) = unat x div 2 ^ lb * 2 ^ lb"
  proof -
    have "unat (drop_bit lb x) * 2 ^ lb \<le> unat x"
      by (simp only: unat_drop_bit_div div_times_less_eq_dividend)
    then have "unat (drop_bit lb x) * 2 ^ lb < 2 ^ 64" using unat_lt2p [of x] by simp
    from unat_or_disjoint [OF this, of 0] show ?thesis
      by (simp add: unat_drop_bit_div del: drop_bit_numeral_bit0)
  qed
  with o bs show ?thesis
    by (simp add: tagToAddress_def tag lb(3) div_mult_mod_eq)
qed

lemma tagToAddress_split:
  assumes "wf_base c" and "splitAddress c x = Inr (tag, s)"
  shows "splitAddress c (tagToAddress c tag) = Inr (tag, s)"
proof -
  let ?lb = "unat (m_log_blocksize c)"
  from assms have lb: "?lb < 32" by (auto simp: wf_base_def)
  from assms(2) have tag: "tag = drop_bit ?lb x"
    by (auto simp: splitAddress_def Let_def result_simps)
  have "drop_bit ?lb (push_bit ?lb (drop_bit ?lb x)) = drop_bit ?lb x"
    using lb by (intro bit_eqI) (auto simp: bit_simps dest: bit_imp_le_length)
  then have "splitAddress c (tagToAddress c tag) = splitAddress c x"
    by (intro splitAddress_tag [OF assms(1)]) (simp add: tagToAddress_def tag)
  with assms(2) show ?thesis by simp
qed

lemma splitAddress_tag_inj:
  assumes "wf_base c" and "splitAddress c x = Inr (tag, s)" and "splitAddress c y = Inr (tag, t)"
  shows "s = t"
proof -
  from assms(2,3) have "drop_bit (unat (m_log_blocksize c)) x = drop_bit (unat (m_log_blocksize c)) y"
    by (auto simp: splitAddress_def Let_def result_simps)
  from splitAddress_tag [OF assms(1) this] assms(2,3) show ?thesis by simp
qed

text \<open>
  With a number of sets that is not a power of two the XOR hash leaves the array: three sets, block
  number 4 gives set 3.
\<close>

lemma xor_hash_out_of_range:
  "\<exists>c. CacheBase_new ''x'' 3 4 64 HASH_XOR_MOD None = Inr c \<and> hash_set_index c 4 = Inr 3"
  by (simp add: CacheBase_new_def hash_set_index_def floorLog2_def floorLog2_step_def Let_def)

end
