(* ===== verification/Cache.thy ===== *)
theory Cache
  imports Cache_Set Cache_Base
begin

text \<open>
  \<open>cache/cache.cc\<close>: a cache is an address map, an array of sets with their policies, the
  statistics object all sets share, the hit counters and the fault injector. A pointer to a
  \<open>CacheBlockInfo\<close> inside the cache is the pair of its set and its way.
\<close>

section \<open>State and operations\<close>

datatype access_t = INVALID_ACCESS_TYPE | LOAD | STORE

record cache =
  c_base :: cache_base
  c_enabled :: bool
  c_num_accesses :: UInt64
  c_num_hits :: UInt64
  c_type :: cache_t
  c_sets :: "cset list"
  c_policies :: "policy list"
  c_set_info :: "cache_set_info option"
  c_fault :: "injector option"

type_synonym block_ref = "nat \<times> nat"

definition createCacheSet :: "bool \<Rightarrow> string \<Rightarrow> set_cfg \<Rightarrow> cache_t \<Rightarrow> nat \<Rightarrow> nat \<Rightarrow> (cset \<times> policy) result" where
  "createCacheSet fault_injection repl_policy cfg cache_type associativity blocksize =
     bindE (parsePolicyType repl_policy) (\<lambda>ty.
     bindE (CacheSet_new fault_injection cache_type associativity blocksize) (\<lambda>cs.
     bindE (createPolicy ty cfg associativity) (\<lambda>p. Inr (cs, p))))"

definition Cache_new ::
  "string \<Rightarrow> set_cfg \<Rightarrow> UInt32 \<Rightarrow> UInt32 \<Rightarrow> UInt32 \<Rightarrow> string \<Rightarrow> cache_t \<Rightarrow> hash_t \<Rightarrow> injector option \<Rightarrow> ahl option \<Rightarrow> cache result" where
  "Cache_new name cfg num_sets associativity cache_block_size repl_policy cache_type hash fault_injector ahl_opt =
     bindE (CacheBase_new name num_sets associativity cache_block_size hash ahl_opt) (\<lambda>base.
     bindE (parsePolicyType repl_policy) (\<lambda>ty.
     bindE (createCacheSet (fault_injector \<noteq> None) repl_policy cfg cache_type (unat associativity) (unat cache_block_size)) (\<lambda>(cs, p).
       Inr \<lparr>c_base = base, c_enabled = False, c_num_accesses = 0, c_num_hits = 0, c_type = cache_type,
            c_sets = replicate (unat num_sets) cs, c_policies = replicate (unat num_sets) p,
            c_set_info = createCacheSetInfo ty cfg (unat associativity), c_fault = fault_injector\<rparr>)))"

text \<open>The policy call of set \<open>s\<close>: the set's object and the shared statistics.\<close>

definition set_state :: "cache \<Rightarrow> nat \<Rightarrow> policy_state" where
  "set_state c s = (c_policies c ! s, c_set_info c)"

definition put_set :: "nat \<Rightarrow> cset \<Rightarrow> policy_state \<Rightarrow> cache \<Rightarrow> cache" where
  "put_set s cs st c =
     c\<lparr>c_sets := (c_sets c)[s := cs], c_policies := (c_policies c)[s := fst st], c_set_info := snd st\<rparr>"

definition block_at :: "cache \<Rightarrow> block_ref \<Rightarrow> block_info" where
  "block_at c r = cs_blocks (c_sets c ! fst r) ! snd r"

definition set_block :: "block_ref \<Rightarrow> block_info \<Rightarrow> cache \<Rightarrow> cache" where
  "set_block r b c =
     (let cs = c_sets c ! fst r
      in c\<lparr>c_sets := (c_sets c)[fst r := cs\<lparr>cs_blocks := (cs_blocks cs)[snd r := b]\<rparr>]\<rparr>)"

definition invalidateSingleLine :: "IntPtr \<Rightarrow> cache \<Rightarrow> (bool \<times> cache) result" where
  "invalidateSingleLine addr c =
     bindE (splitAddress (c_base c) addr) (\<lambda>(tag, set_index).
     check (set_index < m_num_sets (c_base c)) (Assert ''set_index < m_num_sets'')
      (bindE (at (c_sets c) (unat set_index)) (\<lambda>cs.
        (let (found, cs') = cs_invalidate cs tag
         in Inr (found, put_set (unat set_index) cs' (set_state c (unat set_index)) c)))))"

definition peekSingleLine :: "IntPtr \<Rightarrow> cache \<Rightarrow> block_ref option result" where
  "peekSingleLine addr c =
     bindE (splitAddress (c_base c) addr) (\<lambda>(tag, set_index).
     bindE (at (c_sets c) (unat set_index)) (\<lambda>cs.
       Inr (map_option (\<lambda>(i, b). (unat set_index, i)) (cs_find cs tag))))"

definition run_preRead :: "cset \<Rightarrow> nat \<Rightarrow> nat \<Rightarrow> nat \<Rightarrow> injector option \<Rightarrow> (cset \<times> injector option) result" where
  "run_preRead cs line_index offset bytes fi =
     (case fi of
        None \<Rightarrow> Inr (cs, None)
      | Some fi0 \<Rightarrow>
          bindE (getDataPtr cs line_index offset) (\<lambda>pos.
          bindE (preRead bytes (the (cs_data cs)) pos fi0) (\<lambda>(masks, fi1).
            Inr (cs\<lparr>cs_data := Some masks\<rparr>, Some fi1))))"

definition run_postWrite :: "cset \<Rightarrow> nat \<Rightarrow> nat \<Rightarrow> nat \<Rightarrow> injector option \<Rightarrow> (cset \<times> injector option) result" where
  "run_postWrite cs line_index offset bytes fi =
     (case fi of
        None \<Rightarrow> Inr (cs, None)
      | Some fi0 \<Rightarrow>
          bindE (getDataPtr cs line_index offset) (\<lambda>pos.
            (let (masks, fi1) = postWrite bytes (the (cs_data cs)) pos fi0
             in Inr (cs\<lparr>cs_data := Some masks\<rparr>, Some fi1))))"

text \<open>\<open>accessSingleLine\<close> returns the block, if any, and what a load copied into the buffer.\<close>

definition accessSingleLine ::
  "IntPtr \<Rightarrow> access_t \<Rightarrow> byte list option \<Rightarrow> nat \<Rightarrow> bool \<Rightarrow> cache \<Rightarrow> (block_ref option \<times> byte list option \<times> cache) result" where
  "accessSingleLine addr access_type buff bytes update_replacement c =
     bindE (splitAddress_offset (c_base c) addr) (\<lambda>(tag, set_index, block_offset).
     bindE (at (c_sets c) (unat set_index)) (\<lambda>cs.
       (let s = unat set_index;
            upd = updateReplacementIndex (length (cs_blocks cs))
        in case cs_find cs tag of
          None \<Rightarrow> Inr (None, None, c)
        | Some (line_index, b) \<Rightarrow>
            if access_type = LOAD
            then bindE (run_preRead cs line_index (unat block_offset) bytes (c_fault c)) (\<lambda>(cs', fi).
                 bindE (read_line upd cs' line_index (unat block_offset) (buff \<noteq> None) bytes update_replacement (set_state c s)) (\<lambda>(out, st).
                   Inr (Some (s, line_index), out, (put_set s cs' st c)\<lparr>c_fault := fi\<rparr>)))
            else bindE (write_line upd cs line_index (unat block_offset) buff bytes update_replacement (set_state c s)) (\<lambda>(cs', st).
                 bindE (run_postWrite cs' line_index (unat block_offset) bytes (c_fault c)) (\<lambda>(cs'', fi).
                   Inr (Some (s, line_index), None, (put_set s cs'' st c)\<lparr>c_fault := fi\<rparr>))))))"

text \<open>
  \<open>insertSingleLine\<close>: besides what the set reports, \<open>*evict_addr\<close> is computed from the tag of
  \<open>evict_block_info\<close>, also when nothing was evicted.
\<close>

definition insertSingleLine ::
  "IntPtr \<Rightarrow> byte list option \<Rightarrow> block_info \<Rightarrow> bool \<Rightarrow> cntlr option \<Rightarrow> cache \<Rightarrow> (insert_out \<times> IntPtr \<times> cache) result" where
  "insertSingleLine addr fill_buff evict_block_info evict_buff cn c =
     bindE (splitAddress (c_base c) addr) (\<lambda>(tag, set_index).
     bindE (CacheBlockInfo_create (c_type c)) (\<lambda>b.
     bindE (at (c_sets c) (unat set_index)) (\<lambda>cs.
       (let s = unat set_index
        in bindE (cs_insert getReplacementIndex cn cs (b\<lparr>m_tag := tag\<rparr>) fill_buff evict_block_info evict_buff (set_state c s)) (\<lambda>(out, cs', st).
           (let evict_addr = tagToAddress (c_base c) (m_tag (ins_evict_info out))
            in case c_fault c of
                 None \<Rightarrow> Inr (out, evict_addr, put_set s cs' st c)
               | Some fi0 \<Rightarrow>
                   (case cs_find cs' tag of
                      None \<Rightarrow> Inl (Assert ''Inserted line no longer there?'')
                    | Some (line_index, _) \<Rightarrow>
                        bindE (run_postWrite cs' line_index 0 (cs_blocksize cs') (c_fault c)) (\<lambda>(cs'', fi).
                          Inr (out, evict_addr, (put_set s cs'' st c)\<lparr>c_fault := fi\<rparr>)))))))))"

definition cache_updateCounters :: "bool \<Rightarrow> cache \<Rightarrow> cache" where
  "cache_updateCounters cache_hit c =
     (if c_enabled c
      then c\<lparr>c_num_accesses := c_num_accesses c + 1,
             c_num_hits := (if cache_hit then c_num_hits c + 1 else c_num_hits c)\<rparr>
      else c)"

definition cache_updateHits :: "UInt64 \<Rightarrow> cache \<Rightarrow> cache" where
  "cache_updateHits hits c =
     (if c_enabled c
      then c\<lparr>c_num_accesses := c_num_accesses c + hits, c_num_hits := c_num_hits c + hits\<rparr>
      else c)"

definition cache_enable :: "bool \<Rightarrow> cache \<Rightarrow> cache" where
  "cache_enable on c = c\<lparr>c_enabled := on\<rparr>"

section \<open>The invariant of a cache and its abstract content\<close>

definition wf_index :: "cache_base \<Rightarrow> bool" where
  "wf_index b \<longleftrightarrow>
     wf_base b \<and> 1 \<le> unat (m_log_blocksize b) \<and>
     (m_hash b = HASH_XOR_MOD \<longrightarrow> (\<exists>k. unat (m_num_sets b) = 2 ^ k)) \<and>
     (m_hash b = HASH_MER_MOD \<longrightarrow> 1 < unat (m_num_sets b))"

definition line_of :: "cache \<Rightarrow> IntPtr \<Rightarrow> IntPtr" where
  "line_of c addr = drop_bit (unat (m_log_blocksize (c_base c))) addr"

definition set_ok :: "cache \<Rightarrow> nat \<Rightarrow> bool" where
  "set_ok c s \<longleftrightarrow>
     length (cs_blocks (c_sets c ! s)) = unat (m_associativity (c_base c)) \<and>
     unique_tags (cs_blocks (c_sets c ! s)) \<and>
     policy_inv (unat (m_associativity (c_base c))) (set_state c s) \<and>
     (\<forall>t \<in> tags (cs_blocks (c_sets c ! s)). splitAddress (c_base c) (tagToAddress (c_base c) t) = Inr (t, of_nat s))"

definition cache_inv :: "cache \<Rightarrow> bool" where
  "cache_inv c \<longleftrightarrow>
     wf_index (c_base c) \<and> c_type c \<noteq> INVALID_CACHE_TYPE \<and>
     length (c_sets c) = unat (m_num_sets (c_base c)) \<and> length (c_policies c) = unat (m_num_sets (c_base c)) \<and>
     (\<forall>s < length (c_sets c). set_ok c s)"

definition cached :: "cache \<Rightarrow> IntPtr set" where
  "cached c = (\<Union>s < length (c_sets c). tags (cs_blocks (c_sets c ! s)))"

lemma splitAddress_total:
  assumes "wf_index b"
  shows "\<exists>s. splitAddress b addr = Inr (drop_bit (unat (m_log_blocksize b)) addr, s) \<and> s < m_num_sets b"
proof -
  have lb: "unat (m_log_blocksize b) < 64" using assms by (auto simp: wf_index_def wf_base_def)
  from assms obtain k where k: "m_hash b = HASH_XOR_MOD \<Longrightarrow> unat (m_num_sets b) = 2 ^ k"
    by (auto simp: wf_index_def)
  define x where "x = drop_bit (unat (m_log_blocksize b)) (case m_ahl b of Some a \<Rightarrow> getLinearAddress a addr | None \<Rightarrow> addr)"
  from hash_set_index_in_range [of b k x] assms k obtain s where
    "hash_set_index b x = Inr s" "unat s < unat (m_num_sets b)" by (auto simp: wf_index_def)
  with lb show ?thesis by (auto simp: splitAddress_def Let_def x_def word_less_nat_alt)
qed

lemma line_not_invalid: "1 \<le> k \<Longrightarrow> k < 64 \<Longrightarrow> drop_bit k (addr :: IntPtr) \<noteq> NOT 0"
proof
  assume k: "1 \<le> k" "k < 64" and e: "drop_bit k addr = NOT 0"
  have "bit (drop_bit k addr) 63 = bit (NOT (0 :: IntPtr)) 63" using e by simp
  moreover have "\<not> bit addr (k + 63)" using k by (auto dest: bit_imp_le_length)
  ultimately show False by (simp add: bit_simps)
qed

lemma line_of_valid: "wf_index (c_base c) \<Longrightarrow> line_of c addr \<noteq> NOT 0"
  unfolding line_of_def by (rule line_not_invalid) (auto simp: wf_index_def wf_base_def)

lemma set_home:
  "cache_inv c \<Longrightarrow> s < length (c_sets c) \<Longrightarrow> t \<in> tags (cs_blocks (c_sets c ! s)) \<Longrightarrow>
   splitAddress (c_base c) (tagToAddress (c_base c) t) = Inr (t, of_nat s)"
  by (simp add: cache_inv_def set_ok_def)

lemma cached_set:
  assumes "cache_inv c" "splitAddress (c_base c) addr = Inr (t, s)"
  shows "t \<in> cached c \<longleftrightarrow> t \<in> tags (cs_blocks (c_sets c ! unat s))" "t = line_of c addr"
    "unat s < length (c_sets c)"
proof -
  from splitAddress_total [of "c_base c" addr] assms show t: "t = line_of c addr" and s: "unat s < length (c_sets c)"
    by (auto simp: cache_inv_def line_of_def word_less_nat_alt)
  have "s' = unat s" if "s' < length (c_sets c)" "t \<in> tags (cs_blocks (c_sets c ! s'))" for s'
  proof -
    from assms(1) that have "splitAddress (c_base c) (tagToAddress (c_base c) t) = Inr (t, of_nat s')"
      by (simp add: cache_inv_def set_ok_def)
    with tagToAddress_split [of "c_base c" addr t s] assms have "s = of_nat s'"
      by (simp add: cache_inv_def wf_index_def)
    moreover have "s' < 2 ^ 32" using that(1) assms(1) unat_lt2p [of "m_num_sets (c_base c)"]
      by (simp add: cache_inv_def)
    ultimately show ?thesis by (simp add: unat_of_nat_le)
  qed
  with s show "t \<in> cached c \<longleftrightarrow> t \<in> tags (cs_blocks (c_sets c ! unat s))" by (auto simp: cached_def)
qed

lemma put_set_fields [simp]:
  "c_base (put_set s cs st c) = c_base c" "c_type (put_set s cs st c) = c_type c"
  "length (c_sets (put_set s cs st c)) = length (c_sets c)" "c_fault (put_set s cs st c) = c_fault c"
  "c_num_accesses (put_set s cs st c) = c_num_accesses c" "c_num_hits (put_set s cs st c) = c_num_hits c"
  "line_of (put_set s cs st c) = line_of c"
  by (simp_all add: put_set_def line_of_def fun_eq_iff)

lemma cache_inv_put_set:
  assumes "cache_inv c" "s < length (c_sets c)" "info_shape (snd st) = info_shape (c_set_info c)"
    and "length (cs_blocks cs) = unat (m_associativity (c_base c))" "unique_tags (cs_blocks cs)"
    and "policy_inv (unat (m_associativity (c_base c))) st"
    and "\<forall>t \<in> tags (cs_blocks cs). splitAddress (c_base c) (tagToAddress (c_base c) t) = Inr (t, of_nat s)"
  shows "cache_inv (put_set s cs st c)"
proof -
  have len: "length (c_policies c) = length (c_sets c)" using assms(1) by (simp add: cache_inv_def)
  have "set_ok (put_set s cs st c) s'" if s': "s' < length (c_sets c)" for s'
  proof (cases "s' = s")
    case True
    then show ?thesis using assms(2,4-) len by (simp add: set_ok_def put_set_def set_state_def)
  next
    case False
    have "set_ok c s'" using assms(1) s' by (simp add: cache_inv_def)
    with False policy_inv_shape [OF assms(3), of _ "c_policies c ! s'"] show ?thesis
      by (simp add: set_ok_def put_set_def set_state_def)
  qed
  with assms(1) show ?thesis by (simp add: cache_inv_def) (simp add: put_set_def)
qed

lemma cached_put_set:
  assumes "cache_inv c" "s < length (c_sets c)"
  shows "cached (put_set s cs st c) = (cached c - tags (cs_blocks (c_sets c ! s))) \<union> tags (cs_blocks cs)"
proof -
  have inj: "s1 = s2" if "s1 < length (c_sets c)" "s2 < length (c_sets c)"
    "t \<in> tags (cs_blocks (c_sets c ! s1))" "t \<in> tags (cs_blocks (c_sets c ! s2))" for s1 s2 t
  proof -
    have "splitAddress (c_base c) (tagToAddress (c_base c) t) = Inr (t, of_nat s1)"
      "splitAddress (c_base c) (tagToAddress (c_base c) t) = Inr (t, of_nat s2)"
      using set_home [OF assms(1)] that by blast+
    then have "(of_nat s1 :: UInt32) = of_nat s2" by simp
    then have e: "unat (of_nat s1 :: UInt32) = unat (of_nat s2 :: UInt32)" by (rule arg_cong)
    have "s1 < 2 ^ LENGTH(32)" "s2 < 2 ^ LENGTH(32)"
      using that assms(1) unat_lt2p [of "m_num_sets (c_base c)"] by (simp_all add: cache_inv_def)
    from trans [OF trans [OF sym [OF unat_of_nat_le [OF this(1)]] e] unat_of_nat_le [OF this(2)]]
    show ?thesis .
  qed
  have "cached (put_set s cs st c) = tags (cs_blocks cs) \<union> (\<Union>s' \<in> {..<length (c_sets c)} - {s}. tags (cs_blocks (c_sets c ! s')))"
    using assms(2) by (auto simp: cached_def put_set_def nth_list_update split: if_splits)
  also have "(\<Union>s' \<in> {..<length (c_sets c)} - {s}. tags (cs_blocks (c_sets c ! s'))) = cached c - tags (cs_blocks (c_sets c ! s))"
    using inj assms(2) by (auto simp: cached_def)
  finally show ?thesis by (simp add: Un_commute)
qed

section \<open>The operations on the abstract content\<close>

text \<open>A look-up finds exactly the resident lines.\<close>

lemma peekSingleLine_cached:
  assumes "cache_inv c"
  shows "\<exists>r. peekSingleLine addr c = Inr r \<and> (r \<noteq> None \<longleftrightarrow> line_of c addr \<in> cached c) \<and>
    (\<forall>ref. r = Some ref \<longrightarrow> m_tag (block_at c ref) = line_of c addr \<and> fst ref < length (c_sets c) \<and>
       snd ref < length (cs_blocks (c_sets c ! fst ref)))"
proof -
  from splitAddress_total [of "c_base c" addr] assms obtain s where
    s: "splitAddress (c_base c) addr = Inr (line_of c addr, s)" by (auto simp: cache_inv_def line_of_def)
  note cs = cached_set [OF assms s]
  have v: "line_of c addr \<noteq> NOT 0" using assms by (intro line_of_valid) (simp add: cache_inv_def)
  show ?thesis
    using s cs(1,3) find_index_tags [OF v] find_index_Some
    by (auto simp: peekSingleLine_def cs_find_def block_at_def)
qed

text \<open>Invalidation removes the line and nothing else.\<close>

lemma invalidateSingleLine_cached:
  assumes "cache_inv c"
  shows "\<exists>c'. invalidateSingleLine addr c = Inr (line_of c addr \<in> cached c, c') \<and>
    cache_inv c' \<and> cached c' = cached c - {line_of c addr}"
proof -
  from splitAddress_total [of "c_base c" addr] assms obtain s where
    s: "splitAddress (c_base c) addr = Inr (line_of c addr, s)" "s < m_num_sets (c_base c)"
    by (auto simp: cache_inv_def line_of_def)
  let ?s = "unat s"
  note cs = cached_set [OF assms s(1)]
  have v: "line_of c addr \<noteq> NOT 0" using assms by (intro line_of_valid) (simp add: cache_inv_def)
  obtain found cs' where i: "cs_invalidate (c_sets c ! ?s) (line_of c addr) = (found, cs')" by fastforce
  have ok: "set_ok c ?s" using assms cs(3) by (simp add: cache_inv_def)
  note spec = cs_invalidate_spec [OF _ v i]
  let ?c' = "put_set ?s cs' (set_state c ?s) c"
  have "cache_inv ?c'"
    using ok spec by (intro cache_inv_put_set [OF assms cs(3)]) (auto simp: set_ok_def set_state_def)
  moreover have "cached ?c' = cached c - {line_of c addr}"
    using spec ok cached_put_set [OF assms cs(3)] cs(1,3) by (auto simp: set_ok_def cached_def)
  moreover have "invalidateSingleLine addr c = Inr (found, ?c')"
    using s i cs(3) by (simp add: invalidateSingleLine_def)
  moreover have "found = (line_of c addr \<in> cached c)" using spec(1) ok cs(1) by (simp add: set_ok_def)
  ultimately show ?thesis by auto
qed

lemma cached_fault [simp]:
  "cached (c\<lparr>c_fault := fi\<rparr>) = cached c" "cache_inv (c\<lparr>c_fault := fi\<rparr>) = cache_inv c"
  "line_of (c\<lparr>c_fault := fi\<rparr>) = line_of c"
  by (simp_all add: cached_def cache_inv_def set_ok_def set_state_def line_of_def fun_eq_iff)

lemma run_postWrite_blocks:
  "run_postWrite cs i off k fi = Inr (cs', fi') \<Longrightarrow> cs_blocks cs' = cs_blocks cs"
  by (auto simp: run_postWrite_def postWrite_def result_simps Let_def split: option.splits)

lemma run_preRead_blocks:
  "run_preRead cs i off k fi = Inr (cs', fi') \<Longrightarrow> cs_blocks cs' = cs_blocks cs"
  by (auto simp: run_preRead_def result_simps split: option.splits)

lemma insertSingleLine_cases:
  assumes "insertSingleLine addr fill ev want cn c = Inr (out, evict_addr, c')"
  obtains tag s b cs' cs'' st fi where "splitAddress (c_base c) addr = Inr (tag, s)"
    "CacheBlockInfo_create (c_type c) = Inr b" "unat s < length (c_sets c)"
    "cs_insert getReplacementIndex cn (c_sets c ! unat s) (b\<lparr>m_tag := tag\<rparr>) fill ev want (set_state c (unat s)) = Inr (out, cs', st)"
    "evict_addr = tagToAddress (c_base c) (m_tag (ins_evict_info out))"
    "c' = (put_set (unat s) cs'' st c)\<lparr>c_fault := fi\<rparr>" "cs_blocks cs'' = cs_blocks cs'"
proof -
  from assms obtain tag s b out' cs' st where
    1: "splitAddress (c_base c) addr = Inr (tag, s)" "CacheBlockInfo_create (c_type c) = Inr b"
      "unat s < length (c_sets c)"
      "cs_insert getReplacementIndex cn (c_sets c ! unat s) (b\<lparr>m_tag := tag\<rparr>) fill ev want (set_state c (unat s)) = Inr (out', cs', st)"
    by (auto simp: insertSingleLine_def result_simps Let_def)
  have "out' = out \<and> evict_addr = tagToAddress (c_base c) (m_tag (ins_evict_info out)) \<and>
    (\<exists>cs'' fi. c' = (put_set (unat s) cs'' st c)\<lparr>c_fault := fi\<rparr> \<and> cs_blocks cs'' = cs_blocks cs')"
  proof (cases "c_fault c")
    case None
    then have "put_set (unat s) cs' st c = (put_set (unat s) cs' st c)\<lparr>c_fault := None\<rparr>" by (simp add: put_set_def)
    with assms 1 None show ?thesis by (auto simp: insertSingleLine_def Let_def)
  next
    case (Some fi0)
    with assms 1 obtain j cs'' fi where "out' = out" "evict_addr = tagToAddress (c_base c) (m_tag (ins_evict_info out))"
      "run_postWrite cs' j 0 (cs_blocksize cs') (c_fault c) = Inr (cs'', fi)"
      "c' = (put_set (unat s) cs'' st c)\<lparr>c_fault := fi\<rparr>"
      by (auto simp: insertSingleLine_def Let_def result_simps split: option.splits)
    then show ?thesis using run_postWrite_blocks by blast
  qed
  with 1 show ?thesis using that by blast
qed

text \<open>
  Insertion adds the line and removes exactly the line that \<open>*evict_addr\<close> names, which was resident
  in the same set.
\<close>

lemma insertSingleLine_cached:
  assumes "cache_inv c" "line_of c addr \<notin> cached c"
    and "insertSingleLine addr fill ev want cn c = Inr (out, evict_addr, c')"
  shows "cache_inv c'"
    and "cached c' = insert (line_of c addr) (cached c - (if ins_eviction out then {line_of c evict_addr} else {}))"
    and "ins_eviction out \<Longrightarrow> line_of c evict_addr \<in> cached c \<and> line_of c evict_addr \<noteq> line_of c addr"
proof -
  from insertSingleLine_cases [OF assms(3)] obtain tag s b cs' cs'' st fi where
    sp: "splitAddress (c_base c) addr = Inr (tag, s)" and b: "CacheBlockInfo_create (c_type c) = Inr b"
    and ins: "cs_insert getReplacementIndex cn (c_sets c ! unat s) (b\<lparr>m_tag := tag\<rparr>) fill ev want (set_state c (unat s)) = Inr (out, cs', st)"
    and ea: "evict_addr = tagToAddress (c_base c) (m_tag (ins_evict_info out))"
    and c': "c' = (put_set (unat s) cs'' st c)\<lparr>c_fault := fi\<rparr>" and cs'': "cs_blocks cs'' = cs_blocks cs'" by metis
  let ?s = "unat s" and ?bs = "cs_blocks (c_sets c ! unat s)"
  note cs = cached_set [OF assms(1) sp]
  have ok: "set_ok c ?s" using assms(1) cs(3) by (simp add: cache_inv_def)
  have v: "isValid (b\<lparr>m_tag := tag\<rparr>)" using assms(1) cs(2) line_of_valid [of c addr]
    by (simp add: isValid_def cache_inv_def)
  have fresh: "m_tag (b\<lparr>m_tag := tag\<rparr>) \<notin> tags ?bs" using assms(2) cs by simp
  have pinv: "policy_inv (length ?bs) (set_state c ?s)" "unique_tags ?bs" using ok by (simp_all add: set_ok_def)
  note ref = policy.insert_refines [OF pinv v fresh ins]
  from cs_insert_cases [OF ins] have "\<exists>i cost. getReplacementIndex cn ?bs (set_state c ?s) = Inr (i, st, cost)" by metis
  then have shape: "info_shape (snd st) = info_shape (c_set_info c)" using get_shape by (fastforce simp: set_state_def)
  have home: "splitAddress (c_base c) (tagToAddress (c_base c) t) = Inr (t, of_nat ?s)" if "t \<in> insert tag (tags ?bs)" for t
    using that ok tagToAddress_split [OF _ sp] assms(1) by (auto simp: set_ok_def cache_inv_def wf_index_def)
  show inv': "cache_inv c'"
    unfolding c' cached_fault
  proof (rule cache_inv_put_set [OF assms(1) cs(3) shape])
    show "length (cs_blocks cs'') = unat (m_associativity (c_base c))" "unique_tags (cs_blocks cs'')"
      "policy_inv (unat (m_associativity (c_base c))) st"
      using ref(1-3) ok by (simp_all add: cs'' set_ok_def)
    show "\<forall>t \<in> tags (cs_blocks cs''). splitAddress (c_base c) (tagToAddress (c_base c) t) = Inr (t, of_nat ?s)"
      using ref(4) home by (auto simp: cs'')
  qed
  have ev_line: "line_of c evict_addr = m_tag (ins_evict_info out)" if "ins_eviction out"
  proof -
    from ref(5) [OF that] home have "splitAddress (c_base c) evict_addr = Inr (m_tag (ins_evict_info out), of_nat ?s)"
      by (simp add: ea)
    then show ?thesis using cached_set(2) [OF assms(1)] by metis
  qed
  show "ins_eviction out \<Longrightarrow> line_of c evict_addr \<in> cached c \<and> line_of c evict_addr \<noteq> line_of c addr"
    using ref(5) ev_line fresh cs by (auto simp: cached_def)
  show "cached c' = insert (line_of c addr) (cached c - (if ins_eviction out then {line_of c evict_addr} else {}))"
    unfolding c' cached_fault cached_put_set [OF assms(1) cs(3)] cs'' ref(4)
    using ref(5) ev_line cs by (auto simp: cached_def)
qed

text \<open>
  An access never changes which lines are resident; it hits exactly when the line is, and then
  returns a reference to the block of that line.
\<close>

lemma line_access_fields:
  "read_line upd cs i off ob k ur st = Inr (out, st') \<Longrightarrow> st' = st \<or> upd i st = Inr st'"
  "write_line upd cs i off ib k ur st = Inr (cs', st') \<Longrightarrow>
     (st' = st \<or> upd i st = Inr st') \<and> cs_blocks cs' = cs_blocks cs"
  by (auto simp: read_line_def write_line_def result_simps split: if_splits option.splits prod.splits)

lemma put_same_blocks:
  assumes "cache_inv c" "s < length (c_sets c)" "cs_blocks cs = cs_blocks (c_sets c ! s)"
    and "st = set_state c s \<or> updateReplacementIndex (length (cs_blocks cs)) i (set_state c s) = Inr st"
    and "i < length (cs_blocks cs)"
  shows "cache_inv (put_set s cs st c)" "cached (put_set s cs st c) = cached c"
proof -
  have ok: "set_ok c s" using assms(1,2) by (simp add: cache_inv_def)
  have "info_shape (snd st) = info_shape (c_set_info c)"
    using assms(4) by (auto simp: set_state_def dest: update_shape)
  moreover have "policy_inv (unat (m_associativity (c_base c))) st"
    using assms(3,4,5) ok policy_upd_ok [of _ "set_state c s" i st] by (auto simp: set_ok_def)
  ultimately show "cache_inv (put_set s cs st c)"
    using ok by (intro cache_inv_put_set [OF assms(1,2)]) (auto simp: set_ok_def assms(3))
  show "cached (put_set s cs st c) = cached c"
    using cached_put_set [OF assms(1,2)] assms(2,3) by (auto simp: cached_def)
qed

lemma accessSingleLine_cases:
  assumes "accessSingleLine addr ty buff bytes ur c = Inr (r, out, c')"
  obtains (miss) tag s where "splitAddress (c_base c) addr = Inr (tag, s)" "unat s < length (c_sets c)"
      "cs_find (c_sets c ! unat s) tag = None" "r = None" "c' = c"
  | (hit) tag s i b cs' st fi where "splitAddress (c_base c) addr = Inr (tag, s)" "unat s < length (c_sets c)"
      "cs_find (c_sets c ! unat s) tag = Some (i, b)" "r = Some (unat s, i)"
      "c' = (put_set (unat s) cs' st c)\<lparr>c_fault := fi\<rparr>" "cs_blocks cs' = cs_blocks (c_sets c ! unat s)"
      "st = set_state c (unat s) \<or>
       updateReplacementIndex (length (cs_blocks (c_sets c ! unat s))) i (set_state c (unat s)) = Inr st"
proof -
  from assms obtain tag s off where sp: "splitAddress (c_base c) addr = Inr (tag, s)"
    and s: "unat s < length (c_sets c)" and off: "splitAddress_offset (c_base c) addr = Inr (tag, s, off)"
    by (auto simp: accessSingleLine_def splitAddress_offset_def result_simps Let_def)
  let ?s = "unat s" and ?cs = "c_sets c ! unat s"
  let ?upd = "updateReplacementIndex (length (cs_blocks ?cs))"
  show ?thesis
  proof (cases "cs_find ?cs tag")
    case None
    with assms off s have "r = None" "c' = c" by (auto simp: accessSingleLine_def Let_def)
    with miss [OF sp s None] show ?thesis .
  next
    case (Some ib)
    obtain i b where ib: "ib = (i, b)" by (cases ib)
    note find = Some [unfolded ib]
    show ?thesis
    proof (cases "ty = LOAD")
      case True
      with assms off s find obtain cs' fi st where
        "run_preRead ?cs i (unat off) bytes (c_fault c) = Inr (cs', fi)"
        "read_line ?upd cs' i (unat off) (buff \<noteq> None) bytes ur (set_state c ?s) = Inr (out, st)"
        "r = Some (?s, i)" "c' = (put_set ?s cs' st c)\<lparr>c_fault := fi\<rparr>"
        by (auto simp: accessSingleLine_def Let_def result_simps)
      then show ?thesis using hit [OF sp s find] run_preRead_blocks line_access_fields(1) by metis
    next
      case False
      with assms off s find obtain cs1 cs' fi st where
        "write_line ?upd ?cs i (unat off) buff bytes ur (set_state c ?s) = Inr (cs1, st)"
        "run_postWrite cs1 i (unat off) bytes (c_fault c) = Inr (cs', fi)"
        "r = Some (?s, i)" "c' = (put_set ?s cs' st c)\<lparr>c_fault := fi\<rparr>"
        by (auto simp: accessSingleLine_def Let_def result_simps)
      then show ?thesis using hit [OF sp s find] run_postWrite_blocks line_access_fields(2) by metis
    qed
  qed
qed

lemma accessSingleLine_frame:
  assumes "accessSingleLine addr ty buff bytes ur c = Inr (r, out, c')"
  shows "peekSingleLine addr c = Inr r" "peekSingleLine a c' = peekSingleLine a c" "block_at c' ref = block_at c ref"
proof -
  from assms have "peekSingleLine addr c = Inr r \<and> peekSingleLine a c' = peekSingleLine a c \<and> block_at c' ref = block_at c ref"
  proof (cases rule: accessSingleLine_cases)
    case (miss tag s)
    then show ?thesis by (simp add: peekSingleLine_def)
  next
    case (hit tag s i b cs' st fi)
    have "peekSingleLine addr c = Inr r" using hit(1-4) by (simp add: peekSingleLine_def)
    moreover have "cs_find (((c_sets c)[unat s := cs']) ! k) = cs_find (c_sets c ! k)" for k
      using hit(2,6) by (cases "k = unat s") (auto simp: cs_find_def fun_eq_iff)
    then have "peekSingleLine a c' = peekSingleLine a c"
      by (cases "splitAddress (c_base c) a") (auto simp: hit(5) peekSingleLine_def put_set_def at_def)
    moreover have "block_at c' ref = block_at c ref"
      using hit(2,6) by (cases "fst ref = unat s") (simp_all add: hit(5) block_at_def put_set_def)
    ultimately show ?thesis by simp
  qed
  then show "peekSingleLine addr c = Inr r" "peekSingleLine a c' = peekSingleLine a c" "block_at c' ref = block_at c ref"
    by auto
qed

lemma accessSingleLine_cached:
  assumes "cache_inv c" "accessSingleLine addr ty buff bytes ur c = Inr (r, out, c')"
  shows "cache_inv c'" "cached c' = cached c" "peekSingleLine addr c = Inr r" "peekSingleLine addr c' = Inr r"
    "\<And>ref. block_at c' ref = block_at c ref"
proof -
  from assms(2) have "cache_inv c' \<and> cached c' = cached c \<and> peekSingleLine addr c = Inr r \<and>
    peekSingleLine addr c' = Inr r \<and> (\<forall>ref. block_at c' ref = block_at c ref)"
  proof (cases rule: accessSingleLine_cases)
    case (miss tag s)
    with assms(1) show ?thesis by (simp add: peekSingleLine_def)
  next
    case (hit tag s i b cs' st fi)
    let ?s = "unat s"
    have i: "i < length (cs_blocks cs')" using hit(3,6) find_index_Some by (auto simp: cs_find_def)
    have "block_at c' ref = block_at c ref" for ref
      using hit(2,6) by (cases "fst ref = ?s") (simp_all add: hit(5) block_at_def put_set_def)
    moreover have "peekSingleLine addr c = Inr r" using hit(1-4) by (simp add: peekSingleLine_def)
    moreover have "peekSingleLine addr c' = Inr r"
      using hit(1-4,6) by (simp add: hit(5) peekSingleLine_def put_set_def cs_find_def)
    ultimately show ?thesis
      using put_same_blocks [OF assms(1) hit(2,6) _ i] hit(5-7) by simp
  qed
  then show "cache_inv c'" "cached c' = cached c" "peekSingleLine addr c = Inr r" "peekSingleLine addr c' = Inr r"
    "\<And>ref. block_at c' ref = block_at c ref" by auto
qed

text \<open>A new cache satisfies the invariant and is empty.\<close>

lemma Cache_new_inv:
  assumes "Cache_new name cfg num_sets assoc (2 ^ lb) pol cache_type hash fi ao = Inr c"
    and "1 \<le> lb" "lb < 32" "\<And>a. ao = Some a \<Longrightarrow> wf_ahl a \<and> lb \<le> unat (m_ahl_param a)"
    and "hash = HASH_XOR_MOD \<Longrightarrow> \<exists>k. unat num_sets = 2 ^ k" "hash = HASH_MER_MOD \<Longrightarrow> 1 < unat num_sets"
    and "0 < unat assoc" "unat assoc \<le> 256" "pol = ''nmru'' \<Longrightarrow> 2 \<le> unat assoc"
    and "0 < cfg_qbs_attempts cfg" "1 \<le> cfg_srrip_bits cfg" "cfg_srrip_bits cfg \<le> 8"
  shows "cache_inv c" "cached c = {}"
proof -
  from assms(1) obtain base ty cs p where base: "CacheBase_new name num_sets assoc (2 ^ lb) hash ao = Inr base"
    and ty: "parsePolicyType pol = Inr ty"
    and create: "createCacheSet (fi \<noteq> None) pol cfg cache_type (unat assoc) (unat (2 ^ lb :: UInt32)) = Inr (cs, p)"
    and c: "c_base c = base" "c_type c = cache_type" "c_set_info c = createCacheSetInfo ty cfg (unat assoc)"
      "c_sets c = replicate (unat num_sets) cs" "c_policies c = replicate (unat num_sets) p"
    by (auto simp: Cache_new_def result_simps simp del: replicate_eq_replicate)
  from create ty obtain b where b: "CacheBlockInfo_create cache_type = Inr b"
    and p: "createPolicy ty cfg (unat assoc) = Inr p" and cs: "cs_blocks cs = replicate (unat assoc) b"
    by (auto simp: createCacheSet_def CacheSet_new_def result_simps)
  have wf: "wf_base base" by (rule CacheBase_new_wf [OF base assms(3,4)])
  have fields: "m_num_sets base = num_sets" "m_associativity base = assoc" "m_hash base = hash"
    "m_blocksize base = 2 ^ lb"
    using base by (auto simp: CacheBase_new_def result_simps Let_def)
  obtain lb' where lb': "lb' < 32" "m_blocksize base = 2 ^ lb'" "unat (m_log_blocksize base) = lb'"
    using wf by (auto simp: wf_base_def)
  have "unat (2 ^ lb' :: UInt32) = unat (2 ^ lb :: UInt32)" using fields(4) lb'(2) by simp
  then have "(2 :: nat) ^ lb' = 2 ^ lb" using unat_2p [of lb', where 'a = 32] unat_2p [of lb, where 'a = 32] lb'(1) assms(3) by simp
  then have "lb' = lb" by (simp add: power_inject_exp)
  then have wfi: "wf_index base" using wf lb' assms(2,5,6) fields by (simp add: wf_index_def)
  have "ty = NMRU \<Longrightarrow> 2 \<le> unat assoc"
    using assms(9) ty by (auto simp: parsePolicyType_def split: if_splits)
  with createPolicy_inv [OF p assms(7,8)] assms(10-) have
    pol: "policy_inv (unat assoc) (p, createCacheSetInfo ty cfg (unat assoc))" by blast
  have inv_b: "\<not> isValid b" using create_invalid [OF b] by simp
  have t: "tags (cs_blocks cs) = {}" "unique_tags (cs_blocks cs)"
    using inv_b by (auto simp: tags_iff unique_tags_def cs)
  have "c_type c \<noteq> INVALID_CACHE_TYPE" using b c by (auto simp: CacheBlockInfo_create_def)
  with wfi pol t fields show "cache_inv c"
    by (simp add: cache_inv_def set_ok_def set_state_def c cs)
  from t show "cached c = {}" by (simp add: cached_def c)
qed

end
