(* ===== verification/Contention.thy ===== *)
theory Contention
  imports Prelude
begin

text \<open>
  \<open>performance_model/contention_model.cc\<close>: a fixed number of units (MSHRs, evict buffers, read
  ports), each with the time at which it becomes free and the tag it works on. Times are
  \<open>SubsecondTime\<close> values, 64-bit femtosecond counts. The overloads that take cycle counts only
  convert their arguments and are not repeated here.
\<close>

section \<open>State and operations\<close>

type_synonym time = UInt64

definition MaxTime :: time where
  "MaxTime = 0xffffffffffffffff"

record contention =
  ct_time :: "(time \<times> UInt64) list"
  ct_t_last :: time
  ct_n_requests :: UInt64
  ct_n_barriers :: UInt64
  ct_n_outoforder :: UInt64
  ct_n_simultaneous :: UInt64
  ct_n_hasfreefail :: UInt64
  ct_total_delay :: time
  ct_total_barrier_delay :: time

definition ContentionModel_new :: "nat \<Rightarrow> contention" where
  "ContentionModel_new num_outstanding =
     \<lparr>ct_time = replicate num_outstanding (0, 0), ct_t_last = 0, ct_n_requests = 0, ct_n_barriers = 0,
      ct_n_outoforder = 0, ct_n_simultaneous = 0, ct_n_hasfreefail = 0, ct_total_delay = 0, ct_total_barrier_delay = 0\<rparr>"

definition getNumUsed :: "time \<Rightarrow> contention \<Rightarrow> UInt32" where
  "getNumUsed t_start c = of_nat (length (filter (\<lambda>(t, tag). t > t_start) (ct_time c)))"

definition tag_unit :: "UInt64 \<Rightarrow> contention \<Rightarrow> nat option" where
  "tag_unit tag c = first_index (\<lambda>i. snd (ct_time c ! i) = tag) (length (ct_time c))"

definition getTagCompletionTime :: "UInt64 \<Rightarrow> contention \<Rightarrow> time" where
  "getTagCompletionTime tag c = (case tag_unit tag c of Some i \<Rightarrow> fst (ct_time c ! i) | None \<Rightarrow> MaxTime)"

definition hasTag :: "UInt64 \<Rightarrow> contention \<Rightarrow> bool" where
  "hasTag tag c = (tag_unit tag c \<noteq> None)"

definition hasFreeSlot :: "time \<Rightarrow> UInt64 \<Rightarrow> contention \<Rightarrow> bool \<times> contention" where
  "hasFreeSlot t_start tag c =
     (if first_index (\<lambda>i. fst (ct_time c ! i) \<le> t_start \<or> snd (ct_time c ! i) = tag) (length (ct_time c)) \<noteq> None
      then (True, c)
      else (False, c\<lparr>ct_n_hasfreefail := ct_n_hasfreefail c + 1\<rparr>))"

definition getBarrierCompletionTime :: "time \<Rightarrow> time \<Rightarrow> UInt64 \<Rightarrow> contention \<Rightarrow> time \<times> contention" where
  "getBarrierCompletionTime t_start t_delay tag c =
     (if ct_time c = [] then (t_start + t_delay, c)
      else (let max_time = foldl (\<lambda>m (t, g). if t > m then t else m) t_start (ct_time c)
            in (max_time + t_delay,
                c\<lparr>ct_time := map (\<lambda>(t, g). (max_time + t_delay, tag)) (ct_time c),
                  ct_total_barrier_delay := ct_total_barrier_delay c + (max_time - t_start),
                  ct_n_barriers := ct_n_barriers c + 1\<rparr>)))"

text \<open>
  The search for a unit: the first one that is free at \<open>t_start\<close>, otherwise the one that becomes
  free first; \<open>i\<close> is the loop counter and \<open>k\<close> the iterations left.
\<close>

fun find_unit :: "(time \<times> UInt64) list \<Rightarrow> time \<Rightarrow> nat \<Rightarrow> nat \<Rightarrow> nat \<Rightarrow> nat" where
  "find_unit ts t_start uni i 0 = uni"
| "find_unit ts t_start uni i (Suc k) =
     (if fst (ts ! i) \<le> t_start then i
      else find_unit ts t_start (if fst (ts ! i) < fst (ts ! uni) then i else uni) (Suc i) k)"

definition getCompletionTime :: "time \<Rightarrow> time \<Rightarrow> UInt64 \<Rightarrow> contention \<Rightarrow> time \<times> contention" where
  "getCompletionTime t_start t_delay tag c =
     (if ct_time c = [] then (t_start + t_delay, c)
      else (let (t_end, c') =
              (if t_start = 0 then (t_delay, c)
               else if t_start < ct_t_last c
               then (t_start + t_delay, c\<lparr>ct_n_outoforder := ct_n_outoforder c + 1\<rparr>)
               else (let c1 = (if t_start = ct_t_last c then c\<lparr>ct_n_simultaneous := ct_n_simultaneous c + 1\<rparr> else c);
                         uni = find_unit (ct_time c) t_start 0 0 (length (ct_time c));
                         t_begin = (if t_start < fst (ct_time c ! uni) then fst (ct_time c ! uni) else t_start);
                         t_end = t_begin + t_delay
                     in (t_end, c1\<lparr>ct_time := (ct_time c)[uni := (t_end, tag)],
                                   ct_total_delay := ct_total_delay c + (t_begin - t_start),
                                   ct_t_last := t_start\<rparr>)))
            in (t_end, c'\<lparr>ct_n_requests := ct_n_requests c' + 1\<rparr>)))"

definition getStartTime :: "time \<Rightarrow> contention \<Rightarrow> time" where
  "getStartTime t_start c =
     (if ct_time c = [] then t_start
      else if t_start < ct_t_last c then t_start
      else (let uni = find_unit (ct_time c) t_start 0 0 (length (ct_time c))
            in if t_start < fst (ct_time c ! uni) then fst (ct_time c ! uni) else t_start))"

section \<open>The chosen unit\<close>

lemma find_unit_spec:
  assumes "uni < n" "i + k = n" "n = length ts" "\<forall>j < i. \<not> fst (ts ! j) \<le> t"
    and "\<forall>j < i. fst (ts ! uni) \<le> fst (ts ! j)" "uni \<le> i"
  shows "find_unit ts t uni i k < n \<and>
    (fst (ts ! find_unit ts t uni i k) \<le> t \<or>
     ((\<forall>j < n. t < fst (ts ! j)) \<and> (\<forall>j < n. fst (ts ! find_unit ts t uni i k) \<le> fst (ts ! j))))"
  using assms
proof (induction k arbitrary: uni i)
  case 0
  then show ?case by (auto simp: not_le)
next
  case (Suc k)
  show ?case
  proof (cases "fst (ts ! i) \<le> t")
    case True
    with Suc.prems show ?thesis by simp
  next
    case False
    let ?u = "if fst (ts ! i) < fst (ts ! uni) then i else uni"
    have "\<forall>j < Suc i. fst (ts ! ?u) \<le> fst (ts ! j)"
      using Suc.prems(5) by (auto simp: less_Suc_eq not_less intro: order_trans less_imp_le)
    moreover have "\<forall>j < Suc i. \<not> fst (ts ! j) \<le> t" using Suc.prems(4) False by (auto simp: less_Suc_eq)
    moreover have "?u < n" "Suc i + k = n" "?u \<le> Suc i" using Suc.prems by auto
    ultimately show ?thesis using Suc.IH [of ?u "Suc i"] Suc.prems(3) False by simp
  qed
qed

lemma find_unit_ok:
  assumes "ts \<noteq> []"
  shows "find_unit ts t 0 0 (length ts) < length ts"
    and "fst (ts ! find_unit ts t 0 0 (length ts)) \<le> t \<or>
     ((\<forall>j < length ts. t < fst (ts ! j)) \<and> (\<forall>j < length ts. fst (ts ! find_unit ts t 0 0 (length ts)) \<le> fst (ts ! j)))"
  using find_unit_spec [of 0 "length ts" 0 "length ts" ts t] assms by auto

text \<open>
  A request in order starts at once when some unit is free, and otherwise when the first unit
  becomes free; it never starts before it arrives.
\<close>

lemma getStartTime_spec:
  assumes "ct_time c \<noteq> []" "ct_t_last c \<le> t"
  shows "getStartTime t c =
    (if \<exists>u \<in> fst ` set (ct_time c). u \<le> t then t else Min (fst ` set (ct_time c)))"
proof -
  let ?ts = "ct_time c"
  let ?u = "find_unit ?ts t 0 0 (length ?ts)"
  note ok = find_unit_ok [OF assms(1), of t]
  have in_set: "fst (?ts ! ?u) \<in> fst ` set ?ts" using ok(1) by simp
  show ?thesis
  proof (cases "\<exists>u \<in> fst ` set ?ts. u \<le> t")
    case True
    then obtain j where "j < length ?ts" "fst (?ts ! j) \<le> t" by (auto simp: in_set_conv_nth)
    with ok(2) have "fst (?ts ! ?u) \<le> t" by (auto simp: not_less [symmetric])
    with True assms show ?thesis by (auto simp: getStartTime_def Let_def not_less)
  next
    case False
    with in_set have t: "t < fst (?ts ! ?u)" by (auto simp: not_le)
    with ok(2) have "\<forall>j < length ?ts. fst (?ts ! ?u) \<le> fst (?ts ! j)" by auto
    then have "\<forall>y \<in> set ?ts. fst (?ts ! ?u) \<le> fst y" by (simp add: all_set_conv_all_nth)
    then have "\<forall>x \<in> fst ` set ?ts. fst (?ts ! ?u) \<le> x" by blast
    then have "Min (fst ` set ?ts) = fst (?ts ! ?u)"
      using in_set by (intro Min_eqI) auto
    with False t assms show ?thesis by (auto simp: getStartTime_def Let_def)
  qed
qed

lemma getStartTime_ge: "t \<le> getStartTime t c"
  by (auto simp: getStartTime_def Let_def)

text \<open>
  \<open>getStartTime\<close> peeks at what \<open>getCompletionTime\<close> will do, except at time zero, where a request
  neither waits nor occupies a unit.
\<close>

lemma getCompletionTime_start:
  assumes "t \<noteq> 0"
  shows "fst (getCompletionTime t d tag c) = getStartTime t c + d"
  using assms by (auto simp: getCompletionTime_def getStartTime_def Let_def)

lemma getCompletionTime_units:
  "length (ct_time (snd (getCompletionTime t d tag c))) = length (ct_time c)"
  by (auto simp: getCompletionTime_def Let_def)

text \<open>An accepted request is found under its tag, and other units keep their work.\<close>

lemma getCompletionTime_frame:
  assumes "ct_time c \<noteq> []" "t \<noteq> 0" "ct_t_last c \<le> t" "getCompletionTime t d tag c = (t_end, c')"
  shows "\<exists>u < length (ct_time c). ct_time c' = (ct_time c)[u := (t_end, tag)] \<and>
    (fst (ct_time c ! u) \<le> t \<or> (\<forall>j < length (ct_time c). fst (ct_time c ! u) \<le> fst (ct_time c ! j)))"
proof -
  let ?u = "find_unit (ct_time c) t 0 0 (length (ct_time c))"
  have "ct_time c' = (ct_time c)[?u := (t_end, tag)]"
    using assms by (auto simp: getCompletionTime_def Let_def not_less [symmetric] split: if_splits)
  with find_unit_ok [OF assms(1), of t] show ?thesis by blast
qed

text \<open>A barrier waits for every unit and leaves all of them busy until the same time.\<close>

lemma foldl_max_time:
  "foldl (\<lambda>m (t, g). if t > m then t else m) (a :: time) ts = Max (insert a (fst ` set ts))"
proof (induction ts arbitrary: a)
  case (Cons x ts)
  obtain t g where x: "x = (t, g)" by (cases x)
  have "Max (insert (if t > a then t else a) (fst ` set ts)) = Max (insert a (insert t (fst ` set ts)))"
  proof (cases "fst ` set ts = {}")
    case False
    then show ?thesis by (auto simp: max_def)
  qed (auto simp: max_def)
  with Cons x show ?case by simp
qed simp

lemma getBarrierCompletionTime_spec:
  assumes "ct_time c \<noteq> []" "getBarrierCompletionTime t d tag c = (t_end, c')"
  shows "t_end = Max (insert t (fst ` set (ct_time c))) + d"
    "ct_time c' = replicate (length (ct_time c)) (t_end, tag)"
proof -
  have "map (\<lambda>(t, g). x) (ct_time c) = replicate (length (ct_time c)) x" for x :: "time \<times> UInt64"
    by (simp add: split_def map_replicate_const)
  with assms foldl_max_time [of t "ct_time c"]
  show "t_end = Max (insert t (fst ` set (ct_time c))) + d" "ct_time c' = replicate (length (ct_time c)) (t_end, tag)"
    by (auto simp: getBarrierCompletionTime_def Let_def)
qed

end
