(* ===== verification/Dram.thy ===== *)
theory Dram
  imports Fault_Injection Contention
begin

text \<open>
  \<open>pr_l1_pr_l2_dram_directory_msi/dram_cntlr.cc\<close>: main memory as the caches see it. The performance
  model is an object with one method; like every virtual interface it is a value that answers a
  call with a result and its own next state.
\<close>

section \<open>HitWhere\<close>

text \<open>\<open>hit_where.h\<close>: the codes are numbers, because cache levels and siblings are computed.\<close>

type_synonym where_t = nat

definition MISS :: where_t where
  "MISS = 7"

definition HIT_DRAM :: where_t where
  "HIT_DRAM = 10"

definition SIBLING :: where_t where
  "SIBLING = 14"

definition WHERE_UNKNOWN :: where_t where
  "WHERE_UNKNOWN = 21"

definition where_component :: "mem_component \<Rightarrow> where_t" where
  "where_component c = mem_component_num c"

section \<open>Performance model objects\<close>

datatype dram_access = DRAM_READ | DRAM_WRITE

codatatype perf_model =
  PerfModel (getAccessLatency: "time \<Rightarrow> UInt64 \<Rightarrow> core_id_t \<Rightarrow> IntPtr \<Rightarrow> dram_access \<Rightarrow> time \<times> perf_model")

section \<open>DramCntlr\<close>

text \<open>
  \<open>dr_fim\<close> says whether fault injection is configured; only then does memory hold (mask) data.
\<close>

record dram =
  dr_block_size :: nat
  dr_fim :: bool
  dr_fault :: "injector option"
  dr_data :: "IntPtr \<Rightarrow> byte list option"
  dr_perf :: perf_model
  dr_reads :: UInt64
  dr_writes :: UInt64

definition runDramPerfModel :: "core_id_t \<Rightarrow> time \<Rightarrow> IntPtr \<Rightarrow> dram_access \<Rightarrow> dram \<Rightarrow> time \<times> dram" where
  "runDramPerfModel requester now address access_type d =
     (let (latency, pm) = getAccessLatency (dr_perf d) now (of_nat (dr_block_size d)) requester address access_type
      in (latency, d\<lparr>dr_perf := pm\<rparr>))"

definition getDataFromDram ::
  "IntPtr \<Rightarrow> core_id_t \<Rightarrow> time \<Rightarrow> dram \<Rightarrow> (time \<times> where_t \<times> byte list option \<times> dram) result" where
  "getDataFromDram address requester now d =
     bindE (if dr_fim d
            then (let bytes = (case dr_data d address of Some bs \<Rightarrow> bs | None \<Rightarrow> replicate (dr_block_size d) 0)
                  in bindE (case dr_fault d of
                              Some fi \<Rightarrow> mapE (\<lambda>(bs, fi'). (bs, Some fi')) (preRead (dr_block_size d) bytes 0 fi)
                            | None \<Rightarrow> Inr (bytes, None)) (\<lambda>(bs, fi').
                       Inr (Some bs, d\<lparr>dr_data := (dr_data d)(address := Some bs), dr_fault := fi'\<rparr>)))
            else Inr (None, d)) (\<lambda>(out, d1).
       (let (latency, d2) = runDramPerfModel requester now address DRAM_READ d1
        in Inr (latency, HIT_DRAM, out, d2\<lparr>dr_reads := dr_reads d2 + 1\<rparr>)))"

definition putDataToDram ::
  "IntPtr \<Rightarrow> core_id_t \<Rightarrow> byte list option \<Rightarrow> time \<Rightarrow> dram \<Rightarrow> (time \<times> where_t \<times> dram) result" where
  "putDataToDram address requester data_buf now d =
     bindE (if dr_fim d
            then (case dr_data d address of
                    None \<Rightarrow> Inl (Print_Error ''Data Buffer does not exist'')
                  | Some old \<Rightarrow>
                      (case data_buf of
                         None \<Rightarrow> Inl (Undefined ''null dereference'')
                       | Some bs \<Rightarrow> Inr (d\<lparr>dr_data := (dr_data d)(address := Some bs)\<rparr>)))
            else Inr d) (\<lambda>d1.
       (let (latency, d2) = runDramPerfModel requester now address DRAM_WRITE d1
        in Inr (latency, HIT_DRAM, d2\<lparr>dr_writes := dr_writes d2 + 1\<rparr>)))"

section \<open>Properties\<close>

lemma runDramPerfModel_frame:
  "dr_data (snd (runDramPerfModel r t a ty d)) = dr_data d" "dr_reads (snd (runDramPerfModel r t a ty d)) = dr_reads d"
  "dr_writes (snd (runDramPerfModel r t a ty d)) = dr_writes d" "dr_fim (snd (runDramPerfModel r t a ty d)) = dr_fim d"
  by (simp_all add: runDramPerfModel_def split_def Let_def)

text \<open>Without fault injection every access succeeds and is counted.\<close>

lemma dram_total:
  assumes "\<not> dr_fim d"
  shows "\<exists>l d'. getDataFromDram a r t d = Inr (l, HIT_DRAM, None, d') \<and> dr_reads d' = dr_reads d + 1 \<and> dr_data d' = dr_data d"
    and "\<exists>l d'. putDataToDram a r b t d = Inr (l, HIT_DRAM, d') \<and> dr_writes d' = dr_writes d + 1 \<and> dr_data d' = dr_data d"
proof -
  obtain l d1 where r: "runDramPerfModel r t a DRAM_READ d = (l, d1)" by fastforce
  obtain l' d2 where w: "runDramPerfModel r t a DRAM_WRITE d = (l', d2)" by fastforce
  show "\<exists>l d'. getDataFromDram a r t d = Inr (l, HIT_DRAM, None, d') \<and> dr_reads d' = dr_reads d + 1 \<and> dr_data d' = dr_data d"
    using assms r runDramPerfModel_frame [of r t a DRAM_READ d] by (auto simp: getDataFromDram_def)
  show "\<exists>l d'. putDataToDram a r b t d = Inr (l, HIT_DRAM, d') \<and> dr_writes d' = dr_writes d + 1 \<and> dr_data d' = dr_data d"
    using assms w runDramPerfModel_frame [of r t a DRAM_WRITE d] by (auto simp: putDataToDram_def)
qed

text \<open>
  With fault injection, a write to a line that was never read stops the simulation: this is what
  happens to every PiCL log write, whose address is only ever written.
\<close>

lemma put_unread_stops:
  "dr_fim d \<Longrightarrow> dr_data d a = None \<Longrightarrow> putDataToDram a r b t d = Inl (Print_Error ''Data Buffer does not exist'')"
  by (simp add: putDataToDram_def)

lemma get_after_put:
  assumes "putDataToDram a r (Some bs) t d = Inr (l, w, d')" "dr_fim d" "dr_fault d = None"
  shows "\<exists>l' w' d''. getDataFromDram a r' t' d' = Inr (l', w', Some bs, d'')"
proof -
  have "dr_fim d'" "dr_fault d' = None" "dr_data d' a = Some bs"
    using assms by (auto simp: putDataToDram_def runDramPerfModel_def result_simps split_def Let_def split: option.splits)
  then show ?thesis by (auto simp: getDataFromDram_def split_def Let_def)
qed

end
