(* ===== verification/Shmem.thy ===== *)
theory Shmem
  imports Dram
begin

text \<open>
  What the cache and directory controllers exchange and share: the memory operations of
  \<open>core.h\<close>, the messages of \<open>pr_l1_pr_l2_dram_directory_msi/shmem_msg.{h,cc}\<close>, the per-address
  request queues of \<open>cache/req_queue_list_template.h\<close>, the clocks of
  \<open>performance_model/shmem_perf_model.cc\<close> and the access latencies of
  \<open>performance_model/cache_perf_model*\<close>.
\<close>

section \<open>Memory operations\<close>

datatype mem_op_t = INVALID_MEM_OP | READ | READ_EX | WRITE

datatype lock_signal_t = INVALID_LOCK_SIGNAL | NO_SIGNAL | LOCK | UNLOCK

section \<open>Buffers\<close>

text \<open>
  A \<open>Byte*\<close> argument is null or points to a buffer; \<open>Buf None\<close> is a buffer nobody wrote yet.
  Copying from such a buffer is undefined, but only a cache that keeps data copies at all.
\<close>

datatype buffer = NULL | Buf "byte list option"

definition buf_in :: "bool \<Rightarrow> buffer \<Rightarrow> byte list option result" where
  "buf_in keeps_data b =
     (case b of
        NULL \<Rightarrow> Inr None
      | Buf (Some bs) \<Rightarrow> Inr (Some bs)
      | Buf None \<Rightarrow> if keeps_data then Inl (Undefined ''uninitialised buffer'') else Inr None)"

text \<open>The buffer after a load that may have copied data into it.\<close>

definition buf_out :: "buffer \<Rightarrow> byte list option \<Rightarrow> buffer" where
  "buf_out b out = (case (b, out) of (Buf _, Some bs) \<Rightarrow> Buf (Some bs) | _ \<Rightarrow> b)"

section \<open>Messages\<close>

datatype msg_t =
    INVALID_MSG_TYPE
  | EX_REQ | SH_REQ | UPGRADE_REQ | INV_REQ | FLUSH_REQ | WB_REQ
  | EX_REP | SH_REP | UPGRADE_REP | INV_REP | FLUSH_REP | WB_REP | NULLIFY_REQ
  | CP_REP
  | DRAM_READ_REQ | DRAM_WRITE_REQ | DRAM_READ_REP

record shmem_msg =
  msg_type :: msg_t
  msg_sender_component :: mem_component
  msg_receiver_component :: mem_component
  msg_requester :: core_id_t
  msg_where :: where_t
  msg_address :: IntPtr
  msg_data_buf :: buffer
  msg_data_length :: UInt32

text \<open>A packet of the network: the sending and receiving node and the time it was sent.\<close>

record packet =
  pk_time :: time
  pk_sender :: core_id_t
  pk_receiver :: core_id_t
  pk_msg :: shmem_msg

definition getModeledLength :: "shmem_msg \<Rightarrow> UInt32 result" where
  "getModeledLength m =
     (if msg_type m \<in> {EX_REQ, SH_REQ, INV_REQ, FLUSH_REQ, WB_REQ, UPGRADE_REP, UPGRADE_REQ, INV_REP, DRAM_READ_REQ}
      then Inr (1 + 8)
      else if msg_type m \<in> {EX_REP, SH_REP, FLUSH_REP, WB_REP, DRAM_WRITE_REQ, DRAM_READ_REP}
      then Inr (1 + 8 + msg_data_length m)
      else Inl (Print_Error ''Unrecognized Msg Type''))"

text \<open>The checkpoint message that was added for PiCL has no modelled length.\<close>

lemma getModeledLength_errors:
  "(\<exists>e. getModeledLength m = Inl e) \<longleftrightarrow> msg_type m \<in> {INVALID_MSG_TYPE, NULLIFY_REQ, CP_REP}"
  by (cases "msg_type m") (simp_all add: getModeledLength_def)

section \<open>Request queues\<close>

text \<open>
  \<open>ReqQueueListTemplate\<close>: a map from addresses to queues in which no queue is left empty. The
  queue of an address is a list, oldest request first.
\<close>

type_synonym 'r req_queue = "IntPtr \<Rightarrow> 'r list option"

definition rq_new :: "'r req_queue" where
  "rq_new = (\<lambda>_. None)"

definition enqueue :: "IntPtr \<Rightarrow> 'r \<Rightarrow> 'r req_queue \<Rightarrow> 'r req_queue" where
  "enqueue address req q =
     (let q' = (if q address = None then q(address \<mapsto> []) else q)
      in q'(address \<mapsto> the (q' address) @ [req]))"

definition dequeue :: "IntPtr \<Rightarrow> 'r req_queue \<Rightarrow> ('r \<times> 'r req_queue) result" where
  "dequeue address q =
     (case q address of
        None \<Rightarrow> Inl (Assert ''Could not find a request with address'')
      | Some [] \<Rightarrow> Inl (Undefined ''front of an empty queue'')
      | Some (r # rs) \<Rightarrow> Inr (r, if rs = [] then q(address := None) else q(address \<mapsto> rs)))"

definition rq_front :: "IntPtr \<Rightarrow> 'r req_queue \<Rightarrow> 'r result" where
  "rq_front address q =
     (case q address of
        None \<Rightarrow> Inl (Assert ''Could not find a request with address'')
      | Some [] \<Rightarrow> Inl (Undefined ''front of an empty queue'')
      | Some (r # rs) \<Rightarrow> Inr r)"

definition rq_back :: "IntPtr \<Rightarrow> 'r req_queue \<Rightarrow> 'r result" where
  "rq_back address q =
     (case q address of
        None \<Rightarrow> Inl (Assert ''Could not find a request with address'')
      | Some [] \<Rightarrow> Inl (Undefined ''back of an empty queue'')
      | Some (r # rs) \<Rightarrow> Inr (last (r # rs)))"

definition rq_size :: "IntPtr \<Rightarrow> 'r req_queue \<Rightarrow> UInt32" where
  "rq_size address q = (case q address of None \<Rightarrow> 0 | Some rs \<Rightarrow> of_nat (length rs))"

definition rq_empty :: "IntPtr \<Rightarrow> 'r req_queue \<Rightarrow> bool" where
  "rq_empty address q \<longleftrightarrow> q address = None"

text \<open>
  The contract of a queue per address: the waiting requests in arrival order, and every other
  address untouched. The well-formedness that makes \<open>empty\<close> right is that no queue is empty.
\<close>

definition rq_inv :: "'r req_queue \<Rightarrow> bool" where
  "rq_inv q \<longleftrightarrow> (\<forall>a. q a \<noteq> Some [])"

definition pending :: "'r req_queue \<Rightarrow> IntPtr \<Rightarrow> 'r list" where
  "pending q a = (case q a of None \<Rightarrow> [] | Some rs \<Rightarrow> rs)"

lemma rq_new_inv [simp]: "rq_inv rq_new" "pending rq_new a = []"
  by (simp_all add: rq_inv_def rq_new_def pending_def)

lemma rq_empty_pending: "rq_inv q \<Longrightarrow> rq_empty a q \<longleftrightarrow> pending q a = []"
  by (auto simp: rq_inv_def rq_empty_def pending_def split: option.splits)

lemma rq_size_pending: "rq_size a q = of_nat (length (pending q a))"
  by (simp add: rq_size_def pending_def split: option.splits)

lemma enqueue_pending:
  "pending (enqueue a r q) b = (if b = a then pending q a @ [r] else pending q b)"
  by (auto simp: enqueue_def pending_def Let_def split: option.splits)

lemma enqueue_inv: "rq_inv q \<Longrightarrow> rq_inv (enqueue a r q)"
  by (auto simp: enqueue_def rq_inv_def Let_def)

lemma rq_front_pending: "rq_inv q \<Longrightarrow> rq_front a q = Inr r \<longleftrightarrow> (\<exists>rs. pending q a = r # rs)"
  by (auto simp: rq_front_def pending_def rq_inv_def split: option.splits list.splits)

lemma dequeue_pending:
  assumes "rq_inv q"
  shows "(\<exists>e. dequeue a q = Inl e) \<longleftrightarrow> pending q a = []"
    and "dequeue a q = Inr (r, q') \<Longrightarrow>
      rq_inv q' \<and> pending q a = r # pending q' a \<and> (\<forall>b. b \<noteq> a \<longrightarrow> pending q' b = pending q b)"
  using assms
  by (auto simp: dequeue_def pending_def rq_inv_def split: option.splits list.splits if_splits)

section \<open>Clocks\<close>

datatype thread_t = USER_THREAD | SIM_THREAD

type_synonym clocks = "core_id_t \<Rightarrow> thread_t \<Rightarrow> time"

definition set_clock :: "core_id_t \<Rightarrow> thread_t \<Rightarrow> time \<Rightarrow> clocks \<Rightarrow> clocks" where
  "set_clock core th t ck = (\<lambda>c th'. if c = core \<and> th' = th then t else ck c th')"

definition clock_incrElapsedTime :: "core_id_t \<Rightarrow> time \<Rightarrow> thread_t \<Rightarrow> clocks \<Rightarrow> clocks result" where
  "clock_incrElapsedTime core t th ck =
     (let i_elapsed_time = ck core th; t_elapsed_time = i_elapsed_time + t
      in check (i_elapsed_time \<le> t_elapsed_time) (Assert ''t_elapsed_time < i_elapsed_time'')
           (Inr (set_clock core th t_elapsed_time ck)))"

definition clock_updateElapsedTime :: "core_id_t \<Rightarrow> time \<Rightarrow> thread_t \<Rightarrow> clocks \<Rightarrow> clocks" where
  "clock_updateElapsedTime core t th ck = (if ck core th < t then set_clock core th t ck else ck)"

lemma word_sum_unat:
  assumes "(x :: time) \<le> x + y"
  shows "unat (x + y) = unat x + unat y"
  using assms unat_plus_simple by blast

text \<open>A clock never runs backwards: an increment that would wrap stops the simulation.\<close>

lemma clock_incr_mono:
  "clock_incrElapsedTime core t th ck = Inr ck' \<Longrightarrow>
   unat (ck' core th) = unat (ck core th) + unat t \<and> (\<forall>c th'. ck c th' \<le> ck' c th')"
  by (auto simp: clock_incrElapsedTime_def Let_def set_clock_def result_simps
    intro: word_sum_unat)

section \<open>Cache access latencies\<close>

datatype cache_access_t = ACCESS_CACHE_DATA_AND_TAGS | ACCESS_CACHE_DATA | ACCESS_CACHE_TAGS

datatype cache_perf_model_t = CACHE_PERF_MODEL_PARALLEL | CACHE_PERF_MODEL_SEQUENTIAL

record cache_perf_model =
  cp_model :: cache_perf_model_t
  cp_enabled :: bool
  cp_data_access_time :: time
  cp_tags_access_time :: time

definition parseModelType :: "string \<Rightarrow> cache_perf_model_t result" where
  "parseModelType model_type =
     (if model_type = ''parallel'' then Inr CACHE_PERF_MODEL_PARALLEL
      else if model_type = ''sequential'' then Inr CACHE_PERF_MODEL_SEQUENTIAL
      else Inl (Print_Error ''Unsupported CacheModel type''))"

definition CachePerfModel_create :: "string \<Rightarrow> time \<Rightarrow> time \<Rightarrow> cache_perf_model result" where
  "CachePerfModel_create cache_perf_model_type data_time tags_time =
     mapE (\<lambda>ty. \<lparr>cp_model = ty, cp_enabled = False, cp_data_access_time = data_time, cp_tags_access_time = tags_time\<rparr>)
       (parseModelType cache_perf_model_type)"

definition parallel_getLatency :: "cache_access_t \<Rightarrow> cache_perf_model \<Rightarrow> time" where
  "parallel_getLatency access m =
     (if \<not> cp_enabled m then 0
      else case access of
             ACCESS_CACHE_TAGS \<Rightarrow> cp_tags_access_time m
           | _ \<Rightarrow> cp_data_access_time m)"

definition sequential_getLatency :: "cache_access_t \<Rightarrow> cache_perf_model \<Rightarrow> time" where
  "sequential_getLatency access m =
     (if \<not> cp_enabled m then 0
      else case access of
             ACCESS_CACHE_TAGS \<Rightarrow> cp_tags_access_time m
           | ACCESS_CACHE_DATA \<Rightarrow> cp_data_access_time m
           | ACCESS_CACHE_DATA_AND_TAGS \<Rightarrow> cp_data_access_time m + cp_tags_access_time m)"

definition cp_getLatency :: "cache_access_t \<Rightarrow> cache_perf_model \<Rightarrow> time" where
  "cp_getLatency access m =
     (case cp_model m of
        CACHE_PERF_MODEL_PARALLEL \<Rightarrow> parallel_getLatency access m
      | CACHE_PERF_MODEL_SEQUENTIAL \<Rightarrow> sequential_getLatency access m)"

end
