(* ===== verification/Nuca.thy ===== *)
theory Nuca
  imports Cache Dram Shmem
begin

text \<open>
  \<open>parametric_dram_directory_msi/nuca_cache.cc\<close>: an optional cache between the tag directory and
  memory. The queue model behind its data array is an object with one method. A write that hits does
  not assign the eviction flag of the caller: it is \<open>None\<close> then.
\<close>

codatatype queue_model =
  QueueModel (computeQueueDelay: "time \<Rightarrow> time \<Rightarrow> core_id_t \<Rightarrow> time \<times> queue_model")

record nuca =
  nu_core_id :: core_id_t
  nu_block_size :: UInt32
  nu_data_access_time :: time
  nu_tags_access_time :: time
  nu_processing_time :: time
  nu_cache :: cache
  nu_queue_model :: "queue_model option"
  nu_reads :: UInt64
  nu_writes :: UInt64
  nu_read_misses :: UInt64
  nu_write_misses :: UInt64

definition WHERE_NUCA :: where_t where
  "WHERE_NUCA = 8"

definition accessDataArray :: "time \<Rightarrow> nuca \<Rightarrow> time \<times> nuca" where
  "accessDataArray t_start n =
     (case nu_queue_model n of
        None \<Rightarrow> (nu_data_access_time n, n)
      | Some q \<Rightarrow>
          (let (delay, q') = computeQueueDelay q t_start (nu_processing_time n) (nu_core_id n)
           in (nu_processing_time n + delay + nu_data_access_time n, n\<lparr>nu_queue_model := Some q'\<rparr>)))"

definition count_if :: "bool \<Rightarrow> UInt64 \<Rightarrow> UInt64" where
  "count_if c k = (if c then k + 1 else k)"

definition nuca_read :: "IntPtr \<Rightarrow> time \<Rightarrow> bool \<Rightarrow> nuca \<Rightarrow> (time \<times> where_t \<times> buffer \<times> nuca) result" where
  "nuca_read address now cnt n =
     bindE (peekSingleLine address (nu_cache n)) (\<lambda>block_info.
       (let latency = nu_tags_access_time n
        in case block_info of
             Some r \<Rightarrow>
               bindE (accessSingleLine address LOAD (Some []) (unat (nu_block_size n)) True (nu_cache n)) (\<lambda>(_, out, c).
                 (let (delay, n1) = accessDataArray (now + latency) (n\<lparr>nu_cache := c\<rparr>)
                  in Inr (latency + delay, WHERE_NUCA, buf_out (Buf None) out, n1\<lparr>nu_reads := count_if cnt (nu_reads n1)\<rparr>)))
           | None \<Rightarrow>
               Inr (latency, MISS, Buf None,
                    n\<lparr>nu_read_misses := count_if cnt (nu_read_misses n), nu_reads := count_if cnt (nu_reads n)\<rparr>)))"

text \<open>The result: latency, where it hit, the eviction flag if it was assigned, the evicted line.\<close>

definition nuca_write ::
  "IntPtr \<Rightarrow> buffer \<Rightarrow> time \<Rightarrow> bool \<Rightarrow> nuca \<Rightarrow> (time \<times> where_t \<times> bool option \<times> IntPtr \<times> buffer \<times> nuca) result" where
  "nuca_write address data_buf now cnt n =
     bindE (peekSingleLine address (nu_cache n)) (\<lambda>block_info.
     bindE (buf_in (c_fault (nu_cache n) \<noteq> None) data_buf) (\<lambda>fill.
       (let latency = nu_tags_access_time n
        in case block_info of
             Some r \<Rightarrow>
               (let c0 = set_block r ((block_at (nu_cache n) r)\<lparr>m_cstate := MODIFIED\<rparr>) (nu_cache n)
                in bindE (accessSingleLine address STORE fill (unat (nu_block_size n)) True c0) (\<lambda>(_, _, c).
                   (let (delay, n1) = accessDataArray (now + latency) (n\<lparr>nu_cache := c\<rparr>)
                    in Inr (latency + delay, WHERE_NUCA, None, 0, NULL, n1\<lparr>nu_writes := count_if cnt (nu_writes n1)\<rparr>))))
           | None \<Rightarrow>
               bindE (insertSingleLine address fill (CacheBlockInfo_new PR_L1_CACHE (NOT 0) INVALID 0) True None (nu_cache n)) (\<lambda>(out, evict_address, c).
                 Inr (latency, MISS, Some (ins_eviction out \<and> m_cstate (ins_evict_info out) = MODIFIED), evict_address,
                      Buf (ins_evict_buff out),
                      n\<lparr>nu_cache := c, nu_write_misses := count_if cnt (nu_write_misses n),
                        nu_writes := count_if cnt (nu_writes n)\<rparr>)))))"

end
