(* ===== verification/Prefetchers.thy ===== *)
theory Prefetchers
  imports Prelude
begin

text \<open>
  The prefetchers of \<open>parametric_dram_directory_msi\<close>: \<open>prefetcher.cc\<close> (the factory),
  \<open>simple_prefetcher.cc\<close>, \<open>a53prefetcher.cc\<close> and \<open>ghb_prefetcher.cc\<close>. Each is an object whose
  \<open>getNextAddress\<close> is told an address and answers with the addresses to prefetch.
\<close>

section \<open>SimplePrefetcher\<close>

definition PAGE_SIZE :: IntPtr where
  "PAGE_SIZE = 4096"

definition PAGE_MASK :: IntPtr where
  "PAGE_MASK = NOT (PAGE_SIZE - 1)"

record simple_prefetcher =
  sp_core_id :: core_id_t
  sp_shared_cores :: UInt32
  sp_n_flows :: UInt32
  sp_flows_per_core :: bool
  sp_num_prefetches :: UInt32
  sp_stop_at_page :: bool
  sp_n_flow_next :: UInt32
  sp_prev_address :: "IntPtr list list"

definition SimplePrefetcher_new :: "core_id_t \<Rightarrow> UInt32 \<Rightarrow> UInt32 \<Rightarrow> bool \<Rightarrow> UInt32 \<Rightarrow> bool \<Rightarrow> simple_prefetcher" where
  "SimplePrefetcher_new core_id shared_cores n_flows flows_per_core num_prefetches stop_at_page =
     \<lparr>sp_core_id = core_id, sp_shared_cores = shared_cores, sp_n_flows = n_flows, sp_flows_per_core = flows_per_core,
      sp_num_prefetches = num_prefetches, sp_stop_at_page = stop_at_page, sp_n_flow_next = 0,
      sp_prev_address = replicate (if flows_per_core then unat shared_cores else 1) (replicate (unat n_flows) 0)\<rparr>"

definition address_dist :: "IntPtr \<Rightarrow> IntPtr \<Rightarrow> IntPtr" where
  "address_dist a b = (if sint (a - b) < 0 then - (a - b) else a - b)"

text \<open>The flow whose last address is nearest, if one is closer than a page.\<close>

definition nearest_flow :: "IntPtr \<Rightarrow> IntPtr list \<Rightarrow> nat \<Rightarrow> nat" where
  "nearest_flow current_address prev_address n_flow =
     fst (foldl (\<lambda>(n, min_dist) i.
            let dist = address_dist current_address (prev_address ! i)
            in if dist < min_dist then (i, dist) else (n, min_dist))
          (n_flow, PAGE_SIZE) [0..<length prev_address])"

definition flow_index :: "core_id_t \<Rightarrow> simple_prefetcher \<Rightarrow> nat" where
  "flow_index core_id p = (if sp_flows_per_core p then unat (core_id - sp_core_id p) else 0)"

definition simple_getNextAddress ::
  "IntPtr \<Rightarrow> core_id_t \<Rightarrow> simple_prefetcher \<Rightarrow> (IntPtr list \<times> simple_prefetcher) result" where
  "simple_getNextAddress current_address core_id p =
     (let idx = flow_index core_id p
      in check (idx < length (sp_prev_address p)) (Assert ''out_of_range'')
          (check (sp_n_flows p \<noteq> 0) (Undefined ''modulo by zero'')
            (let prev_address = sp_prev_address p ! idx;
                 n_flow = nearest_flow current_address prev_address (unat (sp_n_flow_next p))
             in bindE (at prev_address n_flow) (\<lambda>prev.
                  (let stride = current_address - prev;
                       candidates = map (\<lambda>i. current_address + of_nat i * stride) [0..<unat (sp_num_prefetches p)];
                       addresses = filter (\<lambda>a. \<not> sp_stop_at_page p \<or> a AND PAGE_MASK = current_address AND PAGE_MASK) candidates
                   in Inr (if stride \<noteq> 0 then addresses else [],
                           p\<lparr>sp_n_flow_next := (sp_n_flow_next p + 1) mod sp_n_flows p,
                             sp_prev_address := (sp_prev_address p)[idx := prev_address[n_flow := current_address]]\<rparr>))))))"

definition simple_inv :: "simple_prefetcher \<Rightarrow> bool" where
  "simple_inv p \<longleftrightarrow>
     0 < sp_n_flows p \<and> sp_n_flow_next p < sp_n_flows p \<and>
     length (sp_prev_address p) = (if sp_flows_per_core p then unat (sp_shared_cores p) else 1) \<and>
     (\<forall>l \<in> set (sp_prev_address p). length l = unat (sp_n_flows p))"

lemma simple_inv_new: "0 < n \<Longrightarrow> simple_inv (SimplePrefetcher_new c s n f k st)"
  by (auto simp: simple_inv_def SimplePrefetcher_new_def)

lemma nearest_flow_range:
  assumes "n < length prev"
  shows "nearest_flow a prev n < length prev"
proof -
  have "fst (foldl (\<lambda>(n, m) i. let d = address_dist a (prev ! i) in if d < m then (i, d) else (n, m)) (n, m) is) < length prev"
    if "n < length prev" "set is \<subseteq> {..<length prev}" for n m "is"
    using that by (induction "is" arbitrary: n m) (simp_all add: Let_def)
  from this [OF assms, of "[0..<length prev]"] show ?thesis by (simp add: nearest_flow_def atLeast_upt)
qed

text \<open>
  For a core of the cache the prefetcher always answers, with at most \<open>num_prefetches\<close> addresses,
  all of them in the page of the access if it stops at page boundaries.
\<close>

lemma simple_getNextAddress_ok:
  assumes "simple_inv p" "sp_flows_per_core p \<Longrightarrow> core_id - sp_core_id p < sp_shared_cores p"
  shows "\<exists>as p'. simple_getNextAddress a core_id p = Inr (as, p') \<and> simple_inv p' \<and>
    length as \<le> unat (sp_num_prefetches p) \<and>
    (sp_stop_at_page p \<longrightarrow> (\<forall>x \<in> set as. x AND PAGE_MASK = a AND PAGE_MASK))"
proof -
  define idx where "idx = flow_index core_id p"
  have idx: "idx < length (sp_prev_address p)"
    using assms by (auto simp: idx_def flow_index_def simple_inv_def word_less_nat_alt)
  let ?prev = "sp_prev_address p ! idx"
  have len: "length ?prev = unat (sp_n_flows p)" using assms(1) idx by (simp add: simple_inv_def)
  have next_lt: "unat (sp_n_flow_next p) < length ?prev" using assms(1) len by (simp add: simple_inv_def word_less_nat_alt)
  let ?n = "nearest_flow a ?prev (unat (sp_n_flow_next p))"
  have n: "?n < length ?prev" by (rule nearest_flow_range [OF next_lt])
  have mod: "(sp_n_flow_next p + 1) mod sp_n_flows p < sp_n_flows p"
    using assms(1) by (simp add: simple_inv_def word_mod_less_divisor)
  let ?p' = "p\<lparr>sp_n_flow_next := (sp_n_flow_next p + 1) mod sp_n_flows p,
     sp_prev_address := (sp_prev_address p)[idx := ?prev[?n := a]]\<rparr>"
  have "simple_inv ?p'"
    using assms(1) mod len set_update_subset_insert [of "sp_prev_address p" idx "?prev[?n := a]"]
    by (auto simp: simple_inv_def)
  moreover have "sp_n_flows p \<noteq> 0" using assms(1) by (auto simp: simple_inv_def)
  moreover have "length (filter Q (map f [0..<k])) \<le> k" for Q :: "IntPtr \<Rightarrow> bool" and f k
    using length_filter_le [of Q "map f [0..<k]"] by simp
  ultimately show ?thesis
    using idx n by (simp add: simple_getNextAddress_def idx_def [symmetric] Let_def del: filter_map)
qed

text \<open>The first address proposed is the one just accessed, since the multiples start at zero.\<close>

lemma simple_proposes_current:
  "mapE fst (simple_getNextAddress 0x1040 0
      ((SimplePrefetcher_new 0 1 1 False 3 False)\<lparr>sp_prev_address := [[0x1000]]\<rparr>)) = Inr [0x1040, 0x1080, 0x10c0]"
  by code_simp

section \<open>A53Prefetcher\<close>

record a53 =
  a53_cacheLineSize :: UInt32
  a53_patternLength :: UInt32
  a53_consecutivePatternLength :: UInt32
  a53_numPrefetches :: UInt32
  a53_firstAddress :: bool
  a53_stride :: UInt64
  a53_prevAddress :: IntPtr
  a53_currentPatternLength :: UInt32
  a53_currentConsecutivePatternLength :: UInt32

definition A53Prefetcher_new :: "UInt32 \<Rightarrow> UInt32 \<Rightarrow> UInt32 \<Rightarrow> UInt32 \<Rightarrow> a53" where
  "A53Prefetcher_new line_size pattern_length consecutive_pattern_length num_prefetches =
     \<lparr>a53_cacheLineSize = line_size, a53_patternLength = pattern_length - 1,
      a53_consecutivePatternLength = consecutive_pattern_length - 1, a53_numPrefetches = num_prefetches,
      a53_firstAddress = True, a53_stride = 0, a53_prevAddress = 0,
      a53_currentPatternLength = 0, a53_currentConsecutivePatternLength = 0\<rparr>"

text \<open>\<open>for (unsigned i = 1; i <= n; ++i)\<close> never ends for the largest \<open>n\<close>.\<close>

definition one_to :: "UInt32 \<Rightarrow> UInt32 list result" where
  "one_to n = (if n = - 1 then Inl Diverges else Inr (map of_nat [1..<Suc (unat n)]))"

definition a53_getNextAddress :: "IntPtr \<Rightarrow> a53 \<Rightarrow> (IntPtr list \<times> a53) result" where
  "a53_getNextAddress currentAddress p =
     mapE (\<lambda>(as, p'). (as, p'\<lparr>a53_prevAddress := currentAddress\<rparr>))
      (if a53_firstAddress p then Inr ([], p\<lparr>a53_firstAddress := False\<rparr>)
       else (let dist = currentAddress - a53_prevAddress p
             in if dist = 0 then Inr ([], p)
                else if (if sint dist < 0 then - dist else dist) = ucast (a53_cacheLineSize p)
                then (let p1 = (if dist = a53_stride p
                                then p\<lparr>a53_currentConsecutivePatternLength := a53_currentConsecutivePatternLength p + 1\<rparr>
                                else p\<lparr>a53_stride := dist, a53_currentConsecutivePatternLength := 1\<rparr>)
                      in if a53_consecutivePatternLength p1 \<le> a53_currentConsecutivePatternLength p1
                         then mapE (\<lambda>is. (map (\<lambda>i. currentAddress + ucast (a53_cacheLineSize p1 * i)) is, p1))
                                (one_to (a53_numPrefetches p1))
                         else Inr ([], p1))
                else (let p1 = (if dist = a53_stride p
                                then p\<lparr>a53_currentPatternLength := a53_currentPatternLength p + 1\<rparr>
                                else p\<lparr>a53_stride := dist, a53_currentPatternLength := 1\<rparr>)
                      in if a53_patternLength p1 \<le> a53_currentPatternLength p1
                         then mapE (\<lambda>is. (map (\<lambda>i. currentAddress + a53_stride p1 * ucast i) is, p1))
                                (one_to (a53_numPrefetches p1))
                         else Inr ([], p1))))"

lemma one_to_ok: "n \<noteq> - 1 \<Longrightarrow> \<exists>is. one_to n = Inr is \<and> length is = unat n"
  by (simp add: one_to_def)

lemma a53_getNextAddress_ok:
  assumes "a53_numPrefetches p \<noteq> - 1"
  shows "\<exists>as p'. a53_getNextAddress a p = Inr (as, p') \<and> a53_prevAddress p' = a \<and>
    (as = [] \<or> length as = unat (a53_numPrefetches p))"
  using one_to_ok [OF assms] by (auto simp: a53_getNextAddress_def Let_def)

text \<open>
  A walk downwards by one line is recognised as consecutive, but the lines proposed lie above it:
  the stride is not used.
\<close>

lemma a53_descending_prefetches_upwards:
  "mapE fst (bindE (a53_getNextAddress 0x2040 (A53Prefetcher_new 64 4 2 2)) (\<lambda>(_, p). a53_getNextAddress 0x2000 p))
     = Inr [0x2040, 0x2080]"
  by code_simp

section \<open>GhbPrefetcher\<close>

definition INVALID_DELTA :: SInt64 where
  "INVALID_DELTA = 0x7fffffffffffffff"

definition INVALID_INDEX :: UInt32 where
  "INVALID_INDEX = 0xffffffff"

definition INVALID_ADDRESS :: IntPtr where
  "INVALID_ADDRESS = 0xffffffffffffffff"

record ghb_entry =
  ge_nextIndex :: UInt32
  ge_delta :: SInt64
  ge_generation :: UInt32

record ghb_table_entry =
  te_ghbIndex :: UInt32
  te_delta :: SInt64
  te_generation :: UInt32

record ghb =
  gh_prefetchWidth :: UInt32
  gh_prefetchDepth :: UInt32
  gh_lastAddress :: IntPtr
  gh_ghbSize :: UInt32
  gh_ghbHead :: UInt32
  gh_generation :: UInt32
  gh_ghb :: "ghb_entry list"
  gh_tableSize :: UInt32
  gh_tableHead :: UInt32
  gh_ghbTable :: "ghb_table_entry list"

definition GhbPrefetcher_new :: "UInt32 \<Rightarrow> UInt32 \<Rightarrow> UInt32 \<Rightarrow> UInt32 \<Rightarrow> ghb" where
  "GhbPrefetcher_new width depth ghb_size table_size =
     \<lparr>gh_prefetchWidth = width, gh_prefetchDepth = depth, gh_lastAddress = INVALID_ADDRESS,
      gh_ghbSize = ghb_size, gh_ghbHead = 0, gh_generation = 0,
      gh_ghb = replicate (unat ghb_size) \<lparr>ge_nextIndex = INVALID_INDEX, ge_delta = INVALID_DELTA, ge_generation = 0\<rparr>,
      gh_tableSize = table_size, gh_tableHead = 0,
      gh_ghbTable = replicate (unat table_size) \<lparr>te_ghbIndex = INVALID_INDEX, te_delta = INVALID_DELTA, te_generation = 0\<rparr>\<rparr>"

text \<open>The table scan stops at the delta, at a free entry or at the end.\<close>

definition ghb_find :: "SInt64 \<Rightarrow> ghb \<Rightarrow> nat option" where
  "ghb_find delta g =
     (case first_index (\<lambda>i. te_delta (gh_ghbTable g ! i) = INVALID_DELTA \<or> te_delta (gh_ghbTable g ! i) = delta)
             (length (gh_ghbTable g)) of
        Some i \<Rightarrow> if te_delta (gh_ghbTable g ! i) = delta then Some i else None
      | None \<Rightarrow> None)"

fun ghb_depth_loop :: "ghb \<Rightarrow> UInt32 \<Rightarrow> nat \<Rightarrow> UInt32 \<Rightarrow> IntPtr \<Rightarrow> IntPtr list \<Rightarrow> IntPtr list result" where
  "ghb_depth_loop g ghbIndex 0 depth newAddress acc = Inr acc"
| "ghb_depth_loop g ghbIndex (Suc k) depth newAddress acc =
     check (gh_ghbSize g \<noteq> 0) (Undefined ''modulo by zero'')
      (bindE (at (gh_ghb g) (unat ((ghbIndex + depth) mod gh_ghbSize g))) (\<lambda>e.
         if ge_delta e = INVALID_DELTA then Inr acc
         else (let a = newAddress + ge_delta e
               in ghb_depth_loop g ghbIndex k (depth + 1) a (if a \<in> set acc then acc else acc @ [a]))))"

fun ghb_width_loop :: "ghb \<Rightarrow> IntPtr \<Rightarrow> nat \<Rightarrow> UInt32 \<Rightarrow> IntPtr list \<Rightarrow> IntPtr list result" where
  "ghb_width_loop g currentAddress 0 ghbIndex acc = Inr acc"
| "ghb_width_loop g currentAddress (Suc k) ghbIndex acc =
     (if ghbIndex = INVALID_INDEX then Inr acc
      else bindE (ghb_depth_loop g ghbIndex (unat (gh_prefetchDepth g)) 0 currentAddress acc) (\<lambda>acc'.
           bindE (at (gh_ghb g) (unat ghbIndex)) (\<lambda>e.
             (let nextIndex = ge_nextIndex e
              in ghb_width_loop g currentAddress k
                   (if (nextIndex > ghbIndex \<or> ghbIndex > gh_ghbHead g) \<and> nextIndex < gh_ghbHead g
                    then INVALID_INDEX else nextIndex) acc'))))"

definition ghb_predict :: "IntPtr \<Rightarrow> SInt64 \<Rightarrow> ghb \<Rightarrow> IntPtr list result" where
  "ghb_predict currentAddress delta g =
     (case ghb_find delta g of
        None \<Rightarrow> Inr []
      | Some i \<Rightarrow>
          (let t = gh_ghbTable g ! i
           in bindE (at (gh_ghb g) (unat (te_ghbIndex t))) (\<lambda>e.
                if te_generation t = ge_generation e
                then ghb_width_loop g currentAddress (unat (gh_prefetchWidth g)) (te_ghbIndex t) []
                else Inr [])))"

definition ghb_link :: "ghb \<Rightarrow> ghb result" where
  "ghb_link g =
     (let prevHead = (if gh_ghbHead g > 0 then gh_ghbHead g - 1 else gh_ghbSize g - 1)
      in bindE (at (gh_ghb g) (unat prevHead)) (\<lambda>pe.
         (let prevDelta = ge_delta pe; h = unat (gh_ghbHead g)
          in if prevDelta = INVALID_DELTA then Inr g
             else case ghb_find prevDelta g of
                    Some i \<Rightarrow>
                      (let t = gh_ghbTable g ! i
                       in bindE (at (gh_ghb g) (unat (te_ghbIndex t))) (\<lambda>e.
                            Inr (g\<lparr>gh_ghb := (gh_ghb g)[h := (gh_ghb g ! h)
                                      \<lparr>ge_nextIndex := (if te_generation t = ge_generation e then te_ghbIndex t else INVALID_INDEX)\<rparr>],
                                   gh_ghbTable := (gh_ghbTable g)[i := t\<lparr>te_ghbIndex := gh_ghbHead g, te_generation := gh_generation g\<rparr>]\<rparr>)))
                  | None \<Rightarrow>
                      check (unat (gh_tableHead g) < length (gh_ghbTable g)) (Undefined ''index out of range'')
                        (Inr (g\<lparr>gh_ghbTable := (gh_ghbTable g)[unat (gh_tableHead g) :=
                                   \<lparr>te_ghbIndex = gh_ghbHead g, te_delta = prevDelta, te_generation = gh_generation g\<rparr>],
                                gh_tableHead := (gh_tableHead g + 1) mod gh_tableSize g\<rparr>)))))"

definition ghb_record :: "SInt64 \<Rightarrow> ghb \<Rightarrow> ghb result" where
  "ghb_record delta g =
     check (unat (gh_ghbHead g) < length (gh_ghb g)) (Undefined ''index out of range'')
      (bindE (ghb_link (g\<lparr>gh_ghb := (gh_ghb g)[unat (gh_ghbHead g) :=
                 \<lparr>ge_nextIndex = INVALID_INDEX, ge_delta = delta, ge_generation = gh_generation g\<rparr>]\<rparr>)) (\<lambda>g'.
         (let head = gh_ghbHead g' + 1
          in if head = gh_ghbSize g'
             then Inr (g'\<lparr>gh_ghbHead := 0, gh_generation := (gh_generation g' + 1) mod 4\<rparr>)
             else Inr (g'\<lparr>gh_ghbHead := head\<rparr>))))"

definition ghb_getNextAddress :: "IntPtr \<Rightarrow> ghb \<Rightarrow> (IntPtr list \<times> ghb) result" where
  "ghb_getNextAddress currentAddress g =
     (if gh_lastAddress g = INVALID_ADDRESS then Inr ([], g\<lparr>gh_lastAddress := currentAddress\<rparr>)
      else (let delta = currentAddress - gh_lastAddress g; g1 = g\<lparr>gh_lastAddress := currentAddress\<rparr>
            in bindE (ghb_predict currentAddress delta g1) (\<lambda>prefetchList.
               bindE (ghb_record delta g1) (\<lambda>g2. Inr (prefetchList, g2)))))"

definition ghb_inv :: "ghb \<Rightarrow> bool" where
  "ghb_inv g \<longleftrightarrow>
     0 < gh_ghbSize g \<and> gh_ghbHead g < gh_ghbSize g \<and> length (gh_ghb g) = unat (gh_ghbSize g) \<and>
     gh_ghbSize g \<le> INVALID_INDEX \<and> 0 < gh_tableSize g \<and> gh_tableHead g < gh_tableSize g \<and>
     length (gh_ghbTable g) = unat (gh_tableSize g) \<and>
     (\<forall>e \<in> set (gh_ghb g). ge_nextIndex e = INVALID_INDEX \<or> ge_nextIndex e < gh_ghbSize g) \<and>
     (\<forall>t \<in> set (gh_ghbTable g). te_delta t \<noteq> INVALID_DELTA \<longrightarrow> te_ghbIndex t < gh_ghbSize g)"

lemma ghb_inv_new: "0 < s \<Longrightarrow> 0 < t \<Longrightarrow> ghb_inv (GhbPrefetcher_new w d s t)"
proof -
  have "(x :: UInt32) \<le> 0xffffffff" for x
    using unat_lt2p [of x] by (simp add: word_le_nat_alt)
  then show "0 < s \<Longrightarrow> 0 < t \<Longrightarrow> ghb_inv (GhbPrefetcher_new w d s t)"
    by (simp add: ghb_inv_def GhbPrefetcher_new_def INVALID_INDEX_def)
qed

lemma ghb_find_Some:
  "ghb_find delta g = Some i \<Longrightarrow> i < length (gh_ghbTable g) \<and> te_delta (gh_ghbTable g ! i) = delta"
  by (auto simp: ghb_find_def first_index_Some split: option.splits if_splits)

lemma ghb_index_range:
  "ghb_inv g \<Longrightarrow> (i :: UInt32) mod gh_ghbSize g < gh_ghbSize g \<and> unat (i mod gh_ghbSize g) < length (gh_ghb g)"
  by (auto simp: ghb_inv_def word_mod_less_divisor word_less_nat_alt unat_mod)

lemma ghb_depth_loop_ok:
  assumes "ghb_inv g"
  shows "distinct acc \<Longrightarrow> \<exists>as. ghb_depth_loop g ix k d na acc = Inr as \<and> distinct as \<and>
    length as \<le> length acc + k"
proof (induction k arbitrary: d na acc)
  case (Suc k)
  let ?e = "gh_ghb g ! unat ((ix + d) mod gh_ghbSize g)"
  let ?a = "na + ge_delta ?e"
  have r: "unat ((ix + d) mod gh_ghbSize g) < length (gh_ghb g)" "gh_ghbSize g \<noteq> 0"
    using ghb_index_range [OF assms, of "ix + d"] assms by (auto simp: ghb_inv_def)
  let ?acc = "if ?a \<in> set acc then acc else acc @ [?a]"
  have "distinct ?acc" "length ?acc \<le> Suc (length acc)" using Suc.prems by simp_all
  with Suc.IH [of ?acc "d + 1" ?a] obtain as where
    "ghb_depth_loop g ix k (d + 1) ?a ?acc = Inr as" "distinct as" "length as \<le> length acc + Suc k" by fastforce
  with r Suc.prems show ?case by (simp add: Let_def)
qed simp

lemma ghb_width_loop_ok:
  assumes "ghb_inv g"
  shows "distinct acc \<Longrightarrow> ix = INVALID_INDEX \<or> ix < gh_ghbSize g \<Longrightarrow>
    \<exists>as. ghb_width_loop g a k ix acc = Inr as \<and> distinct as \<and>
      length as \<le> length acc + k * unat (gh_prefetchDepth g)"
proof (induction k arbitrary: ix acc)
  case (Suc k)
  show ?case
  proof (cases "ix = INVALID_INDEX")
    case False
    with Suc.prems assms have r: "unat ix < length (gh_ghb g)" by (simp add: ghb_inv_def word_less_nat_alt)
    from ghb_depth_loop_ok [OF assms Suc.prems(1)] obtain acc' where
      d: "ghb_depth_loop g ix (unat (gh_prefetchDepth g)) 0 a acc = Inr acc'" "distinct acc'"
        "length acc' \<le> length acc + unat (gh_prefetchDepth g)" by blast
    let ?e = "gh_ghb g ! unat ix"
    have nxt: "ge_nextIndex ?e = INVALID_INDEX \<or> ge_nextIndex ?e < gh_ghbSize g"
      using assms r by (simp add: ghb_inv_def)
    define ix' where "ix' = (if (ge_nextIndex ?e > ix \<or> ix > gh_ghbHead g) \<and> ge_nextIndex ?e < gh_ghbHead g
      then INVALID_INDEX else ge_nextIndex ?e)"
    have "ix' = INVALID_INDEX \<or> ix' < gh_ghbSize g" using nxt by (simp add: ix'_def)
    from Suc.IH [OF d(2) this] obtain as where
      "ghb_width_loop g a k ix' acc' = Inr as" "distinct as" "length as \<le> length acc' + k * unat (gh_prefetchDepth g)"
      by blast
    with d r False show ?thesis by (simp add: ix'_def Let_def)
  qed (use Suc.prems in simp)
qed simp

text \<open>
  The history buffer answers every access with a duplicate-free list of at most width times depth
  addresses and keeps its invariant, unless the step equals the reserved delta.
\<close>

lemma ghb_predict_ok:
  assumes "ghb_inv g" "delta \<noteq> INVALID_DELTA"
  shows "\<exists>as. ghb_predict a delta g = Inr as \<and> distinct as \<and>
    length as \<le> unat (gh_prefetchWidth g) * unat (gh_prefetchDepth g)"
proof (cases "ghb_find delta g")
  case (Some i)
  let ?t = "gh_ghbTable g ! i"
  from ghb_find_Some [OF Some] assms have t: "te_ghbIndex ?t < gh_ghbSize g"
    by (auto simp: ghb_inv_def)
  then have r: "unat (te_ghbIndex ?t) < length (gh_ghb g)" using assms(1) by (simp add: ghb_inv_def word_less_nat_alt)
  from ghb_width_loop_ok [OF assms(1), of "[]" "te_ghbIndex ?t" a "unat (gh_prefetchWidth g)"] t r Some show ?thesis
    by (auto simp: ghb_predict_def Let_def)
qed (simp add: ghb_predict_def)

lemma set_updateD: "x \<in> set (xs[i := y]) \<Longrightarrow> x = y \<or> x \<in> set xs"
  using set_update_subset_insert by fastforce

lemma ghb_link_ok:
  assumes "ghb_inv g"
  shows "\<exists>g'. ghb_link g = Inr g' \<and> ghb_inv g' \<and> gh_ghbHead g' = gh_ghbHead g \<and> gh_ghbSize g' = gh_ghbSize g"
proof -
  define ph where "ph = (if gh_ghbHead g > 0 then gh_ghbHead g - 1 else gh_ghbSize g - 1)"
  have "ph < gh_ghbSize g"
    using assms by (auto simp: ph_def ghb_inv_def word_less_nat_alt unat_minus_one unat_eq_0 [symmetric])
  then have ph: "unat ph < length (gh_ghb g)" using assms by (simp add: ghb_inv_def word_less_nat_alt)
  let ?d = "ge_delta (gh_ghb g ! unat ph)" and ?h = "unat (gh_ghbHead g)"
  have h: "?h < length (gh_ghb g)" using assms by (simp add: ghb_inv_def word_less_nat_alt)
  show ?thesis
  proof (cases "?d = INVALID_DELTA")
    case True
    with ph assms show ?thesis by (simp add: ghb_link_def ph_def [symmetric])
  next
    case False
    show ?thesis
    proof (cases "ghb_find ?d g")
      case (Some i)
      let ?t = "gh_ghbTable g ! i"
      from ghb_find_Some [OF Some] False assms have t: "te_ghbIndex ?t < gh_ghbSize g" "i < length (gh_ghbTable g)"
        by (auto simp: ghb_inv_def)
      then have r: "unat (te_ghbIndex ?t) < length (gh_ghb g)" using assms by (simp add: ghb_inv_def word_less_nat_alt)
      from ph False Some r t assms h show ?thesis
        by (simp add: ghb_link_def ph_def [symmetric] Let_def) (auto simp: ghb_inv_def dest!: set_updateD)
    next
      case None
      have th: "unat (gh_tableHead g) < length (gh_ghbTable g)" using assms by (simp add: ghb_inv_def word_less_nat_alt)
      have "(gh_tableHead g + 1) mod gh_tableSize g < gh_tableSize g"
        using assms by (simp add: ghb_inv_def word_mod_less_divisor)
      with ph False None th assms show ?thesis
        by (simp add: ghb_link_def ph_def [symmetric] Let_def) (auto simp: ghb_inv_def dest!: set_updateD)
    qed
  qed
qed

lemma ghb_record_ok:
  assumes "ghb_inv g"
  shows "\<exists>g'. ghb_record delta g = Inr g' \<and> ghb_inv g'"
proof -
  let ?h = "unat (gh_ghbHead g)"
  let ?g = "g\<lparr>gh_ghb := (gh_ghb g)[?h := \<lparr>ge_nextIndex = INVALID_INDEX, ge_delta = delta, ge_generation = gh_generation g\<rparr>]\<rparr>"
  have h: "?h < length (gh_ghb g)" using assms by (simp add: ghb_inv_def word_less_nat_alt)
  have "ghb_inv ?g" using assms by (auto simp: ghb_inv_def dest!: set_updateD)
  from ghb_link_ok [OF this] obtain g1 where
    g1: "ghb_link ?g = Inr g1" "ghb_inv g1" "gh_ghbHead g1 = gh_ghbHead g" "gh_ghbSize g1 = gh_ghbSize g" by auto
  have "gh_ghbHead g1 + 1 < gh_ghbSize g1" if "gh_ghbHead g1 + 1 \<noteq> gh_ghbSize g1"
  proof -
    have lt: "gh_ghbHead g1 < gh_ghbSize g1" using g1(2) by (simp add: ghb_inv_def)
    from unat_add_1_less [OF lt] lt that show ?thesis
      by (metis Suc_leI le_neq_implies_less word_less_nat_alt word_unat_eq_iff)
  qed
  with g1 h show ?thesis by (auto simp: ghb_record_def Let_def ghb_inv_def)
qed

lemma ghb_getNextAddress_ok:
  assumes "ghb_inv g" "a - gh_lastAddress g \<noteq> INVALID_DELTA"
  shows "\<exists>as g'. ghb_getNextAddress a g = Inr (as, g') \<and> ghb_inv g' \<and> distinct as \<and>
    length as \<le> unat (gh_prefetchWidth g) * unat (gh_prefetchDepth g)"
proof (cases "gh_lastAddress g = INVALID_ADDRESS")
  case True
  with assms(1) show ?thesis by (simp add: ghb_getNextAddress_def ghb_inv_def)
next
  case False
  let ?g = "g\<lparr>gh_lastAddress := a\<rparr>" and ?d = "a - gh_lastAddress g"
  have inv: "ghb_inv ?g" using assms(1) by (simp add: ghb_inv_def)
  from ghb_predict_ok [OF inv assms(2), of a] ghb_record_ok [OF inv, of ?d] False show ?thesis
    by (auto simp: ghb_getNextAddress_def Let_def)
qed

section \<open>The interface\<close>

datatype prefetcher = Simple simple_prefetcher | GHB ghb | A53 a53

text \<open>The configuration keys a prefetcher of each type reads.\<close>

record prefetch_cfg =
  pf_simple :: simple_prefetcher
  pf_ghb :: ghb
  pf_a53 :: a53

definition createPrefetcher :: "string \<Rightarrow> prefetch_cfg \<Rightarrow> prefetcher option result" where
  "createPrefetcher type cfg =
     (if type = ''none'' then Inr None
      else if type = ''simple'' then Inr (Some (Simple (pf_simple cfg)))
      else if type = ''ghb'' then Inr (Some (GHB (pf_ghb cfg)))
      else if type = ''a53prefetcher'' then Inr (Some (A53 (pf_a53 cfg)))
      else Inl (Print_Error ''Invalid prefetcher type''))"

definition getNextAddress :: "IntPtr \<Rightarrow> core_id_t \<Rightarrow> prefetcher \<Rightarrow> (IntPtr list \<times> prefetcher) result" where
  "getNextAddress address core_id p =
     (case p of
        Simple s \<Rightarrow> mapE (\<lambda>(as, s'). (as, Simple s')) (simple_getNextAddress address core_id s)
      | GHB g \<Rightarrow> mapE (\<lambda>(as, g'). (as, GHB g')) (ghb_getNextAddress address g)
      | A53 a \<Rightarrow> mapE (\<lambda>(as, a'). (as, A53 a')) (a53_getNextAddress address a))"

end
