(* ===== verification/Directory_Entry.thy ===== *)
theory Directory_Entry
  imports Contention Utils
begin

text \<open>
  \<open>directory_schemes/\<close>: what the tag directory knows about one line (its state, the caches that
  share it, the owner and the cache that forwards it), and the table of entries. Entries are objects
  that the table and the list of replaced entries point to; they live in \<open>dir_heap\<close>, a pointer is an
  index, and \<open>delete\<close> leaves \<open>None\<close> behind.
\<close>

section \<open>Entries\<close>

definition INVALID_CORE_ID :: core_id_t where
  "INVALID_CORE_ID = - 1"

definition NO_ADDRESS :: IntPtr where
  "NO_ADDRESS = - 1"

datatype dstate_t = UNCACHED | DIR_SHARED | DIR_OWNED | DIR_MODIFIED | DIR_EXCLUSIVE

text \<open>The two subclasses of \<open>DirectoryEntry\<close> with the members they add.\<close>

datatype entry_kind =
    LimitedNoBroadcast random
  | Limitless bool time

record dir_entry =
  de_address :: IntPtr
  de_dstate :: dstate_t
  de_owner :: core_id_t
  de_forwarder :: core_id_t
  de_sharers :: "bool list"
  de_kind :: entry_kind

text \<open>\<open>m_forwarder_id\<close> is not initialised: its first value is an argument.\<close>

definition DirectoryEntry_new :: "core_id_t \<Rightarrow> nat \<Rightarrow> entry_kind \<Rightarrow> dir_entry" where
  "DirectoryEntry_new forwarder width kind =
     \<lparr>de_address = NO_ADDRESS, de_dstate = UNCACHED, de_owner = INVALID_CORE_ID, de_forwarder = forwarder,
      de_sharers = replicate width False, de_kind = kind\<rparr>"

definition getNumSharers :: "dir_entry \<Rightarrow> UInt32" where
  "getNumSharers e = of_nat (length (filter id (de_sharers e)))"

definition sharer_list :: "dir_entry \<Rightarrow> core_id_t list" where
  "sharer_list e = map of_nat (filter (\<lambda>j. de_sharers e ! j) [0..<length (de_sharers e)])"

definition getSharersList :: "dir_entry \<Rightarrow> bool \<times> core_id_t list" where
  "getSharersList e = (False, sharer_list e)"

definition hasSharer :: "core_id_t \<Rightarrow> dir_entry \<Rightarrow> bool result" where
  "hasSharer sharer_id e = at (de_sharers e) (unat sharer_id)"

definition addSharer :: "core_id_t \<Rightarrow> UInt32 \<Rightarrow> dir_entry \<Rightarrow> (bool \<times> dir_entry) result" where
  "addSharer sharer_id max_hw_sharers e =
     bindE (hasSharer sharer_id e) (\<lambda>has.
     check (\<not> has) (Assert ''! m_sharers[sharer_id]'')
       (case de_kind e of
          LimitedNoBroadcast rnd \<Rightarrow>
            if max_hw_sharers \<le> getNumSharers e then Inr (False, e)
            else Inr (True, e\<lparr>de_sharers := (de_sharers e)[unat sharer_id := True]\<rparr>)
        | Limitless trap penalty \<Rightarrow>
            Inr (True, e\<lparr>de_kind := Limitless (trap \<or> of_nat (length (de_sharers e)) = max_hw_sharers) penalty,
                         de_sharers := (de_sharers e)[unat sharer_id := True]\<rparr>)))"

definition removeSharer :: "core_id_t \<Rightarrow> dir_entry \<Rightarrow> dir_entry result" where
  "removeSharer sharer_id e =
     bindE (hasSharer sharer_id e) (\<lambda>has.
     check has (Assert ''m_sharers[sharer_id]'') (Inr (e\<lparr>de_sharers := (de_sharers e)[unat sharer_id := False]\<rparr>)))"

definition setOwner :: "core_id_t \<Rightarrow> dir_entry \<Rightarrow> dir_entry result" where
  "setOwner owner_id e =
     (if owner_id = INVALID_CORE_ID then Inr (e\<lparr>de_owner := owner_id\<rparr>)
      else bindE (hasSharer owner_id e) (\<lambda>has.
           check has (Assert ''m_sharers[owner_id]'') (Inr (e\<lparr>de_owner := owner_id\<rparr>))))"

definition getOneSharer :: "dir_entry \<Rightarrow> (core_id_t \<times> dir_entry) result" where
  "getOneSharer e =
     (case de_kind e of
        LimitedNoBroadcast rnd \<Rightarrow>
          check (sharer_list e \<noteq> []) (Assert ''sharers_list.second.size() > 0'')
            (bindE (Random_next (of_nat (length (sharer_list e))) rnd) (\<lambda>(index, rnd').
             bindE (at (sharer_list e) (unat index)) (\<lambda>c. Inr (c, e\<lparr>de_kind := LimitedNoBroadcast rnd'\<rparr>))))
      | Limitless trap penalty \<Rightarrow>
          (case sharer_list e of [] \<Rightarrow> Inl (Assert ''sharer_id != -1'') | c # _ \<Rightarrow> Inr (c, e)))"

definition getLatency :: "dir_entry \<Rightarrow> time" where
  "getLatency e =
     (case de_kind e of
        LimitedNoBroadcast rnd \<Rightarrow> 0
      | Limitless trap penalty \<Rightarrow> if trap then penalty else 0)"

section \<open>The table\<close>

datatype directory_type = FULL_MAP | LIMITED_NO_BROADCAST | LIMITLESS

record directory =
  dir_type :: directory_type
  dir_num_entries :: UInt32
  dir_allocated :: UInt64
  dir_max_hw_sharers :: UInt32
  dir_use_max_hw_sharers :: UInt32
  dir_max_num_sharers :: UInt32
  dir_penalty :: time
  dir_list :: "nat option list"
  dir_heap :: "dir_entry option list"
  dir_forwarder0 :: core_id_t

definition parseDirectoryType :: "string \<Rightarrow> directory_type result" where
  "parseDirectoryType s =
     (if s = ''full_map'' then Inr FULL_MAP
      else if s = ''limited_no_broadcast'' then Inr LIMITED_NO_BROADCAST
      else if s = ''limitless'' then Inr LIMITLESS
      else Inl (Print_Error ''Unsupported Directory Type''))"

definition Directory_new :: "string \<Rightarrow> UInt32 \<Rightarrow> UInt32 \<Rightarrow> UInt32 \<Rightarrow> time \<Rightarrow> core_id_t \<Rightarrow> directory result" where
  "Directory_new directory_type_str num_entries max_hw_sharers max_num_sharers penalty forwarder0 =
     bindE (parseDirectoryType directory_type_str) (\<lambda>ty.
       Inr \<lparr>dir_type = ty, dir_num_entries = num_entries, dir_allocated = 0, dir_max_hw_sharers = max_hw_sharers,
            dir_use_max_hw_sharers = max_hw_sharers, dir_max_num_sharers = max_num_sharers,
            dir_penalty = (if ty = LIMITLESS then penalty else 0),
            dir_list = replicate (unat num_entries) None, dir_heap = [], dir_forwarder0 = forwarder0\<rparr>)"

definition sharers_size :: "UInt32 \<Rightarrow> nat" where
  "sharers_size max_num_sharers =
     (if max_num_sharers \<le> 64 then 64
      else if max_num_sharers \<le> 128 then 128
      else if max_num_sharers \<le> 256 then 256
      else if max_num_sharers \<le> 1024 then 1024
      else unat max_num_sharers)"

definition createDirectoryEntry :: "directory \<Rightarrow> nat \<times> directory" where
  "createDirectoryEntry d =
     (let width = sharers_size (dir_max_num_sharers d);
          kind = (case dir_type d of LIMITLESS \<Rightarrow> Limitless False (dir_penalty d) | _ \<Rightarrow> LimitedNoBroadcast Random_new);
          d' = (if dir_type d = FULL_MAP then d\<lparr>dir_use_max_hw_sharers := dir_max_num_sharers d\<rparr> else d)
      in (length (dir_heap d), d'\<lparr>dir_heap := dir_heap d @ [Some (DirectoryEntry_new (dir_forwarder0 d) width kind)]\<rparr>))"

definition dir_getEntry :: "UInt32 \<Rightarrow> directory \<Rightarrow> (nat \<times> directory) result" where
  "dir_getEntry entry_num d =
     check (entry_num < dir_num_entries d) (Assert ''Invalid entry_num'')
       (bindE (at (dir_list d) (unat entry_num)) (\<lambda>p.
          case p of
            Some e \<Rightarrow> Inr (e, d)
          | None \<Rightarrow>
              (let (e, d') = createDirectoryEntry d
               in Inr (e, d'\<lparr>dir_list := (dir_list d')[unat entry_num := Some e], dir_allocated := dir_allocated d' + 1\<rparr>))))"

definition dir_setEntry :: "UInt32 \<Rightarrow> nat \<Rightarrow> directory \<Rightarrow> directory result" where
  "dir_setEntry entry_num e d =
     check (unat entry_num < length (dir_list d)) (Undefined ''index out of range'')
       (Inr (d\<lparr>dir_list := (dir_list d)[unat entry_num := Some e]\<rparr>))"

text \<open>Following a pointer to an entry, and writing through it.\<close>

definition entry_at :: "nat \<Rightarrow> directory \<Rightarrow> dir_entry result" where
  "entry_at p d = bindE (at (dir_heap d) p) (\<lambda>x. case x of None \<Rightarrow> Inl (Undefined ''use of a deleted entry'') | Some e \<Rightarrow> Inr e)"

definition put_entry :: "nat \<Rightarrow> dir_entry \<Rightarrow> directory \<Rightarrow> directory" where
  "put_entry p e d = d\<lparr>dir_heap := (dir_heap d)[p := Some e]\<rparr>"

definition delete_entry :: "nat \<Rightarrow> directory \<Rightarrow> directory" where
  "delete_entry p d = d\<lparr>dir_heap := (dir_heap d)[p := None]\<rparr>"

section \<open>The sharers of an entry\<close>

definition sharers :: "dir_entry \<Rightarrow> nat set" where
  "sharers e = {j. j < length (de_sharers e) \<and> de_sharers e ! j}"

text \<open>
  What the directory promises about a line: no sharer exactly when it is uncached, and a single one,
  the owner, when it may be written. The state \<open>OWNED\<close> is never used.
\<close>

definition entry_ok :: "dir_entry \<Rightarrow> bool" where
  "entry_ok e \<longleftrightarrow> length (de_sharers e) < 2 ^ 32 \<and> (de_dstate e = UNCACHED \<longleftrightarrow> sharers e = {}) \<and>
     (de_dstate e \<in> {DIR_MODIFIED, DIR_EXCLUSIVE} \<longrightarrow> sharers e = {unat (de_owner e)}) \<and> de_dstate e \<noteq> DIR_OWNED"

lemma finite_sharers [simp]: "finite (sharers e)"
  by (simp add: sharers_def)

lemma card_sharers: "length (filter id (de_sharers e)) = card (sharers e)"
  by (simp add: sharers_def length_filter_conv_card)

lemma card_sharers_le: "card (sharers e) \<le> length (de_sharers e)"
  using length_filter_le [of id "de_sharers e"] by (simp add: card_sharers)

lemma getNumSharers_unat: "length (de_sharers e) < 2 ^ 32 \<Longrightarrow> unat (getNumSharers e) = card (sharers e)"
  using card_sharers_le [of e] by (simp add: getNumSharers_def card_sharers unat_of_nat)

lemma getNumSharers_0: "length (de_sharers e) < 2 ^ 32 \<Longrightarrow> getNumSharers e = 0 \<longleftrightarrow> sharers e = {}"
  using getNumSharers_unat [of e] by (simp add: unat_eq_0 [symmetric])

lemma sharer_list_unat:
  assumes "length (de_sharers e) < 2 ^ 32"
  shows "map unat (sharer_list e) = filter (\<lambda>j. de_sharers e ! j) [0..<length (de_sharers e)]"
proof -
  have "map unat (sharer_list e) = map (\<lambda>j. unat (of_nat j :: core_id_t)) (filter (\<lambda>j. de_sharers e ! j) [0..<length (de_sharers e)])"
    by (simp add: sharer_list_def)
  also have "\<dots> = filter (\<lambda>j. de_sharers e ! j) [0..<length (de_sharers e)]"
    using assms by (intro map_idI) (auto simp: unat_of_nat)
  finally show ?thesis .
qed

lemma sharer_list_set: "length (de_sharers e) < 2 ^ 32 \<Longrightarrow> unat ` set (sharer_list e) = sharers e"
  using arg_cong [OF sharer_list_unat, of e set] by (auto simp: sharers_def)

lemma sharer_list_distinct: "length (de_sharers e) < 2 ^ 32 \<Longrightarrow> distinct (sharer_list e)"
  using sharer_list_unat [of e] distinct_map [of unat "sharer_list e"] by simp

lemma sharer_list_Nil: "length (de_sharers e) < 2 ^ 32 \<Longrightarrow> sharer_list e = [] \<longleftrightarrow> sharers e = {}"
  using sharer_list_set [of e] by auto

lemma sharer_list_single:
  assumes "length (de_sharers e) < 2 ^ 32" "sharers e = {unat c}"
  shows "sharer_list e = [c]"
proof -
  have "unat ` set (sharer_list e) = {unat c}" using sharer_list_set [OF assms(1)] assms(2) by simp
  moreover have "inj (unat :: core_id_t \<Rightarrow> nat)" by (simp add: inj_on_def word_unat_eq_iff)
  ultimately have "set (sharer_list e) = {c}" using inj_image_eq_iff [of unat "set (sharer_list e)" "{c}"] by simp
  then obtain xs where "sharer_list e = c # xs" "set xs \<subseteq> {c}" by (cases "sharer_list e") auto
  moreover from this have "c \<notin> set xs" using sharer_list_distinct [OF assms(1)] by simp
  ultimately show ?thesis by (cases xs) auto
qed

lemma hasSharer_Inr: "hasSharer c e = Inr b \<longleftrightarrow> unat c < length (de_sharers e) \<and> b = (unat c \<in> sharers e)"
  by (auto simp: hasSharer_def at_def sharers_def)

lemma sharers_update:
  "unat c < length (de_sharers e) \<Longrightarrow>
   sharers (e\<lparr>de_sharers := (de_sharers e)[unat c := b]\<rparr>) = (if b then insert (unat c) (sharers e) else sharers e - {unat c})"
  by (auto simp: sharers_def nth_list_update split: if_splits)

lemma sharers_frame [simp]:
  "sharers (e\<lparr>de_kind := k\<rparr>) = sharers e" "sharers (e\<lparr>de_owner := c\<rparr>) = sharers e" "sharers (e\<lparr>de_dstate := st\<rparr>) = sharers e"
  "sharers (e\<lparr>de_address := a\<rparr>) = sharers e" "sharers (e\<lparr>de_forwarder := c\<rparr>) = sharers e"
  by (simp_all add: sharers_def)

text \<open>The operations on the sharers, when they return.\<close>

lemma addSharer_Inr:
  assumes "addSharer c n e = Inr (b, e')"
  shows "unat c < length (de_sharers e)" "unat c \<notin> sharers e"
    "sharers e' = (if b then insert (unat c) (sharers e) else sharers e)" "length (de_sharers e') = length (de_sharers e)"
    "de_address e' = de_address e" "de_dstate e' = de_dstate e" "de_owner e' = de_owner e"
  using assms
  by (auto simp: addSharer_def hasSharer_Inr sharers_update result_simps split: entry_kind.splits if_splits)
    (auto simp: sharers_def nth_list_update split: if_splits)

lemma removeSharer_Inr:
  "removeSharer c e = Inr e' \<longleftrightarrow> unat c \<in> sharers e \<and> e' = e\<lparr>de_sharers := (de_sharers e)[unat c := False]\<rparr>"
  by (auto simp: removeSharer_def hasSharer_Inr result_simps) (auto simp: sharers_def)

lemma setOwner_Inr: "setOwner c e = Inr e' \<longleftrightarrow> (c \<noteq> INVALID_CORE_ID \<longrightarrow> unat c \<in> sharers e) \<and> e' = e\<lparr>de_owner := c\<rparr>"
  by (auto simp: setOwner_def hasSharer_Inr result_simps) (auto simp: sharers_def)

lemma getOneSharer_Inr:
  assumes "getOneSharer e = Inr (c, e')"
  shows "c \<in> set (sharer_list e)" "\<exists>k. e' = e\<lparr>de_kind := k\<rparr>"
  using assms
  by (auto simp: getOneSharer_def at_def result_simps split: entry_kind.splits list.splits if_splits)
    (metis dir_entry.surjective dir_entry.update_convs(6))

end
