(* ===== verification/Dram_Cache.thy ===== *)
theory Dram_Cache
  imports Nuca Prefetchers Directory_Entry
begin

text \<open>
  What may stand behind the tag directory as memory: \<open>DramCntlr\<close> or \<open>NvmCntlr\<close>
  (\<open>pr_l1_pr_l2_dram_directory_msi/nvm_cntlr.cc\<close>), and optionally a \<open>DramCache\<close> in front of it
  (\<open>dram/dram_cache.cc\<close>). All of them implement \<open>DramCntlrInterface\<close>.
\<close>

section \<open>NvmCntlr\<close>

record nvm =
  nv_base :: dram
  nv_logs :: UInt64

definition NvmCntlr_new :: "dram \<Rightarrow> nvm" where
  "NvmCntlr_new d = \<lparr>nv_base = d, nv_logs = 0\<rparr>"

text \<open>\<open>m_data_map[address]\<close> filled with zeros on the first read, and the injected faults.\<close>

definition nvm_readData :: "IntPtr \<Rightarrow> dram \<Rightarrow> (byte list \<times> dram) result" where
  "nvm_readData address d =
     (let d0 = (if dr_data d address = None then d\<lparr>dr_data := (dr_data d)(address := Some (replicate (dr_block_size d) 0))\<rparr> else d);
          bytes = the (dr_data d0 address)
      in case dr_fault d0 of
           None \<Rightarrow> Inr (bytes, d0)
         | Some fi \<Rightarrow>
             bindE (preRead (dr_block_size d0) bytes 0 fi) (\<lambda>(bs, fi').
               Inr (bs, d0\<lparr>dr_data := (dr_data d0)(address := Some bs), dr_fault := Some fi'\<rparr>)))"

definition nvm_getDataFromDram :: "IntPtr \<Rightarrow> core_id_t \<Rightarrow> time \<Rightarrow> nvm \<Rightarrow> (time \<times> where_t \<times> byte list option \<times> nvm) result" where
  "nvm_getDataFromDram address requester now n =
     bindE (if dr_fim (nv_base n) then mapE (\<lambda>(bs, d). (Some bs, d)) (nvm_readData address (nv_base n)) else Inr (None, nv_base n)) (\<lambda>(out, d).
       (let (latency, d') = runDramPerfModel requester now address DRAM_READ d
        in Inr (latency, HIT_DRAM, out, n\<lparr>nv_base := d'\<lparr>dr_reads := dr_reads d' + 1\<rparr>\<rparr>)))"

definition nvm_putDataToDram :: "IntPtr \<Rightarrow> core_id_t \<Rightarrow> byte list option \<Rightarrow> time \<Rightarrow> nvm \<Rightarrow> (time \<times> where_t \<times> nvm) result" where
  "nvm_putDataToDram address requester data_buf now n =
     (let d = nv_base n
      in bindE (if dr_fim d
                then check (dr_data d address \<noteq> None) (Print_Error ''Data Buffer does not exist'')
                       (case data_buf of
                          None \<Rightarrow> Inl (Undefined ''null dereference'')
                        | Some bs \<Rightarrow> Inr (d\<lparr>dr_data := (dr_data d)(address := Some bs)\<rparr>))
                else Inr d) (\<lambda>d1.
         (let (latency, d') = runDramPerfModel requester now address DRAM_WRITE d1
          in Inr (latency, HIT_DRAM, n\<lparr>nv_base := d'\<lparr>dr_writes := dr_writes d' + 1\<rparr>\<rparr>))))"

text \<open>The controller of non-volatile memory does what the one of DRAM does; \<open>m_logs\<close> never changes.\<close>

lemma dram_unchanged:
  "dr_fault d = None \<Longrightarrow> d\<lparr>dr_data := m, dr_fault := None\<rparr> = d\<lparr>dr_data := m\<rparr>" "dr_data d a = Some bs \<Longrightarrow> d\<lparr>dr_data := (dr_data d)(a \<mapsto> bs)\<rparr> = d"
  by (cases d; simp add: fun_upd_idem)+

lemma nvm_get_eq:
  "nvm_getDataFromDram a r t n = mapE (\<lambda>(l, w, out, d). (l, w, out, n\<lparr>nv_base := d\<rparr>)) (getDataFromDram a r t (nv_base n))"
proof (cases "dr_fim (nv_base n)")
  case True
  then show ?thesis
    by (cases "dr_data (nv_base n) a"; cases "dr_fault (nv_base n)")
      (simp_all add: nvm_getDataFromDram_def getDataFromDram_def nvm_readData_def split_def Let_def mapE_def bindE_def dram_unchanged split: sum.splits)
qed (simp add: nvm_getDataFromDram_def getDataFromDram_def split_def Let_def)

lemma nvm_put_eq:
  "nvm_putDataToDram a r b t n = mapE (\<lambda>(l, w, d). (l, w, n\<lparr>nv_base := d\<rparr>)) (putDataToDram a r b t (nv_base n))"
  by (cases "dr_data (nv_base n) a"; cases b)
    (simp_all add: nvm_putDataToDram_def putDataToDram_def split_def Let_def)

section \<open>The memory of a node\<close>

datatype mem_cntlr = DramC dram | NvmC nvm

definition createMemCntlr :: "string option \<Rightarrow> dram \<Rightarrow> mem_cntlr" where
  "createMemCntlr technology d = (if technology = Some ''nvm'' then NvmC (NvmCntlr_new d) else DramC d)"

definition mem_get :: "IntPtr \<Rightarrow> core_id_t \<Rightarrow> time \<Rightarrow> mem_cntlr \<Rightarrow> (time \<times> where_t \<times> byte list option \<times> mem_cntlr) result" where
  "mem_get address requester now m =
     (case m of
        DramC d \<Rightarrow> mapE (\<lambda>(l, w, out, d'). (l, w, out, DramC d')) (getDataFromDram address requester now d)
      | NvmC n \<Rightarrow> mapE (\<lambda>(l, w, out, n'). (l, w, out, NvmC n')) (nvm_getDataFromDram address requester now n))"

definition mem_put :: "IntPtr \<Rightarrow> core_id_t \<Rightarrow> byte list option \<Rightarrow> time \<Rightarrow> mem_cntlr \<Rightarrow> (time \<times> where_t \<times> mem_cntlr) result" where
  "mem_put address requester data_buf now m =
     (case m of
        DramC d \<Rightarrow> mapE (\<lambda>(l, w, d'). (l, w, DramC d')) (putDataToDram address requester data_buf now d)
      | NvmC n \<Rightarrow> mapE (\<lambda>(l, w, n'). (l, w, NvmC n')) (nvm_putDataToDram address requester data_buf now n))"

definition mem_fim :: "mem_cntlr \<Rightarrow> bool" where
  "mem_fim m = (case m of DramC d \<Rightarrow> dr_fim d | NvmC n \<Rightarrow> dr_fim (nv_base n))"

text \<open>The bytes a line of memory holds and the number of accesses, whatever the technology.\<close>

definition base_of :: "mem_cntlr \<Rightarrow> dram" where
  "base_of m = (case m of DramC d \<Rightarrow> d | NvmC n \<Rightarrow> nv_base n)"

lemma mem_get_base:
  "mem_get a r t m = Inr (l, w, out, m') \<Longrightarrow> getDataFromDram a r t (base_of m) = Inr (l, w, out, base_of m')"
  by (cases m) (auto simp: mem_get_def base_of_def nvm_get_eq result_simps)

lemma mem_put_base:
  "mem_put a r b t m = Inr (l, w, m') \<Longrightarrow> putDataToDram a r b t (base_of m) = Inr (l, w, base_of m')"
  by (cases m) (auto simp: mem_put_def base_of_def nvm_put_eq result_simps)

lemma mem_total:
  assumes "\<not> mem_fim m"
  shows "\<exists>l m'. mem_get a r t m = Inr (l, HIT_DRAM, None, m') \<and> dr_reads (base_of m') = dr_reads (base_of m) + 1"
    and "\<exists>l m'. mem_put a r b t m = Inr (l, HIT_DRAM, m') \<and> dr_writes (base_of m') = dr_writes (base_of m) + 1"
proof -
  have "\<not> dr_fim (base_of m)" using assms by (cases m) (simp_all add: mem_fim_def base_of_def)
  note t = dram_total [OF this]
  obtain l d where "getDataFromDram a r t (base_of m) = Inr (l, HIT_DRAM, None, d)" "dr_reads d = dr_reads (base_of m) + 1" using t(1) by blast
  then show "\<exists>l m'. mem_get a r t m = Inr (l, HIT_DRAM, None, m') \<and> dr_reads (base_of m') = dr_reads (base_of m) + 1"
    by (cases m) (simp_all add: mem_get_def base_of_def nvm_get_eq)
  obtain l d where "putDataToDram a r b t (base_of m) = Inr (l, HIT_DRAM, d)" "dr_writes d = dr_writes (base_of m) + 1" using t(2) by blast
  then show "\<exists>l m'. mem_put a r b t m = Inr (l, HIT_DRAM, m') \<and> dr_writes (base_of m') = dr_writes (base_of m) + 1"
    by (cases m) (simp_all add: mem_put_def base_of_def nvm_put_eq)
qed

section \<open>DramCache\<close>

record dram_cache =
  dk_core_id :: core_id_t
  dk_block_size :: UInt32
  dk_data_access_time :: time
  dk_tags_access_time :: time
  dk_processing_time :: time
  dk_cntlr :: mem_cntlr
  dk_cache :: cache
  dk_queue_model :: "queue_model option"
  dk_prefetcher :: "prefetcher option"
  dk_prefetch_on_prefetch_hit :: bool
  dk_prefetch_mshr :: contention
  dk_reads :: UInt64
  dk_writes :: UInt64
  dk_read_misses :: UInt64
  dk_write_misses :: UInt64
  dk_hits_prefetch :: UInt64
  dk_prefetches :: UInt64
  dk_prefetch_mshr_delay :: time

definition WHERE_DRAM_CACHE :: where_t where
  "WHERE_DRAM_CACHE = 9"

text \<open>
  \<open>perf\<close> says whether the caller passed a \<open>ShmemPerf\<close>; \<open>updateTime\<close> reads its members, so a null
  pointer is dereferenced.
\<close>

definition dk_accessDataArray :: "bool \<Rightarrow> core_id_t \<Rightarrow> time \<Rightarrow> dram_cache \<Rightarrow> (time \<times> dram_cache) result" where
  "dk_accessDataArray perf requester t_start k =
     (let (queue_delay, k') =
            (case dk_queue_model k of
               None \<Rightarrow> (0, k)
             | Some q \<Rightarrow>
                 (let (d, q') = computeQueueDelay q t_start (dk_processing_time k) requester in (d, k\<lparr>dk_queue_model := Some q'\<rparr>)))
      in check perf (Undefined ''null dereference'') (Inr (queue_delay + dk_processing_time k + dk_data_access_time k, k')))"

definition dk_peek :: "IntPtr \<Rightarrow> dram_cache \<Rightarrow> block_ref result" where
  "dk_peek address k =
     bindE (peekSingleLine address (dk_cache k)) (\<lambda>p.
       case p of None \<Rightarrow> Inl (Undefined ''null dereference'') | Some r \<Rightarrow> Inr r)"

definition dk_modBlock :: "block_ref \<Rightarrow> (block_info \<Rightarrow> block_info) \<Rightarrow> dram_cache \<Rightarrow> dram_cache" where
  "dk_modBlock r f k = k\<lparr>dk_cache := set_block r (f (block_at (dk_cache k) r)) (dk_cache k)\<rparr>"

text \<open>The line that is evicted is written back with the data of the line that is inserted.\<close>

definition dk_insertLine :: "access_t \<Rightarrow> IntPtr \<Rightarrow> core_id_t \<Rightarrow> buffer \<Rightarrow> time \<Rightarrow> dram_cache \<Rightarrow> dram_cache result" where
  "dk_insertLine access address requester data_buf now k =
     bindE (buf_in (c_fault (dk_cache k) \<noteq> None) data_buf) (\<lambda>fill.
     bindE (insertSingleLine address fill (CacheBlockInfo_new PR_L1_CACHE (NOT 0) INVALID 0) True None (dk_cache k)) (\<lambda>(out, evict_address, c).
     bindE (dk_peek address (k\<lparr>dk_cache := c\<rparr>)) (\<lambda>r.
       (let k1 = dk_modBlock r (\<lambda>b. b\<lparr>m_cstate := (if access = STORE then MODIFIED else SHARED)\<rparr>) (k\<lparr>dk_cache := c\<rparr>)
        in bindE (dk_accessDataArray False requester now k1) (\<lambda>(_, k2).
           if ins_eviction out \<and> m_cstate (ins_evict_info out) = MODIFIED
           then bindE (buf_in (mem_fim (dk_cntlr k2)) data_buf) (\<lambda>bytes.
                bindE (mem_put evict_address requester bytes now (dk_cntlr k2)) (\<lambda>(_, _, m).
                  Inr (k2\<lparr>dk_cntlr := m\<rparr>)))
           else Inr k2)))))"

primrec dk_prefetchLines :: "IntPtr list \<Rightarrow> time \<Rightarrow> dram_cache \<Rightarrow> dram_cache result" where
  "dk_prefetchLines [] t_issue k = Inr k"
| "dk_prefetchLines (prefetch_address # rest) t_issue k =
     bindE (peekSingleLine prefetch_address (dk_cache k)) (\<lambda>p.
       if p = None
       then bindE (mem_get prefetch_address (dk_core_id k) t_issue (dk_cntlr k)) (\<lambda>(dram_latency, _, out, m).
            bindE (dk_insertLine LOAD prefetch_address (dk_core_id k) (buf_out (Buf None) out) (t_issue + dram_latency) (k\<lparr>dk_cntlr := m\<rparr>)) (\<lambda>k1.
            bindE (dk_peek prefetch_address k1) (\<lambda>r.
              (let k2 = dk_modBlock r (setOption PREFETCH) k1;
                   (_, mshr) = getCompletionTime t_issue dram_latency prefetch_address (dk_prefetch_mshr k2)
               in dk_prefetchLines rest t_issue (k2\<lparr>dk_prefetch_mshr := mshr, dk_prefetches := dk_prefetches k2 + 1\<rparr>)))))
       else dk_prefetchLines rest t_issue k)"

definition dk_callPrefetcher :: "prefetcher \<Rightarrow> IntPtr \<Rightarrow> bool \<Rightarrow> bool \<Rightarrow> time \<Rightarrow> dram_cache \<Rightarrow> dram_cache result" where
  "dk_callPrefetcher pf train_address cache_hit prefetch_hit t_issue k =
     bindE (getNextAddress train_address INVALID_CORE_ID pf) (\<lambda>(prefetchList, pf').
       (let k1 = k\<lparr>dk_prefetcher := Some pf'\<rparr>
        in if \<not> cache_hit \<or> dk_prefetch_on_prefetch_hit k \<and> prefetch_hit then dk_prefetchLines prefetchList t_issue k1 else Inr k1))"

text \<open>A hit: the option of a prefetched line is cleared, and a prefetch still under way delays the access.\<close>

definition dk_prefetchHit :: "IntPtr \<Rightarrow> block_ref \<Rightarrow> time \<Rightarrow> time \<Rightarrow> dram_cache \<Rightarrow> time \<times> bool \<times> dram_cache" where
  "dk_prefetchHit address r now latency k =
     (if hasOption PREFETCH (block_at (dk_cache k) r)
      then (let k1 = dk_modBlock r (clearOption PREFETCH) (k\<lparr>dk_hits_prefetch := dk_hits_prefetch k + 1\<rparr>);
                t_completed = getTagCompletionTime address (dk_prefetch_mshr k)
            in if t_completed \<noteq> MaxTime \<and> t_completed > now + latency
               then (t_completed - now, True, k1\<lparr>dk_prefetch_mshr_delay := dk_prefetch_mshr_delay k1 + (t_completed - (now + latency))\<rparr>)
               else (latency, True, k1))
      else (latency, False, k))"

definition dk_hit ::
  "access_t \<Rightarrow> IntPtr \<Rightarrow> core_id_t \<Rightarrow> buffer \<Rightarrow> time \<Rightarrow> bool \<Rightarrow> block_ref \<Rightarrow> dram_cache \<Rightarrow> (time \<times> bool \<times> buffer \<times> dram_cache) result" where
  "dk_hit access address requester data_buf now perf r k =
     (let (latency, prefetch_hit, k1) = dk_prefetchHit address r now (dk_tags_access_time k) k
      in bindE (if access = LOAD then Inr (if data_buf = NULL then None else Some []) else buf_in (c_fault (dk_cache k1) \<noteq> None) data_buf) (\<lambda>buff.
         bindE (accessSingleLine address access buff (unat (dk_block_size k1)) True (dk_cache k1)) (\<lambda>(_, out, c).
         bindE (dk_accessDataArray perf requester (now + latency) (k1\<lparr>dk_cache := c\<rparr>)) (\<lambda>(delay, k2).
           Inr (latency + delay, prefetch_hit, (if access = LOAD then buf_out data_buf out else data_buf),
                if access = STORE then dk_modBlock r (\<lambda>b. b\<lparr>m_cstate := MODIFIED\<rparr>) k2 else k2)))))"

definition dk_miss :: "access_t \<Rightarrow> IntPtr \<Rightarrow> core_id_t \<Rightarrow> buffer \<Rightarrow> time \<Rightarrow> dram_cache \<Rightarrow> (time \<times> buffer \<times> dram_cache) result" where
  "dk_miss access address requester data_buf now k =
     bindE (if access = LOAD
            then bindE (mem_get address requester (now + dk_tags_access_time k) (dk_cntlr k)) (\<lambda>(dram_latency, _, out, m).
                   Inr (dk_tags_access_time k + dram_latency, buf_out data_buf out, k\<lparr>dk_cntlr := m\<rparr>))
            else Inr (dk_tags_access_time k, data_buf, k)) (\<lambda>(latency, buf, k1).
     bindE (dk_insertLine access address requester buf (now + latency) k1) (\<lambda>k2. Inr (latency, buf, k2)))"

definition dk_doAccess ::
  "access_t \<Rightarrow> IntPtr \<Rightarrow> core_id_t \<Rightarrow> buffer \<Rightarrow> time \<Rightarrow> bool \<Rightarrow> dram_cache \<Rightarrow> (bool \<times> time \<times> buffer \<times> dram_cache) result" where
  "dk_doAccess access address requester data_buf now perf k =
     bindE (peekSingleLine address (dk_cache k)) (\<lambda>block_info.
     check perf (Undefined ''null dereference'')
    (bindE (case block_info of
              Some r \<Rightarrow> dk_hit access address requester data_buf now perf r k
            | None \<Rightarrow> mapE (\<lambda>(latency, buf, k'). (latency, False, buf, k')) (dk_miss access address requester data_buf now k)) (\<lambda>(latency, prefetch_hit, buf, k1).
     bindE (case dk_prefetcher k1 of
              None \<Rightarrow> Inr k1
            | Some pf \<Rightarrow> dk_callPrefetcher pf address (block_info \<noteq> None) prefetch_hit (now + latency) k1) (\<lambda>k2.
       Inr (block_info \<noteq> None, latency, buf, k2)))))"

definition dk_getDataFromDram :: "IntPtr \<Rightarrow> core_id_t \<Rightarrow> time \<Rightarrow> dram_cache \<Rightarrow> (time \<times> where_t \<times> buffer \<times> dram_cache) result" where
  "dk_getDataFromDram address requester now k =
     bindE (dk_doAccess LOAD address requester (Buf None) now True k) (\<lambda>(hit, latency, buf, k').
       Inr (latency, if hit then WHERE_DRAM_CACHE else HIT_DRAM, buf,
            k'\<lparr>dk_read_misses := count_if (\<not> hit) (dk_read_misses k'), dk_reads := dk_reads k' + 1\<rparr>))"

definition dk_putDataToDram :: "IntPtr \<Rightarrow> core_id_t \<Rightarrow> buffer \<Rightarrow> time \<Rightarrow> dram_cache \<Rightarrow> (time \<times> where_t \<times> dram_cache) result" where
  "dk_putDataToDram address requester data_buf now k =
     bindE (dk_doAccess STORE address requester data_buf now False k) (\<lambda>(hit, latency, _, k').
       Inr (latency, if hit then WHERE_DRAM_CACHE else HIT_DRAM,
            k'\<lparr>dk_write_misses := count_if (\<not> hit) (dk_write_misses k'), dk_writes := dk_writes k' + 1\<rparr>))"

subsection \<open>The DRAM cache only serves reads that hit\<close>

lemma dk_insertLine_stops: "dk_insertLine access a r b t k \<noteq> Inr k'"
  by (auto simp: dk_insertLine_def dk_accessDataArray_def result_simps Let_def split_def)

lemma dk_miss_stops: "dk_miss access a r b t k \<noteq> Inr x"
  using dk_insertLine_stops by (auto simp: dk_miss_def result_simps)

lemma dk_write_stops: "\<exists>e. dk_putDataToDram a r b t k = Inl e"
  by (cases "peekSingleLine a (dk_cache k)") (simp_all add: dk_putDataToDram_def dk_doAccess_def check_def)

lemma dk_read_hits:
  assumes "dk_getDataFromDram a r t k = Inr (latency, hit_where, buf, k')"
  shows "\<exists>ref. peekSingleLine a (dk_cache k) = Inr (Some ref) \<and> hit_where = WHERE_DRAM_CACHE"
proof -
  from assms obtain p where p: "peekSingleLine a (dk_cache k) = Inr p" and w: "hit_where = (if p \<noteq> None then WHERE_DRAM_CACHE else HIT_DRAM)"
    by (auto simp: dk_getDataFromDram_def dk_doAccess_def result_simps)
  show ?thesis
  proof (cases p)
    case None
    with assms p dk_miss_stops show ?thesis by (auto simp: dk_getDataFromDram_def dk_doAccess_def result_simps)
  qed (use p w in simp)
qed

end
