(* ===== verification/Tlb.thy ===== *)
theory Tlb
  imports Cache
begin

text \<open>
  \<open>parametric_dram_directory_msi/tlb.cc\<close>: translation look-aside buffers. A TLB and the levels behind
  it are a list; the next level also takes the pages the level in front evicts.
\<close>

section \<open>State and operations\<close>

definition SIM_PAGE_SIZE :: UInt32 where
  "SIM_PAGE_SIZE = 2 ^ 12"

record tlb =
  tl_size :: UInt32
  tl_associativity :: UInt32
  tl_cache :: cache
  tl_access :: UInt64
  tl_miss :: UInt64

definition TLB_new :: "string \<Rightarrow> set_cfg \<Rightarrow> UInt32 \<Rightarrow> UInt32 \<Rightarrow> tlb result" where
  "TLB_new name cfg num_entries associativity =
     check (associativity \<noteq> 0) (Undefined ''division by zero'')
    (bindE (Cache_new (name @ ''_cache'') cfg (num_entries div associativity) associativity SIM_PAGE_SIZE ''lru'' PR_L1_CACHE HASH_MASK None None) (\<lambda>c.
     check ((num_entries div associativity) * associativity = num_entries) (Assert ''num_entries must be a multiple of the associativity'')
       (Inr \<lparr>tl_size = num_entries, tl_associativity = associativity, tl_cache = c, tl_access = 0, tl_miss = 0\<rparr>)))"

fun tlb_allocate :: "IntPtr \<Rightarrow> tlb list \<Rightarrow> tlb list result" where
  "tlb_allocate address [] = Inl (Undefined ''null dereference'')"
| "tlb_allocate address (t # next) =
     bindE (insertSingleLine address None (CacheBlockInfo_new PR_L1_CACHE (NOT 0) INVALID 0) False None (tl_cache t)) (\<lambda>(out, evict_addr, c).
       (let t' = t\<lparr>tl_cache := c\<rparr>
        in if ins_eviction out \<and> next \<noteq> [] then mapE (Cons t') (tlb_allocate evict_addr next) else Inr (t' # next)))"

fun tlb_lookup :: "IntPtr \<Rightarrow> bool \<Rightarrow> tlb list \<Rightarrow> (bool \<times> tlb list) result" where
  "tlb_lookup address allocate_on_miss [] = Inl (Undefined ''null dereference'')"
| "tlb_lookup address allocate_on_miss (t # next) =
     bindE (accessSingleLine address LOAD None 0 True (tl_cache t)) (\<lambda>(r, _, c).
       (let t1 = t\<lparr>tl_cache := c, tl_access := tl_access t + 1\<rparr>
        in if r \<noteq> None then Inr (True, t1 # next)
           else (let t2 = t1\<lparr>tl_miss := tl_miss t1 + 1\<rparr>
                 in bindE (if next \<noteq> [] then tlb_lookup address False next else Inr (False, [])) (\<lambda>(hit, next').
                    if allocate_on_miss then mapE (Pair hit) (tlb_allocate address (t2 # next')) else Inr (hit, t2 # next')))))"

section \<open>The first level\<close>

abbreviation pages :: "tlb \<Rightarrow> IntPtr set" where
  "pages t \<equiv> cached (tl_cache t)"

abbreviation page_of :: "tlb \<Rightarrow> IntPtr \<Rightarrow> IntPtr" where
  "page_of t a \<equiv> line_of (tl_cache t) a"

text \<open>A new TLB is empty and well formed.\<close>

lemma TLB_new_inv:
  assumes "TLB_new name cfg n ways = Inr t" "unat ways \<le> 256" "0 < cfg_qbs_attempts cfg" "1 \<le> cfg_srrip_bits cfg" "cfg_srrip_bits cfg \<le> 8"
  shows "cache_inv (tl_cache t)" "pages t = {}" "tl_access t = 0" "tl_miss t = 0"
proof -
  from assms(1) have ways: "0 < unat ways"
    and c: "Cache_new (name @ ''_cache'') cfg (n div ways) ways (2 ^ 12) ''lru'' PR_L1_CACHE HASH_MASK None None = Inr (tl_cache t)"
    and z: "tl_access t = 0" "tl_miss t = 0"
    by (auto simp: TLB_new_def SIM_PAGE_SIZE_def result_simps unat_gt_0)
  show "cache_inv (tl_cache t)" "pages t = {}" by (rule Cache_new_inv [OF c]; use assms(2-5) ways in simp)+
qed (use assms(1) in \<open>auto simp: TLB_new_def result_simps\<close>)

lemma allocate_first:
  assumes "tlb_allocate a (t # next) = Inr ts" "cache_inv (tl_cache t)" "page_of t a \<notin> pages t"
  obtains t' next' where "ts = t' # next'" "cache_inv (tl_cache t')" "page_of t a \<in> pages t'" "pages t' \<subseteq> insert (page_of t a) (pages t)"
    "tl_access t' = tl_access t" "tl_miss t' = tl_miss t"
proof -
  from assms(1) obtain out ev c next' where ins: "insertSingleLine a None (CacheBlockInfo_new PR_L1_CACHE (NOT 0) INVALID 0) False None (tl_cache t) = Inr (out, ev, c)"
    and ts: "ts = t\<lparr>tl_cache := c\<rparr> # next'"
    by (auto simp: result_simps Let_def split: if_splits)
  from insertSingleLine_cached [OF assms(2,3) ins] ts show ?thesis by (intro that [of "t\<lparr>tl_cache := c\<rparr>" next']) auto
qed

lemma lookup_first:
  assumes "tlb_lookup a True (t # next) = Inr (hit, ts)" "cache_inv (tl_cache t)"
  obtains t' next' where "ts = t' # next'" "cache_inv (tl_cache t')" "page_of t a \<in> pages t'" "pages t' \<subseteq> insert (page_of t a) (pages t)"
    "page_of t a \<in> pages t \<Longrightarrow> hit \<and> pages t' = pages t \<and> next' = next"
    "page_of t a \<notin> pages t \<Longrightarrow> hit \<longleftrightarrow> next \<noteq> [] \<and> (\<exists>n. tlb_lookup a False next = Inr (True, n))"
    "tl_access t' = tl_access t + 1" "tl_miss t' = tl_miss t + (if page_of t a \<in> pages t then 0 else 1)"
proof -
  from assms(1) obtain r out c where acc: "accessSingleLine a LOAD None 0 True (tl_cache t) = Inr (r, out, c)"
    and rest: "(let t1 = t\<lparr>tl_cache := c, tl_access := tl_access t + 1\<rparr>
        in if r \<noteq> None then Inr (True, t1 # next)
           else (let t2 = t1\<lparr>tl_miss := tl_miss t1 + 1\<rparr>
                 in bindE (if next \<noteq> [] then tlb_lookup a False next else Inr (False, [])) (\<lambda>(hit, next').
                    if True then mapE (Pair hit) (tlb_allocate a (t2 # next')) else Inr (hit, t2 # next')))) = Inr (hit, ts)"
    by (auto simp: result_simps)
  note c = accessSingleLine_cached [OF assms(2) acc]
  have base: "line_of c = line_of (tl_cache t)"
    using acc by (cases rule: accessSingleLine_cases) (simp_all add: line_of_def put_set_def fun_eq_iff)
  have hit: "r \<noteq> None \<longleftrightarrow> page_of t a \<in> pages t" using peekSingleLine_cached [OF assms(2), of a] c(3) by auto
  show ?thesis
  proof (cases "r = None")
    case False
    with rest hit c(1,2) show ?thesis by (intro that [of "t\<lparr>tl_cache := c, tl_access := tl_access t + 1\<rparr>" "next"]) auto
  next
    case True
    let ?t2 = "t\<lparr>tl_cache := c, tl_access := tl_access t + 1, tl_miss := tl_miss t + 1\<rparr>"
    from rest True obtain next1 where below: "(if next \<noteq> [] then tlb_lookup a False next else Inr (False, [])) = Inr (hit, next1)"
      and alloc: "tlb_allocate a (?t2 # next1) = Inr ts" by (auto simp: result_simps Let_def simp del: tlb_allocate.simps)
    have new: "page_of ?t2 a \<notin> pages ?t2" using True hit c(2) base by simp
    obtain t' next' where t': "ts = t' # next'" "cache_inv (tl_cache t')" "page_of ?t2 a \<in> pages t'" "pages t' \<subseteq> insert (page_of ?t2 a) (pages ?t2)"
      "tl_access t' = tl_access ?t2" "tl_miss t' = tl_miss ?t2"
      by (rule allocate_first [OF alloc _ new]) (use c(1) in simp)
    have "hit \<longleftrightarrow> next \<noteq> [] \<and> (\<exists>n. tlb_lookup a False next = Inr (True, n))" using below by (auto split: if_splits)
    with t' True hit base c(2) show ?thesis by (intro that [of t' next']) simp_all
  qed
qed

section \<open>The second level may hold a page twice\<close>

text \<open>
  A page that is found in the second level stays there and is copied to the first; when the first
  level evicts it, it is inserted into the second level again.
\<close>

fun tlb_lookups :: "IntPtr list \<Rightarrow> tlb list \<Rightarrow> tlb list result" where
  "tlb_lookups [] ts = Inr ts"
| "tlb_lookups (a # as) ts = bindE (tlb_lookup a True ts) (\<lambda>(_, ts'). tlb_lookups as ts')"

definition demo_tlb_cfg :: set_cfg where
  "demo_tlb_cfg = \<lparr>cfg_qbs_attempts = 1, cfg_srrip_bits = 3, cfg_time = 0\<rparr>"

lemma second_level_duplicates:
  "bindE (TLB_new ''dtlb'' demo_tlb_cfg 1 1) (\<lambda>d. bindE (TLB_new ''stlb'' demo_tlb_cfg 4 4) (\<lambda>st.
     bindE (tlb_lookups [0x1000, 0x2000, 0x1000, 0x2000] [d, st]) (\<lambda>ts.
       Inr (map (\<lambda>t. map m_tag (filter isValid (cs_blocks (c_sets (tl_cache t) ! 0)))) ts)))) = Inr [[2], [1, 2, 1]]"
  by code_simp

end
