(* ===== verification/ATD.thy ===== *)
theory ATD
  imports Cache Shmem
begin

text \<open>
  \<open>parametric_dram_directory_msi/cache_atd.cc\<close>: the auxiliary tag directory, which replays the
  accesses of one core on private copies of some sets of a shared cache and compares its hits with
  those of the shared cache.
\<close>

section \<open>State and operations\<close>

record atd =
  at_base :: cache_base
  at_sets :: "UInt32 \<Rightarrow> (cset \<times> policy) option"
  at_set_info :: "cache_set_info option"
  at_loads :: UInt64
  at_stores :: UInt64
  at_load_misses :: UInt64
  at_store_misses :: UInt64
  at_loads_constructive :: UInt64
  at_stores_constructive :: UInt64
  at_loads_destructive :: UInt64
  at_stores_destructive :: UInt64

datatype sampling =
    Sampling_Full
  | Sampling_Pow2
  | Sampling_Random UInt64 UInt64
  | Sampling_Other string

text \<open>The sets at \<open>2^n + 1\<close>: the 64-bit index doubles while it is below \<open>num_sets - 1\<close> (32 bits).\<close>

fun pow2_sets :: "nat \<Rightarrow> UInt64 \<Rightarrow> UInt32 \<Rightarrow> UInt32 list" where
  "pow2_sets 0 set_index num_sets = []"
| "pow2_sets (Suc k) set_index num_sets =
     (if set_index < ucast (num_sets - 1)
      then ucast (set_index + 1) # pow2_sets k (push_bit 1 set_index) num_sets
      else [])"

text \<open>
  The random choice: \<open>attempts_left\<close> is what the assertion on \<open>num_attempts\<close> still allows, so the
  loop ends with the wanted number of sets or with the assertion.
\<close>

fun random_sets :: "nat \<Rightarrow> UInt64 \<Rightarrow> UInt64 \<Rightarrow> UInt32 \<Rightarrow> UInt32 list \<Rightarrow> UInt32 list result" where
  "random_sets 0 state num_atds num_sets chosen =
     check (num_atds = 0) (Assert ''Cound not find unique ATD sets even after many attempts'') (Inr chosen)"
| "random_sets (Suc attempts_left) state num_atds num_sets chosen =
     (if num_atds = 0 then Inr chosen
      else (let (r, state') = rng_next state; set_index = (ucast (r mod ucast num_sets) :: UInt32)
            in if set_index \<in> set chosen
               then random_sets attempts_left state' num_atds num_sets chosen
               else random_sets attempts_left state' (num_atds - 1) num_sets (chosen @ [set_index])))"

definition sampled_sets :: "sampling \<Rightarrow> UInt32 \<Rightarrow> UInt32 list result" where
  "sampled_sets sampl num_sets =
     (case sampl of
        Sampling_Full \<Rightarrow> Inr (map of_nat [0..<unat num_sets])
      | Sampling_Pow2 \<Rightarrow> Inr (pow2_sets 64 1 num_sets)
      | Sampling_Random seed num_atds \<Rightarrow>
          check (num_atds \<le> ucast num_sets) (Assert ''Cannot sample more sets than the total number of sets'')
            (random_sets (unat (10 * num_sets) - 1) (rng_seed seed) num_atds num_sets [])
      | Sampling_Other s \<Rightarrow> Inl (Print_Error ''Invalid ATD sampling method''))"

definition ATD_new ::
  "bool \<Rightarrow> string \<Rightarrow> set_cfg \<Rightarrow> sampling \<Rightarrow> UInt32 \<Rightarrow> UInt32 \<Rightarrow> UInt32 \<Rightarrow> string \<Rightarrow> hash_t \<Rightarrow> atd result" where
  "ATD_new fault_injection name cfg sampl num_sets associativity cache_block_size repl_policy hash =
     bindE (CacheBase_new name num_sets associativity cache_block_size hash None) (\<lambda>base.
     bindE (parsePolicyType repl_policy) (\<lambda>ty.
     bindE (sampled_sets sampl num_sets) (\<lambda>idx.
     bindE (createCacheSet fault_injection repl_policy cfg PR_L1_CACHE (unat associativity) 0) (\<lambda>sp.
       Inr \<lparr>at_base = base, at_sets = (\<lambda>s. if s \<in> set idx then Some sp else None),
            at_set_info = createCacheSetInfo ty cfg (unat associativity),
            at_loads = 0, at_stores = 0, at_load_misses = 0, at_store_misses = 0,
            at_loads_constructive = 0, at_stores_constructive = 0,
            at_loads_destructive = 0, at_stores_destructive = 0\<rparr>))))"

definition isSampledSet :: "UInt32 \<Rightarrow> atd \<Rightarrow> bool" where
  "isSampledSet set_index a \<longleftrightarrow> at_sets a set_index \<noteq> None"

definition atd_touch :: "IntPtr \<Rightarrow> cset \<Rightarrow> policy_state \<Rightarrow> (bool \<times> cset \<times> policy_state) result" where
  "atd_touch tag cs st =
     (case find_index (cs_blocks cs) tag of
        Some line_index \<Rightarrow>
          mapE (\<lambda>st'. (True, cs, st')) (updateReplacementIndex (length (cs_blocks cs)) line_index st)
      | None \<Rightarrow>
          mapE (\<lambda>(out, cs', st'). (False, cs', st'))
            (cs_insert getReplacementIndex None cs (CacheBlockInfo_new PR_L1_CACHE tag MODIFIED 0) None
               (CacheBlockInfo_new PR_L1_CACHE (NOT 0) INVALID 0) False st))"

definition atd_count :: "mem_op_t \<Rightarrow> bool \<Rightarrow> bool \<Rightarrow> atd \<Rightarrow> atd" where
  "atd_count mem_op_type cache_hit atd_hit a =
     (let a1 = (if mem_op_type = WRITE
                then a\<lparr>at_stores := at_stores a + 1,
                       at_store_misses := (if \<not> atd_hit then at_store_misses a + 1 else at_store_misses a)\<rparr>
                else a\<lparr>at_loads := at_loads a + 1,
                       at_load_misses := (if \<not> atd_hit then at_load_misses a + 1 else at_load_misses a)\<rparr>)
      in if cache_hit \<and> \<not> atd_hit
         then (if mem_op_type = WRITE then a1\<lparr>at_stores_constructive := at_stores_constructive a1 + 1\<rparr>
               else a1\<lparr>at_loads_constructive := at_loads_constructive a1 + 1\<rparr>)
         else if \<not> cache_hit \<and> atd_hit
         then (if mem_op_type = WRITE then a1\<lparr>at_stores_destructive := at_stores_destructive a1 + 1\<rparr>
               else a1\<lparr>at_loads_destructive := at_loads_destructive a1 + 1\<rparr>)
         else a1)"

definition atd_access :: "mem_op_t \<Rightarrow> bool \<Rightarrow> IntPtr \<Rightarrow> atd \<Rightarrow> atd result" where
  "atd_access mem_op_type cache_hit address a =
     bindE (splitAddress (at_base a) address) (\<lambda>(tag, set_index).
       (case at_sets a set_index of
          None \<Rightarrow> Inr a
        | Some (cs, p) \<Rightarrow>
            bindE (atd_touch tag cs (p, at_set_info a)) (\<lambda>(atd_hit, cs', p', info').
              Inr (atd_count mem_op_type cache_hit atd_hit
                     (a\<lparr>at_sets := (at_sets a)(set_index \<mapsto> (cs', p')), at_set_info := info'\<rparr>)))))"

section \<open>Properties\<close>

text \<open>The random sampling returns the wanted number of different sets, all of them sets of the cache.\<close>

lemma random_sets_spec:
  assumes "random_sets k state n num_sets chosen = Inr idx" "distinct chosen" "\<forall>s \<in> set chosen. s < num_sets"
    and "0 < num_sets"
  shows "distinct idx \<and> length idx = length chosen + unat n \<and> (\<forall>s \<in> set idx. s < num_sets)"
  using assms
proof (induction k arbitrary: state n chosen)
  case 0
  then show ?case by (auto simp: result_simps)
next
  case (Suc k)
  obtain r state' where r: "rng_next state = (r, state')" by fastforce
  define s :: UInt32 where "s = ucast (r mod ucast num_sets)"
  have "unat (ucast num_sets :: UInt64) = unat num_sets" by (rule unat_ucast_up) simp
  then have "unat (r mod ucast num_sets) < unat num_sets"
    using Suc.prems(4) by (simp add: unat_mod word_less_nat_alt)
  moreover have "unat s \<le> unat (r mod ucast num_sets)"
    unfolding s_def unat_ucast_mod by (rule mod_less_eq_dividend)
  ultimately have s: "s < num_sets" by (simp add: word_less_nat_alt)
  show ?case
  proof (cases "n = 0")
    case False
    then have n: "unat n = Suc (unat (n - 1))" by (simp add: unat_minus_one unat_gt_0)
    from Suc.prems(1) False r consider
      "s \<in> set chosen" "random_sets k state' n num_sets chosen = Inr idx"
    | "s \<notin> set chosen" "random_sets k state' (n - 1) num_sets (chosen @ [s]) = Inr idx"
      by (auto simp: s_def [symmetric] Let_def split: if_splits)
    then show ?thesis
    proof cases
      case 1
      from Suc.IH [OF 1(2) Suc.prems(2-)] show ?thesis .
    next
      case 2
      from Suc.IH [OF 2(2)] Suc.prems(2-) 2(1) s n show ?thesis by simp
    qed
  qed (use Suc.prems in simp)
qed

text \<open>
  A tag directory set behaves like a set of the cache it shadows: the access hits exactly when the
  tag is resident, and afterwards the tag is resident.
\<close>

lemma atd_touch_spec:
  assumes "policy_inv (length (cs_blocks cs)) st" "unique_tags (cs_blocks cs)" "tag \<noteq> NOT 0"
    and "atd_touch tag cs st = Inr (hit, cs', st')"
  shows "hit \<longleftrightarrow> tag \<in> tags (cs_blocks cs)" "tag \<in> tags (cs_blocks cs')"
    "policy_inv (length (cs_blocks cs')) st'" "unique_tags (cs_blocks cs')"
    "length (cs_blocks cs') = length (cs_blocks cs)" "tags (cs_blocks cs') \<subseteq> insert tag (tags (cs_blocks cs))"
proof -
  let ?b = "CacheBlockInfo_new PR_L1_CACHE tag MODIFIED 0"
  have "(hit \<longleftrightarrow> tag \<in> tags (cs_blocks cs)) \<and> tag \<in> tags (cs_blocks cs') \<and>
    policy_inv (length (cs_blocks cs')) st' \<and> unique_tags (cs_blocks cs') \<and>
    length (cs_blocks cs') = length (cs_blocks cs) \<and> tags (cs_blocks cs') \<subseteq> insert tag (tags (cs_blocks cs))"
  proof (cases "find_index (cs_blocks cs) tag")
    case (Some i)
    with assms(4) have "hit" "cs' = cs" "updateReplacementIndex (length (cs_blocks cs)) i st = Inr st'"
      by (auto simp: atd_touch_def result_simps)
    with policy_upd_ok [OF assms(1), of i st'] find_index_Some [OF Some] find_index_tags [OF assms(3), of "cs_blocks cs"] Some assms(2)
    show ?thesis by auto
  next
    case None
    with assms(4) obtain out where "\<not> hit" and
      ins: "cs_insert getReplacementIndex None cs ?b None (CacheBlockInfo_new PR_L1_CACHE (NOT 0) INVALID 0) False st = Inr (out, cs', st')"
      by (auto simp: atd_touch_def result_simps)
    have fresh: "m_tag ?b \<notin> tags (cs_blocks cs)"
      using None find_index_tags [OF assms(3), of "cs_blocks cs"] by (simp add: CacheBlockInfo_new_def)
    have valid: "isValid ?b" using assms(3) by (simp add: isValid_def CacheBlockInfo_new_def)
    have "m_tag ?b = tag" by (simp add: CacheBlockInfo_new_def)
    with policy.insert_refines [OF assms(1,2) valid fresh ins] \<open>\<not> hit\<close> fresh show ?thesis by auto
  qed
  then show "hit \<longleftrightarrow> tag \<in> tags (cs_blocks cs)" "tag \<in> tags (cs_blocks cs')"
    "policy_inv (length (cs_blocks cs')) st'" "unique_tags (cs_blocks cs')"
    "length (cs_blocks cs') = length (cs_blocks cs)" "tags (cs_blocks cs') \<subseteq> insert tag (tags (cs_blocks cs))"
    by auto
qed

text \<open>The counters of one access: one access, at most one miss, and never both kinds of interference.\<close>

definition atd_total :: "atd \<Rightarrow> UInt64" where
  "atd_total a = at_loads a + at_stores a"

definition atd_misses :: "atd \<Rightarrow> UInt64" where
  "atd_misses a = at_load_misses a + at_store_misses a"

definition atd_constructive :: "atd \<Rightarrow> UInt64" where
  "atd_constructive a = at_loads_constructive a + at_stores_constructive a"

definition atd_destructive :: "atd \<Rightarrow> UInt64" where
  "atd_destructive a = at_loads_destructive a + at_stores_destructive a"

lemma atd_count_spec:
  "atd_total (atd_count op ch ah a) = atd_total a + 1"
  "atd_misses (atd_count op ch ah a) = atd_misses a + of_bool (\<not> ah)"
  "atd_constructive (atd_count op ch ah a) = atd_constructive a + of_bool (ch \<and> \<not> ah)"
  "atd_destructive (atd_count op ch ah a) = atd_destructive a + of_bool (\<not> ch \<and> ah)"
  "at_sets (atd_count op ch ah a) = at_sets a" "at_set_info (atd_count op ch ah a) = at_set_info a"
  "at_base (atd_count op ch ah a) = at_base a"
  by (simp_all add: atd_count_def atd_total_def atd_misses_def atd_constructive_def atd_destructive_def Let_def)

end
