(* ===== verification/Undo_Buffer.thy ===== *)
theory Undo_Buffer
  imports Cache_Block
begin

text \<open>
  \<open>cache/onchip_undo_buffer.cc\<close>: the bounded buffer of undo entries that PiCL keeps on chip. An
  entry says that the old value of a line was valid from the epoch of the block until the epoch of
  the write that replaced it.
\<close>

section \<open>State and operations\<close>

record undo_entry =
  ue_tag :: IntPtr
  ue_from :: UInt64
  ue_till :: UInt64

definition UndoEntry_new :: "UInt64 \<Rightarrow> block_info \<Rightarrow> undo_entry" where
  "UndoEntry_new system_eid b = \<lparr>ue_tag = m_tag b, ue_from = m_eid b, ue_till = system_eid\<rparr>"

record undo_buffer =
  ub_num_entries :: UInt32
  ub_entries :: "undo_entry list"

definition OnChipUndoBuffer_new :: "UInt32 \<Rightarrow> undo_buffer" where
  "OnChipUndoBuffer_new num_entries = \<lparr>ub_num_entries = num_entries, ub_entries = []\<rparr>"

definition isFull :: "undo_buffer \<Rightarrow> bool" where
  "isFull ub \<longleftrightarrow> length (ub_entries ub) = unat (ub_num_entries ub)"

definition ub_insertUndoEntry :: "UInt64 \<Rightarrow> block_info \<Rightarrow> undo_buffer \<Rightarrow> undo_buffer result" where
  "ub_insertUndoEntry system_eid b ub =
     check (length (ub_entries ub) < unat (ub_num_entries ub)) (Assert ''m_buffer.size() < m_num_entries'')
       (Inr (ub\<lparr>ub_entries := ub_entries ub @ [UndoEntry_new system_eid b]\<rparr>))"

text \<open>The copy loop collects the old entries in order, \<open>erase(remove_if(\<dots>))\<close> keeps the others in order.\<close>

fun collect_old :: "UInt64 \<Rightarrow> undo_entry list \<Rightarrow> undo_entry list" where
  "collect_old acs_eid [] = []"
| "collect_old acs_eid (e # es) =
     (if ue_till e \<le> acs_eid then e # collect_old acs_eid es else collect_old acs_eid es)"

fun remove_if_old :: "UInt64 \<Rightarrow> undo_entry list \<Rightarrow> undo_entry list" where
  "remove_if_old acs_eid [] = []"
| "remove_if_old acs_eid (e # es) =
     (if ue_till e \<le> acs_eid then remove_if_old acs_eid es else e # remove_if_old acs_eid es)"

definition removeOldEntries_eid :: "UInt64 \<Rightarrow> undo_buffer \<Rightarrow> undo_entry list \<times> undo_buffer" where
  "removeOldEntries_eid acs_eid ub =
     (collect_old acs_eid (ub_entries ub), ub\<lparr>ub_entries := remove_if_old acs_eid (ub_entries ub)\<rparr>)"

text \<open>\<open>std::min_element\<close>: the first entry with the least \<open>valid_till\<close>.\<close>

fun min_till :: "undo_entry \<Rightarrow> undo_entry list \<Rightarrow> undo_entry" where
  "min_till m [] = m"
| "min_till m (e # es) = (if ue_till e < ue_till m then min_till e es else min_till m es)"

definition removeOldEntries :: "undo_buffer \<Rightarrow> (undo_entry list \<times> undo_buffer) result" where
  "removeOldEntries ub =
     (case ub_entries ub of
        [] \<Rightarrow> Inl (Undefined ''end iterator dereferenced'')
      | e # es \<Rightarrow> Inr (removeOldEntries_eid (ue_till (min_till e es)) ub))"

definition removeAllEntries :: "undo_buffer \<Rightarrow> undo_entry list \<times> undo_buffer" where
  "removeAllEntries ub = (ub_entries ub, ub\<lparr>ub_entries := []\<rparr>)"

section \<open>The buffer is a bounded FIFO in epoch order\<close>

lemma collect_old_filter: "collect_old p es = filter (\<lambda>e. ue_till e \<le> p) es"
  by (induction es) auto

lemma remove_if_old_filter: "remove_if_old p es = filter (\<lambda>e. \<not> ue_till e \<le> p) es"
  by (induction es) auto

definition ub_inv :: "undo_buffer \<Rightarrow> bool" where
  "ub_inv ub \<longleftrightarrow>
     length (ub_entries ub) \<le> unat (ub_num_entries ub) \<and> 0 < ub_num_entries ub \<and>
     sorted (map ue_till (ub_entries ub))"

lemma collect_remove_sorted:
  "sorted (map ue_till es) \<Longrightarrow> collect_old p es @ remove_if_old p es = es"
proof (induction es)
  case (Cons e es)
  have none: "collect_old p es = []" "remove_if_old p es = es" if "\<not> ue_till e \<le> p"
    using Cons.prems that
    by (auto simp: collect_old_filter remove_if_old_filter filter_empty_conv filter_id_conv dest: order_trans)
  show ?case using Cons none by simp
qed simp

lemma removeOldEntries_split:
  assumes "ub_inv ub" "removeOldEntries_eid p ub = (old, ub')"
  shows "old @ ub_entries ub' = ub_entries ub" "ub_inv ub'" "ub_num_entries ub' = ub_num_entries ub"
    and "\<forall>e \<in> set old. ue_till e \<le> p" "\<forall>e \<in> set (ub_entries ub'). p < ue_till e"
proof -
  from assms show split: "old @ ub_entries ub' = ub_entries ub"
    by (auto simp: removeOldEntries_eid_def ub_inv_def collect_remove_sorted)
  show "ub_num_entries ub' = ub_num_entries ub" using assms(2) by (auto simp: removeOldEntries_eid_def)
  with assms(1) show "ub_inv ub'"
    unfolding ub_inv_def split [symmetric] by (auto simp: sorted_append)
  show "\<forall>e \<in> set old. ue_till e \<le> p" "\<forall>e \<in> set (ub_entries ub'). p < ue_till e"
    using assms(2) by (auto simp: removeOldEntries_eid_def collect_old_filter remove_if_old_filter)
qed

text \<open>In epoch order the least entry is the oldest one, so the parameterless version always frees a slot.\<close>

lemma min_till_sorted: "sorted (map ue_till (e # es)) \<Longrightarrow> min_till e es = e"
proof (induction es)
  case (Cons x es)
  then have "\<not> ue_till x < ue_till e" by auto
  with Cons show ?case by simp
qed simp

lemma removeOldEntries_progress:
  assumes "ub_inv ub" "ub_entries ub \<noteq> []"
  shows "\<exists>old ub'. removeOldEntries ub = Inr (old, ub') \<and> hd (ub_entries ub) \<in> set old \<and>
    old @ ub_entries ub' = ub_entries ub \<and> \<not> isFull ub' \<and> ub_inv ub'"
proof -
  obtain e es where es: "ub_entries ub = e # es" using assms(2) by (cases "ub_entries ub") auto
  obtain old ub' where r: "removeOldEntries_eid (ue_till e) ub = (old, ub')" by fastforce
  note split = removeOldEntries_split [OF assms(1) r]
  have "removeOldEntries ub = Inr (old, ub')"
    using assms(1) es r by (simp add: removeOldEntries_def min_till_sorted ub_inv_def)
  moreover have hd: "e \<in> set old" using r es by (auto simp: removeOldEntries_eid_def)
  moreover have "\<not> isFull ub'"
  proof -
    have "length (ub_entries ub') < length (ub_entries ub)"
      using hd split(1) [symmetric] by (cases old) auto
    with assms(1) split(3) show ?thesis by (simp add: isFull_def ub_inv_def)
  qed
  ultimately show ?thesis using split es by auto
qed

lemma ub_insert_ok:
  assumes "ub_inv ub" "\<not> isFull ub" "\<forall>e \<in> set (ub_entries ub). ue_till e \<le> eid"
  shows "\<exists>ub'. ub_insertUndoEntry eid b ub = Inr ub' \<and> ub_inv ub' \<and>
    ub_entries ub' = ub_entries ub @ [UndoEntry_new eid b] \<and> ub_num_entries ub' = ub_num_entries ub"
  using assms by (auto simp: ub_insertUndoEntry_def isFull_def ub_inv_def sorted_append UndoEntry_new_def)

text \<open>A full buffer refuses an insertion; a buffer of zero entries is always full.\<close>

lemma ub_insert_full: "isFull ub \<Longrightarrow> ub_insertUndoEntry eid b ub = Inl (Assert ''m_buffer.size() < m_num_entries'')"
  by (simp add: ub_insertUndoEntry_def isFull_def)

lemma zero_entries_full: "isFull (OnChipUndoBuffer_new 0)"
  by (simp add: isFull_def OnChipUndoBuffer_new_def)

end
