(* ===== verification/Epochs.thy ===== *)
theory Epochs
  imports Prelude
begin

text \<open>
  What drives PiCL: the hook registry (\<open>system/hooks_manager.cc\<close>), the epoch counters
  (\<open>system/epoch_manager.cc\<close>) and the instruction-based periodic hook of a core
  (\<open>Core::hookPeriodicInsCheck\<close>), which marks the epoch boundaries.
\<close>

section \<open>HooksManager\<close>

datatype hook_type_t =
    HOOK_PERIODIC | HOOK_PERIODIC_INS | HOOK_SIM_START | HOOK_SIM_END | HOOK_ROI_BEGIN | HOOK_ROI_END
  | HOOK_CPUFREQ_CHANGE | HOOK_MAGIC_MARKER | HOOK_MAGIC_USER | HOOK_INSTR_COUNT | HOOK_THREAD_CREATE
  | HOOK_THREAD_START | HOOK_THREAD_EXIT | HOOK_THREAD_STALL | HOOK_THREAD_RESUME | HOOK_THREAD_MIGRATE
  | HOOK_INSTRUMENT_MODE | HOOK_PRE_STAT_WRITE | HOOK_SYSCALL_ENTER | HOOK_SYSCALL_EXIT
  | HOOK_APPLICATION_START | HOOK_APPLICATION_EXIT | HOOK_APPLICATION_ROI_BEGIN | HOOK_APPLICATION_ROI_END
  | HOOK_SIGUSR1

datatype hook_order = ORDER_NOTIFY_PRE | ORDER_ACTION | ORDER_NOTIFY_POST

text \<open>
  A callback acts on the simulator state \<open>'s\<close>; \<open>hc_arg\<close> is the pointer it was registered with. The
  registry is not part of \<open>'s\<close>: callbacks that register further callbacks are not covered.
\<close>

record 's hook_callback =
  hc_func :: "UInt64 \<Rightarrow> UInt64 \<Rightarrow> 's \<Rightarrow> (SInt64 \<times> 's) result"
  hc_arg :: UInt64
  hc_order :: hook_order

type_synonym 's registry = "hook_type_t \<Rightarrow> 's hook_callback list"

definition registerHook ::
  "hook_type_t \<Rightarrow> (UInt64 \<Rightarrow> UInt64 \<Rightarrow> 's \<Rightarrow> (SInt64 \<times> 's) result) \<Rightarrow> UInt64 \<Rightarrow> hook_order \<Rightarrow> 's registry \<Rightarrow> 's registry" where
  "registerHook ty func argument order reg =
     reg(ty := reg ty @ [\<lparr>hc_func = func, hc_arg = argument, hc_order = order\<rparr>])"

text \<open>One pass over the callbacks: those of another order are skipped; \<open>Inr\<close> of the value ends the call.\<close>

fun call_pass :: "hook_order \<Rightarrow> UInt64 \<Rightarrow> bool \<Rightarrow> 's hook_callback list \<Rightarrow> 's \<Rightarrow> (SInt64 option \<times> 's) result" where
  "call_pass order arg expect_return [] s = Inr (None, s)"
| "call_pass order arg expect_return (cb # cbs) s =
     (if hc_order cb = order
      then bindE (hc_func cb (hc_arg cb) arg s) (\<lambda>(r, s').
             if expect_return \<and> r \<noteq> - 1 then Inr (Some r, s') else call_pass order arg expect_return cbs s')
      else call_pass order arg expect_return cbs s)"

fun call_orders :: "hook_order list \<Rightarrow> UInt64 \<Rightarrow> bool \<Rightarrow> 's hook_callback list \<Rightarrow> 's \<Rightarrow> (SInt64 \<times> 's) result" where
  "call_orders [] arg expect_return cbs s = Inr (- 1, s)"
| "call_orders (ord # ords) arg expect_return cbs s =
     bindE (call_pass ord arg expect_return cbs s) (\<lambda>(r, s').
       case r of Some v \<Rightarrow> Inr (v, s') | None \<Rightarrow> call_orders ords arg expect_return cbs s')"

definition callHooks :: "'s registry \<Rightarrow> hook_type_t \<Rightarrow> UInt64 \<Rightarrow> bool \<Rightarrow> 's \<Rightarrow> (SInt64 \<times> 's) result" where
  "callHooks reg ty arg expect_return s =
     call_orders [ORDER_NOTIFY_PRE, ORDER_ACTION, ORDER_NOTIFY_POST] arg expect_return (reg ty) s"

section \<open>EpochManager\<close>

record epoch_manager =
  m_system_eid :: UInt64
  m_persisted_eid :: UInt64

definition EpochManager_new :: epoch_manager where
  "EpochManager_new = \<lparr>m_system_eid = 1, m_persisted_eid = 0\<rparr>"

definition em_increment :: "UInt64 \<Rightarrow> epoch_manager \<Rightarrow> epoch_manager" where
  "em_increment simtime em = em\<lparr>m_system_eid := m_system_eid em + 1\<rparr>"

definition setPersistedEID :: "UInt64 \<Rightarrow> epoch_manager \<Rightarrow> epoch_manager" where
  "setPersistedEID persisted_eid em = em\<lparr>m_persisted_eid := persisted_eid\<rparr>"

section \<open>The periodic instruction hook of a core\<close>

text \<open>
  The counters of one core and the two global ones. \<open>fire\<close> is the call
  \<open>callHooks(HOOK_PERIODIC_INS, g_instructions_hpi_global)\<close>.
\<close>

record core_hpi =
  m_instructions :: UInt64
  m_instructions_hpi_callback :: UInt64
  m_instructions_hpi_last :: UInt64

record global_hpi =
  g_instructions_hpi_global :: UInt64
  g_instructions_hpi_global_callback :: UInt64

definition hookPeriodicInsCall ::
  "UInt64 \<Rightarrow> (UInt64 \<Rightarrow> 's \<Rightarrow> (SInt64 \<times> 's) result) \<Rightarrow> global_hpi \<Rightarrow> 's \<Rightarrow> (global_hpi \<times> 's) result" where
  "hookPeriodicInsCall ins_global fire g s =
     (if g_instructions_hpi_global g > g_instructions_hpi_global_callback g
      then bindE (fire (g_instructions_hpi_global g) s) (\<lambda>(r, s').
             Inr (g\<lparr>g_instructions_hpi_global_callback := g_instructions_hpi_global_callback g + ins_global\<rparr>, s'))
      else Inr (g, s))"

definition hookPeriodicInsCheck ::
  "UInt64 \<Rightarrow> UInt64 \<Rightarrow> (UInt64 \<Rightarrow> 's \<Rightarrow> (SInt64 \<times> 's) result) \<Rightarrow> core_hpi \<Rightarrow> global_hpi \<Rightarrow> 's
     \<Rightarrow> (core_hpi \<times> global_hpi \<times> 's) result" where
  "hookPeriodicInsCheck ins_per_core ins_global fire c g s =
     (if m_instructions c > m_instructions_hpi_callback c
      then (let g' = g\<lparr>g_instructions_hpi_global := g_instructions_hpi_global g + (m_instructions c - m_instructions_hpi_last c)\<rparr>;
                c' = c\<lparr>m_instructions_hpi_callback := m_instructions_hpi_callback c + ins_per_core,
                       m_instructions_hpi_last := m_instructions c\<rparr>
            in if g_instructions_hpi_global g' > g_instructions_hpi_global_callback g'
               then bindE (hookPeriodicInsCall ins_global fire g' s) (\<lambda>(g'', s'). Inr (c', g'', s'))
               else Inr (c', g', s))
      else Inr (c, g, s))"

section \<open>Order of the callbacks\<close>

text \<open>
  When no return value is expected, a call runs every registered callback once: first those that
  notify before, then the actions, then those that notify after, each group in registration order.
\<close>

fun run_all :: "UInt64 \<Rightarrow> 's hook_callback list \<Rightarrow> 's \<Rightarrow> 's result" where
  "run_all arg [] s = Inr s"
| "run_all arg (cb # cbs) s = bindE (hc_func cb (hc_arg cb) arg s) (\<lambda>(r, s'). run_all arg cbs s')"

lemma bindE_assoc: "bindE (bindE r f) g = bindE r (\<lambda>a. bindE (f a) g)"
  by (cases r) simp_all

lemma run_all_append: "run_all arg (xs @ ys) s = bindE (run_all arg xs s) (run_all arg ys)"
  by (induction xs arbitrary: s) (simp_all add: bindE_assoc split_def)

lemma call_pass_all:
  "call_pass ord arg False cbs s = mapE (Pair None) (run_all arg (filter (\<lambda>cb. hc_order cb = ord) cbs) s)"
proof (induction cbs arbitrary: s)
  case (Cons cb cbs)
  show ?case
    using Cons by (cases "hc_func cb (hc_arg cb) arg s") auto
qed simp

lemma call_orders_all:
  "call_orders ords arg False cbs s =
     mapE (Pair (- 1)) (run_all arg (concat (map (\<lambda>ord. filter (\<lambda>cb. hc_order cb = ord) cbs) ords)) s)"
proof (induction ords arbitrary: s)
  case (Cons ord ords)
  show ?case
    using Cons by (cases "run_all arg (filter (\<lambda>cb. hc_order cb = ord) cbs) s")
      (simp_all add: call_pass_all run_all_append)
qed simp

lemma callHooks_all:
  "callHooks reg ty arg False s =
     mapE (Pair (- 1)) (run_all arg (filter (\<lambda>cb. hc_order cb = ORDER_NOTIFY_PRE) (reg ty) @
        filter (\<lambda>cb. hc_order cb = ORDER_ACTION) (reg ty) @
        filter (\<lambda>cb. hc_order cb = ORDER_NOTIFY_POST) (reg ty)) s)"
  by (simp add: callHooks_def call_orders_all)

lemma callHooks_pre_only:
  assumes "\<forall>cb \<in> set (reg ty). hc_order cb = ORDER_NOTIFY_PRE"
  shows "callHooks reg ty arg False s = mapE (Pair (- 1)) (run_all arg (reg ty) s)"
proof -
  have "filter (\<lambda>cb. hc_order cb = ORDER_NOTIFY_PRE) (reg ty) = reg ty" using assms by (simp add: filter_id_conv)
  moreover have "filter (\<lambda>cb. hc_order cb = ORDER_ACTION) (reg ty) = []"
    "filter (\<lambda>cb. hc_order cb = ORDER_NOTIFY_POST) (reg ty) = []" using assms by (auto simp: filter_empty_conv)
  ultimately show ?thesis by (simp add: callHooks_all)
qed

section \<open>Epoch boundaries\<close>

text \<open>
  A boundary is signalled at most once per check, exactly when the instructions counted globally
  pass the threshold, and the threshold then moves on by the configured period; a check that does
  not signal leaves the simulator state alone. No instruction is counted twice: the global counter
  grows by the instructions since the last contribution of this core.
\<close>

lemma hookPeriodicInsCheck_spec:
  assumes "hookPeriodicInsCheck per glob fire c g s = Inr (c', g', s')"
  shows "if m_instructions c \<le> m_instructions_hpi_callback c then c' = c \<and> g' = g \<and> s' = s
    else let total = g_instructions_hpi_global g + (m_instructions c - m_instructions_hpi_last c)
      in m_instructions_hpi_last c' = m_instructions c \<and> g_instructions_hpi_global g' = total \<and>
         (if g_instructions_hpi_global_callback g < total
          then (\<exists>r. fire total s = Inr (r, s')) \<and>
               g_instructions_hpi_global_callback g' = g_instructions_hpi_global_callback g + glob
          else s' = s \<and> g_instructions_hpi_global_callback g' = g_instructions_hpi_global_callback g)"
  using assms by (auto simp: hookPeriodicInsCheck_def hookPeriodicInsCall_def Let_def result_simps not_less split: if_splits)

end
