(* ===== verification/Undo_Cntlr.thy ===== *)
theory Undo_Cntlr
  imports Undo_Buffer Epochs Cache_Base
begin

text \<open>
  \<open>parametric_dram_directory_msi/onchip_undo_buffer_cntlr.cc\<close>: the controller that fills the undo
  buffer, writes it to the log in NVM on overflow, at every epoch boundary and at the end of the
  application, and reports the persisted epoch to the epoch manager.
\<close>

section \<open>State\<close>

record undo_stats =
  st_log_writes :: UInt64
  st_avg_log_writes_by_epoch :: UInt64
  st_overflow :: UInt64

record undo_cntlr =
  uc_core_id_master :: core_id_t
  uc_home_lookup :: ahl
  uc_cache_block_size :: UInt32
  uc_buffer :: undo_buffer
  uc_acs_gap :: UInt32
  uc_stats :: undo_stats

text \<open>
  A log write as the memory manager sends it. The payload buffer is left uninitialised by the code,
  so the message carries no entry; \<open>lm_entry\<close> is the entry it was sent for.
\<close>

record log_msg =
  lm_sender :: mem_component
  lm_receiver :: mem_component
  lm_requester :: core_id_t
  lm_dest :: core_id_t
  lm_address :: IntPtr
  lm_length :: UInt32
  lm_entry :: undo_entry

record picl =
  pc_cntlr :: undo_cntlr
  pc_em :: epoch_manager
  pc_nvm :: "log_msg list"

definition DEFAULT_ACS_GAP :: UInt32 where
  "DEFAULT_ACS_GAP = 3"

definition DEFAULT_NUM_ENTRIES :: UInt32 where
  "DEFAULT_NUM_ENTRIES = 32"

text \<open>\<open>None\<close> is a configuration without the key; zero asks for an unlimited buffer.\<close>

definition getNumEntries :: "UInt32 option \<Rightarrow> UInt32" where
  "getNumEntries cfg =
     (case cfg of
        None \<Rightarrow> DEFAULT_NUM_ENTRIES
      | Some num_entries \<Rightarrow> if 0 < num_entries then num_entries else - 1)"

definition OnChipUndoBufferCntlr_new ::
  "UInt32 option \<Rightarrow> UInt32 option \<Rightarrow> core_id_t \<Rightarrow> ahl \<Rightarrow> UInt32 \<Rightarrow> undo_cntlr" where
  "OnChipUndoBufferCntlr_new cfg_entries cfg_acs_gap core_id_master home_lookup cache_block_size =
     \<lparr>uc_core_id_master = core_id_master, uc_home_lookup = home_lookup, uc_cache_block_size = cache_block_size,
      uc_buffer = OnChipUndoBuffer_new (getNumEntries cfg_entries),
      uc_acs_gap = (case cfg_acs_gap of None \<Rightarrow> DEFAULT_ACS_GAP | Some g \<Rightarrow> g),
      uc_stats = \<lparr>st_log_writes = 0, st_avg_log_writes_by_epoch = 0, st_overflow = 0\<rparr>\<rparr>"

section \<open>Operations\<close>

definition getLogAddress :: IntPtr where
  "getLogAddress = 2 ^ 32 - 1"

definition sendDataToNVM :: "undo_entry \<Rightarrow> picl \<Rightarrow> picl result" where
  "sendDataToNVM entry p =
     bindE (getHome (uc_home_lookup (pc_cntlr p)) getLogAddress) (\<lambda>home.
       Inr (p\<lparr>pc_nvm := pc_nvm p @
          [\<lparr>lm_sender = ONCHIP_UNDO_BUFFER, lm_receiver = DRAM, lm_requester = uc_core_id_master (pc_cntlr p),
            lm_dest = home, lm_address = getLogAddress, lm_length = uc_cache_block_size (pc_cntlr p),
            lm_entry = entry\<rparr>]\<rparr>))"

definition count_log_write :: "picl \<Rightarrow> picl" where
  "count_log_write p =
     (let c = pc_cntlr p; s = uc_stats c
      in p\<lparr>pc_cntlr := c\<lparr>uc_stats := s\<lparr>st_log_writes := st_log_writes s + 1\<rparr>\<rparr>\<rparr>)"

fun write_log :: "undo_entry list \<Rightarrow> picl \<Rightarrow> picl result" where
  "write_log [] p = Inr p"
| "write_log (e # es) p = bindE (sendDataToNVM e p) (\<lambda>p'. write_log es (count_log_write p'))"

definition set_buffer :: "undo_buffer \<Rightarrow> picl \<Rightarrow> picl" where
  "set_buffer ub p = p\<lparr>pc_cntlr := (pc_cntlr p)\<lparr>uc_buffer := ub\<rparr>\<rparr>"

definition flush_eid :: "UInt64 \<Rightarrow> picl \<Rightarrow> picl result" where
  "flush_eid persisted_eid p =
     (let ub = uc_buffer (pc_cntlr p);
          (log_entries, ub') = (if persisted_eid = m_system_eid (pc_em p) then removeAllEntries ub
                                else removeOldEntries_eid persisted_eid ub)
      in bindE (write_log log_entries (set_buffer ub' p)) (\<lambda>p'.
           Inr (p'\<lparr>pc_em := setPersistedEID persisted_eid (pc_em p')\<rparr>)))"

definition flush_all :: "picl \<Rightarrow> picl result" where
  "flush_all p =
     (let (log_entries, ub') = removeAllEntries (uc_buffer (pc_cntlr p))
      in write_log log_entries (set_buffer ub' p))"

text \<open>\<open>do flush(system_eid - gap--); while (isFull());\<close> with the 32-bit gap wrapping below zero.\<close>

partial_function (option) overflow_loop :: "UInt64 \<Rightarrow> UInt32 \<Rightarrow> picl \<Rightarrow> picl result option" where
  "overflow_loop system_eid gap p =
     (case flush_eid (system_eid - ucast gap) p of
        Inl e \<Rightarrow> Some (Inl e)
      | Inr p' \<Rightarrow>
          if isFull (uc_buffer (pc_cntlr p')) then overflow_loop system_eid (gap - 1) p'
          else Some (Inr p'))"

declare overflow_loop.simps [code]

definition count_overflow :: "picl \<Rightarrow> picl" where
  "count_overflow p =
     (let c = pc_cntlr p; s = uc_stats c
      in p\<lparr>pc_cntlr := c\<lparr>uc_stats := s\<lparr>st_overflow := st_overflow s + 1\<rparr>\<rparr>\<rparr>)"

definition make_room :: "UInt64 \<Rightarrow> picl \<Rightarrow> picl result" where
  "make_room system_eid p =
     (if isFull (uc_buffer (pc_cntlr p))
      then (let gap = (if ucast (uc_acs_gap (pc_cntlr p)) < system_eid then uc_acs_gap (pc_cntlr p) else ucast system_eid)
            in case overflow_loop system_eid gap (count_overflow p) of None \<Rightarrow> Inl Diverges | Some r \<Rightarrow> r)
      else Inr p)"

definition insertUndoEntry :: "UInt64 \<Rightarrow> block_info \<Rightarrow> picl \<Rightarrow> picl result" where
  "insertUndoEntry system_eid b p =
     bindE (make_room system_eid p) (\<lambda>p'.
     bindE (ub_insertUndoEntry system_eid b (uc_buffer (pc_cntlr p'))) (\<lambda>ub.
       Inr (set_buffer ub p')))"

definition asyncCacheScan :: "UInt64 \<Rightarrow> picl \<Rightarrow> picl result" where
  "asyncCacheScan eid p =
     (let system_eid = m_system_eid (pc_em p); gap = ucast (uc_acs_gap (pc_cntlr p))
      in if gap \<le> system_eid then flush_eid (system_eid - gap) p else Inr p)"

definition persistLastEpochs :: "UInt64 \<Rightarrow> picl \<Rightarrow> picl result" where
  "persistLastEpochs eid p =
     (let system_eid = m_system_eid (pc_em p)
      in bindE (flush_eid system_eid p) (\<lambda>p'.
         check (system_eid \<noteq> 0) (Undefined ''division by zero'')
           (let c = pc_cntlr p'; s = uc_stats c
            in Inr (p'\<lparr>pc_cntlr := c\<lparr>uc_stats := s\<lparr>st_avg_log_writes_by_epoch := st_log_writes s div system_eid\<rparr>\<rparr>\<rparr>))))"

text \<open>
  The PiCL part of \<open>CacheCntlr::writeCacheBlock\<close>: a write to a block of an older epoch first logs
  the block (in the L3 of a PiCL configuration) and then moves the block to the running epoch.
\<close>

definition stampEpoch :: "bool \<Rightarrow> block_info \<Rightarrow> picl \<Rightarrow> (block_info \<times> picl) result" where
  "stampEpoch logging b p =
     (let system_eid = m_system_eid (pc_em p)
      in if m_eid b \<noteq> system_eid
         then bindE (if logging then insertUndoEntry system_eid b p else Inr p) (\<lambda>p'.
                Inr (b\<lparr>m_eid := system_eid\<rparr>, p'))
         else Inr (b, p))"

text \<open>The epoch boundary on one controller: its scan is registered before the increment of the epoch.\<close>

definition picl_increment :: "UInt64 \<Rightarrow> picl \<Rightarrow> picl" where
  "picl_increment arg p = p\<lparr>pc_em := em_increment arg (pc_em p)\<rparr>"

definition picl_registry :: "picl registry" where
  "picl_registry =
     registerHook HOOK_PERIODIC_INS (\<lambda>this arg p. Inr (0, picl_increment arg p)) 0 ORDER_NOTIFY_PRE
      (registerHook HOOK_APPLICATION_EXIT (\<lambda>this arg p. mapE (Pair 0) (persistLastEpochs arg p)) 0 ORDER_NOTIFY_PRE
        (registerHook HOOK_PERIODIC_INS (\<lambda>this arg p. mapE (Pair 0) (asyncCacheScan arg p)) 0 ORDER_NOTIFY_PRE
          (\<lambda>ty. [])))"

definition epoch_boundary :: "UInt64 \<Rightarrow> picl \<Rightarrow> picl result" where
  "epoch_boundary icount p = mapE snd (callHooks picl_registry HOOK_PERIODIC_INS icount False p)"

definition application_exit :: "UInt64 \<Rightarrow> picl \<Rightarrow> picl result" where
  "application_exit app p = mapE snd (callHooks picl_registry HOOK_APPLICATION_EXIT app False p)"

section \<open>Durable and volatile entries\<close>

definition durable :: "picl \<Rightarrow> undo_entry list" where
  "durable p = map lm_entry (pc_nvm p)"

definition volatile :: "picl \<Rightarrow> undo_entry list" where
  "volatile p = ub_entries (uc_buffer (pc_cntlr p))"

definition picl_inv :: "picl \<Rightarrow> bool" where
  "picl_inv p \<longleftrightarrow>
     ub_inv (uc_buffer (pc_cntlr p)) \<and> wf_ahl (uc_home_lookup (pc_cntlr p)) \<and>
     (\<forall>e \<in> set (volatile p). ue_till e \<le> m_system_eid (pc_em p))"

definition log_writes :: "picl \<Rightarrow> UInt64" where
  "log_writes p = st_log_writes (uc_stats (pc_cntlr p))"

text \<open>What a flush leaves alone.\<close>

definition same_setup :: "picl \<Rightarrow> picl \<Rightarrow> bool" where
  "same_setup p p' \<longleftrightarrow>
     m_system_eid (pc_em p') = m_system_eid (pc_em p) \<and>
     uc_home_lookup (pc_cntlr p') = uc_home_lookup (pc_cntlr p) \<and>
     uc_acs_gap (pc_cntlr p') = uc_acs_gap (pc_cntlr p) \<and>
     ub_num_entries (uc_buffer (pc_cntlr p')) = ub_num_entries (uc_buffer (pc_cntlr p)) \<and>
     st_overflow (uc_stats (pc_cntlr p')) = st_overflow (uc_stats (pc_cntlr p))"

lemma same_setup_refl [simp]: "same_setup p p"
  by (simp add: same_setup_def)

lemma same_setup_trans: "same_setup p q \<Longrightarrow> same_setup q r \<Longrightarrow> same_setup p r"
  by (simp add: same_setup_def)

lemma write_log_ok:
  assumes "wf_ahl (uc_home_lookup (pc_cntlr p))"
  shows "\<exists>p'. write_log es p = Inr p' \<and> durable p' = durable p @ es \<and>
    log_writes p' = log_writes p + of_nat (length es) \<and>
    uc_buffer (pc_cntlr p') = uc_buffer (pc_cntlr p) \<and> pc_em p' = pc_em p \<and> same_setup p p'"
  using assms
proof (induction es arbitrary: p)
  case (Cons e es)
  obtain home where home: "getHome (uc_home_lookup (pc_cntlr p)) getLogAddress = Inr home"
    using getHome_total(1) [OF Cons.prems] by blast
  obtain q where q: "sendDataToNVM e p = Inr q" "durable q = durable p @ [e]" "pc_cntlr q = pc_cntlr p" "pc_em q = pc_em p"
    using home by (auto simp: sendDataToNVM_def durable_def)
  let ?q = "count_log_write q"
  have c: "durable ?q = durable p @ [e]" "uc_buffer (pc_cntlr ?q) = uc_buffer (pc_cntlr p)" "pc_em ?q = pc_em p"
    "log_writes ?q = log_writes p + 1" "same_setup p ?q" "uc_home_lookup (pc_cntlr ?q) = uc_home_lookup (pc_cntlr p)"
    using q by (simp_all add: count_log_write_def Let_def durable_def log_writes_def same_setup_def)
  from Cons.IH [of ?q] Cons.prems c(6) obtain p' where p': "write_log es ?q = Inr p'"
    "durable p' = durable ?q @ es" "log_writes p' = log_writes ?q + of_nat (length es)"
    "uc_buffer (pc_cntlr p') = uc_buffer (pc_cntlr ?q)" "pc_em p' = pc_em ?q" "same_setup ?q p'" by auto
  with q(1) c same_setup_trans [OF c(5) p'(6)] show ?case by (simp add: add.assoc)
qed (simp add: durable_def)

lemma set_buffer_simps [simp]:
  "durable (set_buffer ub p) = durable p" "uc_buffer (pc_cntlr (set_buffer ub p)) = ub"
  "log_writes (set_buffer ub p) = log_writes p" "pc_em (set_buffer ub p) = pc_em p"
  "uc_home_lookup (pc_cntlr (set_buffer ub p)) = uc_home_lookup (pc_cntlr p)"
  "volatile (set_buffer ub p) = ub_entries ub"
  "same_setup p (set_buffer ub p) \<longleftrightarrow> ub_num_entries ub = ub_num_entries (uc_buffer (pc_cntlr p))"
  by (auto simp: set_buffer_def durable_def log_writes_def volatile_def same_setup_def)

text \<open>
  A flush moves the entries of the epochs up to \<open>persisted_eid\<close> to the end of the log, in order,
  counts them, and keeps the others.
\<close>

lemma flush_eid_ok:
  assumes "picl_inv p"
  shows "\<exists>p' old. flush_eid pe p = Inr p' \<and> picl_inv p' \<and> same_setup p p' \<and>
    durable p' = durable p @ old \<and> volatile p = old @ volatile p' \<and>
    log_writes p' = log_writes p + of_nat (length old) \<and> m_persisted_eid (pc_em p') = pe \<and>
    (\<forall>e \<in> set (volatile p'). pe < ue_till e) \<and> (\<forall>e \<in> set old. ue_till e \<le> pe) \<and>
    (pe = m_system_eid (pc_em p) \<longrightarrow> volatile p' = [])"
proof -
  let ?ub = "uc_buffer (pc_cntlr p)"
  obtain old ub' where r: "(if pe = m_system_eid (pc_em p) then removeAllEntries ?ub else removeOldEntries_eid pe ?ub) = (old, ub')"
    by fastforce
  have inv: "ub_inv ?ub" "wf_ahl (uc_home_lookup (pc_cntlr p))" using assms by (simp_all add: picl_inv_def)
  have split: "old @ ub_entries ub' = ub_entries ?ub" "ub_inv ub'" "ub_num_entries ub' = ub_num_entries ?ub"
    "\<forall>e \<in> set old. ue_till e \<le> pe" "\<forall>e \<in> set (ub_entries ub'). pe < ue_till e"
    "pe = m_system_eid (pc_em p) \<Longrightarrow> ub_entries ub' = []"
  proof (atomize (full), cases "pe = m_system_eid (pc_em p)")
    case True
    with r have e: "old = ub_entries ?ub" "ub' = ?ub\<lparr>ub_entries := []\<rparr>" by (simp_all add: removeAllEntries_def)
    have "\<forall>e \<in> set old. ue_till e \<le> pe" using assms True by (simp add: picl_inv_def volatile_def e(1))
    with inv(1) show "(old @ ub_entries ub' = ub_entries ?ub \<and> ub_inv ub' \<and> ub_num_entries ub' = ub_num_entries ?ub) \<and>
      (\<forall>e \<in> set old. ue_till e \<le> pe) \<and> (\<forall>e \<in> set (ub_entries ub'). pe < ue_till e) \<and>
      (pe = m_system_eid (pc_em p) \<longrightarrow> ub_entries ub' = [])"
      by (simp add: e ub_inv_def)
  next
    case False
    with r have "removeOldEntries_eid pe ?ub = (old, ub')" by simp
    from removeOldEntries_split [OF inv(1) this] False
    show "(old @ ub_entries ub' = ub_entries ?ub \<and> ub_inv ub' \<and> ub_num_entries ub' = ub_num_entries ?ub) \<and>
      (\<forall>e \<in> set old. ue_till e \<le> pe) \<and> (\<forall>e \<in> set (ub_entries ub'). pe < ue_till e) \<and>
      (pe = m_system_eid (pc_em p) \<longrightarrow> ub_entries ub' = [])" by blast
  qed
  from write_log_ok [of "set_buffer ub' p" old] inv(2) obtain q where
    q: "write_log old (set_buffer ub' p) = Inr q" "durable q = durable p @ old"
      "log_writes q = log_writes p + of_nat (length old)" "uc_buffer (pc_cntlr q) = ub'" "pc_em q = pc_em p"
      "same_setup (set_buffer ub' p) q" by auto
  let ?p' = "q\<lparr>pc_em := setPersistedEID pe (pc_em q)\<rparr>"
  have "flush_eid pe p = Inr ?p'" using r q(1) by (simp add: flush_eid_def Let_def)
  moreover have "same_setup p ?p'"
    using q(4-6) split(3) by (simp add: same_setup_def setPersistedEID_def set_buffer_def)
  moreover have "volatile ?p' = ub_entries ub'" "durable ?p' = durable p @ old" "log_writes ?p' = log_writes q"
    "m_persisted_eid (pc_em ?p') = pe" "m_system_eid (pc_em ?p') = m_system_eid (pc_em p)"
    using q by (simp_all add: volatile_def durable_def log_writes_def setPersistedEID_def)
  moreover have "picl_inv ?p'"
  proof -
    have "set (ub_entries ub') \<subseteq> set (volatile p)" using split(1) [symmetric] by (simp add: volatile_def)
    moreover have "uc_home_lookup (pc_cntlr q) = uc_home_lookup (pc_cntlr p)"
      using q(6) by (simp add: same_setup_def)
    ultimately show ?thesis
      using assms split(2) q(4,5) by (auto simp: picl_inv_def volatile_def setPersistedEID_def)
  qed
  ultimately show ?thesis using split q(3) unfolding volatile_def by (intro exI [of _ ?p'] exI [of _ old]) auto
qed

text \<open>
  The overflow loop ends: at the latest when the gap reaches zero the whole buffer is written, and a
  buffer has at least one entry.
\<close>

lemma empty_not_full: "ub_inv ub \<Longrightarrow> ub_entries ub = [] \<Longrightarrow> \<not> isFull ub"
  by (simp add: isFull_def ub_inv_def word_gt_0 unat_gt_0)

lemma overflow_loop_ok:
  assumes "picl_inv p" "system_eid = m_system_eid (pc_em p)"
  shows "\<exists>p' old g. overflow_loop system_eid gap p = Some (Inr p') \<and> picl_inv p' \<and> same_setup p p' \<and>
    durable p' = durable p @ old \<and> volatile p = old @ volatile p' \<and>
    log_writes p' = log_writes p + of_nat (length old) \<and> \<not> isFull (uc_buffer (pc_cntlr p')) \<and>
    g \<le> gap \<and> m_persisted_eid (pc_em p') = system_eid - ucast g \<and>
    (\<forall>e \<in> set (volatile p'). m_persisted_eid (pc_em p') < ue_till e)"
  using assms
proof (induction "unat gap" arbitrary: gap p)
  case 0
  then have gap: "gap = 0" by (simp add: unat_eq_0)
  from flush_eid_ok [OF 0(2), of system_eid] obtain p' old where
    f: "flush_eid system_eid p = Inr p'" "picl_inv p'" "same_setup p p'" "durable p' = durable p @ old"
      "volatile p = old @ volatile p'" "log_writes p' = log_writes p + of_nat (length old)"
      "m_persisted_eid (pc_em p') = system_eid" "volatile p' = []" using 0(3) by auto
  have "\<not> isFull (uc_buffer (pc_cntlr p'))" using f(2,8) by (simp add: empty_not_full picl_inv_def volatile_def)
  then have "overflow_loop system_eid gap p = Some (Inr p')" using f(1) gap by (subst overflow_loop.simps) simp
  with f \<open>\<not> isFull (uc_buffer (pc_cntlr p'))\<close> gap show ?case by auto
next
  case (Suc k)
  from flush_eid_ok [OF Suc.prems(1), of "system_eid - ucast gap"] obtain p1 old where
    f: "flush_eid (system_eid - ucast gap) p = Inr p1" "picl_inv p1" "same_setup p p1" "durable p1 = durable p @ old"
      "volatile p = old @ volatile p1" "log_writes p1 = log_writes p + of_nat (length old)"
      "m_persisted_eid (pc_em p1) = system_eid - ucast gap"
      "\<forall>e \<in> set (volatile p1). system_eid - ucast gap < ue_till e" by auto
  show ?case
  proof (cases "isFull (uc_buffer (pc_cntlr p1))")
    case False
    then have "overflow_loop system_eid gap p = Some (Inr p1)" using f(1) by (subst overflow_loop.simps) simp
    with f False show ?thesis by auto
  next
    case True
    then have loop: "overflow_loop system_eid gap p = overflow_loop system_eid (gap - 1) p1"
      using f(1) by (subst overflow_loop.simps) simp
    have gap: "unat (gap - 1) = k" "gap - 1 \<le> gap"
      using Suc.hyps(2) by (simp_all add: unat_minus_one word_le_nat_alt unat_eq_0 [symmetric])
    have "system_eid = m_system_eid (pc_em p1)" using Suc.prems(2) f(3) by (simp add: same_setup_def)
    from Suc.hyps(1) [OF gap(1) [symmetric] f(2) this] obtain p' old' g where
      r: "overflow_loop system_eid (gap - 1) p1 = Some (Inr p')" "picl_inv p'" "same_setup p1 p'"
        "durable p' = durable p1 @ old'" "volatile p1 = old' @ volatile p'"
        "log_writes p' = log_writes p1 + of_nat (length old')" "\<not> isFull (uc_buffer (pc_cntlr p'))"
        "g \<le> gap - 1" "m_persisted_eid (pc_em p') = system_eid - ucast g"
        "\<forall>e \<in> set (volatile p'). m_persisted_eid (pc_em p') < ue_till e" by blast
    have "durable p' = durable p @ (old @ old')" "volatile p = (old @ old') @ volatile p'"
      "log_writes p' = log_writes p + of_nat (length (old @ old'))"
      using f(4-6) r(4-6) by (simp_all add: add.assoc)
    moreover have "g \<le> gap" using r(8) gap(2) by (rule order_trans)
    ultimately show ?thesis
      using loop r(1,2,7,9,10) same_setup_trans [OF f(3) r(3)] by metis
  qed
qed

lemma count_overflow_simps [simp]:
  "durable (count_overflow p) = durable p" "volatile (count_overflow p) = volatile p"
  "log_writes (count_overflow p) = log_writes p" "pc_em (count_overflow p) = pc_em p"
  "picl_inv (count_overflow p) = picl_inv p"
  "st_overflow (uc_stats (pc_cntlr (count_overflow p))) = st_overflow (uc_stats (pc_cntlr p)) + 1"
  by (auto simp: count_overflow_def Let_def durable_def volatile_def log_writes_def picl_inv_def)

lemma make_room_ok:
  assumes "picl_inv p"
  shows "\<exists>p' old. make_room (m_system_eid (pc_em p)) p = Inr p' \<and> picl_inv p' \<and>
    m_system_eid (pc_em p') = m_system_eid (pc_em p) \<and>
    durable p' = durable p @ old \<and> volatile p = old @ volatile p' \<and>
    log_writes p' = log_writes p + of_nat (length old) \<and> \<not> isFull (uc_buffer (pc_cntlr p')) \<and>
    (if isFull (uc_buffer (pc_cntlr p))
     then (\<forall>e \<in> set (volatile p'). m_persisted_eid (pc_em p') < ue_till e) \<and>
          st_overflow (uc_stats (pc_cntlr p')) = st_overflow (uc_stats (pc_cntlr p)) + 1
     else p' = p)"
proof (cases "isFull (uc_buffer (pc_cntlr p))")
  case False
  with assms show ?thesis by (simp add: make_room_def)
next
  case True
  define gap where "gap = (if ucast (uc_acs_gap (pc_cntlr p)) < m_system_eid (pc_em p) then uc_acs_gap (pc_cntlr p)
    else ucast (m_system_eid (pc_em p)))"
  from overflow_loop_ok [of "count_overflow p" "m_system_eid (pc_em p)" gap] assms obtain p' old where
    r: "overflow_loop (m_system_eid (pc_em p)) gap (count_overflow p) = Some (Inr p')" "picl_inv p'"
      "same_setup (count_overflow p) p'" "durable p' = durable p @ old" "volatile p = old @ volatile p'"
      "log_writes p' = log_writes p + of_nat (length old)" "\<not> isFull (uc_buffer (pc_cntlr p'))"
      "\<forall>e \<in> set (volatile p'). m_persisted_eid (pc_em p') < ue_till e" by auto
  from r(3) have "m_system_eid (pc_em p') = m_system_eid (pc_em p)"
    "st_overflow (uc_stats (pc_cntlr p')) = st_overflow (uc_stats (pc_cntlr p)) + 1"
    by (simp_all add: same_setup_def)
  with r True show ?thesis by (simp add: make_room_def gap_def [symmetric])
qed

lemma insertUndoEntry_ok:
  assumes "picl_inv p"
  shows "\<exists>p'. insertUndoEntry (m_system_eid (pc_em p)) b p = Inr p' \<and> picl_inv p' \<and>
    m_system_eid (pc_em p') = m_system_eid (pc_em p) \<and>
    durable p' @ volatile p' = durable p @ volatile p @ [UndoEntry_new (m_system_eid (pc_em p)) b] \<and>
    length (volatile p') \<le> unat (ub_num_entries (uc_buffer (pc_cntlr p'))) \<and>
    log_writes p' - log_writes p = of_nat (length (durable p') - length (durable p))"
proof -
  let ?sys = "m_system_eid (pc_em p)"
  from make_room_ok [OF assms] obtain q old where
    q: "make_room ?sys p = Inr q" "picl_inv q" "m_system_eid (pc_em q) = ?sys" "durable q = durable p @ old"
      "volatile p = old @ volatile q" "log_writes q = log_writes p + of_nat (length old)" "\<not> isFull (uc_buffer (pc_cntlr q))"
    by blast
  from q(2,3) have "ub_inv (uc_buffer (pc_cntlr q))" "\<forall>e \<in> set (ub_entries (uc_buffer (pc_cntlr q))). ue_till e \<le> ?sys"
    by (simp_all add: picl_inv_def volatile_def)
  from ub_insert_ok [OF this(1) q(7) this(2), of b] obtain ub where
    ub: "ub_insertUndoEntry ?sys b (uc_buffer (pc_cntlr q)) = Inr ub" "ub_inv ub"
      "ub_entries ub = volatile q @ [UndoEntry_new ?sys b]" by (auto simp: volatile_def)
  have "picl_inv (set_buffer ub q)"
    using q(2,3) ub(2,3) by (auto simp: picl_inv_def UndoEntry_new_def)
  with q ub show ?thesis
    by (auto simp: insertUndoEntry_def ub_inv_def)
qed

section \<open>The scan, the boundary and the exit\<close>

lemma asyncCacheScan_ok:
  assumes "picl_inv p"
  shows "\<exists>p' old. asyncCacheScan eid p = Inr p' \<and> picl_inv p' \<and> same_setup p p' \<and>
    durable p' = durable p @ old \<and> volatile p = old @ volatile p' \<and>
    (if ucast (uc_acs_gap (pc_cntlr p)) \<le> m_system_eid (pc_em p)
     then m_persisted_eid (pc_em p') = m_system_eid (pc_em p) - ucast (uc_acs_gap (pc_cntlr p)) \<and>
          (\<forall>e \<in> set (volatile p'). m_persisted_eid (pc_em p') < ue_till e)
     else p' = p)"
proof (cases "ucast (uc_acs_gap (pc_cntlr p)) \<le> m_system_eid (pc_em p)")
  case True
  from flush_eid_ok [OF assms, of "m_system_eid (pc_em p) - ucast (uc_acs_gap (pc_cntlr p))"] True show ?thesis
    by (auto simp: asyncCacheScan_def Let_def)
next
  case False
  with assms show ?thesis by (simp add: asyncCacheScan_def Let_def)
qed

lemma epoch_boundary_steps: "epoch_boundary icount p = mapE (picl_increment icount) (asyncCacheScan icount p)"
proof -
  have reg: "picl_registry HOOK_PERIODIC_INS =
    [\<lparr>hc_func = \<lambda>this arg p. mapE (Pair 0) (asyncCacheScan arg p), hc_arg = 0, hc_order = ORDER_NOTIFY_PRE\<rparr>,
     \<lparr>hc_func = \<lambda>this arg p. Inr (0, picl_increment arg p), hc_arg = 0, hc_order = ORDER_NOTIFY_PRE\<rparr>]"
    by (simp add: picl_registry_def registerHook_def)
  show ?thesis
    unfolding epoch_boundary_def
    by (subst callHooks_pre_only, simp add: reg) (cases "asyncCacheScan icount p"; simp add: reg)
qed

lemma application_exit_steps: "application_exit app p = persistLastEpochs app p"
proof -
  have reg: "picl_registry HOOK_APPLICATION_EXIT =
    [\<lparr>hc_func = \<lambda>this arg p. mapE (Pair 0) (persistLastEpochs arg p), hc_arg = 0, hc_order = ORDER_NOTIFY_PRE\<rparr>]"
    by (simp add: picl_registry_def registerHook_def)
  show ?thesis
    unfolding application_exit_def
    by (subst callHooks_pre_only, simp add: reg) (cases "persistLastEpochs app p"; simp add: reg)
qed

lemma picl_increment_simps [simp]:
  "durable (picl_increment arg p) = durable p" "volatile (picl_increment arg p) = volatile p"
  "m_system_eid (pc_em (picl_increment arg p)) = m_system_eid (pc_em p) + 1"
  "m_persisted_eid (pc_em (picl_increment arg p)) = m_persisted_eid (pc_em p)"
  "pc_cntlr (picl_increment arg p) = pc_cntlr p"
  by (simp_all add: picl_increment_def em_increment_def durable_def volatile_def)

lemma word_Suc_le:
  assumes "(x :: UInt64) \<le> y" "y \<noteq> - 1"
  shows "x \<le> y + 1"
proof -
  have "y < - 1" using assms(2) word_order.not_eq_extremum by blast
  from unat_add_1_less [OF this] assms(1) show ?thesis by (simp add: word_le_nat_alt)
qed

lemma epoch_boundary_ok:
  assumes "picl_inv p" "m_system_eid (pc_em p) \<noteq> - 1"
  shows "\<exists>p'. epoch_boundary icount p = Inr p' \<and> picl_inv p' \<and>
    m_system_eid (pc_em p') = m_system_eid (pc_em p) + 1 \<and>
    durable p' @ volatile p' = durable p @ volatile p \<and>
    (ucast (uc_acs_gap (pc_cntlr p)) \<le> m_system_eid (pc_em p) \<longrightarrow>
       m_persisted_eid (pc_em p') = m_system_eid (pc_em p) - ucast (uc_acs_gap (pc_cntlr p)) \<and>
       (\<forall>e \<in> set (volatile p'). m_persisted_eid (pc_em p') < ue_till e))"
proof -
  from asyncCacheScan_ok [OF assms(1), of icount] obtain q old where
    q: "asyncCacheScan icount p = Inr q" "picl_inv q" "same_setup p q" "durable q = durable p @ old"
      "volatile p = old @ volatile q"
      "ucast (uc_acs_gap (pc_cntlr p)) \<le> m_system_eid (pc_em p) \<Longrightarrow>
        m_persisted_eid (pc_em q) = m_system_eid (pc_em p) - ucast (uc_acs_gap (pc_cntlr p)) \<and>
        (\<forall>e \<in> set (volatile q). m_persisted_eid (pc_em q) < ue_till e)"
    by (auto split: if_splits)
  have "m_system_eid (pc_em q) = m_system_eid (pc_em p)" using q(3) by (simp add: same_setup_def)
  with q(2) assms(2) have "picl_inv (picl_increment icount q)" by (auto simp: picl_inv_def intro: word_Suc_le)
  with q \<open>m_system_eid (pc_em q) = m_system_eid (pc_em p)\<close> show ?thesis
    by (auto simp: epoch_boundary_steps)
qed

text \<open>At the end of the application nothing is left on chip and the current epoch is persisted.\<close>

lemma application_exit_ok:
  assumes "picl_inv p" "m_system_eid (pc_em p) \<noteq> 0"
  shows "\<exists>p'. application_exit app p = Inr p' \<and> picl_inv p' \<and> volatile p' = [] \<and>
    durable p' = durable p @ volatile p \<and> m_persisted_eid (pc_em p') = m_system_eid (pc_em p) \<and>
    log_writes p' = log_writes p + of_nat (length (volatile p))"
proof -
  from flush_eid_ok [OF assms(1), of "m_system_eid (pc_em p)"] obtain q where
    "flush_eid (m_system_eid (pc_em p)) p = Inr q" "picl_inv q" "volatile q = []" "durable q = durable p @ volatile p"
    "m_persisted_eid (pc_em q) = m_system_eid (pc_em p)" "log_writes q = log_writes p + of_nat (length (volatile p))"
    by auto
  with assms(2) show ?thesis
    by (auto simp: application_exit_steps persistLastEpochs_def Let_def picl_inv_def volatile_def durable_def log_writes_def)
qed

section \<open>The persisted epoch\<close>

text \<open>
  The promise of \<open>m_persisted_eid\<close>: no entry that ends at or before it is still on chip. Scans and
  flushes establish it; an insertion keeps it as long as it does not report the running epoch.
\<close>

definition persisted_ok :: "picl \<Rightarrow> bool" where
  "persisted_ok p \<longleftrightarrow> (\<forall>e \<in> set (volatile p). m_persisted_eid (pc_em p) < ue_till e)"

lemma insertUndoEntry_persisted:
  assumes "picl_inv p" "persisted_ok p" "insertUndoEntry (m_system_eid (pc_em p)) b p = Inr p'"
  shows "persisted_ok p' \<longleftrightarrow> m_persisted_eid (pc_em p') < m_system_eid (pc_em p')"
proof -
  let ?sys = "m_system_eid (pc_em p)"
  from make_room_ok [OF assms(1)] obtain q where
    q: "make_room ?sys p = Inr q" "m_system_eid (pc_em q) = ?sys"
      "(\<forall>e \<in> set (volatile q). m_persisted_eid (pc_em q) < ue_till e) \<or> q = p" by metis
  with assms(3) obtain ub where ub: "ub_insertUndoEntry ?sys b (uc_buffer (pc_cntlr q)) = Inr ub" "p' = set_buffer ub q"
    by (auto simp: insertUndoEntry_def result_simps)
  then have "volatile p' = volatile q @ [UndoEntry_new ?sys b]" "pc_em p' = pc_em q"
    by (auto simp: ub_insertUndoEntry_def result_simps volatile_def)
  with q assms(2) show ?thesis by (auto simp: persisted_ok_def UndoEntry_new_def)
qed

text \<open>
  A small instance: one slot, epoch 5 running, and the slot taken by a write of the same epoch. The
  next write overflows and the loop goes down to gap 0, so epoch 5 is reported as persisted while
  its new entry is still on chip; the scan at the boundary then takes the report back to epoch 2.
\<close>

definition demo_block :: "IntPtr \<Rightarrow> UInt64 \<Rightarrow> block_info" where
  "demo_block tag eid = (CacheBlockInfo_new SHARED_CACHE tag MODIFIED 0)\<lparr>m_eid := eid\<rparr>"

definition demo_home :: ahl where
  "demo_home = \<lparr>m_ahl_param = 6, m_ahl_mask = 63, m_core_list = [0], m_total_modules = 1, ahl_cache_block_size = 64\<rparr>"

definition demo_picl :: "UInt32 \<Rightarrow> UInt64 \<Rightarrow> undo_entry list \<Rightarrow> picl" where
  "demo_picl entries sys es =
     \<lparr>pc_cntlr = (OnChipUndoBufferCntlr_new (Some entries) None 0 demo_home 64)
        \<lparr>uc_buffer := \<lparr>ub_num_entries = entries, ub_entries = es\<rparr>\<rparr>,
      pc_em = \<lparr>m_system_eid = sys, m_persisted_eid = 0\<rparr>, pc_nvm = []\<rparr>"

lemma demo_picl_inv:
  "entries \<noteq> 0 \<Longrightarrow> length es \<le> unat entries \<Longrightarrow> sorted (map ue_till es) \<Longrightarrow> \<forall>e \<in> set es. ue_till e \<le> sys \<Longrightarrow>
   picl_inv (demo_picl entries sys es)"
  by (simp add: picl_inv_def demo_picl_def ub_inv_def volatile_def wf_ahl_def demo_home_def OnChipUndoBufferCntlr_new_def
      push_bit_eq_mult word_gt_0)

definition summary :: "picl result \<Rightarrow> (UInt64 \<times> UInt64 \<times> undo_entry list \<times> undo_entry list) result" where
  "summary r = mapE (\<lambda>p. (m_system_eid (pc_em p), m_persisted_eid (pc_em p), durable p, volatile p)) r"

lemma overflow_reports_running_epoch:
  "summary (insertUndoEntry 5 (demo_block 9 1) (demo_picl 1 5 [UndoEntry_new 5 (demo_block 8 2)])) =
     Inr (5, 5, [UndoEntry_new 5 (demo_block 8 2)], [UndoEntry_new 5 (demo_block 9 1)])"
  by code_simp

lemma boundary_takes_report_back:
  "summary (bindE (insertUndoEntry 5 (demo_block 9 1) (demo_picl 1 5 [UndoEntry_new 5 (demo_block 8 2)])) (epoch_boundary 0)) =
     Inr (6, 2, [UndoEntry_new 5 (demo_block 8 2)], [UndoEntry_new 5 (demo_block 9 1)])"
  by code_simp

end
