(* ===== verification/Action.thy ===== *)
theory Action
  imports Prelude
begin

text \<open>
  Sequencing of steps that read and change a state and may stop with an error: the shape of every
  method of the cache and directory controllers.
\<close>

type_synonym ('s, 'a) action = "'s \<Rightarrow> ('a \<times> 's) result"

definition retA :: "'a \<Rightarrow> ('s, 'a) action" where
  "retA a = (\<lambda>s. Inr (a, s))"

definition failA :: "sim_error \<Rightarrow> ('s, 'a) action" where
  "failA e = (\<lambda>s. Inl e)"

definition bindA :: "('s, 'a) action \<Rightarrow> ('a \<Rightarrow> ('s, 'b) action) \<Rightarrow> ('s, 'b) action" where
  "bindA m f = (\<lambda>s. bindE (m s) (\<lambda>(a, s'). f a s'))"

definition thenA :: "('s, 'a) action \<Rightarrow> ('s, 'b) action \<Rightarrow> ('s, 'b) action" where
  "thenA m n = bindA m (\<lambda>_. n)"

definition getA :: "('s \<Rightarrow> 'a) \<Rightarrow> ('s, 'a) action" where
  "getA f = (\<lambda>s. Inr (f s, s))"

definition modA :: "('s \<Rightarrow> 's) \<Rightarrow> ('s, unit) action" where
  "modA f = (\<lambda>s. Inr ((), f s))"

definition assertA :: "bool \<Rightarrow> sim_error \<Rightarrow> ('s, unit) action" where
  "assertA b e = (if b then retA () else failA e)"

definition liftA :: "'a result \<Rightarrow> ('s, 'a) action" where
  "liftA r = (\<lambda>s. mapE (\<lambda>a. (a, s)) r)"

definition whenA :: "bool \<Rightarrow> ('s, unit) action \<Rightarrow> ('s, unit) action" where
  "whenA b m = (if b then m else retA ())"

text \<open>Loops over a list with an accumulator.\<close>

fun foldA :: "('x \<Rightarrow> 'a \<Rightarrow> ('s, 'a) action) \<Rightarrow> 'x list \<Rightarrow> 'a \<Rightarrow> ('s, 'a) action" where
  "foldA f [] a = retA a"
| "foldA f (x # xs) a = bindA (f x a) (\<lambda>a'. foldA f xs a')"

named_theorems action_simps \<open>evaluation of sequenced actions\<close>

lemma retA_Inr [action_simps]: "retA a s = Inr r \<longleftrightarrow> r = (a, s)"
  by (auto simp: retA_def)

lemma failA_Inr [action_simps]: "failA e s = Inr r \<longleftrightarrow> False"
  by (simp add: failA_def)

lemma bindA_Inr [action_simps]: "bindA m f s = Inr r \<longleftrightarrow> (\<exists>a s'. m s = Inr (a, s') \<and> f a s' = Inr r)"
  by (auto simp: bindA_def bindE_eq_Inr)

lemma thenA_Inr [action_simps]: "thenA m n s = Inr r \<longleftrightarrow> (\<exists>a s'. m s = Inr (a, s') \<and> n s' = Inr r)"
  by (simp add: thenA_def bindA_Inr)

lemma getA_Inr [action_simps]: "getA f s = Inr r \<longleftrightarrow> r = (f s, s)"
  by (auto simp: getA_def)

lemma modA_Inr [action_simps]: "modA f s = Inr r \<longleftrightarrow> r = ((), f s)"
  by (auto simp: modA_def)

lemma assertA_Inr [action_simps]: "assertA b e s = Inr r \<longleftrightarrow> b \<and> r = ((), s)"
  by (auto simp: assertA_def retA_def failA_def)

lemma liftA_Inr [action_simps]: "liftA x s = Inr r \<longleftrightarrow> (\<exists>a. x = Inr a \<and> r = (a, s))"
  by (auto simp: liftA_def mapE_eq_Inr)

lemma whenA_Inr [action_simps]: "whenA b m s = Inr r \<longleftrightarrow> (if b then m s = Inr r else r = ((), s))"
  by (auto simp: whenA_def retA_def)

lemma bindA_E:
  assumes "bindA m f s = Inr (b, s')"
  obtains a t where "m s = Inr (a, t)" "f a t = Inr (b, s')"
  using assms by (auto simp: bindA_Inr)

lemma thenA_E:
  assumes "thenA m n s = Inr (b, s')"
  obtains a t where "m s = Inr (a, t)" "n t = Inr (b, s')"
  using assms by (auto simp: thenA_Inr)

text \<open>A property that every step of a loop keeps holds after the loop.\<close>

lemma foldA_inv:
  assumes "foldA f xs a s = Inr (b, s')" "P s"
    and "\<And>x a s c t. x \<in> set xs \<Longrightarrow> P s \<Longrightarrow> f x a s = Inr (c, t) \<Longrightarrow> P t"
  shows "P s'"
  using assms
proof (induction xs arbitrary: a s)
  case (Cons x xs)
  from Cons.prems(1) obtain c t where step: "f x a s = Inr (c, t)" "foldA f xs c t = Inr (b, s')"
    by (auto simp: action_simps)
  have "P t" using Cons.prems(3) [OF _ Cons.prems(2) step(1)] by simp
  from Cons.IH [OF step(2) this] Cons.prems(3) show ?case by (meson list.set_intros(2))
qed (simp add: action_simps)

section \<open>Properties kept by an action\<close>

text \<open>
  \<open>keeps P m\<close>: if \<open>P\<close> holds before and \<open>m\<close> returns, \<open>P\<close> holds after. The rules follow the
  structure of an action, so that a compound action is handled by its parts.
\<close>

definition keeps :: "('s \<Rightarrow> bool) \<Rightarrow> ('s, 'a) action \<Rightarrow> bool" where
  "keeps P m \<longleftrightarrow> (\<forall>s a s'. P s \<longrightarrow> m s = Inr (a, s') \<longrightarrow> P s')"

named_theorems keeps_rules \<open>rules for properties kept by actions\<close>

lemma keepsI: "(\<And>s a s'. P s \<Longrightarrow> m s = Inr (a, s') \<Longrightarrow> P s') \<Longrightarrow> keeps P m"
  by (auto simp: keeps_def)

lemma keepsD: "keeps P m \<Longrightarrow> m s = Inr (a, s') \<Longrightarrow> P s \<Longrightarrow> P s'"
  by (auto simp: keeps_def)

lemma keeps_retA [keeps_rules]: "keeps P (retA a)"
  by (simp add: keeps_def action_simps)

lemma keeps_failA [keeps_rules]: "keeps P (failA e)"
  by (simp add: keeps_def action_simps)

lemma keeps_getA [keeps_rules]: "keeps P (getA f)"
  by (simp add: keeps_def action_simps)

lemma keeps_assertA [keeps_rules]: "keeps P (assertA b e)"
  by (simp add: keeps_def action_simps)

lemma keeps_liftA [keeps_rules]: "keeps P (liftA r)"
  by (auto simp: keeps_def action_simps)

lemma keeps_bindA [keeps_rules]: "keeps P m \<Longrightarrow> (\<And>a. keeps P (f a)) \<Longrightarrow> keeps P (bindA m f)"
  unfolding keeps_def bindA_Inr by blast

lemma keeps_thenA [keeps_rules]: "keeps P m \<Longrightarrow> keeps P n \<Longrightarrow> keeps P (thenA m n)"
  unfolding keeps_def thenA_Inr by blast

lemma keeps_whenA [keeps_rules]: "(b \<Longrightarrow> keeps P m) \<Longrightarrow> keeps P (whenA b m)"
  by (simp add: keeps_def action_simps)

lemma keeps_if [keeps_rules]: "(b \<Longrightarrow> keeps P m) \<Longrightarrow> (\<not> b \<Longrightarrow> keeps P n) \<Longrightarrow> keeps P (if b then m else n)"
  by simp

lemma keeps_option [keeps_rules]:
  "keeps P m \<Longrightarrow> (\<And>x. keeps P (f x)) \<Longrightarrow> keeps P (case p of None \<Rightarrow> m | Some x \<Rightarrow> f x)"
  by (cases p) simp_all

lemma keeps_prod [keeps_rules]: "(\<And>a b. keeps P (f a b)) \<Longrightarrow> keeps P (case_prod f p)"
  by (cases p) simp

lemma keeps_Let [keeps_rules]: "keeps P (f x) \<Longrightarrow> keeps P (Let x f)"
  by simp

lemma keeps_foldA [keeps_rules]: "(\<And>x a. keeps P (f x a)) \<Longrightarrow> keeps P (foldA f xs a)"
  unfolding keeps_def by (blast intro: foldA_inv)

text \<open>An action whose bound is read from the state.\<close>

lemma keeps_bound: "(\<And>n. keeps P (f n)) \<Longrightarrow> keeps P (\<lambda>s. f (g s) s)"
  unfolding keeps_def by blast

text \<open>Every element of the list has its turn, in a state the earlier turns lead to.\<close>

lemma foldA_visits:
  assumes "foldA f xs a s = Inr (b, s')" "x \<in> set xs" "P s" "\<And>y c. keeps P (f y c)"
  shows "\<exists>c u d u' ys. P u \<and> f x c u = Inr (d, u') \<and> foldA f ys d u' = Inr (b, s')"
  using assms(1-3)
proof (induction xs arbitrary: a s)
  case (Cons y ys)
  from Cons.prems(1) obtain c t where step: "f y a s = Inr (c, t)" "foldA f ys c t = Inr (b, s')"
    by (auto simp: action_simps)
  show ?case
  proof (cases "x = y")
    case True
    with Cons.prems(3) step show ?thesis by blast
  next
    case False
    with Cons.prems(2) have "x \<in> set ys" by simp
    from Cons.IH [OF step(2) this keepsD [OF assms(4) step(1) Cons.prems(3)]] show ?thesis by blast
  qed
qed simp

section \<open>Actions that agree on some states\<close>

definition agree :: "('s \<Rightarrow> bool) \<Rightarrow> ('s, 'a) action \<Rightarrow> ('s, 'a) action \<Rightarrow> bool" where
  "agree P m n \<longleftrightarrow> (\<forall>s. P s \<longrightarrow> m s = n s)"

lemma agree_refl [simp]: "agree P m m"
  by (simp add: agree_def)

lemma agree_bindA:
  assumes "agree P m n" "keeps P m" "\<And>a s s'. P s \<Longrightarrow> m s = Inr (a, s') \<Longrightarrow> agree P (f a) (g a)"
  shows "agree P (bindA m f) (bindA n g)"
  unfolding agree_def
proof (intro allI impI)
  fix s assume s: "P s"
  then have n: "n s = m s" using assms(1) by (simp add: agree_def)
  show "bindA m f s = bindA n g s"
  proof (cases "m s")
    case (Inr r)
    obtain a s' where r: "r = (a, s')" by (cases r)
    with Inr have "P s'" "agree P (f a) (g a)" using keepsD [OF assms(2) _ s] assms(3) [OF s] by simp_all
    then show ?thesis by (simp add: bindA_def n Inr r agree_def)
  qed (simp add: bindA_def n)
qed

lemma agree_thenA: "agree P m n \<Longrightarrow> keeps P m \<Longrightarrow> agree P f g \<Longrightarrow> agree P (thenA m f) (thenA n g)"
  unfolding thenA_def by (rule agree_bindA)

lemma agree_case:
  "agree P m n \<Longrightarrow> (\<And>x. p = Some x \<Longrightarrow> agree P (f x) (g x)) \<Longrightarrow>
   agree P (case p of None \<Rightarrow> m | Some x \<Rightarrow> f x) (case p of None \<Rightarrow> n | Some x \<Rightarrow> g x)"
  by (cases p) simp_all

lemma agree_prod: "(\<And>a b. p = (a, b) \<Longrightarrow> agree P (f a b) (g a b)) \<Longrightarrow> agree P (case_prod f p) (case_prod g p)"
  by (cases p) simp

lemma agree_if: "(b \<Longrightarrow> agree P m n) \<Longrightarrow> (\<not> b \<Longrightarrow> agree P f g) \<Longrightarrow> agree P (if b then m else f) (if b then n else g)"
  by simp

lemma agree_whenA: "(b \<Longrightarrow> agree P m n) \<Longrightarrow> agree P (whenA b m) (whenA b n)"
  by (auto simp: agree_def whenA_def)

lemma agree_foldA:
  assumes "\<And>x a. x \<in> set xs \<Longrightarrow> agree P (f x a) (g x a)" "\<And>x a. keeps P (f x a)"
  shows "agree P (foldA f xs a) (foldA g xs a)"
  using assms(1) by (induction xs arbitrary: a) (simp_all add: agree_bindA assms(2))

end
