(* ===== verification/Hierarchy.thy ===== *)
theory Hierarchy
  imports ATD Prefetchers Undo_Cntlr Action
begin

text \<open>
  The object graph of \<open>parametric_dram_directory_msi/cache_cntlr.{h,cc}\<close> and the operations of a
  cache controller on its own cache. Objects that others point to live in arrays of the state, and
  a pointer is an index: \<open>h_cntlrs\<close> holds the \<open>CacheCntlr\<close> objects (one per core and level),
  \<open>h_masters\<close> the \<open>CacheMasterCntlr\<close> objects (one per cache), \<open>h_undo\<close> the undo buffer controllers.
  Locks and semaphores order the steps of different threads and have no state here; the
  bookkeeping of \<open>ShmemPerf\<close> only feeds statistics and is left out. The sharing vectors are
  compiled out in the sources (\<open>ENABLE_TRACK_SHARING_PREVCACHES\<close>), so that
  \<open>notifyPrevLevelInsert\<close> and \<open>notifyPrevLevelEvict\<close> have empty bodies.
\<close>

section \<open>Objects\<close>

datatype reason_t = CORE_RD | CORE_WR | CORE_RDEX | UPGRADE | EVICT | BACK_INVAL | COHERENCY

datatype prefetch_type_t = NONE | OWN | OTHER

text \<open>The members of the \<open>stats\<close> struct; arrays are indexed members.\<close>

datatype stat =
    S_loads | S_stores | S_load_misses | S_store_misses | S_load_overlapping_misses | S_store_overlapping_misses
  | S_loads_state cstate_t | S_stores_state cstate_t | S_load_misses_state cstate_t | S_store_misses_state cstate_t
  | S_loads_where where_t | S_stores_where where_t
  | S_loads_prefetch | S_stores_prefetch | S_hits_prefetch | S_evict_prefetch | S_invalidate_prefetch
  | S_evict cstate_t | S_backinval cstate_t | S_hits_warmup | S_evict_warmup | S_invalidate_warmup
  | S_total_latency | S_snoop_latency | S_qbs_query_latency | S_mshr_latency | S_prefetches
  | S_coherency_downgrades | S_coherency_upgrades | S_coherency_invalidates | S_coherency_writebacks

record cache_cntlr =
  cc_mem_component :: mem_component
  cc_core_id :: core_id_t
  cc_core_id_master :: core_id_t
  cc_master :: nat
  cc_next :: "nat option"
  cc_undo :: "nat option"
  cc_perfect :: bool
  cc_passthrough :: bool
  cc_coherent :: bool
  cc_writethrough :: bool
  cc_l1_mshr :: bool
  cc_prefetch_on_prefetch_hit :: bool
  cc_train_prefetcher_on_hit :: bool
  cc_prefetch_delay :: bool
  cc_block_size :: UInt32
  cc_shared_cores :: UInt32
  cc_writeback_time :: time
  cc_next_read_delay :: "time option"
  cc_perf_model :: cache_perf_model
  cc_home :: ahl
  cc_last_remote_hit_where :: where_t
  cc_picl_enabled :: bool
  cc_acs_gap :: UInt32
  cc_stats :: "stat \<Rightarrow> UInt64"

record waiter =
  w_exclusive :: bool
  w_isPrefetch :: bool
  w_cntlr :: nat
  w_t_issue :: time

type_synonym mshr = "(IntPtr \<times> time \<times> time) list"

record cache_master =
  cm_cache :: cache
  cm_prev :: "nat list"
  cm_prefetcher :: "prefetcher option"
  cm_dram :: bool
  cm_dram_writebacks :: "contention option"
  cm_mshr :: mshr
  cm_l1_mshr :: contention
  cm_next_read :: contention
  cm_waiters :: "waiter req_queue"
  cm_evicting :: "(IntPtr \<times> buffer) option"
  cm_atds :: "atd list"
  cm_prefetch_list :: "IntPtr list"
  cm_prefetch_next :: time

record hier =
  h_cntlrs :: "cache_cntlr list"
  h_masters :: "cache_master list"
  h_undo :: "undo_cntlr list"
  h_em :: epoch_manager
  h_nvm :: "log_msg list"
  h_net :: "packet list"
  h_clock :: clocks
  h_cache_only :: bool
  h_efficiency :: "(core_id_t \<Rightarrow> IntPtr \<Rightarrow> UInt64) option"
  h_dram :: dram

type_synonym 'a hact = "(hier, 'a) action"

section \<open>Dereferencing\<close>

definition getC :: "nat \<Rightarrow> cache_cntlr hact" where
  "getC i = (\<lambda>s. mapE (\<lambda>c. (c, s)) (at (h_cntlrs s) i))"

definition getM :: "nat \<Rightarrow> cache_master hact" where
  "getM i = bindA (getC i) (\<lambda>c s. mapE (\<lambda>m. (m, s)) (at (h_masters s) (cc_master c)))"

definition modC :: "nat \<Rightarrow> (cache_cntlr \<Rightarrow> cache_cntlr) \<Rightarrow> unit hact" where
  "modC i f = bindA (getC i) (\<lambda>c. modA (\<lambda>s. s\<lparr>h_cntlrs := (h_cntlrs s)[i := f c]\<rparr>))"

definition modM :: "nat \<Rightarrow> (cache_master \<Rightarrow> cache_master) \<Rightarrow> unit hact" where
  "modM i f =
     bindA (getC i) (\<lambda>c.
     bindA (getM i) (\<lambda>m. modA (\<lambda>s. s\<lparr>h_masters := (h_masters s)[cc_master c := f m]\<rparr>)))"

text \<open>A call on the cache of controller \<open>i\<close>.\<close>

definition onCache :: "nat \<Rightarrow> (cache \<Rightarrow> ('a \<times> cache) result) \<Rightarrow> 'a hact" where
  "onCache i f =
     bindA (getM i) (\<lambda>m.
     bindA (liftA (f (cm_cache m))) (\<lambda>(a, c). thenA (modM i (\<lambda>m. m\<lparr>cm_cache := c\<rparr>)) (retA a)))"

definition deref :: "'a option \<Rightarrow> 'a hact" where
  "deref p = (case p of None \<Rightarrow> failA (Undefined ''null dereference'') | Some a \<Rightarrow> retA a)"

definition block :: "nat \<Rightarrow> block_ref \<Rightarrow> block_info hact" where
  "block i r = bindA (getM i) (\<lambda>m. retA (block_at (cm_cache m) r))"

definition modBlock :: "nat \<Rightarrow> block_ref \<Rightarrow> (block_info \<Rightarrow> block_info) \<Rightarrow> unit hact" where
  "modBlock i r f = modM i (\<lambda>m. m\<lparr>cm_cache := set_block r (f (block_at (cm_cache m) r)) (cm_cache m)\<rparr>)"

definition addStat :: "nat \<Rightarrow> stat \<Rightarrow> UInt64 \<Rightarrow> unit hact" where
  "addStat i k n = modC i (\<lambda>c. c\<lparr>cc_stats := (cc_stats c)(k := cc_stats c k + n)\<rparr>)"

abbreviation count :: "nat \<Rightarrow> stat \<Rightarrow> unit hact" where
  "count i k \<equiv> addStat i k 1"

definition isMasterCache :: "cache_cntlr \<Rightarrow> bool" where
  "isMasterCache c \<longleftrightarrow> cc_core_id c = cc_core_id_master c"

definition isShared :: "core_id_t \<Rightarrow> cache_cntlr \<Rightarrow> bool" where
  "isShared core_id c \<longleftrightarrow> core_id - core_id mod cc_shared_cores c = cc_core_id_master c"

text \<open>\<open>setPrevCacheCntlrs\<close>: only master nodes are linked.\<close>

definition setPrevCacheCntlrs :: "nat \<Rightarrow> nat list \<Rightarrow> unit hact" where
  "setPrevCacheCntlrs i prevs =
     foldA (\<lambda>p _. bindA (getC p) (\<lambda>c.
              whenA (isMasterCache c) (modM i (\<lambda>m. m\<lparr>cm_prev := cm_prev m @ [p]\<rparr>)))) prevs ()"

definition setDRAMDirectAccess :: "nat \<Rightarrow> nat \<Rightarrow> unit hact" where
  "setDRAMDirectAccess i num_outstanding =
     modM i (\<lambda>m. m\<lparr>cm_dram := True, cm_dram_writebacks := Some (ContentionModel_new num_outstanding)\<rparr>)"

section \<open>Time\<close>

definition now :: "nat \<Rightarrow> thread_t \<Rightarrow> time hact" where
  "now i th = bindA (getC i) (\<lambda>c. getA (\<lambda>s. h_clock s (cc_core_id c) th))"

definition setTime :: "nat \<Rightarrow> thread_t \<Rightarrow> time \<Rightarrow> unit hact" where
  "setTime i th t = bindA (getC i) (\<lambda>c. modA (\<lambda>s. s\<lparr>h_clock := set_clock (cc_core_id c) th t (h_clock s)\<rparr>))"

definition incrElapsedTime :: "nat \<Rightarrow> time \<Rightarrow> thread_t \<Rightarrow> unit hact" where
  "incrElapsedTime i t th =
     bindA (getC i) (\<lambda>c s.
       mapE (\<lambda>ck. ((), s\<lparr>h_clock := ck\<rparr>)) (clock_incrElapsedTime (cc_core_id c) t th (h_clock s)))"

definition incrAccessTime :: "nat \<Rightarrow> cache_access_t \<Rightarrow> thread_t \<Rightarrow> unit hact" where
  "incrAccessTime i access th =
     bindA (getC i) (\<lambda>c. incrElapsedTime i (cp_getLatency access (cc_perf_model c)) th)"

section \<open>Operations on the own cache\<close>

definition getCacheBlockInfo :: "nat \<Rightarrow> IntPtr \<Rightarrow> block_ref option hact" where
  "getCacheBlockInfo i address = onCache i (\<lambda>c. mapE (\<lambda>r. (r, c)) (peekSingleLine address c))"

definition stateOf :: "nat \<Rightarrow> block_ref option \<Rightarrow> cstate_t hact" where
  "stateOf i r = (case r of None \<Rightarrow> retA INVALID | Some ref \<Rightarrow> bindA (block i ref) (\<lambda>b. retA (m_cstate b)))"

definition getCacheState :: "nat \<Rightarrow> IntPtr \<Rightarrow> cstate_t hact" where
  "getCacheState i address = bindA (getCacheBlockInfo i address) (stateOf i)"

definition setCState :: "nat \<Rightarrow> block_ref \<Rightarrow> cstate_t \<Rightarrow> unit hact" where
  "setCState i r cstate = modBlock i r (\<lambda>b. b\<lparr>m_cstate := cstate\<rparr>)"

definition setCacheState :: "nat \<Rightarrow> IntPtr \<Rightarrow> cstate_t \<Rightarrow> block_ref hact" where
  "setCacheState i address cstate =
     bindA (getCacheBlockInfo i address) (\<lambda>p.
     bindA (deref p) (\<lambda>r. thenA (setCState i r cstate) (retA r)))"

definition invalidateCacheBlock :: "nat \<Rightarrow> IntPtr \<Rightarrow> unit hact" where
  "invalidateCacheBlock i address =
     bindA (getCacheState i address) (\<lambda>old_cstate.
     thenA (assertA (old_cstate \<noteq> MODIFIED) (Assert ''old_cstate != MODIFIED''))
    (thenA (assertA (old_cstate \<noteq> INVALID) (Assert ''old_cstate != INVALID''))
     (bindA (onCache i (invalidateSingleLine address)) (\<lambda>_. retA ()))))"

definition loadLine :: "nat \<Rightarrow> IntPtr \<Rightarrow> buffer \<Rightarrow> UInt32 \<Rightarrow> bool \<Rightarrow> (block_ref option \<times> buffer) hact" where
  "loadLine i address buf bytes update_replacement =
     onCache i (\<lambda>c. mapE (\<lambda>(r, out, c'). ((r, buf_out buf out), c'))
       (accessSingleLine address LOAD (if buf = NULL then None else Some []) (unat bytes) update_replacement c))"

definition storeLine :: "nat \<Rightarrow> IntPtr \<Rightarrow> buffer \<Rightarrow> UInt32 \<Rightarrow> bool \<Rightarrow> block_ref option hact" where
  "storeLine i address buf bytes update_replacement =
     onCache i (\<lambda>c. bindE (buf_in (c_fault c \<noteq> None) buf) (\<lambda>buff.
       mapE (\<lambda>(r, out, c'). (r, c')) (accessSingleLine address STORE buff (unat bytes) update_replacement c)))"

definition retrieveCacheBlock :: "nat \<Rightarrow> IntPtr \<Rightarrow> buffer \<Rightarrow> bool \<Rightarrow> buffer hact" where
  "retrieveCacheBlock i address data_buf update_replacement =
     bindA (getC i) (\<lambda>c.
     bindA (loadLine i address data_buf (cc_block_size c) update_replacement) (\<lambda>(r, buf).
     thenA (assertA (r \<noteq> None) (Assert ''Expected block to be there but it wasn't'')) (retA buf)))"

definition operationPermissibleinCache :: "nat \<Rightarrow> IntPtr \<Rightarrow> mem_op_t \<Rightarrow> bool hact" where
  "operationPermissibleinCache i address mem_op_type =
     bindA (getCacheState i address) (\<lambda>cstate.
       case mem_op_type of
         READ \<Rightarrow> retA (readable cstate)
       | READ_EX \<Rightarrow> retA (writable cstate)
       | WRITE \<Rightarrow> retA (writable cstate)
       | INVALID_MEM_OP \<Rightarrow> failA (Print_Error ''Unsupported mem_op_type''))"

section \<open>Miss status and statistics\<close>

definition make_mshr :: "time \<Rightarrow> time \<Rightarrow> time \<times> time" where
  "make_mshr t_issue t_complete = (t_issue, t_complete)"

text \<open>\<open>mshr[address] = e\<close> on the hash map, whose iteration order is the order of this list.\<close>

definition mshr_set :: "IntPtr \<Rightarrow> time \<times> time \<Rightarrow> mshr \<Rightarrow> mshr" where
  "mshr_set address e m =
     (if address \<in> fst ` set m then map (\<lambda>(a, x). (a, if a = address then e else x)) m else m @ [(address, e)])"

definition mshr_erase :: "IntPtr \<Rightarrow> mshr \<Rightarrow> mshr" where
  "mshr_erase address m = filter (\<lambda>(a, _). a \<noteq> address) m"

definition mshr_oldest :: "mshr \<Rightarrow> IntPtr" where
  "mshr_oldest m =
     fst (foldl (\<lambda>(address_min, time_min) (a, t_issue, t_complete).
            if t_complete < time_min then (a, t_complete) else (address_min, time_min)) (0, MaxTime) m)"

partial_function (option) cleanup_loop :: "mshr \<Rightarrow> mshr option" where
  "cleanup_loop m = (if length m > 8 then cleanup_loop (mshr_erase (mshr_oldest m) m) else Some m)"

declare cleanup_loop.simps [code]

definition cleanupMshr :: "nat \<Rightarrow> unit hact" where
  "cleanupMshr i =
     bindA (getM i) (\<lambda>m.
       case cleanup_loop (cm_mshr m) of
         None \<Rightarrow> failA Diverges
       | Some m' \<Rightarrow> modM i (\<lambda>m. m\<lparr>cm_mshr := m'\<rparr>))"

definition mshr_pending :: "IntPtr \<Rightarrow> time \<Rightarrow> mshr \<Rightarrow> time option" where
  "mshr_pending address t_now m =
     (case map_of m address of
        Some (t_issue, t_complete) \<Rightarrow> if t_issue < t_now \<and> t_now < t_complete then Some t_complete else None
      | None \<Rightarrow> None)"

definition accessATDs :: "nat \<Rightarrow> mem_op_t \<Rightarrow> bool \<Rightarrow> IntPtr \<Rightarrow> UInt32 \<Rightarrow> unit hact" where
  "accessATDs i mem_op_type hit address core_num =
     bindA (getM i) (\<lambda>m.
       if cm_atds m = [] then retA ()
       else bindA (liftA (at (cm_atds m) (unat core_num))) (\<lambda>a.
            bindA (liftA (atd_access mem_op_type hit address a)) (\<lambda>a'.
              modM i (\<lambda>m. m\<lparr>cm_atds := (cm_atds m)[unat core_num := a']\<rparr>))))"

definition updateCounters :: "nat \<Rightarrow> mem_op_t \<Rightarrow> IntPtr \<Rightarrow> bool \<Rightarrow> cstate_t \<Rightarrow> prefetch_type_t \<Rightarrow> unit hact" where
  "updateCounters i mem_op_type address cache_hit state isPrefetch =
     bindA (now i USER_THREAD) (\<lambda>t_now.
     bindA (getC i) (\<lambda>c.
     bindA (getM i) (\<lambda>m.
       (let overlapping = (mshr_pending address t_now (cm_mshr m) \<noteq> None)
        in thenA (accessATDs i mem_op_type (state \<noteq> INVALID) address (cc_core_id c - cc_core_id_master c))
          (thenA (if mem_op_type = WRITE
                  then thenA (whenA (isPrefetch \<noteq> NONE) (count i S_stores_prefetch))
                        (whenA (isPrefetch \<noteq> OWN)
                          (thenA (count i S_stores)
                          (thenA (count i (S_stores_state state))
                           (whenA (\<not> cache_hit \<or> overlapping)
                             (thenA (count i S_store_misses)
                             (thenA (count i (S_store_misses_state state))
                              (whenA overlapping (count i S_store_overlapping_misses))))))))
                  else thenA (whenA (isPrefetch \<noteq> NONE) (count i S_loads_prefetch))
                        (whenA (isPrefetch \<noteq> OWN)
                          (thenA (count i S_loads)
                          (thenA (count i (S_loads_state state))
                           (whenA (\<not> cache_hit)
                             (thenA (count i S_load_misses)
                             (thenA (count i (S_load_misses_state state))
                              (whenA overlapping (count i S_load_overlapping_misses)))))))))
           (cleanupMshr i))))))"

primrec updateHits_times :: "nat \<Rightarrow> nat \<Rightarrow> mem_op_t \<Rightarrow> unit hact" where
  "updateHits_times 0 i mem_op_type = retA ()"
| "updateHits_times (Suc n) i mem_op_type =
     thenA (modM i (\<lambda>m. m\<lparr>cm_cache := cache_updateCounters True (cm_cache m)\<rparr>))
    (thenA (updateCounters i mem_op_type 0 True (if mem_op_type = READ then SHARED else MODIFIED) NONE)
     (updateHits_times n i mem_op_type))"

definition updateHits :: "nat \<Rightarrow> mem_op_t \<Rightarrow> UInt64 \<Rightarrow> unit hact" where
  "updateHits i mem_op_type hits = updateHits_times (unat hits) i mem_op_type"

text \<open>The part of \<open>updateUncoreStatistics\<close> that the caches read back.\<close>

definition updateUncoreStatistics :: "nat \<Rightarrow> where_t \<Rightarrow> unit hact" where
  "updateUncoreStatistics i hit_where = modC i (\<lambda>c. c\<lparr>cc_last_remote_hit_where := hit_where\<rparr>)"

section \<open>Memory and network\<close>

definition accessDRAM :: "nat \<Rightarrow> mem_op_t \<Rightarrow> IntPtr \<Rightarrow> buffer \<Rightarrow> (where_t \<times> time \<times> buffer) hact" where
  "accessDRAM i mem_op_type address data_buf =
     bindA (getC i) (\<lambda>c.
     bindA (now i USER_THREAD) (\<lambda>t_issue.
       case mem_op_type of
         READ \<Rightarrow>
           bindA (getA h_dram) (\<lambda>d.
           bindA (liftA (getDataFromDram address (cc_core_id_master c) t_issue d)) (\<lambda>(latency, hit_where, out, d').
           thenA (modA (\<lambda>s. s\<lparr>h_dram := d'\<rparr>)) (retA (hit_where, latency, buf_out data_buf out))))
       | INVALID_MEM_OP \<Rightarrow> failA (Print_Error ''Unsupported Mem Op Type'')
       | _ \<Rightarrow>
           bindA (getA h_dram) (\<lambda>d.
           bindA (liftA (buf_in (dr_fim d) data_buf)) (\<lambda>bytes.
           bindA (liftA (putDataToDram address (cc_core_id_master c) bytes t_issue d)) (\<lambda>(latency, hit_where, d').
           thenA (modA (\<lambda>s. s\<lparr>h_dram := d'\<rparr>)) (retA (hit_where, latency, data_buf)))))))"

definition sendMsg :: "nat \<Rightarrow> msg_t \<Rightarrow> core_id_t \<Rightarrow> core_id_t \<Rightarrow> IntPtr \<Rightarrow> buffer \<Rightarrow> UInt32 \<Rightarrow> thread_t \<Rightarrow> unit hact" where
  "sendMsg i ty requester receiver address data_buf data_length th =
     thenA (assertA ((data_buf = NULL) = (data_length = 0)) (Assert ''(data_buf == NULL) == (data_length == 0)''))
    (bindA (getC i) (\<lambda>c.
     bindA (now i th) (\<lambda>msg_time.
       modA (\<lambda>s. s\<lparr>h_net := h_net s @
         [\<lparr>pk_time = msg_time, pk_sender = cc_core_id_master c, pk_receiver = receiver,
           pk_msg = \<lparr>msg_type = ty, msg_sender_component = LAST_LEVEL_CACHE, msg_receiver_component = TAG_DIR,
                     msg_requester = requester, msg_where = WHERE_UNKNOWN, msg_address = address,
                     msg_data_buf = data_buf, msg_data_length = data_length\<rparr>\<rparr>]\<rparr>))))"

definition homeOf :: "nat \<Rightarrow> IntPtr \<Rightarrow> core_id_t hact" where
  "homeOf i address = bindA (getC i) (\<lambda>c. liftA (getHome (cc_home c) address))"

text \<open>A call on an undo buffer controller, which also sees the epoch manager and the log in NVM.\<close>

definition onUndo :: "nat \<Rightarrow> (picl \<Rightarrow> picl result) \<Rightarrow> unit hact" where
  "onUndo u f =
     (\<lambda>s. bindE (at (h_undo s) u) (\<lambda>uc.
          bindE (f \<lparr>pc_cntlr = uc, pc_em = h_em s, pc_nvm = h_nvm s\<rparr>) (\<lambda>p.
            Inr ((), s\<lparr>h_undo := (h_undo s)[u := pc_cntlr p], h_em := pc_em p, h_nvm := pc_nvm p\<rparr>))))"

section \<open>The MSHR table\<close>

lemma mshr_oldest_in:
  assumes "m \<noteq> []" "\<forall>(a, ti, tc) \<in> set m. tc \<noteq> MaxTime"
  shows "mshr_oldest m \<in> fst ` set m"
proof -
  let ?f = "\<lambda>(am, tm) (a, ti, tc). if tc < tm then (a, tc) else (am, tm :: time)"
  obtain a ti tc m' where m: "m = (a, ti, tc) # m'" using assms(1) by (metis list.exhaust prod.exhaust)
  have "MaxTime = - 1" by (simp add: MaxTime_def)
  then have "tc < MaxTime" using assms(2) m word_order.not_eq_extremum [of tc] by auto
  then have "mshr_oldest m = fst (foldl ?f (a, tc) m')" by (simp add: mshr_oldest_def m)
  moreover have "fst (foldl ?f (a, tc) m') \<in> insert a (fst ` set m')" for m'
    by (induction m' arbitrary: a tc) (auto split: prod.splits)
  ultimately show ?thesis by (auto simp: m)
qed

lemma mshr_erase_length: "a \<in> fst ` set m \<Longrightarrow> length (mshr_erase a m) < length m"
  by (force simp: mshr_erase_def intro: length_filter_less)

lemma mshr_set_length: "length (mshr_set a e m) \<le> Suc (length m)"
  by (simp add: mshr_set_def)

text \<open>
  The clean-up ends with at most eight entries as long as no entry completes at the end of time.
\<close>

lemma cleanup_loop_ok:
  assumes "\<forall>(a, ti, tc) \<in> set m. tc \<noteq> MaxTime"
  shows "\<exists>m'. cleanup_loop m = Some m' \<and> length m' \<le> 8 \<and> set m' \<subseteq> set m \<and> (length m \<le> 8 \<longrightarrow> m' = m)"
  using assms
proof (induction "length m" arbitrary: m rule: less_induct)
  case less
  show ?case
  proof (cases "length m > 8")
    case True
    let ?m = "mshr_erase (mshr_oldest m) m"
    have "m \<noteq> []" using True by auto
    from mshr_erase_length [OF mshr_oldest_in [OF this less.prems]] have l: "length ?m < length m" .
    have sub: "set ?m \<subseteq> set m" by (auto simp: mshr_erase_def)
    with less.prems have "\<forall>(a, ti, tc) \<in> set ?m. tc \<noteq> MaxTime" by blast
    from less.hyps [OF l this] sub True show ?thesis by (subst cleanup_loop.simps) auto
  next
    case False
    then show ?thesis by (subst cleanup_loop.simps) simp
  qed
qed

end
