(* ===== verification/Cntlr_Blocks.thy ===== *)
theory Cntlr_Blocks
  imports Hierarchy
begin

text \<open>
  The block operations of \<open>cache_cntlr.cc\<close> that reach other levels: write-back and write-through
  (with the epoch stamp and the undo entry of PiCL), state updates that propagate towards the
  cores, insertion with the eviction it causes, and the scan of the last-level cache. The
  recursion follows the pointers between levels; it is written with a bound, the number of
  controllers, and running out of it is \<open>Diverges\<close>.
\<close>

section \<open>writeCacheBlock\<close>

definition writeEvictBuffer :: "nat \<Rightarrow> UInt32 \<Rightarrow> buffer \<Rightarrow> UInt32 \<Rightarrow> unit hact" where
  "writeEvictBuffer i offset data_buf data_length =
     bindA (getC i) (\<lambda>c.
     thenA (assertA (offset = 0) (Assert ''offset==0''))
    (thenA (assertA (data_length = cc_block_size c) (Assert ''data_length==getCacheBlockSize()''))
     (whenA (data_buf \<noteq> NULL)
       (modM i (\<lambda>m. m\<lparr>cm_evicting := map_option (\<lambda>(a, _). (a, data_buf)) (cm_evicting m)\<rparr>)))))"

text \<open>
  The lines PiCL adds: a line of an older epoch is logged first if this is the L3 of a PiCL
  configuration, and then belongs to the running epoch.
\<close>

definition piclStamp :: "nat \<Rightarrow> block_ref \<Rightarrow> unit hact" where
  "piclStamp i r =
     bindA (getA (\<lambda>s. m_system_eid (h_em s))) (\<lambda>system_eid.
     bindA (block i r) (\<lambda>b.
       whenA (m_eid b \<noteq> system_eid)
         (bindA (getC i) (\<lambda>c.
          bindA (getM i) (\<lambda>m.
          thenA (whenA (cc_picl_enabled c \<and> m_name (c_base (cm_cache m)) = ''L3'')
                   (bindA (deref (cc_undo c)) (\<lambda>u. onUndo u (insertUndoEntry system_eid b))))
            (modBlock i r (\<lambda>b. b\<lparr>m_eid := system_eid\<rparr>)))))))"

definition writeLocal :: "nat \<Rightarrow> IntPtr \<Rightarrow> UInt32 \<Rightarrow> buffer \<Rightarrow> UInt32 \<Rightarrow> unit hact" where
  "writeLocal i address offset data_buf data_length =
     bindA (storeLine i (address + ucast offset) data_buf data_length False) (\<lambda>p.
     thenA (assertA (p \<noteq> None) (Assert ''writethrough expected a hit at next-level cache but got miss''))
    (bindA (deref p) (\<lambda>r.
     bindA (block i r) (\<lambda>b.
     thenA (assertA (m_cstate b = MODIFIED) (Assert ''Got writeback for non-MODIFIED line''))
       (piclStamp i r)))))"

primrec writeCacheBlock_upto :: "nat \<Rightarrow> nat \<Rightarrow> IntPtr \<Rightarrow> UInt32 \<Rightarrow> buffer \<Rightarrow> UInt32 \<Rightarrow> unit hact" where
  "writeCacheBlock_upto 0 i address offset data_buf data_length = failA Diverges"
| "writeCacheBlock_upto (Suc n) i address offset data_buf data_length =
     bindA (getC i) (\<lambda>c.
     bindA (getM i) (\<lambda>m.
     thenA (if map_option fst (cm_evicting m) = Some address
            then writeEvictBuffer i offset data_buf data_length
            else writeLocal i address offset data_buf data_length)
       (whenA (cc_writethrough c)
         (bindA (deref (cc_next c)) (\<lambda>j. writeCacheBlock_upto n j address offset data_buf data_length)))))"

definition writeCacheBlock :: "nat \<Rightarrow> IntPtr \<Rightarrow> UInt32 \<Rightarrow> buffer \<Rightarrow> UInt32 \<Rightarrow> unit hact" where
  "writeCacheBlock i address offset data_buf data_length =
     (\<lambda>s. writeCacheBlock_upto (length (h_cntlrs s)) i address offset data_buf data_length s)"

section \<open>accessCache\<close>

definition accessCache :: "nat \<Rightarrow> mem_op_t \<Rightarrow> IntPtr \<Rightarrow> UInt32 \<Rightarrow> buffer \<Rightarrow> UInt32 \<Rightarrow> bool \<Rightarrow> buffer hact" where
  "accessCache i mem_op_type ca_address offset data_buf data_length update_replacement =
     (case mem_op_type of
        INVALID_MEM_OP \<Rightarrow> failA (Print_Error ''Unsupported Mem Op Type'')
      | WRITE \<Rightarrow>
          bindA (getC i) (\<lambda>c.
          bindA (getA (\<lambda>s. m_system_eid (h_em s))) (\<lambda>system_eid.
          bindA (storeLine i (ca_address + ucast offset) data_buf data_length update_replacement) (\<lambda>p.
          bindA (deref p) (\<lambda>r.
          bindA (block i r) (\<lambda>b.
          thenA (whenA (m_eid b \<noteq> system_eid) (modBlock i r (\<lambda>b. b\<lparr>m_eid := system_eid\<rparr>)))
         (thenA (whenA (cc_writethrough c)
                   (thenA (assertA (cc_next c \<noteq> None) (Assert ''Writethrough enabled on last-level cache !?''))
                     (bindA (deref (cc_next c)) (\<lambda>j. writeCacheBlock j ca_address offset data_buf data_length))))
            (retA data_buf)))))))
      | _ \<Rightarrow>
          bindA (loadLine i (ca_address + ucast offset) data_buf data_length update_replacement) (\<lambda>(p, buf). retA buf))"

section \<open>updateCacheBlock\<close>

definition updateStats :: "nat \<Rightarrow> reason_t \<Rightarrow> cstate_t \<Rightarrow> block_info \<Rightarrow> unit hact" where
  "updateStats i reason new_cstate b =
     thenA (whenA (reason = COHERENCY)
       (thenA (if new_cstate = SHARED then count i S_coherency_downgrades
               else if m_cstate b = MODIFIED then count i S_coherency_writebacks
               else count i S_coherency_invalidates)
       (thenA (whenA (hasOption PREFETCH b \<and> new_cstate = INVALID) (count i S_invalidate_prefetch))
         (whenA (hasOption WARMUP b \<and> new_cstate = INVALID) (count i S_invalidate_warmup)))))
     (if reason = UPGRADE then count i S_coherency_upgrades
      else if reason = BACK_INVAL then count i (S_backinval (m_cstate b))
      else retA ())"

text \<open>The out-buffer and the flags \<open>buf_written\<close>, \<open>is_writeback\<close> and \<open>sibling_hit\<close>.\<close>

type_synonym update_flags = "buffer \<times> bool \<times> bool \<times> bool"

definition updateOut :: "nat \<Rightarrow> IntPtr \<Rightarrow> update_flags \<Rightarrow> update_flags hact" where
  "updateOut i address fl =
     (case fl of (out_buf, buf_written, is_writeback, sibling_hit) \<Rightarrow>
        if out_buf = NULL then retA fl
        else bindA (retrieveCacheBlock i address out_buf False) (\<lambda>buf. retA (buf, True, True, True)))"

definition updateDirty :: "nat \<Rightarrow> IntPtr \<Rightarrow> block_ref \<Rightarrow> update_flags \<Rightarrow> update_flags hact" where
  "updateDirty i address r fl =
     bindA (getC i) (\<lambda>c.
     bindA (if cc_writethrough c then retA fl
            else case cc_next c of
                   Some j \<Rightarrow>
                     bindA (retrieveCacheBlock i address (Buf None) False) (\<lambda>data_buf.
                     thenA (writeCacheBlock j address 0 data_buf (cc_block_size c))
                       (retA (fst fl, fst (snd fl), True, True)))
                 | None \<Rightarrow>
                     thenA (assertA (fst fl \<noteq> NULL) (Assert ''MODIFIED data is about to get lost!''))
                       (updateOut i address fl)) (\<lambda>fl'.
     thenA (setCState i r SHARED) (retA fl')))"

definition updateNew :: "nat \<Rightarrow> IntPtr \<Rightarrow> cstate_t \<Rightarrow> block_ref \<Rightarrow> update_flags \<Rightarrow> update_flags hact" where
  "updateNew i address new_cstate r fl =
     bindA (getC i) (\<lambda>c.
       if new_cstate = INVALID
       then bindA (updateOut i address fl) (\<lambda>fl'.
            thenA (whenA (cc_coherent c) (invalidateCacheBlock i address)) (retA fl'))
       else if new_cstate = SHARED
       then bindA (updateOut i address fl) (\<lambda>fl'. thenA (setCState i r SHARED) (retA fl'))
       else if new_cstate = MODIFIED
       then thenA (setCState i r MODIFIED) (retA fl)
       else failA (Assert ''Cannot change block status''))"

definition updateLocal :: "nat \<Rightarrow> IntPtr \<Rightarrow> cstate_t \<Rightarrow> reason_t \<Rightarrow> buffer \<Rightarrow> bool \<Rightarrow> (time \<times> bool \<times> buffer) hact" where
  "updateLocal i address new_cstate reason out_buf sibling_hit =
     bindA (getC i) (\<lambda>c.
     bindA (getCacheBlockInfo i address) (\<lambda>p.
     bindA (case p of
              None \<Rightarrow> retA (out_buf, False, False, sibling_hit)
            | Some r \<Rightarrow>
                bindA (block i r) (\<lambda>b.
                  if new_cstate = m_cstate b \<and> out_buf \<noteq> NULL
                  then updateOut i address (out_buf, False, False, sibling_hit)
                  else thenA (updateStats i reason new_cstate b)
                        (bindA (if m_cstate b = MODIFIED then updateDirty i address r (out_buf, False, False, sibling_hit)
                                else retA (out_buf, False, False, sibling_hit)) (\<lambda>fl.
                         updateNew i address new_cstate r fl)))) (\<lambda>(buf, buf_written, is_writeback, sibling).
     bindA (getCacheState i address) (\<lambda>st.
     bindA (stateOf i p) (\<lambda>current_cstate.
     thenA (assertA (st = INVALID \<or> st = new_cstate \<or> \<not> cc_coherent c) (Assert ''state didn't change as we wanted''))
    (thenA (assertA (current_cstate = INVALID \<or> current_cstate = new_cstate \<or> \<not> cc_coherent c)
              (Assert ''state didn't change as we wanted''))
    (thenA (assertA (out_buf = NULL \<or> buf_written) (Assert ''out_buf passed in but never written to''))
      (retA (if is_writeback then cc_writeback_time c else 0, sibling, buf)))))))))"

primrec updateCacheBlock_upto ::
  "nat \<Rightarrow> nat \<Rightarrow> IntPtr \<Rightarrow> cstate_t \<Rightarrow> reason_t \<Rightarrow> buffer \<Rightarrow> (time \<times> bool \<times> buffer) hact" where
  "updateCacheBlock_upto 0 i address new_cstate reason out_buf = failA Diverges"
| "updateCacheBlock_upto (Suc n) i address new_cstate reason out_buf =
     thenA (assertA (cstate_index new_cstate < 6) (Assert ''Invalid new cstate''))
    (bindA (getM i) (\<lambda>m.
     bindA (foldA (\<lambda>p sibling_hit.
              bindA (updateCacheBlock_upto n p address new_cstate (if reason = EVICT then BACK_INVAL else reason) NULL)
                (\<lambda>(latency, hit, _). retA (sibling_hit \<or> hit))) (cm_prev m) False) (\<lambda>sibling_hit.
       updateLocal i address new_cstate reason out_buf sibling_hit)))"

definition updateCacheBlock :: "nat \<Rightarrow> IntPtr \<Rightarrow> cstate_t \<Rightarrow> reason_t \<Rightarrow> buffer \<Rightarrow> (time \<times> bool \<times> buffer) hact" where
  "updateCacheBlock i address new_cstate reason out_buf =
     (\<lambda>s. updateCacheBlock_upto (length (h_cntlrs s)) i address new_cstate reason out_buf s)"

text \<open>The loop over the previous levels, except the requester: the longest latency and any hit.\<close>

definition snoopPrev :: "nat \<Rightarrow> nat option \<Rightarrow> IntPtr \<Rightarrow> cstate_t \<Rightarrow> reason_t \<Rightarrow> (time \<times> bool) hact" where
  "snoopPrev i requester address new_cstate reason =
     bindA (getM i) (\<lambda>m.
       foldA (\<lambda>p (latency, sibling_hit).
         if Some p = requester then retA (latency, sibling_hit)
         else bindA (updateCacheBlock p address new_cstate reason NULL)
                (\<lambda>(l, hit, _). retA (max latency l, sibling_hit \<or> hit))) (cm_prev m) (0, False))"

definition snoopAndWait :: "nat \<Rightarrow> nat option \<Rightarrow> IntPtr \<Rightarrow> cstate_t \<Rightarrow> reason_t \<Rightarrow> thread_t \<Rightarrow> bool hact" where
  "snoopAndWait i requester address new_cstate reason th =
     bindA (snoopPrev i requester address new_cstate reason) (\<lambda>(latency, sibling_hit).
     thenA (incrElapsedTime i latency th)
    (thenA (addStat i S_snoop_latency latency) (retA sibling_hit)))"

section \<open>insertCacheBlock\<close>

definition isInLowerLevelCache :: "nat \<Rightarrow> block_info \<Rightarrow> bool hact" where
  "isInLowerLevelCache i b =
     bindA (getM i) (\<lambda>m.
       (let address = tagToAddress (c_base (cm_cache m)) (m_tag b)
        in foldA (\<lambda>p found.
             if found then retA True
             else bindA (getCacheBlockInfo p address) (\<lambda>q. retA (q \<noteq> None))) (cm_prev m) False))"

definition incrementQBSLookupCost :: "nat \<Rightarrow> unit hact" where
  "incrementQBSLookupCost i =
     bindA (getC i) (\<lambda>c.
     thenA (incrElapsedTime i (cc_writeback_time c) USER_THREAD)
       (addStat i S_qbs_query_latency (cc_writeback_time c)))"

text \<open>
  The policy calls back into the controller: it sees whether a block is held by a previous level,
  and each of its look-ups is charged.
\<close>

definition insertLine :: "nat \<Rightarrow> IntPtr \<Rightarrow> buffer \<Rightarrow> (bool \<times> IntPtr \<times> block_info \<times> buffer) hact" where
  "insertLine i address data_buf =
     (\<lambda>s. bindA (onCache i (\<lambda>c.
            bindE (buf_in (c_fault c \<noteq> None) data_buf) (\<lambda>fill.
              mapE (\<lambda>(out, evict_addr, c'). ((out, evict_addr), c'))
                (insertSingleLine address fill (CacheBlockInfo_new SHARED_CACHE (NOT 0) INVALID 0) True
                   (Some (\<lambda>b. mapE fst (isInLowerLevelCache i b s) = Inr True)) c)))) (\<lambda>(out, evict_addr).
          thenA (foldA (\<lambda>_ _. incrementQBSLookupCost i) [0..<ins_cost out] ())
            (retA (ins_eviction out, evict_addr, ins_evict_info out, Buf (ins_evict_buff out)))) s)"

definition backInvalidate :: "nat \<Rightarrow> IntPtr \<Rightarrow> buffer \<Rightarrow> thread_t \<Rightarrow> buffer hact" where
  "backInvalidate i evict_address evict_buf th =
     bindA (getM i) (\<lambda>m.
       if cm_prev m = [] then retA evict_buf
       else thenA (modM i (\<lambda>m. m\<lparr>cm_evicting := Some (evict_address, evict_buf)\<rparr>))
           (bindA (snoopAndWait i None evict_address INVALID BACK_INVAL th) (\<lambda>_.
            bindA (getM i) (\<lambda>m'.
            thenA (modM i (\<lambda>m. m\<lparr>cm_evicting := None\<rparr>))
              (retA (case cm_evicting m' of Some (_, buf) \<Rightarrow> buf | None \<Rightarrow> evict_buf))))))"

definition evictToDram :: "nat \<Rightarrow> IntPtr \<Rightarrow> buffer \<Rightarrow> unit hact" where
  "evictToDram i evict_address evict_buf =
     bindA (now i USER_THREAD) (\<lambda>t_now.
     bindA (getM i) (\<lambda>m.
     thenA (case cm_dram_writebacks m of
              Some wb \<Rightarrow> incrElapsedTime i (getStartTime t_now wb - t_now) USER_THREAD
            | None \<Rightarrow> retA ())
    (bindA (accessDRAM i WRITE evict_address evict_buf) (\<lambda>(hit_where, dram_latency, _).
       (case cm_dram_writebacks m of
          Some wb \<Rightarrow> modM i (\<lambda>m. m\<lparr>cm_dram_writebacks := Some (snd (getCompletionTime t_now dram_latency 0 wb))\<rparr>)
        | None \<Rightarrow> retA ())))))"

definition evictToDirectory :: "nat \<Rightarrow> IntPtr \<Rightarrow> cstate_t \<Rightarrow> buffer \<Rightarrow> thread_t \<Rightarrow> unit hact" where
  "evictToDirectory i evict_address evict_state evict_buf th =
     bindA (getC i) (\<lambda>c.
     bindA (homeOf i evict_address) (\<lambda>home_node_id.
       if evict_state = MODIFIED
       then sendMsg i FLUSH_REP (cc_core_id c) home_node_id evict_address evict_buf (cc_block_size c) th
       else thenA (assertA (evict_state = SHARED \<or> evict_state = EXCLUSIVE) (Assert ''evict_state''))
              (sendMsg i INV_REP (cc_core_id c) home_node_id evict_address NULL 0 th)))"

definition disposeEvicted :: "nat \<Rightarrow> IntPtr \<Rightarrow> block_info \<Rightarrow> buffer \<Rightarrow> thread_t \<Rightarrow> unit hact" where
  "disposeEvicted i evict_address evict_info evict_buf th =
     bindA (getC i) (\<lambda>c.
     bindA (getM i) (\<lambda>m.
       if cc_perfect c then retA ()
       else if \<not> cc_coherent c
       then whenA (\<not> cc_writethrough c)
              (assertA (m_cstate evict_info \<noteq> MODIFIED) (Assert ''Non-coherent cache is throwing away dirty data''))
       else case cc_next c of
              Some j \<Rightarrow>
                whenA (\<not> cc_writethrough c \<and> m_cstate evict_info = MODIFIED)
                  (writeCacheBlock j evict_address 0 evict_buf (cc_block_size c))
            | None \<Rightarrow>
                if cm_dram m
                then whenA (m_cstate evict_info = MODIFIED) (evictToDram i evict_address evict_buf)
                else evictToDirectory i evict_address (m_cstate evict_info) evict_buf th))"

definition evictBlock :: "nat \<Rightarrow> IntPtr \<Rightarrow> block_info \<Rightarrow> buffer \<Rightarrow> thread_t \<Rightarrow> unit hact" where
  "evictBlock i evict_address evict_info evict_buf th =
     thenA (count i (S_evict (m_cstate evict_info)))
    (thenA (whenA (hasOption PREFETCH evict_info) (count i S_evict_prefetch))
    (thenA (whenA (hasOption WARMUP evict_info) (count i S_evict_warmup))
    (bindA (backInvalidate i evict_address evict_buf th) (\<lambda>buf.
     thenA (disposeEvicted i evict_address evict_info buf th)
    (bindA (getCacheState i evict_address) (\<lambda>st.
       assertA (st = INVALID) (Assert ''Evicted address did not become invalid'')))))))"

definition insertTail ::
  "nat \<Rightarrow> IntPtr \<Rightarrow> block_ref \<Rightarrow> core_id_t \<Rightarrow> thread_t \<Rightarrow> bool \<times> IntPtr \<times> block_info \<times> buffer \<Rightarrow> unit hact" where
  "insertTail i address r requester th evicted =
     (case evicted of (eviction, evict_address, evict_info, evict_buf) \<Rightarrow>
        bindA (getA h_cache_only) (\<lambda>cache_only.
        bindA (getA h_efficiency) (\<lambda>eff.
        thenA (whenA cache_only (modBlock i r (setOption WARMUP)))
       (thenA (case eff of
                 Some get_owner \<Rightarrow> modBlock i r (\<lambda>b. b\<lparr>m_owner := get_owner requester address\<rparr>)
               | None \<Rightarrow> retA ())
         (whenA eviction (evictBlock i evict_address evict_info evict_buf th))))))"

definition insertCacheBlock :: "nat \<Rightarrow> IntPtr \<Rightarrow> cstate_t \<Rightarrow> buffer \<Rightarrow> core_id_t \<Rightarrow> thread_t \<Rightarrow> block_ref hact" where
  "insertCacheBlock i address cstate data_buf requester th =
     bindA (getCacheState i address) (\<lambda>st.
     thenA (assertA (st = INVALID) (Assert ''we already have this line, can't add it again''))
    (bindA (insertLine i address data_buf) (\<lambda>evicted.
     bindA (setCacheState i address cstate) (\<lambda>r.
     thenA (insertTail i address r requester th evicted) (retA r)))))"

section \<open>The scan of the last-level cache\<close>

text \<open>
  \<open>CacheCntlr::asyncCacheScan\<close> and \<open>flushCacheBlock\<close>; their registration with the hooks manager is
  commented out in the sources, and \<open>OnChipUndoBufferCntlr::isPresent\<close> always answers no.
\<close>

definition isPresent :: "block_info \<Rightarrow> undo_cntlr \<Rightarrow> bool" where
  "isPresent b uc = False"

definition flushCacheBlock :: "nat \<Rightarrow> block_info \<Rightarrow> unit hact" where
  "flushCacheBlock i b =
     bindA (getC i) (\<lambda>c.
     bindA (getM i) (\<lambda>m.
       (let address = tagToAddress (c_base (cm_cache m)) (m_tag b)
        in bindA (updateCacheBlock i address SHARED COHERENCY (Buf None)) (\<lambda>(latency, sib, data_buf).
           bindA (homeOf i address) (\<lambda>home.
             sendMsg i CP_REP (cc_core_id_master c) home address data_buf (cc_block_size c) SIM_THREAD)))))"

definition cacheScan :: "nat \<Rightarrow> UInt64 \<Rightarrow> unit hact" where
  "cacheScan i system_eid =
     bindA (getC i) (\<lambda>c.
       whenA (ucast (cc_acs_gap c) \<le> system_eid)
         (bindA (deref (cc_undo c)) (\<lambda>u.
          thenA (onUndo u flush_all)
         (bindA (getM i) (\<lambda>m0.
            (let persisted_eid = system_eid - ucast (cc_acs_gap c);
                 ways = List.product [0..<unat (m_num_sets (c_base (cm_cache m0)))]
                          [0..<unat (m_associativity (c_base (cm_cache m0)))]
             in foldA (\<lambda>r _.
                  bindA (block i r) (\<lambda>b.
                    whenA (m_eid b \<le> persisted_eid \<and> m_cstate b = MODIFIED)
                      (bindA (getA (\<lambda>s. h_undo s)) (\<lambda>ucs.
                       bindA (liftA (at ucs u)) (\<lambda>uc.
                         whenA (\<not> isPresent b uc) (flushCacheBlock i b)))))) ways ()))))))"

end
