(* ===== verification/Cntlr_Requests.thy ===== *)
theory Cntlr_Requests
  imports Cntlr_Blocks
begin

text \<open>
  The requests of \<open>cache_cntlr.cc\<close>: memory operations of the core at the first level, requests from
  the previous level, prefetching, and the messages from and to the tag directory. Where the code
  blocks on a semaphore, the other thread runs: its steps are a parameter, \<open>net\<close> for the network
  thread while a core waits and \<open>usr\<close> for the core while the network thread waits.
\<close>

section \<open>Directory requests\<close>

definition processExReqToDirectory :: "nat \<Rightarrow> IntPtr \<Rightarrow> unit hact" where
  "processExReqToDirectory i address =
     bindA (getC i) (\<lambda>c.
     bindA (getCacheState i address) (\<lambda>cstate.
     thenA (assertA (cstate \<noteq> SHARED) (Assert ''ExReq for a Cacheblock in S, should be a UpgradeReq''))
    (thenA (assertA (cstate = INVALID) (Assert ''cstate == INVALID''))
    (bindA (homeOf i address) (\<lambda>home.
       sendMsg i EX_REQ (cc_core_id_master c) home address NULL 0 USER_THREAD)))))"

definition processUpgradeReqToDirectory :: "nat \<Rightarrow> IntPtr \<Rightarrow> thread_t \<Rightarrow> unit hact" where
  "processUpgradeReqToDirectory i address th =
     bindA (getC i) (\<lambda>c.
     bindA (getCacheState i address) (\<lambda>cstate.
     thenA (assertA (cstate = SHARED) (Assert ''cstate == SHARED''))
    (bindA (setCacheState i address SHARED_UPGRADING) (\<lambda>_.
     bindA (homeOf i address) (\<lambda>home.
       sendMsg i UPGRADE_REQ (cc_core_id_master c) home address NULL 0 th)))))"

definition processShReqToDirectory :: "nat \<Rightarrow> IntPtr \<Rightarrow> unit hact" where
  "processShReqToDirectory i address =
     bindA (getC i) (\<lambda>c.
     bindA (homeOf i address) (\<lambda>home.
       sendMsg i SH_REQ (cc_core_id_master c) home address NULL 0 USER_THREAD))"

definition initiateDirectoryAccess :: "nat \<Rightarrow> mem_op_t \<Rightarrow> IntPtr \<Rightarrow> bool \<Rightarrow> time \<Rightarrow> unit hact" where
  "initiateDirectoryAccess i mem_op_type address isPrefetch t_issue =
     thenA (assertA (mem_op_type \<noteq> INVALID_MEM_OP) (Print_Error ''Unsupported Mem Op Type''))
      (let exclusive = (mem_op_type = READ_EX \<or> mem_op_type = WRITE)
       in thenA (modM i (\<lambda>m. m\<lparr>cm_waiters := enqueue address
                   \<lparr>w_exclusive = exclusive, w_isPrefetch = isPrefetch, w_cntlr = i, w_t_issue = t_issue\<rparr> (cm_waiters m)\<rparr>))
         (bindA (getM i) (\<lambda>m.
            whenA (rq_size address (cm_waiters m) = 1)
              (if exclusive
               then bindA (getCacheState i address) (\<lambda>st.
                      if st = SHARED then processUpgradeReqToDirectory i address USER_THREAD
                      else processExReqToDirectory i address)
               else processShReqToDirectory i address))))"

section \<open>Filling from the next level\<close>

definition copyToOwn :: "nat \<Rightarrow> IntPtr \<Rightarrow> bool \<Rightarrow> time \<Rightarrow> cstate_t \<Rightarrow> buffer \<Rightarrow> unit hact" where
  "copyToOwn i address modeled t_now cstate data_buf =
     bindA (getC i) (\<lambda>c.
     bindA (getM i) (\<lambda>m.
     thenA (case cc_next_read_delay c of
              Some delay \<Rightarrow>
                if modeled
                then (let (t_done, nr) = getCompletionTime t_now delay 0 (cm_next_read m)
                      in thenA (modM i (\<lambda>m. m\<lparr>cm_next_read := nr\<rparr>))
                        (thenA (assertA (t_now + delay \<le> t_done) (Assert ''Did not expect next-level cache to be this fast''))
                          (incrElapsedTime i (t_done - t_now - delay) USER_THREAD)))
                else retA ()
            | None \<Rightarrow> retA ())
    (bindA (getCacheBlockInfo i address) (\<lambda>p.
       case p of
         Some r \<Rightarrow> bindA (updateCacheBlock i address cstate UPGRADE NULL) (\<lambda>_. retA ())
       | None \<Rightarrow> bindA (insertCacheBlock i address cstate data_buf (cc_core_id c) USER_THREAD) (\<lambda>_. retA ())))))"

definition copyDataFromNextLevel :: "nat \<Rightarrow> mem_op_t \<Rightarrow> IntPtr \<Rightarrow> bool \<Rightarrow> time \<Rightarrow> unit hact" where
  "copyDataFromNextLevel i mem_op_type address modeled t_now =
     bindA (getC i) (\<lambda>c.
     bindA (deref (cc_next c)) (\<lambda>j.
     bindA (operationPermissibleinCache j address mem_op_type) (\<lambda>ok.
     thenA (assertA ok (Assert ''Tried to read from next-level cache, but data is already gone''))
    (bindA (retrieveCacheBlock j address (Buf None) False) (\<lambda>data_buf.
     bindA (getCacheState j address) (\<lambda>cstate.
       copyToOwn i address modeled t_now cstate data_buf))))))"

section \<open>Prefetch queue\<close>

definition PREFETCH_MAX_QUEUE_LENGTH :: nat where
  "PREFETCH_MAX_QUEUE_LENGTH = 32"

text \<open>One nanosecond in femtoseconds.\<close>

definition PREFETCH_INTERVAL :: time where
  "PREFETCH_INTERVAL = 1000000"

fun fillPrefetchList :: "nat \<Rightarrow> IntPtr list \<Rightarrow> IntPtr list \<Rightarrow> IntPtr list hact" where
  "fillPrefetchList i [] acc = retA acc"
| "fillPrefetchList i (a # as) acc =
     (if length acc > PREFETCH_MAX_QUEUE_LENGTH then retA acc
      else bindA (operationPermissibleinCache i a READ) (\<lambda>ok.
           fillPrefetchList i as (if ok then acc else acc @ [a])))"

definition refillPrefetchList :: "nat \<Rightarrow> IntPtr list \<Rightarrow> time \<Rightarrow> unit hact" where
  "refillPrefetchList i prefetchList t =
     bindA (fillPrefetchList i prefetchList []) (\<lambda>queue.
       modM i (\<lambda>m. m\<lparr>cm_prefetch_list := queue, cm_prefetch_next := t\<rparr>))"

definition trainPrefetcher :: "nat \<Rightarrow> IntPtr \<Rightarrow> bool \<Rightarrow> bool \<Rightarrow> bool \<Rightarrow> time \<Rightarrow> unit hact" where
  "trainPrefetcher i address cache_hit prefetch_hit prefetch_own t_issue =
     bindA (getC i) (\<lambda>c.
     bindA (getM i) (\<lambda>m.
       whenA (cc_train_prefetcher_on_hit c \<or> (\<not> prefetch_own \<and> \<not> cache_hit))
        (bindA (deref (cm_prefetcher m)) (\<lambda>pf.
         bindA (liftA (getNextAddress address (cc_core_id c) pf)) (\<lambda>(prefetchList, pf').
         thenA (modM i (\<lambda>m. m\<lparr>cm_prefetcher := Some pf'\<rparr>))
          (whenA (\<not> cache_hit \<or> (cc_prefetch_on_prefetch_hit c \<and> prefetch_hit))
            (refillPrefetchList i prefetchList
               (if cc_prefetch_delay c then t_issue + PREFETCH_INTERVAL else t_issue))))))))"

text \<open>Addresses that were brought in meanwhile are dropped; the first other one is chosen.\<close>

fun nextToPrefetch :: "nat \<Rightarrow> IntPtr list \<Rightarrow> (IntPtr \<times> IntPtr list) hact" where
  "nextToPrefetch i [] = retA (INVALID_ADDRESS, [])"
| "nextToPrefetch i (a # as) =
     bindA (operationPermissibleinCache i a READ) (\<lambda>ok.
       if ok then nextToPrefetch i as else retA (a, as))"

section \<open>Requests from the previous level\<close>

definition hitCounters :: "nat \<Rightarrow> prefetch_type_t \<Rightarrow> block_ref \<Rightarrow> bool hact" where
  "hitCounters i isPrefetch r =
     bindA (block i r) (\<lambda>b.
       (let prefetch_hit = (isPrefetch = NONE \<and> hasOption PREFETCH b)
        in thenA (whenA prefetch_hit (thenA (count i S_hits_prefetch) (modBlock i r (clearOption PREFETCH))))
          (bindA (getA h_cache_only) (\<lambda>cache_only.
           thenA (whenA (hasOption WARMUP b \<and> \<not> cache_only)
                    (thenA (count i S_hits_warmup) (modBlock i r (clearOption WARMUP))))
             (retA prefetch_hit)))))"

definition reqHitDelay :: "nat \<Rightarrow> IntPtr \<Rightarrow> unit hact" where
  "reqHitDelay i address =
     bindA (now i USER_THREAD) (\<lambda>t_now.
     bindA (getM i) (\<lambda>m.
       case mshr_pending address t_now (cm_mshr m) of
         Some t_complete \<Rightarrow>
           thenA (addStat i S_mshr_latency (t_complete - t_now)) (incrElapsedTime i (t_complete - t_now) USER_THREAD)
       | None \<Rightarrow> incrAccessTime i ACCESS_CACHE_DATA_AND_TAGS USER_THREAD))"

text \<open>Where the data came from: the reply of the directory leaves its source behind.\<close>

definition reqHitWhere :: "nat \<Rightarrow> bool \<Rightarrow> bool \<Rightarrow> (where_t \<times> bool) hact" where
  "reqHitWhere i sibling_hit prefetch_hit =
     bindA (getC i) (\<lambda>c.
       if cc_last_remote_hit_where c \<noteq> WHERE_UNKNOWN
       then thenA (modC i (\<lambda>c. c\<lparr>cc_last_remote_hit_where := WHERE_UNKNOWN\<rparr>))
              (retA (cc_last_remote_hit_where c, prefetch_hit))
       else retA (where_component (cc_mem_component c) + (if sibling_hit then SIBLING else 0), prefetch_hit))"

text \<open>The hit branch: the other previous levels give up their copies or write them back.\<close>

definition reqHit :: "nat \<Rightarrow> nat \<Rightarrow> mem_op_t \<Rightarrow> IntPtr \<Rightarrow> bool \<Rightarrow> prefetch_type_t \<Rightarrow> block_ref \<Rightarrow> (where_t \<times> bool) hact" where
  "reqHit i requester mem_op_type address modeled isPrefetch r =
     bindA (hitCounters i isPrefetch r) (\<lambda>prefetch_hit.
     thenA (whenA modeled (reqHitDelay i address))
    (bindA (block i r) (\<lambda>b.
     bindA (if mem_op_type \<noteq> READ
            then snoopAndWait i (Some requester) address INVALID COHERENCY USER_THREAD
            else if m_cstate b = MODIFIED
            then snoopAndWait i (Some requester) address SHARED COHERENCY USER_THREAD
            else if m_cstate b = EXCLUSIVE
            then snoopAndWait i (Some requester) address SHARED COHERENCY USER_THREAD
            else retA False) (\<lambda>sibling_hit.
       reqHitWhere i sibling_hit prefetch_hit))))"

text \<open>A miss in the last level: a silent upgrade, a direct memory access or a directory request.\<close>

definition llcDramFill :: "nat \<Rightarrow> mem_op_t \<Rightarrow> IntPtr \<Rightarrow> prefetch_type_t \<Rightarrow> where_t hact" where
  "llcDramFill i mem_op_type address isPrefetch =
     bindA (getC i) (\<lambda>c.
     bindA (accessDRAM i READ address (Buf None)) (\<lambda>(hit_where, latency, data_buf).
     thenA (incrElapsedTime i latency USER_THREAD)
    (bindA (insertCacheBlock i address (if mem_op_type = READ then SHARED else MODIFIED) data_buf (cc_core_id c) USER_THREAD) (\<lambda>_.
     thenA (whenA (isPrefetch \<noteq> NONE)
              (bindA (getCacheBlockInfo i address) (\<lambda>p. bindA (deref p) (\<lambda>r. modBlock i r (setOption PREFETCH)))))
    (thenA (updateUncoreStatistics i hit_where) (retA hit_where))))))"

definition llcMiss ::
  "nat \<Rightarrow> nat \<Rightarrow> mem_op_t \<Rightarrow> IntPtr \<Rightarrow> prefetch_type_t \<Rightarrow> time \<Rightarrow> block_ref option \<Rightarrow> (bool \<times> where_t) hact" where
  "llcMiss i requester mem_op_type address isPrefetch t_issue p =
     bindA (getC i) (\<lambda>c.
     bindA (getM i) (\<lambda>m.
     bindA (stateOf i p) (\<lambda>st.
       case p of
         Some r \<Rightarrow>
           if st = EXCLUSIVE
           then bindA (snoopAndWait i (Some requester) address INVALID UPGRADE USER_THREAD) (\<lambda>_.
                thenA (setCState i r MODIFIED) (retA (True, where_component (cc_mem_component c))))
           else if cm_dram m
           then thenA (setCState i r MODIFIED) (retA (True, where_component (cc_mem_component c)))
           else thenA (initiateDirectoryAccess i mem_op_type address (isPrefetch \<noteq> NONE) t_issue) (retA (False, MISS))
       | None \<Rightarrow>
           if cm_dram m
           then bindA (llcDramFill i mem_op_type address isPrefetch) (\<lambda>hit_where. retA (True, hit_where))
           else thenA (initiateDirectoryAccess i mem_op_type address (isPrefetch \<noteq> NONE) t_issue) (retA (False, MISS)))))"

definition reqMissPrepare :: "nat \<Rightarrow> nat \<Rightarrow> IntPtr \<Rightarrow> bool \<Rightarrow> block_ref option \<Rightarrow> unit hact" where
  "reqMissPrepare i requester address modeled p =
     thenA (whenA modeled (incrAccessTime i ACCESS_CACHE_TAGS USER_THREAD))
    (bindA (stateOf i p) (\<lambda>st.
       whenA (st = SHARED)
         (bindA (snoopAndWait i (Some requester) address INVALID UPGRADE USER_THREAD) (\<lambda>_. retA ()))))"

text \<open>What the request finds: a perfect cache always hits, a pass-through cache gives its line away.\<close>

definition reqLookup ::
  "nat \<Rightarrow> mem_op_t \<Rightarrow> IntPtr \<Rightarrow> bool \<Rightarrow> (bool \<times> bool \<times> block_ref option) hact" where
  "reqLookup i mem_op_type address count_it =
     bindA (getC i) (\<lambda>c.
     bindA (operationPermissibleinCache i address mem_op_type) (\<lambda>cache_hit.
     bindA (getCacheBlockInfo i address) (\<lambda>p.
       if \<not> cache_hit \<and> cc_perfect c
       then (case p of
               Some r \<Rightarrow> thenA (setCState i r MODIFIED) (retA (True, False, p))
             | None \<Rightarrow>
                 bindA (insertCacheBlock i address (if mem_op_type = READ then SHARED else MODIFIED) NULL (cc_core_id c) USER_THREAD)
                   (\<lambda>r. retA (True, False, Some r)))
       else if cache_hit \<and> cc_passthrough c \<and> count_it
       then bindA (deref p) (\<lambda>r.
            thenA (modBlock i r invalidate)
           (thenA (assertA (cc_next c \<noteq> None) (Assert ''Cannot do passthrough on an LLC''))
             (retA (False, False, None))))
       else retA (cache_hit, cache_hit, p))))"

definition reqFinish ::
  "nat \<Rightarrow> IntPtr \<Rightarrow> bool \<Rightarrow> bool \<Rightarrow> prefetch_type_t \<Rightarrow> time \<Rightarrow> bool \<Rightarrow> bool \<Rightarrow> bool \<Rightarrow> unit hact" where
  "reqFinish i address modeled count_it isPrefetch t_issue cache_hit first_hit prefetch_hit =
     bindA (getC i) (\<lambda>c.
     thenA (whenA cache_hit
       (bindA (retrieveCacheBlock i address (Buf None) (first_hit \<and> count_it)) (\<lambda>_.
          whenA (modeled \<and> \<not> first_hit \<and> \<not> cc_passthrough c)
            (bindA (now i USER_THREAD) (\<lambda>t.
             thenA (modM i (\<lambda>m. m\<lparr>cm_mshr := mshr_set address (make_mshr t_issue t) (cm_mshr m)\<rparr>))
               (cleanupMshr i))))))
     (bindA (getM i) (\<lambda>m.
        whenA (modeled \<and> cm_prefetcher m \<noteq> None)
          (trainPrefetcher i address cache_hit prefetch_hit (isPrefetch = OWN) t_issue))))"

primrec processShmemReq_upto ::
  "nat \<Rightarrow> nat \<Rightarrow> nat \<Rightarrow> mem_op_t \<Rightarrow> IntPtr \<Rightarrow> bool \<Rightarrow> bool \<Rightarrow> prefetch_type_t \<Rightarrow> time \<Rightarrow> where_t hact" where
  "processShmemReq_upto 0 i requester mem_op_type address modeled count_it isPrefetch t_issue = failA Diverges"
| "processShmemReq_upto (Suc n) i requester mem_op_type address modeled count_it isPrefetch t_issue =
     bindA (reqLookup i mem_op_type address count_it) (\<lambda>(hit0, first_hit, p).
     bindA (getC i) (\<lambda>c.
     thenA (whenA count_it
       (thenA (whenA (isPrefetch = NONE) (modM i (\<lambda>m. m\<lparr>cm_cache := cache_updateCounters hit0 (cm_cache m)\<rparr>)))
         (bindA (getCacheState i address) (\<lambda>st. updateCounters i mem_op_type address hit0 st isPrefetch))))
    (bindA (if hit0
            then bindA (deref p) (\<lambda>r.
                 bindA (reqHit i requester mem_op_type address modeled isPrefetch r) (\<lambda>(hit_where, prefetch_hit).
                   retA (True, hit_where, prefetch_hit)))
            else thenA (reqMissPrepare i requester address modeled p)
                  (case cc_next c of
                     Some j \<Rightarrow>
                       thenA (whenA (p \<noteq> None) (invalidateCacheBlock i address))
                      (bindA (processShmemReq_upto n j i mem_op_type address modeled count_it
                               (if isPrefetch = NONE then NONE else OTHER) t_issue) (\<lambda>hit_where.
                         if hit_where = MISS then retA (False, MISS, False)
                         else bindA (now i USER_THREAD) (\<lambda>t_now.
                              thenA (copyDataFromNextLevel i mem_op_type address modeled t_now)
                             (thenA (whenA (isPrefetch \<noteq> NONE)
                                       (bindA (getCacheBlockInfo i address) (\<lambda>q. bindA (deref q) (\<lambda>r. modBlock i r (setOption PREFETCH)))))
                               (retA (True, hit_where, False))))))
                   | None \<Rightarrow>
                       bindA (llcMiss i requester mem_op_type address isPrefetch t_issue p) (\<lambda>(cache_hit, hit_where).
                         retA (cache_hit, hit_where, False)))) (\<lambda>(cache_hit, hit_where, prefetch_hit).
     thenA (reqFinish i address modeled count_it isPrefetch t_issue cache_hit first_hit prefetch_hit)
       (retA hit_where)))))"

definition processShmemReqFromPrevCache ::
  "nat \<Rightarrow> nat \<Rightarrow> mem_op_t \<Rightarrow> IntPtr \<Rightarrow> bool \<Rightarrow> bool \<Rightarrow> prefetch_type_t \<Rightarrow> time \<Rightarrow> where_t hact" where
  "processShmemReqFromPrevCache i requester mem_op_type address modeled count_it isPrefetch t_issue =
     (\<lambda>s. processShmemReq_upto (length (h_cntlrs s)) i requester mem_op_type address modeled count_it isPrefetch t_issue s)"

section \<open>Prefetching\<close>

definition doPrefetch :: "(nat \<Rightarrow> unit hact) \<Rightarrow> nat \<Rightarrow> IntPtr \<Rightarrow> time \<Rightarrow> unit hact" where
  "doPrefetch net i prefetch_address t_start =
     thenA (count i S_prefetches)
    (bindA (now i USER_THREAD) (\<lambda>t_before.
     thenA (setTime i USER_THREAD t_start)
    (bindA (processShmemReqFromPrevCache i i READ prefetch_address True True OWN t_start) (\<lambda>hit_where.
     thenA (whenA (hit_where = MISS)
       (thenA (net i)
         (bindA (processShmemReqFromPrevCache i i READ prefetch_address False False OWN t_start) (\<lambda>hit_where'.
            assertA (hit_where' \<noteq> MISS) (Assert ''Line was not there after prefetch'')))))
     (setTime i USER_THREAD t_before)))))"

definition popPrefetch :: "nat \<Rightarrow> IntPtr hact" where
  "popPrefetch i =
     bindA (getM i) (\<lambda>m. bindA (nextToPrefetch i (cm_prefetch_list m)) (\<lambda>(a, rest).
       thenA (modM i (\<lambda>m. m\<lparr>cm_prefetch_list := rest\<rparr>)) (retA a)))"

primrec Prefetch_upto :: "nat \<Rightarrow> (nat \<Rightarrow> unit hact) \<Rightarrow> nat \<Rightarrow> time \<Rightarrow> unit hact" where
  "Prefetch_upto 0 net i t_now = failA Diverges"
| "Prefetch_upto (Suc n) net i t_now =
     bindA (getM i) (\<lambda>m.
     bindA (if cm_prefetch_next m \<le> t_now
            then popPrefetch i
            else retA INVALID_ADDRESS) (\<lambda>address_to_prefetch.
     thenA (whenA (address_to_prefetch \<noteq> INVALID_ADDRESS)
       (thenA (doPrefetch net i address_to_prefetch (cm_prefetch_next m))
         (modM i (\<lambda>m. m\<lparr>cm_prefetch_next := cm_prefetch_next m + PREFETCH_INTERVAL\<rparr>))))
     (bindA (getC i) (\<lambda>c.
        case cc_next c of None \<Rightarrow> retA () | Some j \<Rightarrow> Prefetch_upto n net j t_now))))"

definition Prefetch :: "(nat \<Rightarrow> unit hact) \<Rightarrow> nat \<Rightarrow> time \<Rightarrow> unit hact" where
  "Prefetch net i t_now = (\<lambda>s. Prefetch_upto (length (h_cntlrs s)) net i t_now s)"

section \<open>Usage bits\<close>

primrec updateUsageBits_upto :: "nat \<Rightarrow> nat \<Rightarrow> IntPtr \<Rightarrow> UInt8 \<Rightarrow> unit hact" where
  "updateUsageBits_upto 0 i address used = failA Diverges"
| "updateUsageBits_upto (Suc n) i address used =
     bindA (getC i) (\<lambda>c.
     bindA (getCacheBlockInfo i address) (\<lambda>p.
     bindA (deref p) (\<lambda>r.
     bindA (block i r) (\<lambda>b.
       (let (new_bits, b') = updateUsage_mask used b
        in thenA (modBlock i r (\<lambda>b. b\<lparr>m_used := m_used b'\<rparr>))
            (if new_bits \<and> \<not> cc_perfect c
             then (case cc_next c of None \<Rightarrow> retA () | Some j \<Rightarrow> updateUsageBits_upto n j address used)
             else retA ()))))))"

definition updateUsageBits :: "nat \<Rightarrow> IntPtr \<Rightarrow> UInt8 \<Rightarrow> unit hact" where
  "updateUsageBits i address used = (\<lambda>s. updateUsageBits_upto (length (h_cntlrs s)) i address used s)"

section \<open>Operations of the core\<close>

definition memOpLookup ::
  "nat \<Rightarrow> mem_op_t \<Rightarrow> IntPtr \<Rightarrow> (bool \<times> block_ref option) hact" where
  "memOpLookup i mem_op_type ca_address =
     bindA (getC i) (\<lambda>c.
     bindA (operationPermissibleinCache i ca_address mem_op_type) (\<lambda>cache_hit.
     bindA (getCacheBlockInfo i ca_address) (\<lambda>p.
       if \<not> cache_hit \<and> cc_perfect c
       then (case p of
               Some r \<Rightarrow> thenA (setCState i r MODIFIED) (retA (True, p))
             | None \<Rightarrow>
                 bindA (insertCacheBlock i ca_address (if mem_op_type = READ then SHARED else MODIFIED) NULL (cc_core_id c) USER_THREAD) (\<lambda>_.
                 bindA (getCacheBlockInfo i ca_address) (\<lambda>q. retA (True, q))))
       else if cache_hit \<and> cc_passthrough c
       then bindA (deref p) (\<lambda>r. thenA (modBlock i r invalidate) (retA (False, None)))
       else retA (cache_hit, p))))"

definition memOpHit :: "nat \<Rightarrow> mem_op_t \<Rightarrow> IntPtr \<Rightarrow> bool \<Rightarrow> block_ref \<Rightarrow> (where_t \<times> bool) hact" where
  "memOpHit i mem_op_type ca_address modeled r =
     bindA (getC i) (\<lambda>c.
     thenA (incrAccessTime i ACCESS_CACHE_DATA_AND_TAGS USER_THREAD)
    (bindA (hitCounters i NONE r) (\<lambda>prefetch_hit.
     thenA (whenA (modeled \<and> cc_l1_mshr c)
       (bindA (now i USER_THREAD) (\<lambda>t_now.
        bindA (getM i) (\<lambda>m.
          (let t_completed = getTagCompletionTime ca_address (cm_l1_mshr m)
           in whenA (t_completed \<noteq> MaxTime \<and> t_now < t_completed)
                (thenA (count i (if mem_op_type = WRITE then S_store_overlapping_misses else S_load_overlapping_misses))
                  (incrElapsedTime i (t_completed - t_now) USER_THREAD)))))))
    (thenA (whenA modeled
       (bindA (now i USER_THREAD) (\<lambda>t_now.
        bindA (getM i) (\<lambda>m.
          case mshr_pending ca_address t_now (cm_mshr m) of
            Some t_complete \<Rightarrow>
              thenA (addStat i S_mshr_latency (t_complete - t_now)) (incrElapsedTime i (t_complete - t_now) USER_THREAD)
          | None \<Rightarrow> retA ()))))
      (retA (where_component (cc_mem_component c), prefetch_hit))))))"

definition memOpMiss ::
  "(nat \<Rightarrow> unit hact) \<Rightarrow> nat \<Rightarrow> lock_signal_t \<Rightarrow> mem_op_t \<Rightarrow> IntPtr \<Rightarrow> bool \<Rightarrow> bool \<Rightarrow> time \<Rightarrow> where_t hact" where
  "memOpMiss net i lock_signal mem_op_type ca_address modeled count_it t_start =
     bindA (getC i) (\<lambda>c.
     thenA (whenA (\<not> cc_passthrough c) (incrAccessTime i ACCESS_CACHE_TAGS USER_THREAD))
    (bindA (now i USER_THREAD) (\<lambda>t_miss_begin.
     bindA (if modeled \<and> cc_l1_mshr c \<and> \<not> cc_passthrough c
            then bindA (getM i) (\<lambda>m.
                   (let t_mshr_avail = getStartTime t_miss_begin (cm_l1_mshr m)
                    in thenA (assertA (t_miss_begin \<le> t_mshr_avail) (Assert ''t_mshr_avail < t_miss_begin''))
                      (thenA (incrElapsedTime i (t_mshr_avail - t_miss_begin) USER_THREAD)
                      (thenA (addStat i S_mshr_latency (t_mshr_avail - t_miss_begin)) (retA t_mshr_avail)))))
            else retA t_miss_begin) (\<lambda>t_mshr_avail.
     thenA (assertA (lock_signal \<noteq> UNLOCK) (Print_Error ''Expected to find address in L1 Cache''))
    (bindA (getCacheState i ca_address) (\<lambda>st.
     thenA (whenA (st \<noteq> INVALID) (invalidateCacheBlock i ca_address))
    (bindA (deref (cc_next c)) (\<lambda>j.
     bindA (processShmemReqFromPrevCache j i mem_op_type ca_address modeled count_it NONE t_start) (\<lambda>hit_where0.
     bindA (if hit_where0 \<noteq> MISS then retA hit_where0
            else thenA (net i)
                  (bindA (processShmemReqFromPrevCache j i mem_op_type ca_address False False NONE t_start) (\<lambda>hit_where.
                   thenA (assertA (hit_where \<noteq> MISS) (Assert ''Tried to read in next-level cache, but data is already gone''))
                     (retA hit_where)))) (\<lambda>hit_where.
     bindA (now i USER_THREAD) (\<lambda>t_now.
     thenA (copyDataFromNextLevel i mem_op_type ca_address modeled t_now)
    (bindA (operationPermissibleinCache i ca_address mem_op_type) (\<lambda>ok.
     thenA (assertA ok (Assert ''Expected to be valid in L1''))
    (thenA (whenA (modeled \<and> cc_l1_mshr c \<and> \<not> cc_passthrough c)
       (bindA (now i USER_THREAD) (\<lambda>t_miss_end.
          modM i (\<lambda>m. m\<lparr>cm_l1_mshr := snd (getCompletionTime t_miss_begin (t_miss_end - t_mshr_avail) ca_address (cm_l1_mshr m))\<rparr>))))
      (retA hit_where)))))))))))))))"

definition memOpUsage :: "nat \<Rightarrow> IntPtr \<Rightarrow> UInt32 \<Rightarrow> UInt32 \<Rightarrow> bool \<Rightarrow> unit hact" where
  "memOpUsage i ca_address offset data_length modeled =
     bindA (getC i) (\<lambda>c.
     bindA (getA h_efficiency) (\<lambda>eff.
       case cc_next c of
         Some j \<Rightarrow>
           whenA (modeled \<and> \<not> cc_perfect c \<and> eff \<noteq> None)
             (bindA (getCacheBlockInfo i ca_address) (\<lambda>p.
              bindA (deref p) (\<lambda>r.
              bindA (block i r) (\<lambda>b.
              bindA (liftA (updateUsage offset data_length b)) (\<lambda>(new_bits, b').
              thenA (modBlock i r (\<lambda>b. b\<lparr>m_used := m_used b'\<rparr>))
                (whenA new_bits (updateUsageBits j ca_address (m_used b'))))))))
       | None \<Rightarrow> retA ()))"

definition processMemOpFromCore ::
  "(nat \<Rightarrow> unit hact) \<Rightarrow> nat \<Rightarrow> lock_signal_t \<Rightarrow> mem_op_t \<Rightarrow> IntPtr \<Rightarrow> UInt32 \<Rightarrow> buffer \<Rightarrow> UInt32 \<Rightarrow> bool \<Rightarrow> bool
    \<Rightarrow> (where_t \<times> buffer) hact" where
  "processMemOpFromCore net i lock_signal mem_op_type ca_address offset data_buf data_length modeled count_it =
     bindA (getC i) (\<lambda>c.
     thenA (assertA (ca_address AND ucast (cc_block_size c - 1) = 0) (Assert ''address at cache line + offset''))
    (thenA (assertA (offset + data_length \<le> cc_block_size c) (Assert ''access past the block''))
    (bindA (now i USER_THREAD) (\<lambda>t_start.
     bindA (memOpLookup i mem_op_type ca_address) (\<lambda>(cache_hit, p).
     thenA (whenA count_it
       (thenA (modM i (\<lambda>m. m\<lparr>cm_cache := cache_updateCounters cache_hit (cm_cache m)\<rparr>))
         (bindA (stateOf i p) (\<lambda>st. updateCounters i mem_op_type ca_address cache_hit st NONE))))
    (bindA (if cache_hit then bindA (deref p) (memOpHit i mem_op_type ca_address modeled)
            else bindA (memOpMiss net i lock_signal mem_op_type ca_address modeled count_it t_start) (\<lambda>w. retA (w, False)))
       (\<lambda>(hit_where, prefetch_hit).
     thenA (memOpUsage i ca_address offset data_length modeled)
    (bindA (accessCache i mem_op_type ca_address offset data_buf data_length
              (hit_where = where_component (cc_mem_component c) \<and> count_it)) (\<lambda>buf.
     bindA (now i USER_THREAD) (\<lambda>t_now.
     thenA (whenA (\<not> cache_hit \<and> count_it) (addStat i S_total_latency (t_now - t_start)))
    (thenA (count i (if mem_op_type = WRITE then S_stores_where hit_where else S_loads_where hit_where))
    (bindA (getM i) (\<lambda>m.
     thenA (whenA (modeled \<and> cm_prefetcher m \<noteq> None) (trainPrefetcher i ca_address cache_hit prefetch_hit False t_start))
    (thenA (whenA (lock_signal \<noteq> LOCK \<and> modeled) (Prefetch net i t_start))
      (retA (hit_where, buf))))))))))))))))"

section \<open>Messages from the directory\<close>

definition processExRep :: "nat \<Rightarrow> core_id_t \<Rightarrow> shmem_msg \<Rightarrow> unit hact" where
  "processExRep i requester msg =
     bindA (insertCacheBlock i (msg_address msg) EXCLUSIVE (msg_data_buf msg) requester SIM_THREAD) (\<lambda>_. retA ())"

definition processShRep :: "nat \<Rightarrow> core_id_t \<Rightarrow> shmem_msg \<Rightarrow> unit hact" where
  "processShRep i requester msg =
     bindA (insertCacheBlock i (msg_address msg) SHARED (msg_data_buf msg) requester SIM_THREAD) (\<lambda>_. retA ())"

definition processUpgradeRep :: "nat \<Rightarrow> shmem_msg \<Rightarrow> unit hact" where
  "processUpgradeRep i msg =
     bindA (getCacheState i (msg_address msg)) (\<lambda>cstate.
       if cstate = INVALID
       then thenA (assertA (msg_data_buf msg \<noteq> NULL) (Assert ''Trying to upgrade a block that is now INV and no data in the shmem_msg''))
             (bindA (updateCacheBlock i (msg_address msg) MODIFIED UPGRADE (msg_data_buf msg)) (\<lambda>_. retA ()))
       else if cstate = SHARED_UPGRADING
       then bindA (updateCacheBlock i (msg_address msg) MODIFIED UPGRADE NULL) (\<lambda>_. retA ())
       else failA (Print_Error ''Trying to upgrade a block that is not SHARED_UPGRADING''))"

definition processInvReq :: "nat \<Rightarrow> core_id_t \<Rightarrow> shmem_msg \<Rightarrow> unit hact" where
  "processInvReq i sender msg =
     bindA (getCacheState i (msg_address msg)) (\<lambda>cstate.
     thenA (incrAccessTime i ACCESS_CACHE_TAGS SIM_THREAD)
       (whenA (cstate \<noteq> INVALID)
         (bindA (updateCacheBlock i (msg_address msg) INVALID COHERENCY NULL) (\<lambda>_.
            sendMsg i INV_REP (msg_requester msg) sender (msg_address msg) NULL 0 SIM_THREAD))))"

definition processFlushReq :: "nat \<Rightarrow> core_id_t \<Rightarrow> shmem_msg \<Rightarrow> unit hact" where
  "processFlushReq i sender msg =
     bindA (getC i) (\<lambda>c.
     bindA (getCacheState i (msg_address msg)) (\<lambda>cstate.
       if cstate \<noteq> INVALID
       then thenA (incrAccessTime i ACCESS_CACHE_DATA_AND_TAGS SIM_THREAD)
             (bindA (updateCacheBlock i (msg_address msg) INVALID COHERENCY (Buf None)) (\<lambda>(latency, sib, data_buf).
                sendMsg i FLUSH_REP (msg_requester msg) sender (msg_address msg) data_buf (cc_block_size c) SIM_THREAD))
       else incrAccessTime i ACCESS_CACHE_TAGS SIM_THREAD))"

definition processWbReq :: "nat \<Rightarrow> core_id_t \<Rightarrow> shmem_msg \<Rightarrow> unit hact" where
  "processWbReq i sender msg =
     bindA (getC i) (\<lambda>c.
     bindA (getCacheState i (msg_address msg)) (\<lambda>cstate.
       if cstate \<noteq> INVALID
       then thenA (incrAccessTime i ACCESS_CACHE_DATA_AND_TAGS SIM_THREAD)
             (bindA (if cstate \<noteq> SHARED_UPGRADING
                     then bindA (updateCacheBlock i (msg_address msg) SHARED COHERENCY (Buf None)) (\<lambda>(latency, sib, buf). retA buf)
                     else retA (Buf None)) (\<lambda>data_buf.
                sendMsg i WB_REP (msg_requester msg) sender (msg_address msg) data_buf (cc_block_size c) SIM_THREAD))
       else incrAccessTime i ACCESS_CACHE_TAGS SIM_THREAD))"

definition isReply :: "msg_t \<Rightarrow> bool" where
  "isReply ty \<longleftrightarrow> ty = EX_REP \<or> ty = SH_REP \<or> ty = UPGRADE_REP"

text \<open>
  The loop that wakes the waiting cores. The bound is a parameter: a woken core may queue new
  requests. A waiter that needs the line exclusively while it is shared ends the loop with an
  upgrade request.
\<close>

definition dequeueWaiter :: "nat \<Rightarrow> IntPtr \<Rightarrow> unit hact" where
  "dequeueWaiter i address =
     bindA (getM i) (\<lambda>m.
     bindA (liftA (dequeue address (cm_waiters m))) (\<lambda>(_, q).
       modM i (\<lambda>m. m\<lparr>cm_waiters := q\<rparr>)))"

primrec wakeWaiters :: "nat \<Rightarrow> (nat \<Rightarrow> unit hact) \<Rightarrow> nat \<Rightarrow> shmem_msg \<Rightarrow> unit hact" where
  "wakeWaiters 0 usr i msg = failA Diverges"
| "wakeWaiters (Suc n) usr i msg =
     (let address = msg_address msg
      in bindA (getM i) (\<lambda>m.
           if rq_empty address (cm_waiters m) then retA ()
           else bindA (liftA (rq_front address (cm_waiters m))) (\<lambda>request.
                bindA (getCacheState i address) (\<lambda>st.
                  if w_exclusive request \<and> st = SHARED
                  then processUpgradeReqToDirectory i address SIM_THREAD
                  else
                    thenA (whenA (w_isPrefetch request)
                             (bindA (getCacheBlockInfo i address) (\<lambda>p. bindA (deref p) (\<lambda>r. modBlock i r (setOption PREFETCH)))))
                   (bindA (now (w_cntlr request) USER_THREAD) (\<lambda>t_core.
                    bindA (now i SIM_THREAD) (\<lambda>t_here.
                    thenA (whenA (t_core < t_here) (setTime (w_cntlr request) USER_THREAD t_here))
                   (thenA (updateUncoreStatistics (w_cntlr request) (msg_where msg))
                   (thenA (usr (w_cntlr request))
                   (bindA (now i SIM_THREAD) (\<lambda>t_done.
                    thenA (modM (w_cntlr request) (\<lambda>m. m\<lparr>cm_mshr := mshr_set address (make_mshr (w_t_issue request) t_done) (cm_mshr m)\<rparr>))
                   (thenA (cleanupMshr i)
                   (thenA (dequeueWaiter i address)
                      (wakeWaiters n usr i msg))))))))))))))"

definition handleMsgFromDramDirectory ::
  "nat \<Rightarrow> (nat \<Rightarrow> unit hact) \<Rightarrow> nat \<Rightarrow> core_id_t \<Rightarrow> shmem_msg \<Rightarrow> unit hact" where
  "handleMsgFromDramDirectory bound usr i sender msg =
     bindA (getM i) (\<lambda>m.
     bindA (if isReply (msg_type msg)
            then bindA (liftA (rq_front (msg_address msg) (cm_waiters m))) (\<lambda>request.
                 bindA (getC (w_cntlr request)) (\<lambda>c. retA (cc_core_id c)))
            else retA (- 1)) (\<lambda>requester.
     thenA (case msg_type msg of
              EX_REP \<Rightarrow> processExRep i requester msg
            | SH_REP \<Rightarrow> processShRep i requester msg
            | UPGRADE_REP \<Rightarrow> processUpgradeRep i msg
            | INV_REQ \<Rightarrow> processInvReq i sender msg
            | FLUSH_REQ \<Rightarrow> processFlushReq i sender msg
            | WB_REQ \<Rightarrow> processWbReq i sender msg
            | _ \<Rightarrow> failA (Print_Error ''Unrecognized msg type''))
       (whenA (isReply (msg_type msg)) (wakeWaiters bound usr i msg))))"

end
