(* ===== verification/Cntlr_Steps.thy ===== *)
theory Cntlr_Steps
  imports Cntlr_Requests
begin

text \<open>
  Every operation of the controllers is a sequence of a few kinds of primitive steps. A property
  that the primitive steps keep is kept by every operation; it is proved once, for a predicate that
  is closed under the steps, and used for the invariant of the hierarchy, for the topology and for
  the set of resident lines.
\<close>

section \<open>Primitive steps\<close>

text \<open>What happens to one cache when no line is inserted.\<close>

inductive cache_step :: "cache \<Rightarrow> cache \<Rightarrow> bool" where
  same: "cache_step c c"
| access: "accessSingleLine a ty buff n ur c = Inr (r, out, c') \<Longrightarrow> cache_step c c'"
| drop: "invalidateSingleLine a c = Inr (found, c') \<Longrightarrow> cache_step c c'"
| annotate: "m_tag b = m_tag (block_at c r) \<Longrightarrow>
    m_cstate b = m_cstate (block_at c r) \<or> m_cstate b \<noteq> INVALID \<Longrightarrow> cache_step c (set_block r b c)"
| discard: "cache_step c (set_block r (invalidate (block_at c r)) c)"
| counted: "cache_step c (cache_updateCounters hit c)"

text \<open>A change of the master object that leaves the cache and the links alone.\<close>

definition master_frame :: "cache_master \<Rightarrow> cache_master \<Rightarrow> bool" where
  "master_frame m m' \<longleftrightarrow>
     cm_cache m' = cm_cache m \<and> cm_prev m' = cm_prev m \<and>
     (rq_inv (cm_waiters m) \<longrightarrow> rq_inv (cm_waiters m')) \<and>
     (length (cm_prefetch_list m) \<le> 33 \<longrightarrow> length (cm_prefetch_list m') \<le> 33)"

definition cntlr_frame :: "cache_cntlr \<Rightarrow> cache_cntlr \<Rightarrow> bool" where
  "cntlr_frame c c' \<longleftrightarrow> (\<exists>st w. c' = c\<lparr>cc_stats := st, cc_last_remote_hit_where := w\<rparr>)"

lemma cntlr_frame_stats: "cntlr_frame c (c\<lparr>cc_stats := st\<rparr>)"
  unfolding cntlr_frame_def by (rule exI [of _ st], rule exI [of _ "cc_last_remote_hit_where c"]) simp

lemma cntlr_frame_where: "cntlr_frame c (c\<lparr>cc_last_remote_hit_where := w\<rparr>)"
  unfolding cntlr_frame_def by (rule exI [of _ "cc_stats c"], rule exI [of _ w]) simp

definition put_cntlr :: "nat \<Rightarrow> cache_cntlr \<Rightarrow> hier \<Rightarrow> hier" where
  "put_cntlr i c s = s\<lparr>h_cntlrs := (h_cntlrs s)[i := c]\<rparr>"

definition put_master :: "nat \<Rightarrow> cache_master \<Rightarrow> hier \<Rightarrow> hier" where
  "put_master k m s = s\<lparr>h_masters := (h_masters s)[k := m]\<rparr>"

definition master_at :: "hier \<Rightarrow> nat \<Rightarrow> cache_master" where
  "master_at s i = h_masters s ! cc_master (h_cntlrs s ! i)"

inductive cost_step :: "hier \<Rightarrow> hier \<Rightarrow> bool" where
  stat: "i < length (h_cntlrs s) \<Longrightarrow> cntlr_frame (h_cntlrs s ! i) c \<Longrightarrow> cost_step s (put_cntlr i c s)"
| clock: "cost_step s (s\<lparr>h_clock := ck\<rparr>)"

inductive quiet_step :: "hier \<Rightarrow> hier \<Rightarrow> bool" where
  cost: "cost_step s s' \<Longrightarrow> quiet_step s s'"
| send: "quiet_step s (s\<lparr>h_net := h_net s @ ps\<rparr>)"
| memory: "quiet_step s (s\<lparr>h_dram := d\<rparr>)"
| undo: "onUndo u (insertUndoEntry (m_system_eid (h_em s)) b) s = Inr (x, s') \<Longrightarrow> quiet_step s s'"
| master: "k < length (h_masters s) \<Longrightarrow> master_frame (h_masters s ! k) m \<Longrightarrow> quiet_step s (put_master k m s)"
| cache: "k < length (h_masters s) \<Longrightarrow> cache_step (cm_cache (h_masters s ! k)) c \<Longrightarrow>
    quiet_step s (put_master k ((h_masters s ! k)\<lparr>cm_cache := c\<rparr>) s)"

text \<open>
  A line that is not in the cache is inserted and given a valid state; between the two, the
  look-ups of the policy are charged.
\<close>

inductive fill_step :: "hier \<Rightarrow> hier \<Rightarrow> bool" where
  fill: "k < length (h_masters s) \<Longrightarrow> c = cm_cache (h_masters s ! k) \<Longrightarrow>
    peekSingleLine a c = Inr p \<Longrightarrow> (\<forall>r. p = Some r \<longrightarrow> m_cstate (block_at c r) = INVALID) \<Longrightarrow>
    insertSingleLine a data ev True cn c = Inr (out, evict_addr, c1) \<Longrightarrow>
    cost_step\<^sup>*\<^sup>* (put_master k ((h_masters s ! k)\<lparr>cm_cache := c1\<rparr>) s) s2 \<Longrightarrow>
    peekSingleLine a c1 = Inr (Some r) \<Longrightarrow> cstate \<noteq> INVALID \<Longrightarrow>
    fill_step s (put_master k ((h_masters s2 ! k)\<lparr>cm_cache := set_block r ((block_at c1 r)\<lparr>m_cstate := cstate\<rparr>) c1\<rparr>) s2)"

section \<open>Dereferencing\<close>

lemma getC_Inr [action_simps]: "getC i s = Inr (c, s') \<longleftrightarrow> i < length (h_cntlrs s) \<and> c = h_cntlrs s ! i \<and> s' = s"
  by (auto simp: getC_def result_simps)

lemma getM_Inr [action_simps]:
  "getM i s = Inr (m, s') \<longleftrightarrow>
     i < length (h_cntlrs s) \<and> cc_master (h_cntlrs s ! i) < length (h_masters s) \<and> m = master_at s i \<and> s' = s"
  by (auto simp: getM_def action_simps result_simps master_at_def)

lemma modC_Inr [action_simps]:
  "modC i f s = Inr (u, s') \<longleftrightarrow> i < length (h_cntlrs s) \<and> s' = put_cntlr i (f (h_cntlrs s ! i)) s"
  by (auto simp: modC_def action_simps put_cntlr_def)

lemma modM_Inr [action_simps]:
  "modM i f s = Inr (u, s') \<longleftrightarrow>
     i < length (h_cntlrs s) \<and> cc_master (h_cntlrs s ! i) < length (h_masters s) \<and>
     s' = put_master (cc_master (h_cntlrs s ! i)) (f (master_at s i)) s"
  by (auto simp: modM_def action_simps put_master_def)

lemma onCache_Inr [action_simps]:
  "onCache i f s = Inr (a, s') \<longleftrightarrow>
     i < length (h_cntlrs s) \<and> cc_master (h_cntlrs s ! i) < length (h_masters s) \<and>
     (\<exists>c. f (cm_cache (master_at s i)) = Inr (a, c) \<and>
          s' = put_master (cc_master (h_cntlrs s ! i)) ((master_at s i)\<lparr>cm_cache := c\<rparr>) s)"
  by (auto simp: onCache_def action_simps)

lemma deref_Inr [action_simps]: "deref p s = Inr (a, s') \<longleftrightarrow> p = Some a \<and> s' = s"
  by (cases p) (auto simp: deref_def action_simps)

lemma block_Inr [action_simps]:
  "block i r s = Inr (b, s') \<longleftrightarrow>
     i < length (h_cntlrs s) \<and> cc_master (h_cntlrs s ! i) < length (h_masters s) \<and>
     b = block_at (cm_cache (master_at s i)) r \<and> s' = s"
  by (auto simp: block_def action_simps)

lemma put_master_same: "k < length (h_masters s) \<Longrightarrow> put_master k (h_masters s ! k) s = s"
  by (simp add: put_master_def)

lemma peek_Inr [action_simps]:
  "getCacheBlockInfo i a s = Inr (p, s') \<longleftrightarrow>
     i < length (h_cntlrs s) \<and> cc_master (h_cntlrs s ! i) < length (h_masters s) \<and>
     peekSingleLine a (cm_cache (master_at s i)) = Inr p \<and> s' = s"
  by (auto simp: getCacheBlockInfo_def action_simps result_simps master_at_def put_master_same)

lemma stateOf_Inr [action_simps]:
  "stateOf i p s = Inr (st, s') \<longleftrightarrow> s' = s \<and>
     (case p of None \<Rightarrow> st = INVALID
      | Some r \<Rightarrow> i < length (h_cntlrs s) \<and> cc_master (h_cntlrs s ! i) < length (h_masters s) \<and>
          st = m_cstate (block_at (cm_cache (master_at s i)) r))"
  by (cases p) (auto simp: stateOf_def action_simps)

text \<open>The state of a line as the controller reads it.\<close>

definition line_state :: "IntPtr \<Rightarrow> cache \<Rightarrow> cstate_t result" where
  "line_state a c = mapE (\<lambda>p. case p of None \<Rightarrow> INVALID | Some r \<Rightarrow> m_cstate (block_at c r)) (peekSingleLine a c)"

lemma getCacheState_Inr [action_simps]:
  "getCacheState i a s = Inr (st, s') \<longleftrightarrow>
     i < length (h_cntlrs s) \<and> cc_master (h_cntlrs s ! i) < length (h_masters s) \<and>
     line_state a (cm_cache (master_at s i)) = Inr st \<and> s' = s"
  by (auto simp: getCacheState_def action_simps line_state_def result_simps split: option.splits)

lemma now_Inr [action_simps]:
  "now i th s = Inr (t, s') \<longleftrightarrow> i < length (h_cntlrs s) \<and> t = h_clock s (cc_core_id (h_cntlrs s ! i)) th \<and> s' = s"
  by (auto simp: now_def action_simps)

section \<open>Predicates closed under quiet steps\<close>

locale quiet_closed =
  fixes P :: "hier \<Rightarrow> bool"
  assumes quiet: "P s \<Longrightarrow> quiet_step s s' \<Longrightarrow> P s'"
begin

lemma keeps_quiet: "(\<And>s a s'. m s = Inr (a, s') \<Longrightarrow> quiet_step s s') \<Longrightarrow> keeps P m"
  by (meson keepsI quiet)

lemma keeps_getC [keeps_rules]: "keeps P (getC i)"
  by (auto simp: keeps_def action_simps)

lemma keeps_getM [keeps_rules]: "keeps P (getM i)"
  by (auto simp: keeps_def action_simps)

lemma keeps_deref [keeps_rules]: "keeps P (deref p)"
  by (auto simp: keeps_def action_simps)

lemma keeps_block [keeps_rules]: "keeps P (block i r)"
  by (auto simp: keeps_def action_simps)

lemma keeps_now [keeps_rules]: "keeps P (now i th)"
  by (auto simp: keeps_def action_simps)

lemma keeps_getCacheBlockInfo [keeps_rules]: "keeps P (getCacheBlockInfo i a)"
  by (auto simp: keeps_def action_simps)

lemma keeps_stateOf [keeps_rules]: "keeps P (stateOf i p)"
  by (auto simp: keeps_def action_simps)

lemma keeps_getCacheState [keeps_rules]: "keeps P (getCacheState i a)"
  by (auto simp: keeps_def action_simps)

lemma keeps_addStat [keeps_rules]: "keeps P (addStat i k n)"
  unfolding addStat_def
  by (rule keeps_quiet) (auto simp: modC_Inr intro!: quiet_step.cost cost_step.stat cntlr_frame_stats)

lemma keeps_last_remote [keeps_rules]: "keeps P (modC i (\<lambda>c. c\<lparr>cc_last_remote_hit_where := w\<rparr>))"
  by (rule keeps_quiet) (auto simp: modC_Inr intro!: quiet_step.cost cost_step.stat cntlr_frame_where)

lemma keeps_modM: "(\<And>m. master_frame m (f m)) \<Longrightarrow> keeps P (modM i f)"
  by (rule keeps_quiet) (auto simp: modM_Inr master_at_def intro!: quiet_step.master)

lemma keeps_cache_map: "(\<And>c. cache_step c (g c)) \<Longrightarrow> keeps P (modM i (\<lambda>m. m\<lparr>cm_cache := g (cm_cache m)\<rparr>))"
  by (rule keeps_quiet) (auto simp: modM_Inr master_at_def intro!: quiet_step.cache)

lemma keeps_onCache: "(\<And>c a c'. f c = Inr (a, c') \<Longrightarrow> cache_step c c') \<Longrightarrow> keeps P (onCache i f)"
  by (rule keeps_quiet) (auto simp: onCache_Inr master_at_def intro!: quiet_step.cache)

lemma keeps_setTime [keeps_rules]: "keeps P (setTime i th t)"
  by (rule keeps_quiet) (auto simp: setTime_def action_simps intro: quiet_step.cost cost_step.clock)

lemma keeps_incrElapsedTime [keeps_rules]: "keeps P (incrElapsedTime i t th)"
  by (rule keeps_quiet) (auto simp: incrElapsedTime_def action_simps result_simps intro: quiet_step.cost cost_step.clock)

lemma keeps_incrAccessTime [keeps_rules]: "keeps P (incrAccessTime i ac th)"
  unfolding incrAccessTime_def by (intro keeps_rules)

lemma keeps_modBlock:
  "(\<And>b. m_tag (f b) = m_tag b \<and> (m_cstate (f b) = m_cstate b \<or> m_cstate (f b) \<noteq> INVALID)) \<Longrightarrow> keeps P (modBlock i r f)"
  unfolding modBlock_def by (rule keeps_cache_map) (auto intro: cache_step.annotate)

lemma keeps_discard [keeps_rules]: "keeps P (modBlock i r invalidate)"
  unfolding modBlock_def by (rule keeps_cache_map) (rule cache_step.discard)

lemma keeps_options [keeps_rules]:
  "keeps P (modBlock i r (setOption opt))" "keeps P (modBlock i r (clearOption opt))"
  "keeps P (modBlock i r (\<lambda>b. b\<lparr>m_eid := e\<rparr>))" "keeps P (modBlock i r (\<lambda>b. b\<lparr>m_owner := w\<rparr>))"
  "keeps P (modBlock i r (\<lambda>b. b\<lparr>m_used := us\<rparr>))"
  by (rule keeps_modBlock, simp add: setOption_def clearOption_def)+

lemma keeps_setCState: "st \<noteq> INVALID \<Longrightarrow> keeps P (setCState i r st)"
  unfolding setCState_def by (rule keeps_modBlock) simp

lemma keeps_setCacheState: "st \<noteq> INVALID \<Longrightarrow> keeps P (setCacheState i a st)"
  unfolding setCacheState_def by (intro keeps_rules keeps_setCState)

lemma keeps_invalidateCacheBlock [keeps_rules]: "keeps P (invalidateCacheBlock i a)"
  unfolding invalidateCacheBlock_def
  by (intro keeps_rules keeps_onCache) (rule cache_step.drop)

lemma keeps_loadLine [keeps_rules]: "keeps P (loadLine i a buf n ur)"
  unfolding loadLine_def by (rule keeps_onCache) (auto simp: result_simps intro: cache_step.access)

lemma keeps_storeLine [keeps_rules]: "keeps P (storeLine i a buf n ur)"
  unfolding storeLine_def by (rule keeps_onCache) (auto simp: result_simps intro: cache_step.access)

lemma keeps_retrieveCacheBlock [keeps_rules]: "keeps P (retrieveCacheBlock i a buf ur)"
  unfolding retrieveCacheBlock_def by (intro keeps_rules)

lemma keeps_operationPermissible [keeps_rules]: "keeps P (operationPermissibleinCache i a op)"
  unfolding operationPermissibleinCache_def by (cases op) (auto intro!: keeps_rules)

lemma keeps_cleanupMshr [keeps_rules]: "keeps P (cleanupMshr i)"
  unfolding cleanupMshr_def by (intro keeps_rules keeps_modM) (simp add: master_frame_def)

lemma keeps_accessATDs [keeps_rules]: "keeps P (accessATDs i op h a n)"
  unfolding accessATDs_def by (intro keeps_rules keeps_modM) (simp add: master_frame_def)

lemma keeps_updateCounters [keeps_rules]: "keeps P (updateCounters i op a h st pf)"
  unfolding updateCounters_def by (intro keeps_rules)

lemma keeps_cache_counters [keeps_rules]: "keeps P (modM i (\<lambda>m. m\<lparr>cm_cache := cache_updateCounters h (cm_cache m)\<rparr>))"
  by (rule keeps_cache_map) (rule cache_step.counted)

lemma keeps_updateHits: "keeps P (updateHits i op h)"
proof -
  have "keeps P (updateHits_times n i op)" for n
    by (induction n) (auto intro!: keeps_rules)
  then show ?thesis by (simp add: updateHits_def)
qed

lemma keeps_updateUncoreStatistics [keeps_rules]: "keeps P (updateUncoreStatistics i w)"
  unfolding updateUncoreStatistics_def by (intro keeps_rules)

lemma keeps_dram [keeps_rules]: "keeps P (modA (\<lambda>s. s\<lparr>h_dram := d\<rparr>))"
  by (rule keeps_quiet) (auto simp: action_simps intro: quiet_step.memory)

lemma keeps_accessDRAM [keeps_rules]: "keeps P (accessDRAM i op a buf)"
  unfolding accessDRAM_def by (cases op) (auto intro!: keeps_rules)

lemma keeps_sendMsg [keeps_rules]: "keeps P (sendMsg i ty rq rc a buf n th)"
  unfolding sendMsg_def by (rule keeps_quiet) (auto simp: action_simps intro: quiet_step.send)

lemma keeps_homeOf [keeps_rules]: "keeps P (homeOf i a)"
  unfolding homeOf_def by (intro keeps_rules)

lemma keeps_piclStamp [keeps_rules]: "keeps P (piclStamp i r)"
proof (rule keepsI)
  fix s a s' assume P: "P s" and run: "piclStamp i r s = Inr (a, s')"
  let ?b = "block_at (cm_cache (master_at s i)) r" and ?e = "m_system_eid (h_em s)"
  have eid: "keeps P (modBlock i r (\<lambda>b. b\<lparr>m_eid := ?e\<rparr>))" by (rule keeps_options)
  from run consider "s' = s"
    | "modBlock i r (\<lambda>b. b\<lparr>m_eid := ?e\<rparr>) s = Inr (a, s')"
    | u x t where "onUndo u (insertUndoEntry ?e ?b) s = Inr (x, t)" "modBlock i r (\<lambda>b. b\<lparr>m_eid := ?e\<rparr>) t = Inr (a, s')"
    by (auto simp: piclStamp_def action_simps split: if_splits)
  then show "P s'"
  proof cases
    case 3
    from quiet [OF P quiet_step.undo [OF 3(1)]] keepsD [OF eid 3(2)] show ?thesis by blast
  qed (use P keepsD [OF eid] in blast)+
qed

lemma keeps_writeEvictBuffer [keeps_rules]: "keeps P (writeEvictBuffer i o' buf n)"
  unfolding writeEvictBuffer_def by (intro keeps_rules keeps_modM) (simp add: master_frame_def)

lemma keeps_writeLocal [keeps_rules]: "keeps P (writeLocal i a o' buf n)"
  unfolding writeLocal_def by (intro keeps_rules)

lemma keeps_writeCacheBlock [keeps_rules]: "keeps P (writeCacheBlock i a o' buf n)"
proof -
  have "keeps P (writeCacheBlock_upto k i a o' buf n)" for k
    by (induction k arbitrary: i) (auto intro!: keeps_rules)
  then show ?thesis unfolding writeCacheBlock_def by (rule keeps_bound)
qed

lemma keeps_accessCache [keeps_rules]: "keeps P (accessCache i op a o' buf n ur)"
  unfolding accessCache_def by (cases op) (auto intro!: keeps_rules)

lemma keeps_updateStats [keeps_rules]: "keeps P (updateStats i reason st b)"
  unfolding updateStats_def by (intro keeps_rules)

lemma keeps_updateOut [keeps_rules]: "keeps P (updateOut i a fl)"
  unfolding updateOut_def by (intro keeps_rules)

lemma keeps_updateDirty [keeps_rules]: "keeps P (updateDirty i a r fl)"
  unfolding updateDirty_def by (intro keeps_rules keeps_setCState) simp

lemma keeps_updateNew [keeps_rules]: "keeps P (updateNew i a st r fl)"
  unfolding updateNew_def by (intro keeps_rules keeps_setCState) simp_all

lemma keeps_updateLocal [keeps_rules]: "keeps P (updateLocal i a st reason buf sib)"
  unfolding updateLocal_def by (intro keeps_rules)

lemma keeps_updateCacheBlock_upto: "keeps P (updateCacheBlock_upto n i a st reason buf)"
  by (induction n arbitrary: i reason buf) (auto intro!: keeps_rules)

lemma keeps_updateCacheBlock [keeps_rules]: "keeps P (updateCacheBlock i a st reason buf)"
  unfolding updateCacheBlock_def by (rule keeps_bound) (rule keeps_updateCacheBlock_upto)

lemma keeps_snoopPrev [keeps_rules]: "keeps P (snoopPrev i rq a st reason)"
  unfolding snoopPrev_def by (intro keeps_rules)

lemma keeps_snoopAndWait [keeps_rules]: "keeps P (snoopAndWait i rq a st reason th)"
  unfolding snoopAndWait_def by (intro keeps_rules)

lemma keeps_backInvalidate [keeps_rules]: "keeps P (backInvalidate i a buf th)"
  unfolding backInvalidate_def by (intro keeps_rules keeps_modM) (simp_all add: master_frame_def)

lemma keeps_evictToDram [keeps_rules]: "keeps P (evictToDram i a buf)"
  unfolding evictToDram_def by (intro keeps_rules keeps_modM) (simp add: master_frame_def)

lemma keeps_evictToDirectory [keeps_rules]: "keeps P (evictToDirectory i a st buf th)"
  unfolding evictToDirectory_def by (intro keeps_rules)

lemma keeps_disposeEvicted [keeps_rules]: "keeps P (disposeEvicted i a b buf th)"
  unfolding disposeEvicted_def by (intro keeps_rules)

lemma keeps_evictBlock [keeps_rules]: "keeps P (evictBlock i a b buf th)"
  unfolding evictBlock_def by (intro keeps_rules)

lemma keeps_hitCounters [keeps_rules]: "keeps P (hitCounters i pf r)"
  unfolding hitCounters_def by (intro keeps_rules)

lemma keeps_reqHitDelay [keeps_rules]: "keeps P (reqHitDelay i a)"
  unfolding reqHitDelay_def by (intro keeps_rules)

lemma keeps_reqHitWhere [keeps_rules]: "keeps P (reqHitWhere i sib ph)"
  unfolding reqHitWhere_def by (intro keeps_rules)

lemma keeps_reqHit [keeps_rules]: "keeps P (reqHit i rq op a modeled pf r)"
  unfolding reqHit_def by (intro keeps_rules)

end

section \<open>Filling a line\<close>

lemma cost_steps_frame:
  "cost_step\<^sup>*\<^sup>* s s' \<Longrightarrow> h_masters s' = h_masters s \<and> length (h_cntlrs s') = length (h_cntlrs s) \<and>
     (\<forall>i < length (h_cntlrs s). cntlr_frame (h_cntlrs s ! i) (h_cntlrs s' ! i)) \<and>
     h_undo s' = h_undo s \<and> h_em s' = h_em s \<and> h_nvm s' = h_nvm s \<and> h_net s' = h_net s"
proof (induction rule: rtranclp_induct)
  case base
  have "cntlr_frame c c" for c using cntlr_frame_stats [of c "cc_stats c"] by simp
  then show ?case by simp
next
  case (step s' s'')
  have trans: "cntlr_frame a c" if "cntlr_frame a b" "cntlr_frame b c" for a b c
  proof -
    from that obtain st w st' w' where
      "b = a\<lparr>cc_stats := st, cc_last_remote_hit_where := w\<rparr>" "c = b\<lparr>cc_stats := st', cc_last_remote_hit_where := w'\<rparr>"
      by (auto simp: cntlr_frame_def)
    then have "c = a\<lparr>cc_stats := st', cc_last_remote_hit_where := w'\<rparr>" by simp
    then show ?thesis unfolding cntlr_frame_def by blast
  qed
  from step(2,3) show ?case
    by cases (auto simp: put_cntlr_def nth_list_update intro: trans)
qed

lemma cntlr_frame_fields:
  "cntlr_frame c c' \<Longrightarrow> cc_master c' = cc_master c \<and> cc_next c' = cc_next c \<and> cc_core_id c' = cc_core_id c \<and>
     cc_coherent c' = cc_coherent c \<and> cc_core_id_master c' = cc_core_id_master c \<and> cc_writethrough c' = cc_writethrough c"
  by (auto simp: cntlr_frame_def)

lemma qbs_cost_steps:
  "keeps (\<lambda>t. cost_step\<^sup>*\<^sup>* s t) (incrementQBSLookupCost i)"
proof (rule keepsI)
  fix t a t' assume t: "cost_step\<^sup>*\<^sup>* s t" and run: "incrementQBSLookupCost i t = Inr (a, t')"
  from run obtain ck where i: "i < length (h_cntlrs t)" and
    t': "t' = put_cntlr i ((h_cntlrs t ! i)\<lparr>cc_stats := (cc_stats (h_cntlrs t ! i))
      (S_qbs_query_latency := cc_stats (h_cntlrs t ! i) S_qbs_query_latency + cc_writeback_time (h_cntlrs t ! i))\<rparr>) (t\<lparr>h_clock := ck\<rparr>)"
    unfolding incrementQBSLookupCost_def incrElapsedTime_def addStat_def by (auto simp: action_simps result_simps)
  have "cost_step (t\<lparr>h_clock := ck\<rparr>) t'" unfolding t' using i by (intro cost_step.stat) (simp_all add: cntlr_frame_stats)
  with t cost_step.clock [of t ck] show "cost_step\<^sup>*\<^sup>* s t'" by (meson rtranclp.rtrancl_into_rtrancl)
qed

text \<open>The first part of \<open>insertCacheBlock\<close>, up to the new state of the line, is one fill.\<close>

lemma insert_fill:
  assumes "line_state a (cm_cache (master_at s i)) = Inr INVALID" "insertLine i a buf s = Inr (out, s2)"
    and "setCacheState i a cstate s2 = Inr (r, s3)" "cstate \<noteq> INVALID"
  shows "fill_step s s3"
proof -
  let ?k = "cc_master (h_cntlrs s ! i)" and ?c = "cm_cache (master_at s i)"
  let ?cn = "Some (\<lambda>b. mapE fst (isInLowerLevelCache i b s) = Inr True)"
  from assms(2) obtain data ins ea c1 where
    i: "i < length (h_cntlrs s)" and k: "?k < length (h_masters s)"
    and ins: "insertSingleLine a data (CacheBlockInfo_new SHARED_CACHE (NOT 0) INVALID 0) True ?cn ?c = Inr (ins, ea, c1)"
    and cost: "foldA (\<lambda>_ _. incrementQBSLookupCost i) [0..<ins_cost ins] () (put_master ?k ((master_at s i)\<lparr>cm_cache := c1\<rparr>) s) = Inr ((), s2)"
    by (auto simp: insertLine_def action_simps result_simps)
  let ?s1 = "put_master ?k ((master_at s i)\<lparr>cm_cache := c1\<rparr>) s"
  have "keeps (\<lambda>t. cost_step\<^sup>*\<^sup>* ?s1 t) (foldA (\<lambda>_ _. incrementQBSLookupCost i) xs ())" for xs :: "nat list"
    by (intro keeps_rules qbs_cost_steps)
  from keepsD [OF this cost] have steps: "cost_step\<^sup>*\<^sup>* ?s1 s2" by simp
  note fr = cost_steps_frame [OF steps]
  have fc: "cc_master (h_cntlrs s2 ! i) = ?k"
    using fr i cntlr_frame_fields [of "h_cntlrs ?s1 ! i"] by (auto simp: put_master_def)
  have m2: "master_at s2 i = (master_at s i)\<lparr>cm_cache := c1\<rparr>" using fr fc k by (simp add: master_at_def put_master_def)
  have "master_at s2 i = h_masters s2 ! ?k" by (simp add: master_at_def fc)
  moreover from assms(3) have "peekSingleLine a (cm_cache (master_at s2 i)) = Inr (Some r)"
    "s3 = put_master ?k ((master_at s2 i)\<lparr>cm_cache := set_block r ((block_at (cm_cache (master_at s2 i)) r)\<lparr>m_cstate := cstate\<rparr>)
      (cm_cache (master_at s2 i))\<rparr>) s2"
    by (auto simp: setCacheState_def setCState_def modBlock_def action_simps fc)
  moreover have "cm_cache (master_at s2 i) = c1" by (simp add: m2)
  ultimately have r: "peekSingleLine a c1 = Inr (Some r)"
    and s3: "s3 = put_master ?k ((h_masters s2 ! ?k)\<lparr>cm_cache := set_block r ((block_at c1 r)\<lparr>m_cstate := cstate\<rparr>) c1\<rparr>) s2"
    by simp_all
  from assms(1) obtain p where p: "peekSingleLine a ?c = Inr p" "\<forall>r. p = Some r \<longrightarrow> m_cstate (block_at ?c r) = INVALID"
    by (auto simp: line_state_def result_simps split: option.splits)
  show ?thesis
    unfolding s3 using steps
    by (intro fill_step.fill [OF k _ p ins _ r assms(4)]) (simp_all add: master_at_def)
qed

lemma retrieve_state:
  assumes "retrieveCacheBlock j a buf ur s = Inr (buf', s')" "getCacheState j a s = Inr (st, t)"
    and "getCacheState j a s' = Inr (st', t')"
  shows "st' = st"
proof -
  from assms(1) obtain r out c' where
    acc: "accessSingleLine a LOAD (if buf = NULL then None else Some []) (unat (cc_block_size (h_cntlrs s ! j))) ur
        (cm_cache (master_at s j)) = Inr (r, out, c')"
    and s': "s' = put_master (cc_master (h_cntlrs s ! j)) ((master_at s j)\<lparr>cm_cache := c'\<rparr>) s"
    and k: "cc_master (h_cntlrs s ! j) < length (h_masters s)"
    by (auto simp: retrieveCacheBlock_def loadLine_def action_simps result_simps)
  have "cm_cache (master_at s' j) = c'" using s' k by (simp add: master_at_def put_master_def)
  moreover have "line_state a c' = line_state a (cm_cache (master_at s j))"
    unfolding line_state_def accessSingleLine_frame(2) [OF acc] using accessSingleLine_frame(3) [OF acc] by simp
  ultimately show ?thesis using assms(2,3) by (simp add: action_simps)
qed

lemma permissible_valid:
  "operationPermissibleinCache j a op s = Inr (True, s') \<Longrightarrow> \<exists>st. getCacheState j a s = Inr (st, s) \<and> st \<noteq> INVALID \<and> s' = s"
  by (cases op) (auto simp: operationPermissibleinCache_def action_simps readable_def writable_def)

text \<open>The prefetch queue: at most one entry more than the configured length.\<close>

lemma permissible_same: "operationPermissibleinCache i a op s = Inr (b, s') \<Longrightarrow> s' = s"
  by (cases op) (auto simp: operationPermissibleinCache_def action_simps)

lemma fillPrefetchList_length:
  "fillPrefetchList i as acc s = Inr (q, s') \<Longrightarrow> length acc \<le> 33 \<Longrightarrow> length q \<le> 33 \<and> s' = s"
proof (induction as arbitrary: acc)
  case (Cons a as)
  then show ?case
    by (auto simp: action_simps PREFETCH_MAX_QUEUE_LENGTH_def dest!: permissible_same split: if_splits)
qed (simp add: action_simps)

lemma nextToPrefetch_suffix:
  "nextToPrefetch i as s = Inr ((a, rest), s') \<Longrightarrow> s' = s \<and> length rest \<le> length as"
proof (induction as)
  case (Cons x as)
  then show ?case by (auto simp: action_simps dest!: permissible_same split: if_splits)
qed (simp add: action_simps)

section \<open>Predicates closed under all steps\<close>

locale step_closed = quiet_closed +
  assumes filled: "P s \<Longrightarrow> fill_step s s' \<Longrightarrow> P s'"
begin

lemma keeps_insertCacheBlock:
  assumes "cstate \<noteq> INVALID"
  shows "keeps P (insertCacheBlock i a cstate buf rq th)"
proof (rule keepsI)
  fix s b s' assume P: "P s" and run: "insertCacheBlock i a cstate buf rq th s = Inr (b, s')"
  from run obtain ev s2 r s3 where
    "line_state a (cm_cache (master_at s i)) = Inr INVALID" "insertLine i a buf s = Inr (ev, s2)"
    "setCacheState i a cstate s2 = Inr (r, s3)"
    and rest: "insertTail i a r rq th ev s3 = Inr ((), s')"
    unfolding insertCacheBlock_def
    by (elim bindA_E thenA_E) (auto simp: getCacheState_Inr assertA_Inr retA_Inr)
  from filled [OF P insert_fill [OF this(1-3) assms]] have P3: "P s3" .
  have "keeps P (insertTail i a r rq th ev)" unfolding insertTail_def by (intro keeps_rules)
  from keepsD [OF this rest P3] show "P s'" .
qed

lemma keeps_copyDataFromNextLevel [keeps_rules]: "keeps P (copyDataFromNextLevel i op a modeled t)"
proof (rule keepsI)
  fix s b s' assume P: "P s" and run: "copyDataFromNextLevel i op a modeled t s = Inr (b, s')"
  from run obtain j s0 buf s1 cstate s2 where
    perm: "operationPermissibleinCache j a op s = Inr (True, s0)" and
    ret0: "retrieveCacheBlock j a (Buf None) False s0 = Inr (buf, s1)" and
    st2: "getCacheState j a s1 = Inr (cstate, s2)" and rest2: "copyToOwn i a modeled t cstate buf s2 = Inr (b, s')"
    unfolding copyDataFromNextLevel_def
    by (elim bindA_E thenA_E) (auto simp: getC_Inr deref_Inr assertA_Inr)
  from permissible_same [OF perm] perm ret0 have
    ok: "operationPermissibleinCache j a op s = Inr (True, s)" and
    ret: "retrieveCacheBlock j a (Buf None) False s = Inr (buf, s1)" by simp_all
  from st2 rest2 have st: "getCacheState j a s1 = Inr (cstate, s1)" and rest: "copyToOwn i a modeled t cstate buf s1 = Inr (b, s')"
    by (simp_all add: getCacheState_Inr)
  from permissible_valid [OF ok] retrieve_state [OF ret _ st] have valid: "cstate \<noteq> INVALID" by blast
  have "keeps P (copyToOwn i a modeled t cstate buf)"
    unfolding copyToOwn_def
    by (intro keeps_rules keeps_modM keeps_insertCacheBlock [OF valid]) (simp add: master_frame_def)
  from keepsD [OF this rest] keepsD [OF keeps_retrieveCacheBlock ret P] show "P s'" by blast
qed

lemma keeps_sendRequests [keeps_rules]:
  "keeps P (processExReqToDirectory i a)" "keeps P (processShReqToDirectory i a)"
  "keeps P (processUpgradeReqToDirectory i a th)"
  unfolding processExReqToDirectory_def processShReqToDirectory_def processUpgradeReqToDirectory_def
  by (intro keeps_rules keeps_setCacheState; simp)+

lemma keeps_initiateDirectoryAccess [keeps_rules]: "keeps P (initiateDirectoryAccess i op a pf t)"
  unfolding initiateDirectoryAccess_def
  by (intro keeps_rules keeps_modM) (simp add: master_frame_def enqueue_inv)

lemma keeps_refillPrefetchList [keeps_rules]: "keeps P (refillPrefetchList i as w)"
proof (rule keepsI)
  fix s b s' assume P: "P s" and run: "refillPrefetchList i as w s = Inr (b, s')"
  from run obtain q t where "fillPrefetchList i as [] s = Inr (q, t)"
    and m: "modM i (\<lambda>m. m\<lparr>cm_prefetch_list := q, cm_prefetch_next := w\<rparr>) t = Inr (b, s')"
    unfolding refillPrefetchList_def by (rule bindA_E)
  from fillPrefetchList_length [OF this(1)] have "length q \<le> 33" "t = s" by simp_all
  then have "keeps P (modM i (\<lambda>m. m\<lparr>cm_prefetch_list := q, cm_prefetch_next := w\<rparr>))"
    by (intro keeps_modM) (simp add: master_frame_def)
  from keepsD [OF this m] P \<open>t = s\<close> show "P s'" by simp
qed

lemma keeps_trainPrefetcher [keeps_rules]: "keeps P (trainPrefetcher i a h ph po t)"
  unfolding trainPrefetcher_def by (intro keeps_rules keeps_modM) (simp_all add: master_frame_def)

lemma keeps_llcDramFill [keeps_rules]: "keeps P (llcDramFill i op a pf)"
  unfolding llcDramFill_def by (intro keeps_rules keeps_insertCacheBlock) simp

lemma keeps_llcMiss [keeps_rules]: "keeps P (llcMiss i rq op a pf t p)"
  unfolding llcMiss_def by (intro keeps_rules keeps_setCState) simp_all

lemma keeps_reqMissPrepare [keeps_rules]: "keeps P (reqMissPrepare i rq a modeled p)"
  unfolding reqMissPrepare_def by (intro keeps_rules)

lemma keeps_reqLookup [keeps_rules]: "keeps P (reqLookup i op a cnt)"
  unfolding reqLookup_def by (intro keeps_rules keeps_setCState keeps_insertCacheBlock) simp_all

lemma keeps_reqFinish [keeps_rules]: "keeps P (reqFinish i a modeled cnt pf t h f ph)"
  unfolding reqFinish_def by (intro keeps_rules keeps_modM) (simp add: master_frame_def)

lemma keeps_processShmemReq_upto: "keeps P (processShmemReq_upto n i rq op a modeled cnt pf t)"
  by (induction n arbitrary: i rq pf) (auto intro!: keeps_rules)

lemma keeps_processShmemReq [keeps_rules]: "keeps P (processShmemReqFromPrevCache i rq op a modeled cnt pf t)"
  unfolding processShmemReqFromPrevCache_def by (rule keeps_bound) (rule keeps_processShmemReq_upto)

lemma keeps_memOpLookup [keeps_rules]: "keeps P (memOpLookup i op a)"
  unfolding memOpLookup_def by (intro keeps_rules keeps_setCState keeps_insertCacheBlock) simp_all

lemma keeps_memOpHit [keeps_rules]: "keeps P (memOpHit i op a modeled r)"
  unfolding memOpHit_def by (intro keeps_rules)

lemma keeps_updateUsageBits [keeps_rules]: "keeps P (updateUsageBits i a used)"
proof -
  have "keeps P (updateUsageBits_upto n i a used)" for n
    by (induction n arbitrary: i) (auto intro!: keeps_rules)
  then show ?thesis unfolding updateUsageBits_def by (rule keeps_bound)
qed

lemma keeps_popPrefetch [keeps_rules]:
  "keeps P (popPrefetch i)"
proof (rule keepsI)
  fix s b s' assume P: "P s" and run: "popPrefetch i s = Inr (b, s')"
  from run obtain rest t where n: "nextToPrefetch i (cm_prefetch_list (master_at s i)) s = Inr ((b, rest), t)"
    and m: "modM i (\<lambda>m. m\<lparr>cm_prefetch_list := rest\<rparr>) t = Inr ((), s')"
    by (auto simp: popPrefetch_def bindA_Inr thenA_Inr getM_Inr retA_Inr)
  from nextToPrefetch_suffix [OF n] m have
    "s' = put_master (cc_master (h_cntlrs s ! i)) ((master_at s i)\<lparr>cm_prefetch_list := rest\<rparr>) s"
    "cc_master (h_cntlrs s ! i) < length (h_masters s)" "length rest \<le> length (cm_prefetch_list (master_at s i))"
    by (simp_all add: modM_Inr)
  then show "P s'" using quiet [OF P] by (simp add: master_at_def master_frame_def quiet_step.master)
qed

text \<open>The other thread is an argument: it must keep the predicate too.\<close>

lemma keeps_doPrefetch [keeps_rules]: "(\<And>j. keeps P (net j)) \<Longrightarrow> keeps P (doPrefetch net i a t)"
  unfolding doPrefetch_def by (intro keeps_rules)

lemma keeps_Prefetch [keeps_rules]:
  assumes "\<And>j. keeps P (net j)"
  shows "keeps P (Prefetch net i t)"
proof -
  have "keeps P (Prefetch_upto n net i t)" for n
    by (induction n arbitrary: i) (auto intro!: keeps_rules keeps_modM assms simp: master_frame_def)
  then show ?thesis unfolding Prefetch_def by (rule keeps_bound)
qed

lemma keeps_memOpMiss [keeps_rules]:
  "(\<And>j. keeps P (net j)) \<Longrightarrow> keeps P (memOpMiss net i lk op a modeled cnt t)"
  unfolding memOpMiss_def by (intro keeps_rules keeps_modM) (simp_all add: master_frame_def)

lemma keeps_memOpUsage [keeps_rules]: "keeps P (memOpUsage i a o' n modeled)"
  unfolding memOpUsage_def by (intro keeps_rules)

lemma keeps_processMemOpFromCore:
  "(\<And>j. keeps P (net j)) \<Longrightarrow> keeps P (processMemOpFromCore net i lk op a o' buf n modeled cnt)"
  unfolding processMemOpFromCore_def by (intro keeps_rules)

lemma keeps_replies [keeps_rules]:
  "keeps P (processExRep i rq msg)" "keeps P (processShRep i rq msg)" "keeps P (processUpgradeRep i msg)"
  "keeps P (processInvReq i sd msg)" "keeps P (processFlushReq i sd msg)" "keeps P (processWbReq i sd msg)"
  unfolding processExRep_def processShRep_def processUpgradeRep_def processInvReq_def processFlushReq_def processWbReq_def
  by (intro keeps_rules keeps_insertCacheBlock; simp)+

lemma keeps_dequeueWaiter [keeps_rules]:
  "keeps P (dequeueWaiter i a)"
proof (rule keepsI)
  fix s b s' assume P: "P s" and run: "dequeueWaiter i a s = Inr (b, s')"
  from run obtain x q where "dequeue a (cm_waiters (master_at s i)) = Inr (x, q)"
    "cc_master (h_cntlrs s ! i) < length (h_masters s)"
    "s' = put_master (cc_master (h_cntlrs s ! i)) ((master_at s i)\<lparr>cm_waiters := q\<rparr>) s"
    by (auto simp: dequeueWaiter_def bindA_Inr getM_Inr liftA_Inr modM_Inr)
  with dequeue_pending(2) [of "cm_waiters (master_at s i)" a x q] show "P s'"
    using quiet [OF P] by (simp add: master_at_def master_frame_def quiet_step.master)
qed

lemma keeps_wakeWaiters [keeps_rules]:
  assumes "\<And>j. keeps P (usr j)"
  shows "keeps P (wakeWaiters n usr i msg)"
  by (induction n) (auto simp: Let_def intro!: keeps_rules keeps_modM assms simp: master_frame_def)

lemma keeps_handleMsgFromDramDirectory:
  assumes "\<And>j. keeps P (usr j)"
  shows "keeps P (handleMsgFromDramDirectory n usr i sd msg)"
  unfolding handleMsgFromDramDirectory_def
  by (cases "msg_type msg") (auto intro!: keeps_rules assms)

end

end
