(* ===== verification/Undo_Recovery.thy ===== *)
theory Undo_Recovery
  imports Undo_Cntlr
begin

text \<open>
  Why the undo log is enough. The specification is a machine that writes values to lines and counts
  epochs; the log it keeps pairs each undo entry with the value the line had. Applying the entry
  that covers an epoch gives back the value the line had at the end of that epoch. The controller
  refines the machine: it produces the same entries in the same order.
\<close>

section \<open>The specification machine\<close>

datatype 'v event = Write IntPtr 'v | Boundary

record 'v spec =
  sp_sys :: UInt64
  sp_eid :: "IntPtr \<Rightarrow> UInt64"
  sp_val :: "IntPtr \<Rightarrow> 'v"
  sp_snap :: "UInt64 \<Rightarrow> IntPtr \<Rightarrow> 'v"
  sp_log :: "(undo_entry \<times> 'v) list"

fun spec_step :: "'v event \<Rightarrow> 'v spec \<Rightarrow> 'v spec" where
  "spec_step (Write t v) s =
     (let s' = (if sp_eid s t \<noteq> sp_sys s
                then s\<lparr>sp_log := sp_log s @ [(\<lparr>ue_tag = t, ue_from = sp_eid s t, ue_till = sp_sys s\<rparr>, sp_val s t)]\<rparr>
                else s)
      in s'\<lparr>sp_eid := (sp_eid s)(t := sp_sys s), sp_val := (sp_val s)(t := v)\<rparr>)"
| "spec_step Boundary s = s\<lparr>sp_snap := (sp_snap s)(sp_sys s := sp_val s), sp_sys := sp_sys s + 1\<rparr>"

definition spec_run :: "'v event list \<Rightarrow> 'v spec \<Rightarrow> 'v spec" where
  "spec_run evs s = foldl (\<lambda>s ev. spec_step ev s) s evs"

definition covers :: "IntPtr \<Rightarrow> UInt64 \<Rightarrow> undo_entry \<Rightarrow> bool" where
  "covers t P e \<longleftrightarrow> ue_tag e = t \<and> ue_from e \<le> P \<and> P < ue_till e"

text \<open>Recovery of a line to epoch \<open>P\<close>: the value of the first covering entry, or the current value.\<close>

definition recover :: "(undo_entry \<times> 'v) list \<Rightarrow> UInt64 \<Rightarrow> (IntPtr \<Rightarrow> 'v) \<Rightarrow> IntPtr \<Rightarrow> 'v" where
  "recover log P val t = (case find (\<lambda>(e, v). covers t P e) log of Some (e, v) \<Rightarrow> v | None \<Rightarrow> val t)"

section \<open>Recovery is correct\<close>

text \<open>\<open>start\<close> is the epoch in which the lines were brought in: their value is known from there on.\<close>

definition spec_inv :: "UInt64 \<Rightarrow> 'v spec \<Rightarrow> bool" where
  "spec_inv start s \<longleftrightarrow>
     (\<forall>t. start \<le> sp_eid s t \<and> sp_eid s t \<le> sp_sys s) \<and>
     (\<forall>(e, v) \<in> set (sp_log s). ue_till e \<le> sp_eid s (ue_tag e)) \<and>
     (\<forall>t P. start \<le> P \<and> P < sp_eid s t \<longrightarrow> (\<exists>(e, v) \<in> set (sp_log s). covers t P e)) \<and>
     (\<forall>t P. start \<le> P \<and> P < sp_sys s \<longrightarrow> recover (sp_log s) P (sp_val s) t = sp_snap s P t)"

lemma find_append: "find p (xs @ ys) = (case find p xs of None \<Rightarrow> find p ys | Some x \<Rightarrow> Some x)"
  by (induction xs) auto

lemma recover_covered:
  "\<exists>(e, v) \<in> set log. covers t P e \<Longrightarrow> recover (log @ rest) P val t = recover log P val' t"
  unfolding recover_def find_append
  by (cases "find (\<lambda>(e, v). covers t P e) log") (auto simp: find_None_iff)

lemma recover_uncovered:
  "\<forall>(e, v) \<in> set log. \<not> covers t P e \<Longrightarrow> recover (log @ rest) P val t = recover rest P val t"
proof -
  assume "\<forall>(e, v) \<in> set log. \<not> covers t P e"
  then have "find (\<lambda>(e, v). covers t P e) log = None" by (auto simp: find_None_iff)
  then show ?thesis by (simp add: recover_def find_append)
qed

lemma uncovered_after:
  assumes "spec_inv start s" "sp_eid s t \<le> P"
  shows "\<forall>(e, v) \<in> set (sp_log s). \<not> covers t P e"
proof clarify
  fix e v assume e: "(e, v) \<in> set (sp_log s)" "covers t P e"
  then have "ue_till e \<le> sp_eid s t" using assms(1) by (auto simp: spec_inv_def covers_def)
  with e(2) assms(2) show False by (auto simp: covers_def)
qed

lemma recover_nil [simp]: "recover [] P val t = val t"
  by (simp add: recover_def)

lemma recover_current:
  assumes "spec_inv start s" "sp_eid s t \<le> P"
  shows "recover (sp_log s) P val t = val t"
  using recover_uncovered [OF uncovered_after [OF assms], of "[]"] by simp

lemma spec_inv_boundary:
  assumes "spec_inv start s" "sp_sys s \<noteq> - 1"
  shows "spec_inv start (spec_step Boundary s)"
proof -
  have suc: "P < sp_sys s + 1 \<longleftrightarrow> P \<le> sp_sys s" for P
  proof -
    have "sp_sys s < - 1" using assms(2) word_order.not_eq_extremum by blast
    from unat_add_1_less [OF this] show ?thesis by (auto simp: word_less_nat_alt word_le_nat_alt)
  qed
  have "recover (sp_log s) P (sp_val s) t = ((sp_snap s)(sp_sys s := sp_val s)) P t"
    if "start \<le> P" "P \<le> sp_sys s" for P t
  proof (cases "P = sp_sys s")
    case True
    with recover_current [OF assms(1), of t P] assms(1) show ?thesis by (simp add: spec_inv_def)
  next
    case False
    with that assms(1) show ?thesis by (simp add: spec_inv_def)
  qed
  moreover have "start \<le> sp_eid s t \<and> sp_eid s t \<le> sp_sys s + 1" for t
    using assms by (auto simp: spec_inv_def intro: word_Suc_le)
  ultimately show ?thesis using assms(1) by (auto simp: spec_inv_def suc)
qed

lemma spec_inv_write:
  assumes "spec_inv start s"
  shows "spec_inv start (spec_step (Write t v) s)"
proof -
  let ?s = "spec_step (Write t v) s"
  let ?new = "(\<lparr>ue_tag = t, ue_from = sp_eid s t, ue_till = sp_sys s\<rparr>, sp_val s t)"
  have step: "sp_sys ?s = sp_sys s" "sp_eid ?s = (sp_eid s)(t := sp_sys s)" "sp_val ?s = (sp_val s)(t := v)"
    "sp_snap ?s = sp_snap s" "sp_log ?s = sp_log s @ (if sp_eid s t \<noteq> sp_sys s then [?new] else [])"
    by (auto simp: Let_def)
  have le: "sp_eid s t \<le> sp_sys s" "start \<le> sp_eid s t" using assms by (auto simp: spec_inv_def)
  have rec: "recover (sp_log ?s) P (sp_val ?s) u = sp_snap s P u" if P: "start \<le> P" "P < sp_sys s" for P u
  proof (cases "u = t")
    case False
    then have "\<not> covers u P (fst ?new)" by (simp add: covers_def)
    then have "find (\<lambda>(e, v). covers u P e) (sp_log ?s) = find (\<lambda>(e, v). covers u P e) (sp_log s)"
      by (simp only: step find_append) (auto split: option.splits)
    then have "recover (sp_log ?s) P (sp_val ?s) u = recover (sp_log s) P (sp_val s) u"
      using False unfolding recover_def step(3) by (simp split: option.splits)
    with P assms show ?thesis by (simp add: spec_inv_def)
  next
    case True
    show ?thesis
    proof (cases "P < sp_eid s t")
      case True
      with P assms have "\<exists>(e, v) \<in> set (sp_log s). covers t P e" by (auto simp: spec_inv_def)
      from recover_covered [OF this] have "recover (sp_log ?s) P (sp_val ?s) t = recover (sp_log s) P (sp_val s) t"
        unfolding step by blast
      with \<open>u = t\<close> P assms show ?thesis by (simp add: spec_inv_def)
    next
      case False
      then have ge: "sp_eid s t \<le> P" by simp
      have "sp_eid s t \<noteq> sp_sys s" using ge P(2) by auto
      then have "recover (sp_log ?s) P (sp_val ?s) t = recover [?new] P (sp_val ?s) t"
        unfolding step using recover_uncovered [OF uncovered_after [OF assms ge]] by simp
      also have "\<dots> = sp_val s t" using ge P by (simp add: recover_def covers_def)
      also have "\<dots> = recover (sp_log s) P (sp_val s) t" using recover_current [OF assms ge] by simp
      finally show ?thesis using \<open>u = t\<close> P assms by (simp add: spec_inv_def)
    qed
  qed
  have cov: "\<exists>(e, v) \<in> set (sp_log ?s). covers u P e" if P: "start \<le> P" "P < sp_eid ?s u" for P u
  proof (cases "P < sp_eid s u")
    case True
    with P assms have "\<exists>(e, v) \<in> set (sp_log s). covers u P e" by (auto simp: spec_inv_def)
    then show ?thesis unfolding step by auto
  next
    case False
    with P have "u = t" "sp_eid s t \<le> P" "P < sp_sys s" by (auto simp: step split: if_splits)
    then have "covers u P (fst ?new)" "sp_eid s t \<noteq> sp_sys s" by (auto simp: covers_def)
    then show ?thesis unfolding step by auto
  qed
  have "\<forall>(e, v) \<in> set (sp_log ?s). ue_till e \<le> sp_eid ?s (ue_tag e)"
    using assms le by (auto simp: step spec_inv_def intro: order_trans split: if_splits)
  with rec cov assms le show ?thesis
    unfolding spec_inv_def step(1,4) by (auto simp: step(2) spec_inv_def)
qed

text \<open>The invariant along a run; the epoch counter must not wrap.\<close>

definition no_wrap :: "'v event list \<Rightarrow> UInt64 \<Rightarrow> bool" where
  "no_wrap evs sys \<longleftrightarrow> unat sys + length (filter (\<lambda>ev. ev = Boundary) evs) < 2 ^ 64"

lemma no_wrap_Boundary: "no_wrap (Boundary # evs) sys \<Longrightarrow> sys \<noteq> - 1 \<and> no_wrap evs (sys + 1)"
proof -
  assume n: "no_wrap (Boundary # evs) sys"
  then have "sys \<noteq> - 1" by (auto simp: no_wrap_def unsigned_minus_1_eq_mask mask_eq_exp_minus_1)
  moreover from this have "sys < - 1" using word_order.not_eq_extremum by blast
  ultimately show ?thesis using n unat_add_1_less [of sys "- 1"] by (simp add: no_wrap_def)
qed

lemma spec_run_inv:
  "spec_inv start s \<Longrightarrow> no_wrap evs (sp_sys s) \<Longrightarrow> spec_inv start (spec_run evs s)"
proof (induction evs arbitrary: s)
  case (Cons ev evs)
  have "spec_inv start (spec_step ev s) \<and> no_wrap evs (sp_sys (spec_step ev s))"
  proof (cases ev)
    case (Write t v)
    then have "sp_sys (spec_step ev s) = sp_sys s" by (simp add: Let_def)
    with Write Cons.prems show ?thesis
      using spec_inv_write [OF Cons.prems(1), of t v] by (simp add: no_wrap_def)
  next
    case Boundary
    with Cons.prems no_wrap_Boundary [of evs "sp_sys s"] show ?thesis
      using spec_inv_boundary [OF Cons.prems(1)] by simp
  qed
  then show ?case using Cons.IH [of "spec_step ev s"] by (simp add: spec_run_def)
qed (simp add: spec_run_def)

section \<open>The interface of the undo log\<close>

text \<open>
  What the cache controller relies on: recording a block appends one entry for the running epoch,
  the epoch boundary moves the epoch on and loses nothing.
\<close>

locale undo_log =
  fixes epoch :: "'s \<Rightarrow> UInt64"
    and log :: "'s \<Rightarrow> undo_entry list"
    and stamp :: "block_info \<Rightarrow> 's \<Rightarrow> (block_info \<times> 's) result"
    and boundary :: "'s \<Rightarrow> 's result"
    and ok :: "'s \<Rightarrow> bool"
  assumes stamp_ok: "ok s \<Longrightarrow> \<exists>s'. stamp b s = Inr (b\<lparr>m_eid := epoch s\<rparr>, s') \<and> ok s' \<and> epoch s' = epoch s \<and>
      log s' = log s @ (if m_eid b \<noteq> epoch s then [UndoEntry_new (epoch s) b] else [])"
    and boundary_ok: "ok s \<Longrightarrow> epoch s \<noteq> - 1 \<Longrightarrow>
      \<exists>s'. boundary s = Inr s' \<and> ok s' \<and> epoch s' = epoch s + 1 \<and> log s' = log s"

text \<open>The lines of the cache, one block per tag, under a sequence of writes and boundaries.\<close>

fun impl_run ::
  "(block_info \<Rightarrow> 's \<Rightarrow> (block_info \<times> 's) result) \<Rightarrow> ('s \<Rightarrow> 's result) \<Rightarrow> 'v event list
    \<Rightarrow> (IntPtr \<Rightarrow> block_info) \<Rightarrow> 's \<Rightarrow> ((IntPtr \<Rightarrow> block_info) \<times> 's) result" where
  "impl_run stamp boundary [] bl s = Inr (bl, s)"
| "impl_run stamp boundary (Write t v # evs) bl s =
     bindE (stamp (bl t) s) (\<lambda>(b, s'). impl_run stamp boundary evs (bl(t := b)) s')"
| "impl_run stamp boundary (Boundary # evs) bl s =
     bindE (boundary s) (\<lambda>s'. impl_run stamp boundary evs bl s')"

context undo_log
begin

definition refines :: "(IntPtr \<Rightarrow> block_info) \<Rightarrow> 's \<Rightarrow> 'v spec \<Rightarrow> bool" where
  "refines bl s sp \<longleftrightarrow>
     ok s \<and> epoch s = sp_sys sp \<and> (\<forall>t. m_tag (bl t) = t \<and> m_eid (bl t) = sp_eid sp t) \<and>
     log s = map fst (sp_log sp)"

lemma run_refines:
  "refines bl s sp \<Longrightarrow> no_wrap evs (sp_sys sp) \<Longrightarrow>
   \<exists>bl' s'. impl_run stamp boundary evs bl s = Inr (bl', s') \<and> refines bl' s' (spec_run evs sp)"
proof (induction evs arbitrary: bl s sp)
  case Nil
  then show ?case by (simp add: spec_run_def)
next
  case (Cons ev evs)
  show ?case
  proof (cases ev)
    case (Write t v)
    let ?b = "(bl t)\<lparr>m_eid := epoch s\<rparr>"
    from Cons.prems(1) stamp_ok [of s "bl t"] obtain s1 where
      s1: "stamp (bl t) s = Inr (?b, s1)" "ok s1" "epoch s1 = epoch s"
        "log s1 = log s @ (if m_eid (bl t) \<noteq> epoch s then [UndoEntry_new (epoch s) (bl t)] else [])"
      by (auto simp: refines_def)
    have "refines (bl(t := ?b)) s1 (spec_step ev sp)"
      using Cons.prems(1) s1 by (auto simp: refines_def Write Let_def UndoEntry_new_def)
    moreover have "no_wrap evs (sp_sys (spec_step ev sp))" using Cons.prems(2) by (simp add: Write Let_def no_wrap_def)
    ultimately obtain bl' s' where "impl_run stamp boundary evs (bl(t := ?b)) s1 = Inr (bl', s')"
      "refines bl' s' (spec_run evs (spec_step ev sp))" using Cons.IH by blast
    with s1(1) show ?thesis by (simp add: Write spec_run_def del: spec_step.simps)
  next
    case Boundary
    with Cons.prems no_wrap_Boundary have nw: "sp_sys sp \<noteq> - 1" "no_wrap evs (sp_sys sp + 1)" by blast+
    with Cons.prems(1) boundary_ok [of s] obtain s1 where
      s1: "boundary s = Inr s1" "ok s1" "epoch s1 = epoch s + 1" "log s1 = log s"
      by (auto simp: refines_def)
    have "refines bl s1 (spec_step ev sp)" using Cons.prems(1) s1 by (auto simp: refines_def Boundary)
    moreover have "no_wrap evs (sp_sys (spec_step ev sp))" using nw by (simp add: Boundary)
    ultimately obtain bl' s' where "impl_run stamp boundary evs bl s1 = Inr (bl', s')"
      "refines bl' s' (spec_run evs (spec_step ev sp))" using Cons.IH by blast
    with s1(1) show ?thesis by (simp add: Boundary spec_run_def del: spec_step.simps)
  qed
qed

end

section \<open>The controller provides the interface\<close>

lemma stampEpoch_ok:
  assumes "picl_inv p"
  shows "\<exists>p'. stampEpoch True b p = Inr (b\<lparr>m_eid := m_system_eid (pc_em p)\<rparr>, p') \<and> picl_inv p' \<and>
    m_system_eid (pc_em p') = m_system_eid (pc_em p) \<and>
    durable p' @ volatile p' = (durable p @ volatile p) @
      (if m_eid b \<noteq> m_system_eid (pc_em p) then [UndoEntry_new (m_system_eid (pc_em p)) b] else [])"
proof (cases "m_eid b = m_system_eid (pc_em p)")
  case True
  then have "b\<lparr>m_eid := m_system_eid (pc_em p)\<rparr> = b" by (cases b) simp
  with True assms show ?thesis by (simp add: stampEpoch_def)
next
  case False
  from insertUndoEntry_ok [OF assms, of b] False show ?thesis by (auto simp: stampEpoch_def Let_def)
qed

interpretation picl_log: undo_log "\<lambda>p. m_system_eid (pc_em p)" "\<lambda>p. durable p @ volatile p" "stampEpoch True"
  "epoch_boundary 0" picl_inv
proof unfold_locales
  fix p b assume "picl_inv p"
  then show "\<exists>p'. stampEpoch True b p = Inr (b\<lparr>m_eid := m_system_eid (pc_em p)\<rparr>, p') \<and> picl_inv p' \<and>
    m_system_eid (pc_em p') = m_system_eid (pc_em p) \<and>
    durable p' @ volatile p' = (durable p @ volatile p) @
      (if m_eid b \<noteq> m_system_eid (pc_em p) then [UndoEntry_new (m_system_eid (pc_em p)) b] else [])"
    by (rule stampEpoch_ok)
next
  fix p assume "picl_inv p" "m_system_eid (pc_em p) \<noteq> - 1"
  then show "\<exists>p'. epoch_boundary 0 p = Inr p' \<and> picl_inv p' \<and>
    m_system_eid (pc_em p') = m_system_eid (pc_em p) + 1 \<and> durable p' @ volatile p' = durable p @ volatile p"
    using epoch_boundary_ok [of p 0] by blast
qed

text \<open>A machine whose lines all carry epoch \<open>e0\<close>, with nothing logged yet.\<close>

definition spec_start :: "UInt64 \<Rightarrow> UInt64 \<Rightarrow> (IntPtr \<Rightarrow> 'v) \<Rightarrow> 'v spec" where
  "spec_start sys e0 val = \<lparr>sp_sys = sys, sp_eid = (\<lambda>_. e0), sp_val = val, sp_snap = (\<lambda>_. val), sp_log = []\<rparr>"

lemma spec_start_inv: "e0 \<le> sys \<Longrightarrow> spec_inv e0 (spec_start sys e0 val)"
  by (auto simp: spec_inv_def spec_start_def)

lemma picl_run:
  assumes "picl_inv p" "durable p @ volatile p = []" "\<forall>t. m_tag (bl t) = t \<and> m_eid (bl t) = e0"
    and "no_wrap evs (m_system_eid (pc_em p))"
  shows "\<exists>bl' p'. impl_run (stampEpoch True) (epoch_boundary 0) evs bl p = Inr (bl', p') \<and>
    m_system_eid (pc_em p') = sp_sys (spec_run evs (spec_start (m_system_eid (pc_em p)) e0 val)) \<and>
    durable p' @ volatile p' = map fst (sp_log (spec_run evs (spec_start (m_system_eid (pc_em p)) e0 val)))"
proof -
  have "picl_log.refines bl p (spec_start (m_system_eid (pc_em p)) e0 val)"
    using assms(1-3) by (simp add: picl_log.refines_def spec_start_def)
  moreover have "sp_sys (spec_start (m_system_eid (pc_em p)) e0 val) = m_system_eid (pc_em p)" by (simp add: spec_start_def)
  ultimately show ?thesis using picl_log.run_refines [of bl p _ evs] assms(4) unfolding picl_log.refines_def by metis
qed

end
