(* ===== verification/Cntlr_Invariant.thy ===== *)
theory Cntlr_Invariant
  imports Cntlr_Steps Undo_Recovery
begin

text \<open>
  The invariant of the cache hierarchy: every cache is well formed and holds no resident line in
  state \<open>INVALID\<close>, no waiting queue is empty, the prefetch queues are bounded and the undo buffers
  hold entries in epoch order. Every operation of every controller keeps it.
\<close>

section \<open>One cache\<close>

definition resident_ok :: "cache \<Rightarrow> bool" where
  "resident_ok c \<longleftrightarrow>
     (\<forall>s < unat (m_num_sets (c_base c)). \<forall>w < unat (m_associativity (c_base c)).
        isValid (block_at c (s, w)) \<longrightarrow> m_cstate (block_at c (s, w)) \<noteq> INVALID)"

definition cache_ok :: "cache \<Rightarrow> bool" where
  "cache_ok c \<longleftrightarrow> cache_inv c \<and> resident_ok c"

lemma cache_inv_len:
  "cache_inv c \<Longrightarrow> length (c_sets c) = unat (m_num_sets (c_base c))"
  "cache_inv c \<Longrightarrow> s < length (c_sets c) \<Longrightarrow> length (cs_blocks (c_sets c ! s)) = unat (m_associativity (c_base c))"
  by (simp_all add: cache_inv_def set_ok_def)

lemma set_block_put_set:
  assumes "fst r < length (c_sets c)" "fst r < length (c_policies c)"
  shows "set_block r b c =
    put_set (fst r) ((c_sets c ! fst r)\<lparr>cs_blocks := (cs_blocks (c_sets c ! fst r))[snd r := b]\<rparr>) (set_state c (fst r)) c"
  using assms by (simp add: set_block_def put_set_def set_state_def Let_def)

lemma set_block_outside: "\<not> fst r < length (c_sets c) \<Longrightarrow> set_block r b c = c"
  by (simp add: set_block_def Let_def list_update_beyond not_less)

lemma block_at_set_block:
  "block_at (set_block r b c) r' =
     (if r' = r \<and> fst r < length (c_sets c) \<and> snd r < length (cs_blocks (c_sets c ! fst r)) then b else block_at c r')"
proof (cases "fst r < length (c_sets c)")
  case True
  let ?bs = "cs_blocks (c_sets c ! fst r)"
  show ?thesis
  proof (cases "fst r' = fst r")
    case eq: True
    with True have "block_at (set_block r b c) r' = ?bs[snd r := b] ! snd r'"
      by (simp add: block_at_def set_block_def Let_def)
    with True eq show ?thesis
      by (cases "snd r < length ?bs"; cases "snd r' = snd r") (auto simp: block_at_def prod_eq_iff list_update_beyond)
  qed (auto simp: block_at_def set_block_def Let_def)
qed (simp add: set_block_outside)

lemma set_block_base [simp]: "c_base (set_block r b c) = c_base c"
  by (simp add: set_block_def Let_def)

text \<open>Changing the annotations of a block, or invalidating it, keeps the invariant.\<close>

lemma set_block_inv:
  assumes "cache_inv c" "m_tag b = m_tag (block_at c r) \<or> \<not> isValid b"
  shows "cache_inv (set_block r b c)" "cached (set_block r b c) \<subseteq> cached c"
    "m_tag b = m_tag (block_at c r) \<Longrightarrow> cached (set_block r b c) = cached c"
proof -
  have "cache_inv (set_block r b c) \<and> cached (set_block r b c) \<subseteq> cached c \<and>
    (m_tag b = m_tag (block_at c r) \<longrightarrow> cached (set_block r b c) = cached c)"
  proof (cases "fst r < length (c_sets c)")
    case False
    then show ?thesis using assms(1) by (simp add: set_block_outside)
  next
    case True
    let ?bs = "cs_blocks (c_sets c ! fst r)"
    let ?cs = "(c_sets c ! fst r)\<lparr>cs_blocks := ?bs[snd r := b]\<rparr>"
    have ok: "set_ok c (fst r)" using assms(1) True by (simp add: cache_inv_def)
    then have u: "unique_tags ?bs" by (simp add: set_ok_def)
    have eq: "set_block r b c = put_set (fst r) ?cs (set_state c (fst r)) c"
      using assms(1) True by (intro set_block_put_set) (simp_all add: cache_inv_def)
    have "unique_tags (?bs[snd r := b]) \<and> tags (?bs[snd r := b]) \<subseteq> tags ?bs \<and>
      (m_tag b = m_tag (block_at c r) \<longrightarrow> tags (?bs[snd r := b]) = tags ?bs)"
    proof (cases "snd r < length ?bs")
      case in_range: True
      have sub: "tag_of b \<subseteq> tag_of (?bs ! snd r)" "m_tag b = m_tag (block_at c r) \<Longrightarrow> tag_of b = tag_of (?bs ! snd r)"
        using assms(2) isValid_tag [of b "?bs ! snd r"] by (auto simp: tag_of_def block_at_def)
      have old: "tag_of (?bs ! snd r) \<subseteq> tags ?bs" using in_range by (auto simp: tag_of_def tags_iff)
      from sub(1) have "unique_tags (?bs[snd r := b])" by (intro unique_tags_update [OF u in_range]) auto
      then show ?thesis using sub old unfolding tags_update [OF u in_range] by auto
    qed (use u in \<open>simp add: list_update_beyond not_less\<close>)
    then have t: "unique_tags (cs_blocks ?cs)" "tags (cs_blocks ?cs) \<subseteq> tags ?bs"
      "m_tag b = m_tag (block_at c r) \<Longrightarrow> tags (cs_blocks ?cs) = tags ?bs" by simp_all
    have "cache_inv (put_set (fst r) ?cs (set_state c (fst r)) c)"
      using t ok by (intro cache_inv_put_set [OF assms(1) True]) (auto simp: set_ok_def set_state_def)
    moreover have "cached (put_set (fst r) ?cs (set_state c (fst r)) c) = (cached c - tags ?bs) \<union> tags (cs_blocks ?cs)"
      by (rule cached_put_set [OF assms(1) True])
    moreover have "tags ?bs \<subseteq> cached c" using True by (auto simp: cached_def)
    ultimately show ?thesis unfolding eq using t by auto
  qed
  then show "cache_inv (set_block r b c)" "cached (set_block r b c) \<subseteq> cached c"
    "m_tag b = m_tag (block_at c r) \<Longrightarrow> cached (set_block r b c) = cached c" by auto
qed

lemma access_base: "accessSingleLine a ty buff n ur c = Inr (r, out, c') \<Longrightarrow> c_base c' = c_base c"
  by (erule accessSingleLine_cases) simp_all

lemma drop_blocks:
  assumes "invalidateSingleLine a c = Inr (found, c')" "cache_inv c"
  shows "c_base c' = c_base c"
    and "block_at c' r = block_at c r \<or> \<not> isValid (block_at c' r)"
proof -
  from assms(1) obtain tag s where sp: "splitAddress (c_base c) a = Inr (tag, s)"
    by (cases "splitAddress (c_base c) a") (auto simp: invalidateSingleLine_def)
  have s: "unat s < length (c_sets c)" using assms(1) by (simp add: invalidateSingleLine_def sp result_simps)
  have c': "c' = put_set (unat s) (snd (cs_invalidate (c_sets c ! unat s) tag)) (set_state c (unat s)) c"
    using assms(1) s by (simp add: invalidateSingleLine_def sp result_simps split_def Let_def)
  show "c_base c' = c_base c" by (simp add: c')
  let ?cs = "c_sets c ! unat s"
  show "block_at c' r = block_at c r \<or> \<not> isValid (block_at c' r)"
  proof (cases "fst r = unat s")
    case False
    then show ?thesis by (simp add: c' block_at_def put_set_def)
  next
    case True
    then have "block_at c' r = cs_blocks (snd (cs_invalidate ?cs tag)) ! snd r"
      using s by (simp add: c' block_at_def put_set_def)
    then show ?thesis
      using True find_index_Some [of "cs_blocks ?cs" tag]
      by (cases "find_index (cs_blocks ?cs) tag"; cases "find_index (cs_blocks ?cs) tag = Some (snd r)")
         (auto simp: cs_invalidate_def block_at_def nth_list_update)
  qed
qed

lemma cache_step_base: "cache_step c c' \<Longrightarrow> c_base c' = c_base c"
proof (induction rule: cache_step.induct)
  case (access a ty buff n ur c r out c')
  then show ?case by (rule access_base)
next
  case (drop a c found c')
  then show ?case by (auto simp: invalidateSingleLine_def result_simps split_def Let_def)
qed (simp_all add: cache_updateCounters_def)

lemma cached_counters [simp]:
  "cached (cache_updateCounters h c) = cached c" "cache_inv (cache_updateCounters h c) = cache_inv c"
  "block_at (cache_updateCounters h c) r = block_at c r"
  by (simp_all add: cache_updateCounters_def cached_def cache_inv_def set_ok_def set_state_def block_at_def)

text \<open>No step but a fill makes a line resident.\<close>

lemma cache_step_ok:
  assumes "cache_step c c'" "cache_inv c"
  shows "cache_inv c'" "cached c' \<subseteq> cached c"
proof -
  from assms have "cache_inv c' \<and> cached c' \<subseteq> cached c"
  proof (induction rule: cache_step.induct)
    case (access a ty buff n ur c r out c')
    then show ?case using accessSingleLine_cached by blast
  next
    case (drop a c found c')
    then show ?case using invalidateSingleLine_cached [of c a] by auto
  next
    case (annotate b c r)
    then show ?case using set_block_inv [of c b r] by simp
  next
    case (discard c r)
    then show ?case using set_block_inv [of c "invalidate (block_at c r)" r] by simp
  qed simp_all
  then show "cache_inv c'" "cached c' \<subseteq> cached c" by simp_all
qed

lemma cache_step_resident:
  assumes "cache_step c c'" "cache_inv c" "resident_ok c"
  shows "resident_ok c'"
proof -
  have base: "c_base c' = c_base c" using assms(1) by (rule cache_step_base)
  have "isValid (block_at c' r) \<longrightarrow> m_cstate (block_at c' r) \<noteq> INVALID"
    if r: "isValid (block_at c r) \<longrightarrow> m_cstate (block_at c r) \<noteq> INVALID" for r
    using assms(1,2) r
  proof (induction rule: cache_step.induct)
    case (access a ty buff n ur c ref out c')
    then show ?case using accessSingleLine_frame(3) [of a ty buff n ur c ref out c' r] by simp
  next
    case (drop a c found c')
    then show ?case using drop_blocks(2) [of a c found c' r] by auto
  next
    case (annotate b c ref)
    then show ?case using isValid_tag [of b "block_at c ref"] by (auto simp: block_at_set_block)
  qed (auto simp: block_at_set_block)
  with assms(3) show ?thesis by (simp add: resident_ok_def base)
qed

lemma counted_cache [simp]: "c_base (cache_updateCounters h c) = c_base c"
  by (simp add: cache_updateCounters_def)

text \<open>A fill keeps the invariant and adds one line.\<close>

lemma not_resident:
  assumes "cache_ok c" "peekSingleLine a c = Inr p" "\<forall>r. p = Some r \<longrightarrow> m_cstate (block_at c r) = INVALID"
  shows "line_of c a \<notin> cached c"
proof (cases p)
  case None
  with assms peekSingleLine_cached [of c a] show ?thesis by (auto simp: cache_ok_def)
next
  case (Some r)
  have inv: "cache_inv c" using assms(1) by (simp add: cache_ok_def)
  obtain x y where xy: "r = (x, y)" by (cases r)
  from peekSingleLine_cached [OF inv, of a] assms(2) Some have
    r: "m_tag (block_at c r) = line_of c a" "fst r < length (c_sets c)" "snd r < length (cs_blocks (c_sets c ! fst r))"
    by (simp_all add: xy)
  then have "isValid (block_at c r)" using line_of_valid [of c a] inv by (simp add: isValid_def cache_inv_def)
  moreover have "x < unat (m_num_sets (c_base c))" "y < unat (m_associativity (c_base c))"
    using r cache_inv_len(1) [OF inv] cache_inv_len(2) [OF inv r(2)] by (simp_all add: xy)
  ultimately have "m_cstate (block_at c r) \<noteq> INVALID" using assms(1) by (simp add: cache_ok_def resident_ok_def xy)
  with assms(3) Some show ?thesis by simp
qed

lemma fill_ok:
  assumes "cache_ok c" "line_of c a \<notin> cached c" "insertSingleLine a data ev want cn c = Inr (out, ea, c1)"
    and "peekSingleLine a c1 = Inr (Some r)" "cstate \<noteq> INVALID"
  defines "c2 \<equiv> set_block r ((block_at c1 r)\<lparr>m_cstate := cstate\<rparr>) c1"
  shows "cache_ok c2" "cached c2 = insert (line_of c a) (cached c - (if ins_eviction out then {line_of c ea} else {}))"
    "c_base c2 = c_base c"
proof -
  have inv: "cache_inv c" using assms(1) by (simp add: cache_ok_def)
  note ins = insertSingleLine_cached [OF inv assms(2,3)]
  from insertSingleLine_cases [OF assms(3)] obtain tag s b cs' cs'' st fi where
    sp: "splitAddress (c_base c) a = Inr (tag, s)" and b: "CacheBlockInfo_create (c_type c) = Inr b"
    and i: "cs_insert getReplacementIndex cn (c_sets c ! unat s) (b\<lparr>m_tag := tag\<rparr>) data ev want (set_state c (unat s)) = Inr (out, cs', st)"
    and c1: "c1 = (put_set (unat s) cs'' st c)\<lparr>c_fault := fi\<rparr>" and cs'': "cs_blocks cs'' = cs_blocks cs'" by metis
  let ?bs = "cs_blocks (c_sets c ! unat s)"
  note cs = cached_set [OF inv sp]
  have ok: "set_ok c (unat s)" using inv cs(3) by (simp add: cache_inv_def)
  have tagv: "tag \<noteq> NOT 0" using cs(2) line_of_valid [of c a] inv by (simp add: cache_inv_def)
  have v: "isValid (b\<lparr>m_tag := tag\<rparr>)" using tagv by (simp add: isValid_def)
  have fresh: "m_tag (b\<lparr>m_tag := tag\<rparr>) \<notin> tags ?bs" using assms(2) cs by simp
  have "policy_inv (length ?bs) (set_state c (unat s))" "unique_tags ?bs" using ok by (simp_all add: set_ok_def)
  note ref = policy.insert_refines [OF this v fresh i]
  from ref(6) obtain j where j: "find_index (cs_blocks cs') tag = Some j"
    "cs_blocks cs' = ?bs[j := clone (?bs ! j) (b\<lparr>m_tag := tag\<rparr>)]" by auto
  have base: "c_base c1 = c_base c" by (simp add: c1)
  show "c_base c2 = c_base c" by (simp add: c2_def base)
  have r: "r = (unat s, j)"
    using assms(4) sp cs(3) j(1) by (simp add: peekSingleLine_def c1 put_set_def cs_find_def cs'')
  have other: "block_at c1 q = block_at c q" if "q \<noteq> r" for q
  proof (cases "fst q = unat s")
    case False
    then show ?thesis by (simp add: c1 block_at_def put_set_def)
  next
    case True
    then have "snd q \<noteq> j" using that r by (auto simp: prod_eq_iff)
    with True cs(3) j(2) show ?thesis by (simp add: c1 block_at_def put_set_def cs'')
  qed
  have tag: "m_tag ((block_at c1 r)\<lparr>m_cstate := cstate\<rparr>) = m_tag (block_at c1 r)" by simp
  have "resident_ok c2"
    using assms(1,5) other
    by (auto simp: cache_ok_def resident_ok_def c2_def base block_at_set_block)
       (metis cache_inv_len(1,2) base fst_conv ins(1) snd_conv)+
  then show "cache_ok c2" using set_block_inv(1) [OF ins(1), of _ r] tag by (simp add: cache_ok_def c2_def)
  show "cached c2 = insert (line_of c a) (cached c - (if ins_eviction out then {line_of c ea} else {}))"
    using set_block_inv(3) [OF ins(1) disjI1 [OF tag] tag] ins(2) by (simp add: c2_def)
qed

section \<open>The hierarchy\<close>

definition master_ok :: "cache_master \<Rightarrow> bool" where
  "master_ok m \<longleftrightarrow> cache_ok (cm_cache m) \<and> rq_inv (cm_waiters m) \<and> length (cm_prefetch_list m) \<le> 33"

definition undo_view :: "hier \<Rightarrow> undo_cntlr \<Rightarrow> picl" where
  "undo_view s u = \<lparr>pc_cntlr = u, pc_em = h_em s, pc_nvm = h_nvm s\<rparr>"

definition hier_inv :: "hier \<Rightarrow> bool" where
  "hier_inv s \<longleftrightarrow> (\<forall>m \<in> set (h_masters s). master_ok m) \<and> (\<forall>u \<in> set (h_undo s). picl_inv (undo_view s u))"

lemma hier_inv_put_master:
  "hier_inv s \<Longrightarrow> master_ok m \<Longrightarrow> hier_inv (put_master k m s)"
  using set_update_subset_insert [of "h_masters s" k m] by (auto simp: hier_inv_def put_master_def undo_view_def)

lemma hier_inv_master: "hier_inv s \<Longrightarrow> k < length (h_masters s) \<Longrightarrow> master_ok (h_masters s ! k)"
  by (simp add: hier_inv_def)

lemma hier_inv_cost: "cost_step s s' \<Longrightarrow> hier_inv s' = hier_inv s"
  by (induction rule: cost_step.induct) (simp_all add: hier_inv_def undo_view_def put_cntlr_def)

lemma hier_inv_costs: "cost_step\<^sup>*\<^sup>* s s' \<Longrightarrow> hier_inv s' = hier_inv s"
  by (induction rule: rtranclp_induct) (simp_all add: hier_inv_cost)

lemma hier_inv_undo:
  assumes "hier_inv s" "onUndo u (insertUndoEntry (m_system_eid (h_em s)) b) s = Inr (x, s')"
  shows "hier_inv s'"
proof -
  from assms(2) obtain p where u: "u < length (h_undo s)"
    and p: "insertUndoEntry (m_system_eid (h_em s)) b (undo_view s (h_undo s ! u)) = Inr p"
    and s': "s' = s\<lparr>h_undo := (h_undo s)[u := pc_cntlr p], h_em := pc_em p, h_nvm := pc_nvm p\<rparr>"
    by (auto simp: onUndo_def result_simps undo_view_def)
  have "picl_inv (undo_view s (h_undo s ! u))" using assms(1) u by (simp add: hier_inv_def)
  from insertUndoEntry_ok [OF this, of b] p have
    inv: "picl_inv p" "m_system_eid (pc_em p) = m_system_eid (h_em s)" by (auto simp: undo_view_def)
  have "undo_view s' (pc_cntlr p) = p" by (simp add: undo_view_def s')
  then have "picl_inv (undo_view s' (pc_cntlr p))" using inv(1) by simp
  moreover have "picl_inv (undo_view s' w)" if "w \<in> set (h_undo s)" for w
    using assms(1) inv(2) that by (simp add: hier_inv_def picl_inv_def undo_view_def volatile_def s')
  ultimately show ?thesis
    using assms(1) set_update_subset_insert [of "h_undo s" u "pc_cntlr p"] by (auto simp: hier_inv_def s')
qed

lemma hier_inv_quiet:
  assumes "hier_inv s" "quiet_step s s'"
  shows "hier_inv s'"
  using assms(2,1)
proof (induction rule: quiet_step.induct)
  case (cost s s')
  then show ?case by (simp add: hier_inv_cost)
next
  case (undo u s b x s')
  then show ?case using hier_inv_undo by blast
next
  case (master k s m)
  then have "master_ok m" using hier_inv_master [of s k] by (auto simp: master_frame_def master_ok_def)
  then show ?case using master by (simp add: hier_inv_put_master)
next
  case (cache k s c)
  then have "cache_ok c"
    using hier_inv_master [of s k] cache_step_ok(1) cache_step_resident by (auto simp: master_ok_def cache_ok_def)
  then show ?case using cache hier_inv_master [of s k] by (auto intro!: hier_inv_put_master simp: master_ok_def)
qed (simp_all add: hier_inv_def undo_view_def)

lemma hier_inv_fill:
  assumes "hier_inv s" "fill_step s s'"
  shows "hier_inv s'"
  using assms(2)
proof cases
  case (fill k c a p data ev cn out ea c1 s2 r cstate)
  have m: "master_ok (h_masters s ! k)" using hier_inv_master [OF assms(1) fill(2)] .
  then have c: "cache_ok c" by (simp add: master_ok_def fill(3))
  let ?s1 = "put_master k ((h_masters s ! k)\<lparr>cm_cache := c1\<rparr>) s"
  have s2: "h_masters s2 = h_masters ?s1" "h_undo s2 = h_undo s" "h_em s2 = h_em s" "h_nvm s2 = h_nvm s"
    using cost_steps_frame [OF fill(7)] by (simp_all add: put_master_def)
  have "cache_ok (set_block r ((block_at c1 r)\<lparr>m_cstate := cstate\<rparr>) c1)"
    using fill_ok(1) [OF c not_resident [OF c fill(4,5)] fill(6,8,9)] .
  then have "master_ok ((h_masters s ! k)\<lparr>cm_cache := set_block r ((block_at c1 r)\<lparr>m_cstate := cstate\<rparr>) c1\<rparr>)"
    using m by (simp add: master_ok_def)
  from hier_inv_put_master [OF assms(1) this, of k] show ?thesis
    using fill(2) by (simp add: fill(1) s2 put_master_def hier_inv_def undo_view_def)
qed

interpretation inv: step_closed hier_inv
  by unfold_locales (blast intro: hier_inv_quiet hier_inv_fill)+

end
