(* ===== verification/Directory_Cache.thy ===== *)
theory Directory_Cache
  imports Directory_Entry
begin

text \<open>
  \<open>pr_l1_pr_l2_dram_directory_msi/dram_directory_cache.cc\<close>: the set-associative table of directory
  entries. An entry that has to make room for another address moves to a list of replaced entries
  and stays there until its line is in no cache any more.
\<close>

section \<open>State\<close>

record ddcache =
  dc_directory :: directory
  dc_replacement_ptrs :: "UInt32 list"
  dc_replaced :: "nat list"
  dc_total_entries :: UInt32
  dc_associativity :: UInt32
  dc_num_sets :: UInt32
  dc_block_size :: UInt32
  dc_log_num_sets :: UInt32
  dc_log_block_size :: UInt32
  dc_access_time :: time

text \<open>The replacement pointers are not initialised: their first values are an argument.\<close>

definition DramDirectoryCache_new ::
  "directory \<Rightarrow> UInt32 \<Rightarrow> UInt32 \<Rightarrow> UInt32 \<Rightarrow> time \<Rightarrow> UInt32 list \<Rightarrow> ddcache result" where
  "DramDirectoryCache_new directory total_entries associativity cache_block_size access_time ptrs =
     check (associativity \<noteq> 0) (Undefined ''division by zero'')
       (let num_sets = total_entries div associativity
        in Inr \<lparr>dc_directory = directory, dc_replacement_ptrs = take (unat num_sets) ptrs, dc_replaced = [],
                dc_total_entries = total_entries, dc_associativity = associativity, dc_num_sets = num_sets,
                dc_block_size = cache_block_size, dc_log_num_sets = word_of_int (floorLog2 num_sets),
                dc_log_block_size = word_of_int (floorLog2 cache_block_size), dc_access_time = access_time\<rparr>)"

definition dc_splitAddress :: "IntPtr \<Rightarrow> ddcache \<Rightarrow> IntPtr \<times> UInt32" where
  "dc_splitAddress address c =
     (let cache_block_address = drop_bit (unat (dc_log_block_size c)) address
      in (drop_bit (unat (dc_log_num_sets c)) cache_block_address,
          ucast cache_block_address AND (dc_num_sets c - 1)))"

section \<open>Operations\<close>

text \<open>\<open>m_directory->getDirectoryEntry(set_index * m_associativity + i)\<close> and the entry it points to.\<close>

definition way_entry :: "UInt32 \<Rightarrow> nat \<Rightarrow> ddcache \<Rightarrow> (nat \<times> dir_entry \<times> ddcache) result" where
  "way_entry set_index i c =
     bindE (dir_getEntry (set_index * dc_associativity c + of_nat i) (dc_directory c)) (\<lambda>(p, d).
     bindE (entry_at p d) (\<lambda>e. Inr (p, e, c\<lparr>dc_directory := d\<rparr>)))"

text \<open>The loops over the ways: the first way whose entry satisfies a test.\<close>

primrec scan_ways :: "nat \<Rightarrow> (dir_entry \<Rightarrow> bool) \<Rightarrow> UInt32 \<Rightarrow> nat \<Rightarrow> ddcache \<Rightarrow> ((nat \<times> nat \<times> dir_entry) option \<times> ddcache) result" where
  "scan_ways 0 test set_index i c = Inr (None, c)"
| "scan_ways (Suc k) test set_index i c =
     bindE (way_entry set_index i c) (\<lambda>(p, e, c').
       if test e then Inr (Some (i, p, e), c') else scan_ways k test set_index (Suc i) c')"

primrec find_replaced :: "IntPtr \<Rightarrow> directory \<Rightarrow> nat list \<Rightarrow> nat option result" where
  "find_replaced address d [] = Inr None"
| "find_replaced address d (p # ps) =
     bindE (entry_at p d) (\<lambda>e. if de_address e = address then Inr (Some p) else find_replaced address d ps)"

text \<open>
  \<open>getDirectoryEntry\<close>: the pointer, the table after entries were created, and the times that a
  modelled access charges, in order.
\<close>

definition dc_getDirectoryEntry :: "IntPtr \<Rightarrow> bool \<Rightarrow> ddcache \<Rightarrow> (nat option \<times> time list \<times> ddcache) result" where
  "dc_getDirectoryEntry address modeled c =
     (let charge = (if modeled then [dc_access_time c] else []);
          set_index = snd (dc_splitAddress address c);
          ways = unat (dc_associativity c)
      in bindE (scan_ways ways (\<lambda>e. de_address e = address) set_index 0 c) (\<lambda>(hit, c1).
         case hit of
           Some (_, p, e) \<Rightarrow> Inr (Some p, charge @ (if modeled then [getLatency e] else []), c1)
         | None \<Rightarrow>
             bindE (scan_ways ways (\<lambda>e. de_address e = NO_ADDRESS) set_index 0 c1) (\<lambda>(free, c2).
             case free of
               Some (_, p, e) \<Rightarrow>
                 Inr (Some p, charge, c2\<lparr>dc_directory := put_entry p (e\<lparr>de_address := address\<rparr>) (dc_directory c2)\<rparr>)
             | None \<Rightarrow>
                 bindE (find_replaced address (dc_directory c2) (dc_replaced c2)) (\<lambda>r. Inr (r, charge, c2)))))"

primrec collect_ways :: "nat list \<Rightarrow> UInt32 \<Rightarrow> ddcache \<Rightarrow> (nat list \<times> ddcache) result" where
  "collect_ways [] set_index c = Inr ([], c)"
| "collect_ways (i # is) set_index c =
     bindE (way_entry set_index i c) (\<lambda>(p, _, c').
     bindE (collect_ways is set_index c') (\<lambda>(ps, c''). Inr (p # ps, c'')))"

definition getReplacementCandidates :: "IntPtr \<Rightarrow> ddcache \<Rightarrow> (nat list \<times> ddcache) result" where
  "getReplacementCandidates address c =
     bindE (dc_getDirectoryEntry address False c) (\<lambda>(r, _, c0).
     check (r = None) (Assert ''getDirectoryEntry(address) == NULL'')
       (let set_index = snd (dc_splitAddress address c0); assoc = dc_associativity c0
        in bindE (at (dc_replacement_ptrs c0) (unat set_index)) (\<lambda>ptr.
           bindE (collect_ways (map (\<lambda>i. unat ((of_nat i + ptr) mod assoc)) [0..<unat assoc]) set_index c0) (\<lambda>(ps, c1).
             Inr (ps, c1\<lparr>dc_replacement_ptrs := (dc_replacement_ptrs c1)[unat set_index := ptr + 1]\<rparr>)))))"

definition replaceDirectoryEntry :: "IntPtr \<Rightarrow> IntPtr \<Rightarrow> ddcache \<Rightarrow> (nat \<times> ddcache) result" where
  "replaceDirectoryEntry replaced_address address c =
     (let set_index = snd (dc_splitAddress replaced_address c)
      in bindE (scan_ways (unat (dc_associativity c)) (\<lambda>e. de_address e = replaced_address) set_index 0 c) (\<lambda>(hit, c1).
         case hit of
           None \<Rightarrow> Inl (Print_Error '''')
         | Some (i, p, e) \<Rightarrow>
             (let (q, d) = createDirectoryEntry (dc_directory c1)
              in bindE (entry_at q d) (\<lambda>new.
                 bindE (dir_setEntry (set_index * dc_associativity c1 + of_nat i) q (put_entry q (new\<lparr>de_address := address\<rparr>) d)) (\<lambda>d'.
                   Inr (q, c1\<lparr>dc_directory := d', dc_replaced := dc_replaced c1 @ [p]\<rparr>))))))"

definition invalidateDirectoryEntry :: "IntPtr \<Rightarrow> ddcache \<Rightarrow> ddcache result" where
  "invalidateDirectoryEntry address c =
     bindE (find_replaced address (dc_directory c) (dc_replaced c)) (\<lambda>r.
       case r of
         None \<Rightarrow> Inl (Print_Error '''')
       | Some p \<Rightarrow> Inr (c\<lparr>dc_directory := delete_entry p (dc_directory c), dc_replaced := remove1 p (dc_replaced c)\<rparr>))"

definition getMaxHwSharers :: "ddcache \<Rightarrow> UInt32" where
  "getMaxHwSharers c = dir_use_max_hw_sharers (dc_directory c)"

end
