(* ===== verification/Directory_Cntlr.thy ===== *)
theory Directory_Cntlr
  imports Directory_Cache Nuca Action Cache_Base
begin

text \<open>
  \<open>pr_l1_pr_l2_dram_directory_msi/dram_directory_cntlr.cc\<close>: the tag directory. It keeps, for every
  line, which caches share it, queues the requests for a line, and asks the sharers to give it up
  before it lets a cache write. Every handler is an action on the state of the controller; the
  messages it sends are appended to \<open>dd_net\<close>. A handler that has answered a request goes on with the
  next one in the queue; this recursion is the argument \<open>next\<close> of the handlers and is tied at the end.
  The latency break-down of requests (\<open>ShmemPerf\<close>) is left out.
\<close>

section \<open>State\<close>

record shmem_req =
  sr_msg :: shmem_msg
  sr_time :: time
  sr_wait_for_data :: bool
  sr_forwarding_from :: core_id_t

definition ShmemReq_new :: "shmem_msg \<Rightarrow> time \<Rightarrow> shmem_req result" where
  "ShmemReq_new m t =
     check (msg_data_buf m = NULL) (Assert ''Shmem Reqs should not have data payloads'')
       (Inr \<lparr>sr_msg = m, sr_time = t, sr_wait_for_data = False, sr_forwarding_from = INVALID_CORE_ID\<rparr>)"

definition req_updateTime :: "time \<Rightarrow> shmem_req \<Rightarrow> shmem_req" where
  "req_updateTime t r = (if sr_time r < t then r\<lparr>sr_time := t\<rparr> else r)"

definition isForwarding :: "shmem_req \<Rightarrow> bool" where
  "isForwarding r \<longleftrightarrow> sr_forwarding_from r \<noteq> INVALID_CORE_ID"

datatype protocol_t = MSI | MESI | MESIF

record dircntlr =
  dd_core_id :: core_id_t
  dd_core_id_master :: core_id_t
  dd_home :: ahl
  dd_cache :: ddcache
  dd_queue :: "shmem_req req_queue"
  dd_nuca :: "nuca option"
  dd_block_size :: UInt32
  dd_clock :: clocks
  dd_protocol :: protocol_t
  dd_evict :: "dstate_t \<Rightarrow> UInt64"
  dd_forward :: UInt64
  dd_forward_failed :: UInt64
  dd_net :: "packet list"

type_synonym 'a dact = "(dircntlr, 'a) action"

definition parseProtocol :: "string \<Rightarrow> protocol_t result" where
  "parseProtocol s =
     (if s = ''msi'' then Inr MSI else if s = ''mesi'' then Inr MESI else if s = ''mesif'' then Inr MESIF
      else Inl (Print_Error ''Invalid coherency protocol''))"

definition DramDirectoryCntlr_new ::
  "core_id_t \<Rightarrow> core_id_t \<Rightarrow> ahl \<Rightarrow> nuca option \<Rightarrow> ddcache \<Rightarrow> UInt32 \<Rightarrow> clocks \<Rightarrow> string \<Rightarrow> dircntlr result" where
  "DramDirectoryCntlr_new core_id core_id_master home nuca cache cache_block_size ck protocol =
     bindE (parseProtocol protocol) (\<lambda>pr.
       Inr \<lparr>dd_core_id = core_id, dd_core_id_master = core_id_master, dd_home = home, dd_cache = cache, dd_queue = rq_new,
            dd_nuca = nuca, dd_block_size = cache_block_size, dd_clock = ck, dd_protocol = pr, dd_evict = (\<lambda>_. 0),
            dd_forward = 0, dd_forward_failed = 0, dd_net = []\<rparr>)"

section \<open>Time, messages, entries\<close>

definition dd_now :: "time dact" where
  "dd_now = getA (\<lambda>s. dd_clock s (dd_core_id s) SIM_THREAD)"

definition dd_setTime :: "time \<Rightarrow> unit dact" where
  "dd_setTime t = modA (\<lambda>s. s\<lparr>dd_clock := set_clock (dd_core_id s) SIM_THREAD t (dd_clock s)\<rparr>)"

definition dd_updateTime :: "time \<Rightarrow> unit dact" where
  "dd_updateTime t = modA (\<lambda>s. s\<lparr>dd_clock := clock_updateElapsedTime (dd_core_id s) t SIM_THREAD (dd_clock s)\<rparr>)"

definition dd_incrTime :: "time \<Rightarrow> unit dact" where
  "dd_incrTime t =
     (\<lambda>s. bindE (clock_incrElapsedTime (dd_core_id s) t SIM_THREAD (dd_clock s)) (\<lambda>ck. Inr ((), s\<lparr>dd_clock := ck\<rparr>)))"

definition dd_send ::
  "msg_t \<Rightarrow> mem_component \<Rightarrow> core_id_t \<Rightarrow> core_id_t \<Rightarrow> IntPtr \<Rightarrow> buffer \<Rightarrow> UInt32 \<Rightarrow> where_t \<Rightarrow> unit dact" where
  "dd_send ty receiver_component requester receiver address data_buf data_length hit_where =
     thenA (assertA ((data_buf = NULL) = (data_length = 0)) (Assert ''(data_buf == NULL) == (data_length == 0)''))
    (bindA dd_now (\<lambda>msg_time.
       modA (\<lambda>s. s\<lparr>dd_net := dd_net s @
         [\<lparr>pk_time = msg_time, pk_sender = dd_core_id_master s, pk_receiver = receiver,
           pk_msg = \<lparr>msg_type = ty, msg_sender_component = TAG_DIR, msg_receiver_component = receiver_component,
                     msg_requester = requester, msg_where = hit_where, msg_address = address,
                     msg_data_buf = data_buf, msg_data_length = data_length\<rparr>\<rparr>]\<rparr>)))"

definition toCache :: "msg_t \<Rightarrow> core_id_t \<Rightarrow> core_id_t \<Rightarrow> IntPtr \<Rightarrow> unit dact" where
  "toCache ty requester receiver address = dd_send ty L2_CACHE requester receiver address NULL 0 WHERE_UNKNOWN"

text \<open>The list of the sharers is never a broadcast; the broadcast calls would pass a null pointer on.\<close>

definition invalidateSharers :: "core_id_t \<Rightarrow> IntPtr \<Rightarrow> bool \<times> core_id_t list \<Rightarrow> unit dact" where
  "invalidateSharers requester address sl =
     (if fst sl then failA (Undefined ''null dereference'')
      else foldA (\<lambda>c _. toCache INV_REQ requester c address) (snd sl) ())"

definition onDirCache :: "(ddcache \<Rightarrow> ('a \<times> ddcache) result) \<Rightarrow> 'a dact" where
  "onDirCache f =
     bindA (getA dd_cache) (\<lambda>c.
     bindA (liftA (f c)) (\<lambda>(a, c'). thenA (modA (\<lambda>s. s\<lparr>dd_cache := c'\<rparr>)) (retA a)))"

definition lookupEntry :: "IntPtr \<Rightarrow> bool \<Rightarrow> nat option dact" where
  "lookupEntry address modeled =
     bindA (onDirCache (\<lambda>c. mapE (\<lambda>(p, charges, c'). ((p, charges), c')) (dc_getDirectoryEntry address modeled c))) (\<lambda>(p, charges).
     thenA (foldA (\<lambda>t _. dd_incrTime t) charges ()) (retA p))"

definition entryOf :: "nat \<Rightarrow> dir_entry dact" where
  "entryOf p = bindA (getA (\<lambda>s. dc_directory (dd_cache s))) (\<lambda>d. liftA (entry_at p d))"

definition putEntry :: "nat \<Rightarrow> dir_entry \<Rightarrow> unit dact" where
  "putEntry p e = modA (\<lambda>s. s\<lparr>dd_cache := (dd_cache s)\<lparr>dc_directory := put_entry p e (dc_directory (dd_cache s))\<rparr>\<rparr>)"

definition onEntry :: "nat \<Rightarrow> (dir_entry \<Rightarrow> ('a \<times> dir_entry) result) \<Rightarrow> 'a dact" where
  "onEntry p f = bindA (entryOf p) (\<lambda>e. bindA (liftA (f e)) (\<lambda>(a, e'). thenA (putEntry p e') (retA a)))"

definition requireEntry :: "IntPtr \<Rightarrow> nat dact" where
  "requireEntry address =
     bindA (lookupEntry address False) (\<lambda>p. case p of None \<Rightarrow> failA (Assert ''directory_entry'') | Some e \<Rightarrow> retA e)"

definition frontReq :: "IntPtr \<Rightarrow> shmem_req dact" where
  "frontReq address = bindA (getA dd_queue) (\<lambda>q. liftA (rq_front address q))"

definition modFront :: "IntPtr \<Rightarrow> (shmem_req \<Rightarrow> shmem_req) \<Rightarrow> unit dact" where
  "modFront address f =
     modA (\<lambda>s. s\<lparr>dd_queue := (dd_queue s)(address :=
       (case dd_queue s address of Some (r # rs) \<Rightarrow> Some (f r # rs) | x \<Rightarrow> x))\<rparr>)"

definition queueSize :: "IntPtr \<Rightarrow> UInt32 dact" where
  "queueSize address = getA (\<lambda>s. rq_size address (dd_queue s))"

text \<open>A new request at the end of the queue of its address.\<close>

definition newRequest :: "shmem_msg \<Rightarrow> time \<Rightarrow> shmem_req dact" where
  "newRequest msg t =
     bindA (liftA (ShmemReq_new msg t)) (\<lambda>req.
     thenA (modA (\<lambda>s. s\<lparr>dd_queue := enqueue (msg_address msg) req (dd_queue s)\<rparr>)) (retA req))"

text \<open>
  A line nobody caches is given to one cache: \<open>addSharer\<close>, \<open>setOwner\<close> and \<open>setDState\<close>, as in the
  \<open>UNCACHED\<close> branches of the three requests.
\<close>

definition grantEntry :: "core_id_t \<Rightarrow> UInt32 \<Rightarrow> dstate_t \<Rightarrow> dir_entry \<Rightarrow> dir_entry result" where
  "grantEntry requester max_hw dstate e =
     bindE (addSharer requester max_hw e) (\<lambda>(add_result, e1).
     check add_result (Assert ''add_result == true'')
       (bindE (setOwner requester e1) (\<lambda>e2. Inr (e2\<lparr>de_dstate := dstate\<rparr>))))"

definition grant :: "nat \<Rightarrow> core_id_t \<Rightarrow> dstate_t \<Rightarrow> unit dact" where
  "grant p requester dstate =
     bindA (getA (\<lambda>s. getMaxHwSharers (dd_cache s))) (\<lambda>max_hw.
       onEntry p (\<lambda>e. mapE (Pair ()) (grantEntry requester max_hw dstate e)))"

section \<open>Memory\<close>

definition sendDataToNUCA :: "IntPtr \<Rightarrow> buffer \<Rightarrow> bool \<Rightarrow> unit dact" where
  "sendDataToNUCA address data_buf cnt =
     bindA (getA dd_nuca) (\<lambda>nu.
       case nu of
         None \<Rightarrow> retA ()
       | Some n \<Rightarrow>
           bindA dd_now (\<lambda>t.
           bindA (liftA (nuca_write address data_buf t cnt n)) (\<lambda>(_, _, eviction, evict_address, evict_buf, n').
           thenA (modA (\<lambda>s. s\<lparr>dd_nuca := Some n'\<rparr>))
             (case eviction of
                None \<Rightarrow> failA (Undefined ''eviction is not assigned'')
              | Some evicted \<Rightarrow>
                  whenA evicted
                    (bindA (getA id) (\<lambda>s.
                     bindA (liftA (getHome (dd_home s) evict_address)) (\<lambda>dram_node.
                       dd_send DRAM_WRITE_REQ DRAM (dd_core_id s) dram_node evict_address evict_buf (dd_block_size s) WHERE_UNKNOWN)))))))"

definition sendDataToDram :: "IntPtr \<Rightarrow> core_id_t \<Rightarrow> buffer \<Rightarrow> unit dact" where
  "sendDataToDram address requester data_buf =
     bindA (getA id) (\<lambda>s.
       if dd_nuca s \<noteq> None then sendDataToNUCA address data_buf True
       else bindA (liftA (getHome (dd_home s) address)) (\<lambda>dram_node.
              dd_send DRAM_WRITE_REQ DRAM requester dram_node address data_buf (dd_block_size s) WHERE_UNKNOWN))"

definition WHERE_CACHE_REMOTE :: where_t where
  "WHERE_CACHE_REMOTE = 13"

definition WHERE_DRAM_LOCAL :: where_t where
  "WHERE_DRAM_LOCAL = 11"

definition WHERE_DRAM_REMOTE :: where_t where
  "WHERE_DRAM_REMOTE = 12"

text \<open>The reply with the data of the line, and the request to memory when no cache has it.\<close>

definition replyToCache :: "msg_t \<Rightarrow> core_id_t \<Rightarrow> IntPtr \<Rightarrow> buffer \<Rightarrow> where_t \<Rightarrow> unit dact" where
  "replyToCache ty receiver address data_buf hit_where =
     bindA (getA dd_block_size) (\<lambda>n. dd_send ty L2_CACHE receiver receiver address data_buf n hit_where)"

definition readNuca :: "IntPtr \<Rightarrow> buffer option dact" where
  "readNuca address =
     bindA (getA dd_nuca) (\<lambda>nu.
       case nu of
         None \<Rightarrow> retA None
       | Some n \<Rightarrow>
           bindA dd_now (\<lambda>t.
           bindA (liftA (nuca_read address t True n)) (\<lambda>(latency, hit_where, buf, n').
           thenA (modA (\<lambda>s. s\<lparr>dd_nuca := Some n'\<rparr>))
          (thenA (dd_incrTime latency) (retA (if hit_where \<noteq> MISS then Some buf else None))))))"

definition readDram :: "nat \<Rightarrow> core_id_t \<Rightarrow> IntPtr \<Rightarrow> unit dact" where
  "readDram p receiver address =
     bindA (queueSize address) (\<lambda>n.
     thenA (assertA (n > 0) (Assert ''size(address) > 0''))
    (bindA (frontReq address) (\<lambda>req.
     bindA (entryOf p) (\<lambda>e.
     bindA (getA id) (\<lambda>s.
       if dd_protocol s = MESIF \<and> sr_forwarding_from req = INVALID_CORE_ID \<and> de_dstate e = DIR_SHARED \<and>
          de_forwarder e \<noteq> INVALID_CORE_ID
       then thenA (modFront address (\<lambda>r. r\<lparr>sr_forwarding_from := de_forwarder e\<rparr>))
              (toCache WB_REQ receiver (de_forwarder e) address)
       else thenA (modFront address (\<lambda>r. r\<lparr>sr_wait_for_data := True\<rparr>))
           (bindA (liftA (getHome (dd_home s) address)) (\<lambda>dram_node.
              dd_send DRAM_READ_REQ DRAM receiver dram_node address NULL 0 WHERE_UNKNOWN)))))))"

definition retrieveDataAndSendToL2Cache ::
  "(IntPtr \<Rightarrow> unit dact) \<Rightarrow> msg_t \<Rightarrow> core_id_t \<Rightarrow> IntPtr \<Rightarrow> buffer \<Rightarrow> unit dact" where
  "retrieveDataAndSendToL2Cache next reply_msg_type receiver address cached_data_buf =
     bindA (requireEntry address) (\<lambda>p.
       if cached_data_buf \<noteq> NULL
       then thenA (onEntry p (\<lambda>e. Inr ((), e\<lparr>de_forwarder := receiver\<rparr>)))
           (thenA (replyToCache reply_msg_type receiver address cached_data_buf WHERE_CACHE_REMOTE) (next address))
       else bindA (readNuca address) (\<lambda>nuca_data_buf.
              case nuca_data_buf of
                Some buf \<Rightarrow> thenA (replyToCache reply_msg_type receiver address buf WHERE_NUCA) (next address)
              | None \<Rightarrow> readDram p receiver address))"

section \<open>Making room for an entry\<close>

definition processNullifyReq :: "(IntPtr \<Rightarrow> unit dact) \<Rightarrow> shmem_req \<Rightarrow> unit dact" where
  "processNullifyReq next req =
     (let address = msg_address (sr_msg req); requester = msg_requester (sr_msg req)
      in bindA (requireEntry address) (\<lambda>p.
         bindA (entryOf p) (\<lambda>e.
           case de_dstate e of
             DIR_EXCLUSIVE \<Rightarrow> toCache FLUSH_REQ requester (de_owner e) address
           | DIR_MODIFIED \<Rightarrow> toCache FLUSH_REQ requester (de_owner e) address
           | DIR_SHARED \<Rightarrow> invalidateSharers requester address (getSharersList e)
           | UNCACHED \<Rightarrow>
               thenA (onDirCache (\<lambda>c. mapE (Pair ()) (invalidateDirectoryEntry address c))) (next address)
           | DIR_OWNED \<Rightarrow> failA (Print_Error ''Unsupported Directory State''))))"

text \<open>
  The candidate with the fewest sharers among those without waiting requests, the first of them if
  there are several.
\<close>

primrec pickCandidate :: "nat list \<Rightarrow> nat option \<Rightarrow> nat option dact" where
  "pickCandidate [] best = retA best"
| "pickCandidate (p # ps) best =
     bindA (entryOf p) (\<lambda>e.
     bindA (case best of
              None \<Rightarrow> retA True
            | Some b \<Rightarrow> bindA (entryOf b) (\<lambda>eb. retA (getNumSharers e < getNumSharers eb))) (\<lambda>better.
     bindA (queueSize (de_address e)) (\<lambda>n.
       pickCandidate ps (if better \<and> n = 0 then Some p else best))))"

definition processDirectoryEntryAllocationReq :: "(IntPtr \<Rightarrow> unit dact) \<Rightarrow> shmem_req \<Rightarrow> nat dact" where
  "processDirectoryEntryAllocationReq next req =
     (let address = msg_address (sr_msg req); requester = msg_requester (sr_msg req)
      in bindA dd_now (\<lambda>msg_time.
         bindA (onDirCache (getReplacementCandidates address)) (\<lambda>candidates.
         bindA (pickCandidate candidates None) (\<lambda>best.
           case best of
             None \<Rightarrow> failA (Assert ''Cannot find a directory entry to be replaced with a non-zero request list'')
           | Some b \<Rightarrow>
               bindA (entryOf b) (\<lambda>eb.
               thenA (modA (\<lambda>s. s\<lparr>dd_evict := (dd_evict s)(de_dstate eb := dd_evict s (de_dstate eb) + 1)\<rparr>))
              (bindA (getA (\<lambda>s. dc_access_time (dd_cache s))) (\<lambda>t_access.
               thenA (dd_incrTime t_access)
              (bindA (onDirCache (replaceDirectoryEntry (de_address eb) address)) (\<lambda>p.
               bindA (newRequest \<lparr>msg_type = NULLIFY_REQ, msg_sender_component = TAG_DIR, msg_receiver_component = TAG_DIR,
                                 msg_requester = requester, msg_where = WHERE_UNKNOWN, msg_address = de_address eb,
                                 msg_data_buf = NULL, msg_data_length = 0\<rparr> msg_time) (\<lambda>nullify_req.
               bindA (queueSize (de_address eb)) (\<lambda>n.
               thenA (assertA (n = 1) (Assert ''size(replaced_address) == 1''))
              (thenA (processNullifyReq next nullify_req) (retA p)))))))))))))"

section \<open>Requests\<close>

definition entryFor :: "(IntPtr \<Rightarrow> unit dact) \<Rightarrow> shmem_req \<Rightarrow> nat dact" where
  "entryFor next req =
     bindA (lookupEntry (msg_address (sr_msg req)) False) (\<lambda>p.
       case p of Some e \<Rightarrow> retA e | None \<Rightarrow> processDirectoryEntryAllocationReq next req)"

definition processExReqFromL2Cache :: "(IntPtr \<Rightarrow> unit dact) \<Rightarrow> shmem_req \<Rightarrow> buffer \<Rightarrow> unit dact" where
  "processExReqFromL2Cache next req cached_data_buf =
     (let address = msg_address (sr_msg req); requester = msg_requester (sr_msg req);
          flush = (\<lambda>e. thenA (assertA (cached_data_buf = NULL) (Assert ''cached_data_buf == NULL''))
                        (toCache FLUSH_REQ requester (de_owner e) address))
      in bindA (entryFor next req) (\<lambda>p.
         bindA (entryOf p) (\<lambda>e.
           case de_dstate e of
             DIR_EXCLUSIVE \<Rightarrow> flush e
           | DIR_MODIFIED \<Rightarrow> flush e
           | DIR_SHARED \<Rightarrow>
               thenA (assertA (cached_data_buf = NULL) (Assert ''cached_data_buf == NULL''))
                 (invalidateSharers requester address (getSharersList e))
           | UNCACHED \<Rightarrow>
               thenA (grant p requester DIR_MODIFIED)
                 (retrieveDataAndSendToL2Cache next EX_REP requester address cached_data_buf)
           | DIR_OWNED \<Rightarrow> failA (Print_Error ''Unsupported Directory State''))))"

definition processShReqFromL2Cache :: "(IntPtr \<Rightarrow> unit dact) \<Rightarrow> shmem_req \<Rightarrow> buffer \<Rightarrow> unit dact" where
  "processShReqFromL2Cache next req cached_data_buf =
     (let address = msg_address (sr_msg req); requester = msg_requester (sr_msg req)
      in bindA (entryFor next req) (\<lambda>p.
         bindA (entryOf p) (\<lambda>e.
           case de_dstate e of
             DIR_EXCLUSIVE \<Rightarrow>
               thenA (assertA (requester \<noteq> de_owner e) (Assert ''requester != directory_entry->getOwner()''))
              (thenA (assertA (cached_data_buf = NULL) (Assert ''cached_data_buf == NULL''))
                 (toCache WB_REQ requester (de_owner e) address))
           | DIR_MODIFIED \<Rightarrow>
               thenA (assertA (cached_data_buf = NULL) (Assert ''cached_data_buf == NULL''))
                 (toCache WB_REQ requester (de_owner e) address)
           | DIR_SHARED \<Rightarrow>
               bindA (liftA (hasSharer requester e)) (\<lambda>has.
                 if has
                 then thenA (modA (\<lambda>s. s\<lparr>dd_forward := dd_forward s + 1\<rparr>))
                     (thenA (whenA (cached_data_buf = NULL) (modA (\<lambda>s. s\<lparr>dd_forward_failed := dd_forward_failed s + 1\<rparr>)))
                        (retrieveDataAndSendToL2Cache next SH_REP requester address cached_data_buf))
                 else bindA (getA (\<lambda>s. getMaxHwSharers (dd_cache s))) (\<lambda>max_hw.
                      bindA (onEntry p (addSharer requester max_hw)) (\<lambda>add_result.
                        if \<not> add_result
                        then bindA (onEntry p getOneSharer) (\<lambda>sharer_id. toCache INV_REQ requester sharer_id address)
                        else retrieveDataAndSendToL2Cache next SH_REP requester address cached_data_buf)))
           | UNCACHED \<Rightarrow>
               bindA (getA dd_protocol) (\<lambda>protocol.
                 if protocol = MSI
                 then thenA (grant p requester DIR_SHARED)
                        (retrieveDataAndSendToL2Cache next SH_REP requester address cached_data_buf)
                 else thenA (grant p requester DIR_EXCLUSIVE)
                        (retrieveDataAndSendToL2Cache next EX_REP requester address cached_data_buf))
           | DIR_OWNED \<Rightarrow> failA (Print_Error ''Unsupported Directory State''))))"

text \<open>The invalidations of an upgrade; the first other sharer flushes when the requester lost its copy.\<close>

definition upgradeInvalidations :: "core_id_t \<Rightarrow> IntPtr \<Rightarrow> bool \<Rightarrow> core_id_t list \<Rightarrow> unit dact" where
  "upgradeInvalidations requester address requesterHasCopy cs =
     foldA (\<lambda>i _. whenA (cs ! i \<noteq> requester)
              (toCache (if \<not> requesterHasCopy \<and> i = 0 then FLUSH_REQ else INV_REQ) requester (cs ! i) address))
       [0..<length cs] ()"

definition processUpgradeReqFromL2Cache :: "(IntPtr \<Rightarrow> unit dact) \<Rightarrow> shmem_req \<Rightarrow> buffer \<Rightarrow> unit dact" where
  "processUpgradeReqFromL2Cache next req cached_data_buf =
     (let address = msg_address (sr_msg req); requester = msg_requester (sr_msg req);
          exclusive = (\<lambda>p e. bindA (liftA (at (snd (getSharersList e)) 0)) (\<lambda>first.
            if first = requester
            then thenA (assertA (de_owner e = requester) (Assert ''directory_entry->getOwner() == requester''))
                (thenA (toCache UPGRADE_REP requester requester address)
                (thenA (onEntry p (\<lambda>e. Inr ((), e\<lparr>de_dstate := DIR_MODIFIED\<rparr>))) (next address)))
            else toCache FLUSH_REQ requester (de_owner e) address))
      in bindA (entryFor next req) (\<lambda>p.
         bindA (entryOf p) (\<lambda>e.
           (let cs = snd (getSharersList e)
            in case de_dstate e of
                 DIR_EXCLUSIVE \<Rightarrow> exclusive p e
               | DIR_MODIFIED \<Rightarrow> exclusive p e
               | DIR_SHARED \<Rightarrow>
                   if cs = [requester]
                   then thenA (onEntry p (\<lambda>e. mapE (\<lambda>e'. ((), e'\<lparr>de_dstate := DIR_MODIFIED\<rparr>)) (setOwner requester e)))
                       (thenA (toCache UPGRADE_REP requester requester address) (next address))
                   else bindA (liftA (hasSharer requester e)) (\<lambda>requesterHasCopy.
                          if fst (getSharersList e) then failA (Undefined ''null dereference'')
                          else upgradeInvalidations requester address requesterHasCopy cs)
               | UNCACHED \<Rightarrow>
                   thenA (assertA (cs = []) (Assert ''sharers_list_pair.second.size() == 0''))
                  (thenA (grant p requester DIR_MODIFIED)
                     (retrieveDataAndSendToL2Cache next EX_REP requester address
                        (if cached_data_buf = NULL then msg_data_buf (sr_msg req) else cached_data_buf)))
               | DIR_OWNED \<Rightarrow> failA (Print_Error ''Unsupported Directory State'')))))"

primrec processNextReq_upto :: "nat \<Rightarrow> IntPtr \<Rightarrow> unit dact" where
  "processNextReq_upto 0 address = failA Diverges"
| "processNextReq_upto (Suc k) address =
     bindA (queueSize address) (\<lambda>n.
     thenA (assertA (n \<ge> 1) (Assert ''size(address) >= 1''))
    (bindA (getA dd_queue) (\<lambda>q.
     bindA (liftA (dequeue address q)) (\<lambda>(_, q').
     thenA (modA (\<lambda>s. s\<lparr>dd_queue := q'\<rparr>))
       (if rq_empty address q' then retA ()
        else bindA (frontReq address) (\<lambda>req.
             thenA (dd_setTime (sr_time req))
               (case msg_type (sr_msg req) of
                  EX_REQ \<Rightarrow> processExReqFromL2Cache (processNextReq_upto k) req NULL
                | SH_REQ \<Rightarrow> processShReqFromL2Cache (processNextReq_upto k) req NULL
                | UPGRADE_REQ \<Rightarrow> processUpgradeReqFromL2Cache (processNextReq_upto k) req NULL
                | _ \<Rightarrow> failA (Print_Error ''Unrecognized Request''))))))))"

text \<open>The recursion takes one request from the queue per round.\<close>

definition processNextReqFromL2Cache :: "IntPtr \<Rightarrow> unit dact" where
  "processNextReqFromL2Cache address = (\<lambda>s. processNextReq_upto (Suc (length (pending (dd_queue s) address))) address s)"

abbreviation processExReq :: "shmem_req \<Rightarrow> buffer \<Rightarrow> unit dact" where
  "processExReq \<equiv> processExReqFromL2Cache processNextReqFromL2Cache"

abbreviation processShReq :: "shmem_req \<Rightarrow> buffer \<Rightarrow> unit dact" where
  "processShReq \<equiv> processShReqFromL2Cache processNextReqFromL2Cache"

abbreviation processUpgradeReq :: "shmem_req \<Rightarrow> buffer \<Rightarrow> unit dact" where
  "processUpgradeReq \<equiv> processUpgradeReqFromL2Cache processNextReqFromL2Cache"

abbreviation processNullify :: "shmem_req \<Rightarrow> unit dact" where
  "processNullify \<equiv> processNullifyReq processNextReqFromL2Cache"

section \<open>Replies\<close>

text \<open>
  A cache gave up its copy: it is no sharer any more and does not forward; a line without sharers
  is uncached.
\<close>

definition dropInvalidated :: "core_id_t \<Rightarrow> dir_entry \<Rightarrow> dir_entry result" where
  "dropInvalidated sender e =
     bindE (removeSharer sender e) (\<lambda>e1.
       (let e2 = (if de_forwarder e1 = sender then e1\<lparr>de_forwarder := INVALID_CORE_ID\<rparr> else e1)
        in Inr (if getNumSharers e2 = 0 then e2\<lparr>de_dstate := UNCACHED\<rparr> else e2)))"

definition dropFlushed :: "core_id_t \<Rightarrow> dir_entry \<Rightarrow> dir_entry result" where
  "dropFlushed sender e =
     bindE (hasSharer sender e) (\<lambda>has.
     check has (Assert ''directory_entry->hasSharer(sender)'')
       (bindE (removeSharer sender e) (\<lambda>e1.
        bindE (setOwner INVALID_CORE_ID (e1\<lparr>de_forwarder := INVALID_CORE_ID\<rparr>)) (\<lambda>e2.
          if getNumSharers e2 = 0 then Inr (e2\<lparr>de_dstate := UNCACHED\<rparr>)
          else check (de_dstate e2 = DIR_SHARED) (Assert ''getDState() == SHARED'') (Inr e2)))))"

text \<open>A cache keeps its copy but may not write it any more.\<close>

definition shareWrittenBack :: "core_id_t \<Rightarrow> dir_entry \<Rightarrow> dir_entry result" where
  "shareWrittenBack sender e =
     bindE (hasSharer sender e) (\<lambda>has.
     check has (Assert ''directory_entry->hasSharer(sender)'')
       (bindE (setOwner INVALID_CORE_ID e) (\<lambda>e1. Inr (e1\<lparr>de_dstate := DIR_SHARED\<rparr>))))"

text \<open>The request at the front of the queue and the clock are brought up to date.\<close>

definition touchFront :: "IntPtr \<Rightarrow> time \<Rightarrow> shmem_req dact" where
  "touchFront address t =
     thenA (modFront address (req_updateTime t))
    (bindA (frontReq address) (\<lambda>req. thenA (dd_updateTime (sr_time req)) (retA req)))"

definition processInvRepFromL2Cache :: "core_id_t \<Rightarrow> shmem_msg \<Rightarrow> unit dact" where
  "processInvRepFromL2Cache sender msg =
     (let address = msg_address msg
      in bindA (requireEntry address) (\<lambda>p.
         bindA (entryOf p) (\<lambda>e0.
         thenA (assertA (de_dstate e0 = DIR_SHARED \<or> de_dstate e0 = DIR_EXCLUSIVE) (Assert ''Ooops''))
        (thenA (onEntry p (\<lambda>e. mapE (Pair ()) (dropInvalidated sender e)))
        (bindA (entryOf p) (\<lambda>e.
         bindA (queueSize address) (\<lambda>n.
         whenA (n > 0)
           (bindA dd_now (\<lambda>t.
            bindA (touchFront address t) (\<lambda>req.
              case msg_type (sr_msg req) of
                EX_REQ \<Rightarrow> whenA (de_dstate e = UNCACHED) (processExReq req NULL)
              | UPGRADE_REQ \<Rightarrow>
                  if getNumSharers e = 1
                  then bindA (liftA (hasSharer (msg_requester (sr_msg req)) e)) (\<lambda>has.
                         whenA has (processUpgradeReq req NULL))
                  else if getNumSharers e = 0
                  then thenA (onEntry p (\<lambda>e. Inr ((), e\<lparr>de_dstate := UNCACHED\<rparr>))) (processUpgradeReq req NULL)
                  else retA ()
              | SH_REQ \<Rightarrow>
                  if sr_wait_for_data req then retA ()
                  else if isForwarding req \<and> sender \<noteq> sr_forwarding_from req then retA ()
                  else processShReq req NULL
              | _ \<Rightarrow> whenA (de_dstate e = UNCACHED) (processNullify req)))))))))))"

text \<open>
  The data of a flush that an upgrade still has to wait for is remembered by pointer; the buffer is
  freed when the message has been handled, so that what the request holds is indeterminate.
\<close>

definition processFlushRepFromL2Cache :: "core_id_t \<Rightarrow> shmem_msg \<Rightarrow> unit dact" where
  "processFlushRepFromL2Cache sender msg =
     (let address = msg_address msg
      in bindA dd_now (\<lambda>t.
         bindA (requireEntry address) (\<lambda>p.
         thenA (onEntry p (\<lambda>e. mapE (Pair ()) (dropFlushed sender e)))
        (bindA (queueSize address) (\<lambda>n.
           if n = 0 then sendDataToDram address (msg_requester msg) (msg_data_buf msg)
           else bindA (touchFront address t) (\<lambda>req.
                bindA (entryOf p) (\<lambda>e.
                  case msg_type (sr_msg req) of
                    EX_REQ \<Rightarrow> processExReq req (msg_data_buf msg)
                  | SH_REQ \<Rightarrow>
                      thenA (sendDataToDram address (msg_requester msg) (msg_data_buf msg))
                        (processShReq req (msg_data_buf msg))
                  | UPGRADE_REQ \<Rightarrow>
                      if getNumSharers e = 0
                      then thenA (onEntry p (\<lambda>e. Inr ((), e\<lparr>de_dstate := UNCACHED\<rparr>))) (processUpgradeReq req (msg_data_buf msg))
                      else modFront address (\<lambda>r. r\<lparr>sr_msg := (sr_msg r)\<lparr>msg_data_buf :=
                             (if msg_data_buf msg = NULL then NULL else Buf None)\<rparr>\<rparr>)
                  | _ \<Rightarrow>
                      thenA (sendDataToDram address (msg_requester msg) (msg_data_buf msg)) (processNullify req))))))))"

definition processWbRepFromL2Cache :: "core_id_t \<Rightarrow> shmem_msg \<Rightarrow> unit dact" where
  "processWbRepFromL2Cache sender msg =
     (let address = msg_address msg
      in bindA dd_now (\<lambda>t.
         bindA (requireEntry address) (\<lambda>p.
         thenA (onEntry p (\<lambda>e. mapE (Pair ()) (shareWrittenBack sender e)))
        (bindA (queueSize address) (\<lambda>n.
           if n = 0 then failA (Print_Error ''Should not reach here'')
           else bindA (touchFront address t) (\<lambda>req.
                thenA (assertA (msg_type (sr_msg req) = SH_REQ) (Assert ''Address, Req''))
                  (processShReq req (msg_data_buf msg))))))))"

definition processCpRepFromL2Cache :: "core_id_t \<Rightarrow> shmem_msg \<Rightarrow> unit dact" where
  "processCpRepFromL2Cache sender msg =
     bindA (requireEntry (msg_address msg)) (\<lambda>p.
     thenA (onEntry p (\<lambda>e. mapE (Pair ()) (shareWrittenBack sender e)))
       (sendDataToDram (msg_address msg) (msg_requester msg) (msg_data_buf msg)))"

definition dramReplyType :: "msg_t \<Rightarrow> dstate_t \<Rightarrow> msg_t result" where
  "dramReplyType ty dstate =
     (case ty of
        SH_REQ \<Rightarrow> check (dstate = DIR_SHARED \<or> dstate = DIR_EXCLUSIVE) (Assert ''SHARED or EXCLUSIVE'')
                    (Inr (if dstate = DIR_EXCLUSIVE then EX_REP else SH_REP))
      | EX_REQ \<Rightarrow> check (dstate = DIR_MODIFIED) (Assert ''curr_dstate == MODIFIED'') (Inr EX_REP)
      | UPGRADE_REQ \<Rightarrow> Inr EX_REP
      | _ \<Rightarrow> Inl (Print_Error ''Unsupported request type''))"

definition processDRAMReply :: "core_id_t \<Rightarrow> shmem_msg \<Rightarrow> unit dact" where
  "processDRAMReply sender msg =
     (let address = msg_address msg
      in bindA (queueSize address) (\<lambda>n.
         thenA (assertA (n \<ge> 1) (Assert ''size(address) >= 1''))
        (bindA (frontReq address) (\<lambda>req.
         bindA (requireEntry address) (\<lambda>p.
         bindA (entryOf p) (\<lambda>e.
         bindA (liftA (dramReplyType (msg_type (sr_msg req)) (de_dstate e))) (\<lambda>reply_msg_type.
         thenA (replyToCache reply_msg_type (msg_requester (sr_msg req)) address (msg_data_buf msg)
                  (if msg_where msg = HIT_DRAM
                   then (if sender = msg_requester msg then WHERE_DRAM_LOCAL else WHERE_DRAM_REMOTE)
                   else msg_where msg))
        (thenA (sendDataToNUCA address (msg_data_buf msg) False)
           (processNextReqFromL2Cache address)))))))))"

section \<open>Messages\<close>

definition queueRequest :: "shmem_msg \<Rightarrow> time \<Rightarrow> (shmem_req \<Rightarrow> unit dact) \<Rightarrow> unit dact" where
  "queueRequest msg t handle =
     bindA (newRequest msg t) (\<lambda>req.
     bindA (queueSize (msg_address msg)) (\<lambda>n. whenA (n = 1) (handle req)))"

definition handleMsgFromL2Cache :: "core_id_t \<Rightarrow> shmem_msg \<Rightarrow> unit dact" where
  "handleMsgFromL2Cache sender msg =
     bindA dd_now (\<lambda>msg_time.
     bindA (lookupEntry (msg_address msg) True) (\<lambda>_.
       case msg_type msg of
         EX_REQ \<Rightarrow> queueRequest msg msg_time (\<lambda>req. processExReq req NULL)
       | SH_REQ \<Rightarrow> queueRequest msg msg_time (\<lambda>req. processShReq req NULL)
       | UPGRADE_REQ \<Rightarrow> queueRequest msg msg_time (\<lambda>req. processUpgradeReq req NULL)
       | INV_REP \<Rightarrow> processInvRepFromL2Cache sender msg
       | FLUSH_REP \<Rightarrow> processFlushRepFromL2Cache sender msg
       | WB_REP \<Rightarrow> processWbRepFromL2Cache sender msg
       | CP_REP \<Rightarrow> processCpRepFromL2Cache sender msg
       | _ \<Rightarrow> failA (Print_Error ''Unrecognized Shmem Msg Type'')))"

definition handleMsgFromDRAM :: "core_id_t \<Rightarrow> shmem_msg \<Rightarrow> unit dact" where
  "handleMsgFromDRAM sender msg =
     (case msg_type msg of
        DRAM_READ_REP \<Rightarrow> processDRAMReply sender msg
      | _ \<Rightarrow> failA (Print_Error ''Unrecognized Shmem Msg Type''))"

end
