(* ===== verification/Directory_Table.thy ===== *)
theory Directory_Table
  imports Directory_Cache
begin

text \<open>
  The table of directory entries keeps one entry per line: no two entries of the table and of the
  list of replaced entries are for the same line, an entry is in the set its address belongs to, and
  a line whose entry was replaced belongs to a set without free ways, so that looking it up finds
  the replaced entry.
\<close>

section \<open>Slots, pointers, addresses\<close>

definition slot :: "ddcache \<Rightarrow> nat \<Rightarrow> nat option" where
  "slot c k = (if k < length (dir_list (dc_directory c)) then dir_list (dc_directory c) ! k else None)"

definition ptrs :: "ddcache \<Rightarrow> nat set" where
  "ptrs c = {p. \<exists>k. slot c k = Some p} \<union> set (dc_replaced c)"

definition addr :: "ddcache \<Rightarrow> nat \<Rightarrow> IntPtr option" where
  "addr c p = (case entry_at p (dc_directory c) of Inr e \<Rightarrow> Some (de_address e) | Inl _ \<Rightarrow> None)"

definition set_of :: "ddcache \<Rightarrow> IntPtr \<Rightarrow> nat" where
  "set_of c a = unat (snd (dc_splitAddress a c))"

abbreviation assoc :: "ddcache \<Rightarrow> nat" where
  "assoc c \<equiv> unat (dc_associativity c)"

text \<open>All ways of a set are in use.\<close>

definition full :: "ddcache \<Rightarrow> nat \<Rightarrow> bool" where
  "full c n \<longleftrightarrow> (\<forall>i < assoc c. \<exists>q. slot c (n * assoc c + i) = Some q \<and> addr c q \<noteq> Some NO_ADDRESS)"

definition dc_geometry :: "ddcache \<Rightarrow> bool" where
  "dc_geometry c \<longleftrightarrow> dc_associativity c \<noteq> 0 \<and> dc_num_sets c \<noteq> 0 \<and>
     dc_num_sets c = dc_total_entries c div dc_associativity c \<and>
     dir_num_entries (dc_directory c) = dc_total_entries c \<and>
     length (dir_list (dc_directory c)) = unat (dc_total_entries c)"

definition dc_inv :: "ddcache \<Rightarrow> bool" where
  "dc_inv c \<longleftrightarrow> dc_geometry c \<and>
     (\<forall>k p. slot c k = Some p \<longrightarrow> (\<exists>a. addr c p = Some a \<and> (a = NO_ADDRESS \<or> k div assoc c = set_of c a))) \<and>
     (\<forall>p \<in> set (dc_replaced c). \<exists>a. addr c p = Some a \<and> a \<noteq> NO_ADDRESS \<and> full c (set_of c a)) \<and>
     (\<forall>k k' p. slot c k = Some p \<longrightarrow> slot c k' = Some p \<longrightarrow> k = k') \<and>
     distinct (dc_replaced c) \<and> (\<forall>k p. slot c k = Some p \<longrightarrow> p \<notin> set (dc_replaced c)) \<and>
     (\<forall>p \<in> ptrs c. \<forall>q \<in> ptrs c. \<forall>a. addr c p = Some a \<longrightarrow> addr c q = Some a \<longrightarrow> a \<noteq> NO_ADDRESS \<longrightarrow> p = q)"

lemma dc_invD:
  assumes "dc_inv c"
  shows "dc_geometry c"
    and "slot c k = Some p \<Longrightarrow> \<exists>a. addr c p = Some a \<and> (a = NO_ADDRESS \<or> k div assoc c = set_of c a)"
    and "p \<in> set (dc_replaced c) \<Longrightarrow> \<exists>a. addr c p = Some a \<and> a \<noteq> NO_ADDRESS \<and> full c (set_of c a)"
    and "slot c k = Some p \<Longrightarrow> slot c k' = Some p \<Longrightarrow> k = k'"
    and "distinct (dc_replaced c)"
    and "slot c k = Some p \<Longrightarrow> p \<notin> set (dc_replaced c)"
    and "p \<in> ptrs c \<Longrightarrow> q \<in> ptrs c \<Longrightarrow> addr c p = Some a \<Longrightarrow> addr c q = Some a \<Longrightarrow> a \<noteq> NO_ADDRESS \<Longrightarrow> p = q"
  using assms unfolding dc_inv_def by blast+

lemma dc_invI:
  assumes "dc_geometry c"
    and "\<And>k p. slot c k = Some p \<Longrightarrow> \<exists>a. addr c p = Some a \<and> (a = NO_ADDRESS \<or> k div assoc c = set_of c a)"
    and "\<And>p. p \<in> set (dc_replaced c) \<Longrightarrow> \<exists>a. addr c p = Some a \<and> a \<noteq> NO_ADDRESS \<and> full c (set_of c a)"
    and "\<And>k k' p. slot c k = Some p \<Longrightarrow> slot c k' = Some p \<Longrightarrow> k = k'"
    and "distinct (dc_replaced c)"
    and "\<And>k p. slot c k = Some p \<Longrightarrow> p \<notin> set (dc_replaced c)"
    and "\<And>p q a. p \<in> ptrs c \<Longrightarrow> q \<in> ptrs c \<Longrightarrow> addr c p = Some a \<Longrightarrow> addr c q = Some a \<Longrightarrow> a \<noteq> NO_ADDRESS \<Longrightarrow> p = q"
  shows "dc_inv c"
  unfolding dc_inv_def by (intro conjI allI impI ballI assms)

lemma addr_Some: "addr c p = Some a \<longleftrightarrow> (\<exists>e. entry_at p (dc_directory c) = Inr e \<and> de_address e = a)"
  by (auto simp: addr_def split: sum.split)

lemma dc_inv_live: "dc_inv c \<Longrightarrow> p \<in> ptrs c \<Longrightarrow> \<exists>a. addr c p = Some a"
  unfolding ptrs_def using dc_invD(2,3) by blast

lemma entry_at_Inr: "entry_at p d = Inr e \<longleftrightarrow> p < length (dir_heap d) \<and> dir_heap d ! p = Some e"
  by (auto simp: entry_at_def at_def result_simps split: option.splits)

text \<open>The slots of a set are in the table.\<close>

lemma slot_number:
  assumes "dc_geometry c" "i < assoc c"
  shows "unat (snd (dc_splitAddress a c) * dc_associativity c + of_nat i) = set_of c a * assoc c + i"
    and "set_of c a * assoc c + i < unat (dc_total_entries c)"
    and "(set_of c a * assoc c + i) div assoc c = set_of c a"
proof -
  let ?n = "unat (dc_num_sets c)"
  have n: "?n = unat (dc_total_entries c) div assoc c" using assms(1) by (simp add: dc_geometry_def unat_div)
  have pos: "0 < ?n" "0 < assoc c" using assms(1) unfolding dc_geometry_def unat_gt_0 by blast+
  have "snd (dc_splitAddress a c) \<le> dc_num_sets c - 1"
    by (simp add: dc_splitAddress_def Let_def word_and_le1)
  then have "set_of c a \<le> unat (dc_num_sets c - 1)" by (simp add: set_of_def word_le_nat_alt)
  also have "\<dots> = ?n - 1" using pos(1) unfolding unat_gt_0 by (simp add: unat_minus_one)
  finally have "set_of c a + 1 \<le> ?n" using pos(1) by simp
  then have "(set_of c a + 1) * assoc c \<le> ?n * assoc c" by (rule mult_le_mono1)
  also have "\<dots> \<le> unat (dc_total_entries c)" by (simp add: n)
  finally show lt: "set_of c a * assoc c + i < unat (dc_total_entries c)" using assms(2) by simp
  then have "set_of c a * assoc c + i < 2 ^ 32" using unat_lt2p [of "dc_total_entries c"] by simp
  then show "unat (snd (dc_splitAddress a c) * dc_associativity c + of_nat i) = set_of c a * assoc c + i"
    by (simp add: set_of_def unat_word_ariths unat_of_nat mod_simps)
  show "(set_of c a * assoc c + i) div assoc c = set_of c a" using assms(2) pos(2) by simp
qed

section \<open>Creating entries\<close>

text \<open>\<open>grown c c'\<close>: some empty slots of \<open>c\<close> have new entries, without an address, in \<open>c'\<close>.\<close>

definition same_geometry :: "ddcache \<Rightarrow> ddcache \<Rightarrow> bool" where
  "same_geometry c c' \<longleftrightarrow> dc_associativity c' = dc_associativity c \<and> dc_num_sets c' = dc_num_sets c \<and>
     dc_total_entries c' = dc_total_entries c \<and> dc_log_num_sets c' = dc_log_num_sets c \<and>
     dc_log_block_size c' = dc_log_block_size c \<and> dir_num_entries (dc_directory c') = dir_num_entries (dc_directory c) \<and>
     length (dir_list (dc_directory c')) = length (dir_list (dc_directory c))"

definition grown :: "ddcache \<Rightarrow> ddcache \<Rightarrow> bool" where
  "grown c c' \<longleftrightarrow> same_geometry c c' \<and> dc_replaced c' = dc_replaced c \<and>
     (\<forall>k p. slot c k = Some p \<longrightarrow> slot c' k = Some p) \<and>
     (\<forall>p e. entry_at p (dc_directory c) = Inr e \<longrightarrow> entry_at p (dc_directory c') = Inr e) \<and>
     (\<forall>k p. slot c' k = Some p \<longrightarrow> slot c k \<noteq> Some p \<longrightarrow> p \<notin> ptrs c \<and> addr c p = None \<and> addr c' p = Some NO_ADDRESS)"

lemma same_geometryD:
  assumes "same_geometry c c'"
  shows "dc_geometry c' \<longleftrightarrow> dc_geometry c" "assoc c' = assoc c" "set_of c' a = set_of c a"
    "snd (dc_splitAddress a c') = snd (dc_splitAddress a c)"
  using assms by (auto simp: same_geometry_def dc_geometry_def set_of_def dc_splitAddress_def Let_def)

lemma grownD:
  assumes "grown c c'"
  shows "same_geometry c c'" "dc_replaced c' = dc_replaced c" "slot c k = Some p \<Longrightarrow> slot c' k = Some p"
    "entry_at p (dc_directory c) = Inr e \<Longrightarrow> entry_at p (dc_directory c') = Inr e"
    "slot c' k = Some p \<Longrightarrow> slot c k \<noteq> Some p \<Longrightarrow> p \<notin> ptrs c \<and> addr c p = None \<and> addr c' p = Some NO_ADDRESS"
  using assms unfolding grown_def by blast+

lemma grown_addr: "grown c c' \<Longrightarrow> addr c p = Some a \<Longrightarrow> addr c' p = Some a"
  by (auto simp: addr_Some dest: grownD(4))

lemma grown_ptrs: "grown c c' \<Longrightarrow> p \<in> ptrs c' \<Longrightarrow> p \<in> ptrs c \<or> addr c' p = Some NO_ADDRESS"
  unfolding ptrs_def using grownD(2,5) [of c c'] by fastforce

lemma grown_refl: "grown c c"
  by (simp add: grown_def same_geometry_def)

lemma full_mono:
  assumes "full c n" "dc_associativity c' = dc_associativity c"
    and "\<And>k q. slot c k = Some q \<Longrightarrow> addr c q \<noteq> Some NO_ADDRESS \<Longrightarrow> \<exists>q'. slot c' k = Some q' \<and> addr c' q' \<noteq> Some NO_ADDRESS"
  shows "full c' n"
  using assms unfolding full_def by metis

lemma grown_full: "grown c c' \<Longrightarrow> dc_inv c \<Longrightarrow> full c n \<Longrightarrow> full c' n"
proof (rule full_mono)
  fix k q assume g: "grown c c'" "dc_inv c" and q: "slot c k = Some q" "addr c q \<noteq> Some NO_ADDRESS"
  obtain a where "addr c q = Some a" using dc_invD(2) [OF g(2) q(1)] by blast
  with grown_addr [OF g(1), of q] grownD(3) [OF g(1) q(1)] q(2)
  show "\<exists>q'. slot c' k = Some q' \<and> addr c' q' \<noteq> Some NO_ADDRESS" by auto
qed (simp_all add: grown_def same_geometry_def)

lemma grown_trans:
  assumes "grown c d" "grown d e"
  shows "grown c e"
  unfolding grown_def
proof (intro conjI allI impI)
  show "same_geometry c e" using grownD(1) [OF assms(1)] grownD(1) [OF assms(2)] by (simp add: same_geometry_def)
next
  fix k p assume e: "slot e k = Some p" and n: "slot c k \<noteq> Some p"
  have "p \<notin> ptrs c \<and> addr c p = None \<and> addr e p = Some NO_ADDRESS"
  proof (cases "slot d k = Some p")
    case True
    from grownD(5) [OF assms(1) this n] grown_addr [OF assms(2)] show ?thesis by blast
  next
    case False
    from grownD(5) [OF assms(2) e False] have d: "p \<notin> ptrs d" "addr d p = None" "addr e p = Some NO_ADDRESS" by blast+
    have "p \<notin> ptrs c" using d(1) grownD(2,3) [OF assms(1)] unfolding ptrs_def by auto
    moreover have "addr c p = None" using d(2) grown_addr [OF assms(1), of p] by (cases "addr c p") auto
    ultimately show ?thesis using d(3) by blast
  qed
  then show "p \<notin> ptrs c" "addr c p = None" "addr e p = Some NO_ADDRESS" by blast+
qed (use assms in \<open>auto simp: grownD(2) dest: grownD(3,4)\<close>)

text \<open>What a table grown by one slot looks like.\<close>

lemma grown_inv:
  assumes "dc_inv c" "grown c c'"
    and fresh: "\<And>k k' p. slot c' k = Some p \<Longrightarrow> slot c' k' = Some p \<Longrightarrow> k = k'"
  shows "dc_inv c'"
proof -
  note g = grownD [OF assms(2)] and G = same_geometryD [OF grownD(1) [OF assms(2)]] and inv = dc_invD [OF assms(1)]
  have A: "\<exists>a. addr c' p = Some a \<and> (a = NO_ADDRESS \<or> k div assoc c' = set_of c' a)" if "slot c' k = Some p" for k p
  proof (cases "slot c k = Some p")
    case True
    from inv(2) [OF this] grown_addr [OF assms(2)] show ?thesis by (auto simp: G)
  next
    case False
    from g(5) [OF that False] show ?thesis by simp
  qed
  have B: "\<exists>a. addr c' p = Some a \<and> a \<noteq> NO_ADDRESS \<and> full c' (set_of c' a)" if "p \<in> set (dc_replaced c')" for p
    using inv(3) [of p] that grown_addr [OF assms(2), of p] grown_full [OF assms(2,1)] by (auto simp: G g(2))
  have C: "p \<notin> set (dc_replaced c')" if "slot c' k = Some p" for k p
    using inv(6) [of k p] g(5) [OF that] unfolding ptrs_def g(2) by blast
  have D: "p = q" if "p \<in> ptrs c'" "q \<in> ptrs c'" "addr c' p = Some a" "addr c' q = Some a" "a \<noteq> NO_ADDRESS" for p q a
  proof -
    have "p \<in> ptrs c" "q \<in> ptrs c" using grown_ptrs [OF assms(2)] that by fastforce+
    moreover from this obtain b b' where "addr c p = Some b" "addr c q = Some b'" using dc_inv_live [OF assms(1)] by blast
    moreover from this have "b = a" "b' = a" using grown_addr [OF assms(2)] that by fastforce+
    ultimately show ?thesis using inv(7) that(5) by blast
  qed
  show ?thesis by (rule dc_invI [OF _ A B fresh _ C D]) (use inv(1,5) G(1) g(2) in simp_all)
qed

lemma way_entry_grown:
  assumes "way_entry n i c = Inr (p, e, c')" "dc_inv c"
  defines "k \<equiv> unat (n * dc_associativity c + of_nat i)"
  shows "grown c c'" "dc_inv c'" "slot c' k = Some p" "entry_at p (dc_directory c') = Inr e"
proof -
  let ?d = "dc_directory c"
  from assms(1) obtain d where get: "dir_getEntry (n * dc_associativity c + of_nat i) ?d = Inr (p, d)"
    and e: "entry_at p d = Inr e" and c': "c' = c\<lparr>dc_directory := d\<rparr>"
    by (auto simp: way_entry_def result_simps split_beta)
  from get have k: "k < length (dir_list ?d)"
    by (auto simp: dir_getEntry_def at_def k_def result_simps split: if_splits)
  have "grown c c' \<and> dc_inv c' \<and> slot c' k = Some p"
  proof (cases "dir_list ?d ! k")
    case (Some q)
    then have "q = p \<and> d = ?d" using get k by (simp add: dir_getEntry_def at_def k_def result_simps split: if_splits)
    with assms(2) Some k c' show ?thesis by (simp add: grown_refl slot_def)
  next
    case None
    from get None k have p: "p = length (dir_heap ?d)"
      and l: "dir_list d = (dir_list ?d)[k := Some p]" "length (dir_heap d) = Suc p"
      and h: "\<And>q. q < p \<Longrightarrow> dir_heap d ! q = dir_heap ?d ! q" "\<exists>e. dir_heap d ! p = Some e \<and> de_address e = NO_ADDRESS"
      and z: "dir_num_entries d = dir_num_entries ?d"
      by (auto simp: dir_getEntry_def at_def k_def result_simps createDirectoryEntry_def Let_def nth_append DirectoryEntry_new_def split: if_splits)
    have slot: "slot c' j = (if j = k then Some p else slot c j)" for j
      using k by (auto simp: slot_def c' l nth_list_update)
    have live: "\<And>q e. entry_at q ?d = Inr e \<Longrightarrow> entry_at q d = Inr e"
      using l(2) h(1) p by (auto simp: entry_at_Inr)
    have new: "p \<notin> ptrs c" "addr c p = None" "addr c' p = Some NO_ADDRESS"
    proof -
      show none: "addr c p = None" by (cases "addr c p") (auto simp: addr_Some entry_at_Inr p)
      show "p \<notin> ptrs c" using none dc_inv_live [OF assms(2), of p] by auto
      show "addr c' p = Some NO_ADDRESS" using h(2) l(2) by (auto simp: addr_Some entry_at_Inr c')
    qed
    have "slot c k = None" using None by (simp add: slot_def)
    then have g: "grown c c'"
      unfolding grown_def using z l(1) new live by (auto simp: same_geometry_def c' slot [unfolded c'] split: if_splits)
    have "dc_inv c'"
    proof (rule grown_inv [OF assms(2) g])
      fix j j' q assume "slot c' j = Some q" "slot c' j' = Some q"
      then show "j = j'" using new(1) dc_invD(4) [OF assms(2)] by (auto simp: slot ptrs_def split: if_splits)
    qed
    with g slot show ?thesis by simp
  qed
  then show "grown c c'" "dc_inv c'" "slot c' k = Some p" by simp_all
  show "entry_at p (dc_directory c') = Inr e" using e by (simp add: c')
qed

lemma grown_assoc: "grown c c' \<Longrightarrow> dc_associativity c' = dc_associativity c"
  using grownD(1) by (simp add: same_geometry_def)

lemma scan_ways_grown:
  "scan_ways m test n i c = Inr (r, c') \<Longrightarrow> dc_inv c \<Longrightarrow> grown c c' \<and> dc_inv c'"
proof (induction m arbitrary: i c)
  case 0
  then show ?case by (simp add: grown_refl)
next
  case (Suc m)
  from Suc.prems(1) obtain p e d where w: "way_entry n i c = Inr (p, e, d)"
    and rest: "(if test e then Inr (Some (i, p, e), d) else scan_ways m test n (Suc i) d) = Inr (r, c')"
    by (auto simp: result_simps)
  note d = way_entry_grown [OF w Suc.prems(2)]
  show ?case
  proof (cases "test e")
    case False
    with rest Suc.IH [OF _ d(2)] grown_trans [OF d(1)] show ?thesis by auto
  qed (use rest d in simp)
qed

lemma scan_ways_hit:
  "scan_ways m test n i c = Inr (Some (j, p, e), c') \<Longrightarrow> dc_inv c \<Longrightarrow>
   i \<le> j \<and> j < i + m \<and> slot c' (unat (n * dc_associativity c + of_nat j)) = Some p \<and> entry_at p (dc_directory c') = Inr e \<and> test e"
proof (induction m arbitrary: i c)
  case (Suc m)
  from Suc.prems(1) obtain q x d where w: "way_entry n i c = Inr (q, x, d)"
    and rest: "(if test x then Inr (Some (i, q, x), d) else scan_ways m test n (Suc i) d) = Inr (Some (j, p, e), c')"
    by (auto simp: result_simps)
  note d = way_entry_grown [OF w Suc.prems(2)]
  show ?case
  proof (cases "test x")
    case False
    with rest Suc.IH [OF _ d(2)] grown_assoc [OF d(1)] show ?thesis by fastforce
  qed (use rest d(3,4) in simp)
qed simp

lemma scan_ways_miss:
  "scan_ways m test n i c = Inr (None, c') \<Longrightarrow> dc_inv c \<Longrightarrow> i \<le> j \<Longrightarrow> j < i + m \<Longrightarrow>
   \<exists>p e. slot c' (unat (n * dc_associativity c + of_nat j)) = Some p \<and> entry_at p (dc_directory c') = Inr e \<and> \<not> test e"
proof (induction m arbitrary: i c)
  case (Suc m)
  from Suc.prems(1) obtain q x d where w: "way_entry n i c = Inr (q, x, d)" and x: "\<not> test x"
    and rest: "scan_ways m test n (Suc i) d = Inr (None, c')"
    by (auto simp: result_simps split: if_splits)
  note d = way_entry_grown [OF w Suc.prems(2)]
  show ?case
  proof (cases "i = j")
    case True
    have "grown d c'" using scan_ways_grown [OF rest d(2)] by blast
    from grownD(3,4) [OF this] d(3,4) True x show ?thesis by blast
  next
    case False
    with Suc.IH [OF rest d(2)] Suc.prems(3,4) grown_assoc [OF d(1)] show ?thesis by simp
  qed
qed simp

section \<open>Looking up a line\<close>

lemma find_replaced_Some: "find_replaced a d ps = Inr (Some p) \<Longrightarrow> p \<in> set ps \<and> (\<exists>e. entry_at p d = Inr e \<and> de_address e = a)"
  by (induction ps) (auto simp: result_simps split: if_splits)

lemma find_replaced_None: "find_replaced a d ps = Inr None \<Longrightarrow> p \<in> set ps \<Longrightarrow> \<exists>e. entry_at p d = Inr e \<and> de_address e \<noteq> a"
  by (induction ps) (auto simp: result_simps split: if_splits)

text \<open>A way without an address is used for the line.\<close>

lemma dc_inv_assign:
  assumes inv: "dc_inv c" and k: "slot c k = Some p" and e: "entry_at p (dc_directory c) = Inr e" "de_address e = NO_ADDRESS"
    and a: "k div assoc c = set_of c a" "\<And>q. q \<in> ptrs c \<Longrightarrow> addr c q \<noteq> Some a"
  shows "dc_inv (c\<lparr>dc_directory := put_entry p (e\<lparr>de_address := a\<rparr>) (dc_directory c)\<rparr>)" (is "dc_inv ?c")
proof -
  note I = dc_invD [OF inv]
  have G: "dc_geometry ?c = dc_geometry c" "set_of ?c = set_of c" "slot ?c = slot c" "ptrs ?c = ptrs c"
    by (auto simp: dc_geometry_def put_entry_def set_of_def dc_splitAddress_def fun_eq_iff slot_def ptrs_def)
  have addr: "addr ?c q = (if q = p then Some a else addr c q)" for q
    using e(1) by (auto simp: addr_def entry_at_def put_entry_def at_def nth_list_update split: sum.splits option.splits)
  have p: "addr c p = Some NO_ADDRESS" "p \<in> ptrs c" "p \<notin> set (dc_replaced c)"
    using e k I(6) by (auto simp: addr_Some ptrs_def)
  have full: "full ?c n" if "full c n" for n
    using that by (rule full_mono) (use p(1) in \<open>auto simp: G addr\<close>)
  show ?thesis
  proof (rule dc_invI)
    fix j q assume "slot ?c j = Some q"
    then show "\<exists>b. addr ?c q = Some b \<and> (b = NO_ADDRESS \<or> j div assoc ?c = set_of ?c b)"
      using I(2) [of j q] I(4) [OF k, of j] a(1) by (auto simp: G addr)
  next
    fix q assume "q \<in> set (dc_replaced ?c)"
    then show "\<exists>b. addr ?c q = Some b \<and> b \<noteq> NO_ADDRESS \<and> full ?c (set_of ?c b)"
      using I(3) [of q] p(3) full by (auto simp: G addr)
  next
    fix q r b assume "q \<in> ptrs ?c" "r \<in> ptrs ?c" "addr ?c q = Some b" "addr ?c r = Some b" "b \<noteq> NO_ADDRESS"
    then show "q = r" using I(7) [of q r b] a(2) by (auto simp: G addr split: if_splits)
  qed (use I(1,4,5,6) in \<open>auto simp: G\<close>)
qed

lemma no_way:
  assumes inv: "dc_inv c" "a \<noteq> NO_ADDRESS" and k: "slot c k = Some q"
    and ways: "\<And>j. j < assoc c \<Longrightarrow> \<exists>p. slot c (set_of c a * assoc c + j) = Some p \<and> addr c p \<noteq> Some a"
  shows "addr c q \<noteq> Some a"
proof
  assume "addr c q = Some a"
  then have "k div assoc c = set_of c a" using dc_invD(2) [OF inv(1) k] inv(2) by auto
  moreover have "k mod assoc c < assoc c" using dc_invD(1) [OF inv(1)] by (simp add: dc_geometry_def unat_gt_0)
  ultimately obtain p where "slot c k = Some p" "addr c p \<noteq> Some a"
    using ways [of "k mod assoc c"] by (metis div_mult_mod_eq)
  with k \<open>addr c q = Some a\<close> show False by simp
qed

text \<open>After both scans of the ways of the set of a line that is not in the table.\<close>

lemma second_scan:
  assumes inv: "dc_inv c" and a: "a \<noteq> NO_ADDRESS"
    and s1: "scan_ways (assoc c) (\<lambda>e. de_address e = a) (snd (dc_splitAddress a c)) 0 c = Inr (None, c1)"
    and s2: "scan_ways (assoc c) test (snd (dc_splitAddress a c)) 0 c1 = Inr (free, c2)"
  shows "dc_inv c1" "grown c c1" "grown c c2" "dc_inv c2" "slot c2 k = Some q \<Longrightarrow> addr c2 q \<noteq> Some a"
proof -
  show c1: "dc_inv c1" "grown c c1" using scan_ways_grown [OF s1 inv] by blast+
  have c12: "grown c1 c2" using scan_ways_grown [OF s2 c1(1)] by blast
  show c2: "grown c c2" "dc_inv c2" using scan_ways_grown [OF s2 c1(1)] grown_trans [OF c1(2)] by blast+
  note G = same_geometryD [OF grownD(1) [OF c2(1)]]
  have ways: "\<exists>p. slot c2 (set_of c2 a * assoc c2 + j) = Some p \<and> addr c2 p \<noteq> Some a" if j: "j < assoc c2" for j
  proof -
    from j have j': "j < assoc c" by (simp add: G)
    from scan_ways_miss [OF s1 inv, of j] j' obtain p e
      where "slot c1 (set_of c a * assoc c + j) = Some p" "entry_at p (dc_directory c1) = Inr e" "de_address e \<noteq> a"
      by (auto simp: slot_number(1) [OF dc_invD(1) [OF inv] j'])
    with grownD(3,4) [OF c12] show ?thesis by (auto simp: addr_Some G)
  qed
  show "slot c2 k = Some q \<Longrightarrow> addr c2 q \<noteq> Some a" by (rule no_way [OF c2(2) a _ ways])
qed

lemma lookup_free:
  assumes inv: "dc_inv c" and a: "a \<noteq> NO_ADDRESS"
    and s1: "scan_ways (assoc c) (\<lambda>e. de_address e = a) (snd (dc_splitAddress a c)) 0 c = Inr (None, c1)"
    and s2: "scan_ways (assoc c) (\<lambda>e. de_address e = NO_ADDRESS) (snd (dc_splitAddress a c)) 0 c1 = Inr (Some (j, p, e), c2)"
  defines "c' \<equiv> c2\<lparr>dc_directory := put_entry p (e\<lparr>de_address := a\<rparr>) (dc_directory c2)\<rparr>"
  shows "dc_inv c'" "same_geometry c c'" "p \<in> ptrs c'" "addr c' p = Some a"
proof -
  note sc = second_scan [OF inv a s1 s2] and number = slot_number [OF dc_invD(1) [OF inv]]
  note G = same_geometryD [OF grownD(1) [OF sc(3)]]
  have hit: "j < assoc c" "slot c2 (set_of c a * assoc c + j) = Some p" "entry_at p (dc_directory c2) = Inr e" "de_address e = NO_ADDRESS"
    using scan_ways_hit [OF s2 sc(1)] number(1) [of j a] by (auto simp: grown_assoc [OF sc(2)])
  have no: "addr c2 q \<noteq> Some a" if "q \<in> ptrs c2" for q
  proof (cases "q \<in> set (dc_replaced c2)")
    case True
    have "\<not> full c2 (set_of c2 a)" unfolding full_def using hit by (auto simp: G addr_Some)
    with dc_invD(3) [OF sc(4) True] show ?thesis by auto
  qed (use sc(5) that in \<open>auto simp: ptrs_def\<close>)
  show "dc_inv c'" unfolding c'_def
    by (rule dc_inv_assign [OF sc(4) hit(2-4) _ no]) (simp add: G number(3) [OF hit(1)])
  show "same_geometry c c'" using grownD(1) [OF sc(3)] by (simp add: c'_def same_geometry_def put_entry_def)
  have "slot c' (set_of c a * assoc c + j) = Some p" using hit(2) by (simp add: c'_def slot_def put_entry_def split: if_splits)
  then show "p \<in> ptrs c'" by (auto simp: ptrs_def)
  show "addr c' p = Some a" using hit(3) by (auto simp: c'_def put_entry_def addr_Some entry_at_Inr)
qed

lemma scanned_full:
  assumes inv: "dc_inv c" and a: "a \<noteq> NO_ADDRESS"
    and s1: "scan_ways (assoc c) (\<lambda>e. de_address e = a) (snd (dc_splitAddress a c)) 0 c = Inr (None, c1)"
    and s2: "scan_ways (assoc c) (\<lambda>e. de_address e = NO_ADDRESS) (snd (dc_splitAddress a c)) 0 c1 = Inr (None, c2)"
  shows "full c2 (set_of c2 a)"
  unfolding full_def
proof (intro allI impI)
  note sc = second_scan [OF inv a s1 s2]
  note G = same_geometryD [OF grownD(1) [OF sc(3)]]
  fix j assume "j < assoc c2"
  then have j: "j < assoc c" by (simp add: G)
  from scan_ways_miss [OF s2 sc(1), of j] j
  show "\<exists>q. slot c2 (set_of c2 a * assoc c2 + j) = Some q \<and> addr c2 q \<noteq> Some NO_ADDRESS"
    by (auto simp: addr_Some G grown_assoc [OF sc(2)] slot_number(1) [OF dc_invD(1) [OF inv] j])
qed

text \<open>The three ways a lookup can go.\<close>

lemma lookup_E:
  assumes "dc_getDirectoryEntry a m c = Inr (r, ts, c')"
  obtains (hit) i p e where "scan_ways (assoc c) (\<lambda>e. de_address e = a) (snd (dc_splitAddress a c)) 0 c = Inr (Some (i, p, e), c')"
      "r = Some p" "ts = (if m then [dc_access_time c, getLatency e] else [])"
  | (free) c1 c2 i p e where "scan_ways (assoc c) (\<lambda>e. de_address e = a) (snd (dc_splitAddress a c)) 0 c = Inr (None, c1)"
      "scan_ways (assoc c) (\<lambda>e. de_address e = NO_ADDRESS) (snd (dc_splitAddress a c)) 0 c1 = Inr (Some (i, p, e), c2)"
      "r = Some p" "c' = c2\<lparr>dc_directory := put_entry p (e\<lparr>de_address := a\<rparr>) (dc_directory c2)\<rparr>" "ts = (if m then [dc_access_time c] else [])"
  | (full) c1 where "scan_ways (assoc c) (\<lambda>e. de_address e = a) (snd (dc_splitAddress a c)) 0 c = Inr (None, c1)"
      "scan_ways (assoc c) (\<lambda>e. de_address e = NO_ADDRESS) (snd (dc_splitAddress a c)) 0 c1 = Inr (None, c')"
      "find_replaced a (dc_directory c') (dc_replaced c') = Inr r" "ts = (if m then [dc_access_time c] else [])"
proof -
  from assms obtain h c1 where s1: "scan_ways (assoc c) (\<lambda>e. de_address e = a) (snd (dc_splitAddress a c)) 0 c = Inr (h, c1)"
    by (auto simp: dc_getDirectoryEntry_def Let_def result_simps)
  show ?thesis
  proof (cases h)
    case None
    from assms s1 None obtain f c2 where s2: "scan_ways (assoc c) (\<lambda>e. de_address e = NO_ADDRESS) (snd (dc_splitAddress a c)) 0 c1 = Inr (f, c2)"
      by (auto simp: dc_getDirectoryEntry_def Let_def result_simps)
    show ?thesis
      by (cases f) (use assms s1 None s2 in \<open>auto simp: dc_getDirectoryEntry_def Let_def result_simps intro: free full\<close>)
  qed (use assms s1 in \<open>auto simp: dc_getDirectoryEntry_def Let_def result_simps intro: hit\<close>)
qed

text \<open>What a lookup finds is the entry of the line, and when it finds none there is none.\<close>

lemma getDirectoryEntry_spec:
  assumes inv: "dc_inv c" and a: "a \<noteq> NO_ADDRESS" and run: "dc_getDirectoryEntry a m c = Inr (r, ts, c')"
  shows "dc_inv c' \<and> same_geometry c c' \<and>
    (case r of Some p \<Rightarrow> p \<in> ptrs c' \<and> addr c' p = Some a
     | None \<Rightarrow> (\<forall>q \<in> ptrs c'. addr c' q \<noteq> Some a) \<and> full c' (set_of c' a))"
  using run
proof (cases rule: lookup_E)
  case (hit i p e)
  from scan_ways_hit [OF hit(1) inv] have "p \<in> ptrs c'" "addr c' p = Some a" by (auto simp: ptrs_def addr_Some)
  with hit(2) scan_ways_grown [OF hit(1) inv] show ?thesis by (simp add: grownD(1))
next
  case (free c1 c2 i p e)
  with lookup_free [OF inv a free(1,2)] show ?thesis by simp
next
  case (full c1)
  note sc = second_scan [OF inv a full(1,2)]
  show ?thesis
  proof (cases r)
    case None
    have "addr c' q \<noteq> Some a" if "q \<in> ptrs c'" for q
      using that sc(5) find_replaced_None [OF full(3) [unfolded None], of q] by (auto simp: ptrs_def addr_Some)
    with None sc(3,4) scanned_full [OF inv a full(1,2)] show ?thesis by (simp add: grownD(1))
  qed (use full(3) sc(3,4) in \<open>auto simp: grownD(1) ptrs_def addr_Some dest!: find_replaced_Some\<close>)
qed

section \<open>Replacing an entry\<close>

text \<open>The line has no entry, its set is full, and the candidates are ways of the set.\<close>

definition room :: "IntPtr \<Rightarrow> nat list \<Rightarrow> ddcache \<Rightarrow> bool" where
  "room a ps c \<longleftrightarrow> a \<noteq> NO_ADDRESS \<and> (\<forall>q \<in> ptrs c. addr c q \<noteq> Some a) \<and> full c (set_of c a) \<and>
     (\<forall>p \<in> set ps. \<exists>i < assoc c. slot c (set_of c a * assoc c + i) = Some p)"

lemma collect_ways_grown:
  "collect_ways is n c = Inr (ps, c') \<Longrightarrow> dc_inv c \<Longrightarrow>
   grown c c' \<and> dc_inv c' \<and> (\<forall>p \<in> set ps. \<exists>i \<in> set is. slot c' (unat (n * dc_associativity c + of_nat i)) = Some p)"
proof (induction "is" arbitrary: c ps)
  case Nil
  then show ?case by (simp add: grown_refl)
next
  case (Cons i "is")
  from Cons.prems(1) obtain p e d ps' where w: "way_entry n i c = Inr (p, e, d)" "collect_ways is n d = Inr (ps', c')" "ps = p # ps'"
    by (auto simp: result_simps)
  note d = way_entry_grown [OF w(1) Cons.prems(2)] and ih = Cons.IH [OF w(2) way_entry_grown(2) [OF w(1) Cons.prems(2)]]
  have "slot c' (unat (n * dc_associativity c + of_nat i)) = Some p" using d(3) ih grownD(3) by blast
  with ih d(1) w(3) show ?case by (auto simp: grown_assoc intro: grown_trans)
qed

lemma grown_room: "grown c c' \<Longrightarrow> dc_inv c \<Longrightarrow> room a [] c \<Longrightarrow> room a [] c'"
proof -
  assume g: "grown c c'" and inv: "dc_inv c" and r: "room a [] c"
  have "addr c' q \<noteq> Some a" if "q \<in> ptrs c'" for q
    using grown_ptrs [OF g that] r dc_inv_live [OF inv, of q] grown_addr [OF g, of q] by (auto simp: room_def)
  with r grown_full [OF g inv] show "room a [] c'" by (simp add: room_def same_geometryD [OF grownD(1) [OF g]])
qed

lemma getReplacementCandidates_spec:
  assumes inv: "dc_inv c" and a: "a \<noteq> NO_ADDRESS" and run: "getReplacementCandidates a c = Inr (ps, c')"
  shows "dc_inv c'" "room a ps c'"
proof -
  let ?n = "\<lambda>c. snd (dc_splitAddress a c)" and ?is = "\<lambda>ptr c. map (\<lambda>i. unat ((of_nat i + ptr) mod dc_associativity c)) [0..<assoc c]"
  from run obtain ts c0 ptr c1 where get: "dc_getDirectoryEntry a False c = Inr (None, ts, c0)"
    and cw: "collect_ways (?is ptr c0) (?n c0) c0 = Inr (ps, c1)"
    and c': "c' = c1\<lparr>dc_replacement_ptrs := (dc_replacement_ptrs c1)[unat (?n c0) := ptr + 1]\<rparr>"
    by (auto simp: getReplacementCandidates_def Let_def result_simps)
  from getDirectoryEntry_spec [OF inv a get] have c0: "dc_inv c0" "room a [] c0" by (auto simp: room_def a)
  from collect_ways_grown [OF cw c0(1)] have g: "grown c0 c1" "dc_inv c1"
    and ps: "\<forall>p \<in> set ps. \<exists>i \<in> set (?is ptr c0). slot c1 (unat (?n c0 * dc_associativity c0 + of_nat i)) = Some p" by blast+
  note G = same_geometryD [OF grownD(1) [OF g(1)]]
  have lt: "i < assoc c0" if "i \<in> set (?is ptr c0)" for i
    using that dc_invD(1) [OF c0(1)] by (auto simp: dc_geometry_def unat_mod unat_gt_0)
  have "\<exists>i < assoc c1. slot c1 (set_of c1 a * assoc c1 + i) = Some p" if "p \<in> set ps" for p
    using ps that lt by (fastforce simp: G slot_number(1) [OF dc_invD(1) [OF c0(1)]])
  with grown_room [OF g(1) c0] have r: "room a ps c1" by (simp add: room_def)
  have same: "slot c' = slot c1" "addr c' = addr c1" "ptrs c' = ptrs c1" "set_of c' = set_of c1" "dc_geometry c' = dc_geometry c1"
    by (auto simp: c' slot_def addr_def ptrs_def set_of_def dc_splitAddress_def dc_geometry_def fun_eq_iff)
  show "room a ps c'" using r unfolding room_def full_def same by (simp add: c')
  show "dc_inv c'" using g(2) unfolding dc_inv_def full_def same by (simp add: c')
qed

text \<open>A candidate is the entry of some other line of the same set.\<close>

lemma room_candidate:
  assumes "dc_inv c" "room a ps c" "p \<in> set ps" "addr c p = Some b"
  shows "b \<noteq> NO_ADDRESS" "b \<noteq> a" "set_of c b = set_of c a" "p \<in> ptrs c"
proof -
  from assms(2,3) obtain i where i: "i < assoc c" "slot c (set_of c a * assoc c + i) = Some p" by (auto simp: room_def)
  show p: "p \<in> ptrs c" using i(2) by (auto simp: ptrs_def)
  show "b \<noteq> a" using assms(2,4) p by (auto simp: room_def)
  show b: "b \<noteq> NO_ADDRESS" using assms(2,4) i by (auto simp: room_def full_def)
  show "set_of c b = set_of c a"
    using dc_invD(2) [OF assms(1) i(2)] assms(4) b slot_number(3) [OF dc_invD(1) [OF assms(1)] i(1)] by auto
qed

text \<open>A slot gets a new entry and the old one moves to the replaced entries.\<close>

lemma dc_inv_replaced:
  assumes inv: "dc_inv c" and k: "slot c k = Some p" "addr c p = Some b" "b \<noteq> NO_ADDRESS"
    and a: "a \<noteq> NO_ADDRESS" "\<And>q. q \<in> ptrs c \<Longrightarrow> addr c q \<noteq> Some a" "set_of c a = set_of c b" "full c (set_of c b)"
    and q: "addr c q = None"
    and c': "same_geometry c c'" "\<And>j. slot c' j = (if j = k then Some q else slot c j)"
      "\<And>r. addr c' r = (if r = q then Some a else addr c r)" "dc_replaced c' = dc_replaced c @ [p]"
  shows "dc_inv c'"
proof -
  note I = dc_invD [OF inv] and G = same_geometryD [OF c'(1)]
  have new: "q \<notin> ptrs c" using dc_inv_live [OF inv, of q] q by auto
  then have q': "slot c j \<noteq> Some q" "q \<notin> set (dc_replaced c)" "p \<noteq> q" for j using k(1) by (auto simp: ptrs_def)
  have ptrs: "ptrs c' \<subseteq> insert q (ptrs c)" using k(1) by (auto simp: ptrs_def c'(2,4) split: if_splits)
  have full: "full c' n" if "full c n" for n
    using that by (rule full_mono) (use c'(1) a(1) q'(1) in \<open>auto simp: same_geometry_def c'(2,3)\<close>)
  have kset: "k div assoc c = set_of c b" using I(2) [OF k(1)] k(2,3) by auto
  show ?thesis
  proof (rule dc_invI)
    fix j r assume "slot c' j = Some r"
    then show "\<exists>x. addr c' r = Some x \<and> (x = NO_ADDRESS \<or> j div assoc c' = set_of c' x)"
      using I(2) [of j r] q'(1) [of j] kset a(3) by (auto simp: c' G split: if_splits)
  next
    fix r assume "r \<in> set (dc_replaced c')"
    then show "\<exists>x. addr c' r = Some x \<and> x \<noteq> NO_ADDRESS \<and> full c' (set_of c' x)"
      using I(3) [of r] q'(2,3) full a(4) k(2,3) by (auto simp: c' G)
  next
    fix j j' r assume "slot c' j = Some r" "slot c' j' = Some r"
    then show "j = j'" using I(4) q'(1) by (auto simp: c'(2) split: if_splits)
  next
    show "distinct (dc_replaced c')" using I(5) I(6) [OF k(1)] by (simp add: c'(4))
  next
    fix j r assume "slot c' j = Some r"
    then show "r \<notin> set (dc_replaced c')"
      using I(4) [OF k(1), of j] I(6) [of j r] q'(2,3) by (auto simp: c'(2,4) split: if_splits)
  next
    fix r r' x assume "r \<in> ptrs c'" "r' \<in> ptrs c'" "addr c' r = Some x" "addr c' r' = Some x" "x \<noteq> NO_ADDRESS"
    then show "r = r'" using I(7) [of r r' x] a(2) ptrs by (fastforce simp: c'(3) split: if_splits)
  qed (use I(1) G(1) in simp)
qed

lemma new_entry_in_slot:
  assumes "(let (q0, d) = createDirectoryEntry D
     in bindE (entry_at q0 d) (\<lambda>new. bindE (dir_setEntry n q0 (put_entry q0 (new\<lparr>de_address := a\<rparr>) d)) (\<lambda>d'. Inr (q0, f d')))) = Inr (q, c')"
  obtains d' e where "c' = f d'" "q = length (dir_heap D)" "unat n < length (dir_list D)"
    "dir_list d' = (dir_list D)[unat n := Some q]" "dir_num_entries d' = dir_num_entries D"
    "dir_heap d' = dir_heap D @ [Some e]" "de_address e = a"
  using assms
  by (auto simp: createDirectoryEntry_def Let_def result_simps entry_at_Inr dir_setEntry_def put_entry_def nth_append
      split: if_splits)

lemma replaceDirectoryEntry_E:
  assumes "replaceDirectoryEntry b a c = Inr (q, c')"
  obtains i p e c1 where
    "scan_ways (assoc c) (\<lambda>e. de_address e = b) (snd (dc_splitAddress b c)) 0 c = Inr (Some (i, p, e), c1)"
    "(let (q0, d) = createDirectoryEntry (dc_directory c1)
      in bindE (entry_at q0 d) (\<lambda>new. bindE (dir_setEntry (snd (dc_splitAddress b c) * dc_associativity c1 + of_nat i) q0
           (put_entry q0 (new\<lparr>de_address := a\<rparr>) d)) (\<lambda>d'. Inr (q0, c1\<lparr>dc_directory := d', dc_replaced := dc_replaced c1 @ [p]\<rparr>)))) = Inr (q, c')"
  using assms by (auto simp: replaceDirectoryEntry_def Let_def bindE_eq_Inr split: option.splits)

lemma replaceDirectoryEntry_spec:
  assumes inv: "dc_inv c" and room: "room a ps c" "p \<in> set ps" "addr c p = Some b"
    and run: "replaceDirectoryEntry b a c = Inr (q, c')"
  shows "dc_inv c'" "q \<in> ptrs c'" "addr c' q = Some a"
proof -
  note rc = room_candidate [OF inv room] and I = dc_invD [OF inv]
  let ?n = "snd (dc_splitAddress b c)"
  from run obtain i r e c1 where s1: "scan_ways (assoc c) (\<lambda>e. de_address e = b) ?n 0 c = Inr (Some (i, r, e), c1)"
    and step: "(let (q0, d) = createDirectoryEntry (dc_directory c1)
      in bindE (entry_at q0 d) (\<lambda>new. bindE (dir_setEntry (?n * dc_associativity c1 + of_nat i) q0
           (put_entry q0 (new\<lparr>de_address := a\<rparr>) d)) (\<lambda>d'. Inr (q0, c1\<lparr>dc_directory := d', dc_replaced := dc_replaced c1 @ [r]\<rparr>)))) = Inr (q, c')"
    by (rule replaceDirectoryEntry_E)
  have g: "grown c c1" "dc_inv c1" using scan_ways_grown [OF s1 inv] by blast+
  note G = same_geometryD [OF grownD(1) [OF g(1)]]
  let ?k = "set_of c b * assoc c + i"
  have hit: "i < assoc c" "slot c1 ?k = Some r" "addr c1 r = Some b"
    using scan_ways_hit [OF s1 inv] slot_number(1) [OF I(1), of i b] by (auto simp: addr_Some)
  have k: "unat (?n * dc_associativity c1 + of_nat i) = ?k"
    using slot_number(1) [OF I(1) hit(1)] by (simp add: grown_assoc [OF g(1)])
  from new_entry_in_slot [OF step] obtain d' x where d': "c' = c1\<lparr>dc_directory := d', dc_replaced := dc_replaced c1 @ [r]\<rparr>"
    "q = length (dir_heap (dc_directory c1))" "?k < length (dir_list (dc_directory c1))"
    "dir_list d' = (dir_list (dc_directory c1))[?k := Some q]" "dir_num_entries d' = dir_num_entries (dc_directory c1)"
    "dir_heap d' = dir_heap (dc_directory c1) @ [Some x]" "de_address x = a" unfolding k by blast
  have none: "addr c1 q = None" by (cases "addr c1 q") (auto simp: addr_Some entry_at_Inr d'(2))
  have slot': "slot c' j = (if j = ?k then Some q else slot c1 j)" for j
    using d'(3) by (auto simp: slot_def d'(1,4) nth_list_update)
  have addr': "addr c' j = (if j = q then Some a else addr c1 j)" for j
    using d'(7) by (auto simp: addr_def entry_at_def at_def d'(1,2,6) nth_append split: if_splits)
  from slot' show "q \<in> ptrs c'" by (auto simp: ptrs_def)
  from addr' show "addr c' q = Some a" by simp
  have room1: "room a [] c1" using room(1) by (intro grown_room [OF g(1) inv]) (simp add: room_def)
  show "dc_inv c'"
  proof (rule dc_inv_replaced [OF g(2) hit(2,3) rc(1) _ _ _ _ none _ slot' addr'])
    show "same_geometry c1 c'" by (simp add: same_geometry_def d')
    show "full c1 (set_of c1 b)" "set_of c1 a = set_of c1 b" "a \<noteq> NO_ADDRESS" "\<And>q. q \<in> ptrs c1 \<Longrightarrow> addr c1 q \<noteq> Some a"
      using room1 rc(3) by (auto simp: room_def G)
  qed (simp add: d'(1))
qed

section \<open>Deleting a replaced entry\<close>

lemma invalidateDirectoryEntry_spec:
  assumes inv: "dc_inv c" and run: "invalidateDirectoryEntry a c = Inr c'"
  shows "dc_inv c'" "q \<in> ptrs c' \<Longrightarrow> a \<noteq> NO_ADDRESS \<Longrightarrow> addr c' q \<noteq> Some a"
proof -
  note I = dc_invD [OF inv]
  from run obtain p where find: "find_replaced a (dc_directory c) (dc_replaced c) = Inr (Some p)"
    and c': "c' = c\<lparr>dc_directory := delete_entry p (dc_directory c), dc_replaced := remove1 p (dc_replaced c)\<rparr>"
    by (auto simp: invalidateDirectoryEntry_def result_simps split: option.splits)
  have p: "p \<in> set (dc_replaced c)" "addr c p = Some a" using find_replaced_Some [OF find] by (auto simp: addr_Some)
  have G: "dc_geometry c' = dc_geometry c" "set_of c' = set_of c" "slot c' = slot c" "set (dc_replaced c') = set (dc_replaced c) - {p}"
    "dc_associativity c' = dc_associativity c" "distinct (dc_replaced c')"
    using I(5) by (auto simp: c' delete_entry_def dc_geometry_def set_of_def dc_splitAddress_def slot_def fun_eq_iff)
  have addr: "addr c' q = (if q = p then None else addr c q)" for q
    by (auto simp: addr_def entry_at_def at_def c' delete_entry_def nth_list_update)
  have tab: "slot c k \<noteq> Some p" for k using I(6) p(1) by blast
  have ptrs: "ptrs c' = ptrs c - {p}" using tab by (auto simp: ptrs_def G)
  have full: "full c' n" if "full c n" for n
    using that by (rule full_mono) (use tab in \<open>auto simp: G addr\<close>)
  show "dc_inv c'"
  proof (rule dc_invI)
    fix k q assume "slot c' k = Some q"
    then show "\<exists>x. addr c' q = Some x \<and> (x = NO_ADDRESS \<or> k div assoc c' = set_of c' x)" "q \<notin> set (dc_replaced c')"
      using I(2,6) [of k q] tab by (auto simp: G addr)
  next
    fix q assume "q \<in> set (dc_replaced c')"
    then show "\<exists>x. addr c' q = Some x \<and> x \<noteq> NO_ADDRESS \<and> full c' (set_of c' x)" using I(3) [of q] full by (auto simp: G addr)
  next
    fix q r x assume "q \<in> ptrs c'" "r \<in> ptrs c'" "addr c' q = Some x" "addr c' r = Some x" "x \<noteq> NO_ADDRESS"
    then show "q = r" using I(7) [of q r x] by (simp add: ptrs addr)
  qed (use I(1,4) in \<open>auto simp: G\<close>)
  show "q \<in> ptrs c' \<Longrightarrow> a \<noteq> NO_ADDRESS \<Longrightarrow> addr c' q \<noteq> Some a"
    using I(7) [of q p a] p by (auto simp: ptrs addr) (auto simp: ptrs_def)
qed

section \<open>A new table\<close>

lemma DramDirectoryCache_new_inv:
  assumes "Directory_new ty N hw mx pen fw = Inr d" "DramDirectoryCache_new d N ways block t rp = Inr c" "ways \<le> N"
  shows "dc_inv c" "ptrs c = {}"
proof -
  from assms(1) have d: "dir_num_entries d = N" "dir_list d = replicate (unat N) None"
    by (auto simp: Directory_new_def result_simps)
  from assms(2) have c: "dc_directory c = d" "dc_replaced c = []" "dc_associativity c = ways" "ways \<noteq> 0" "dc_num_sets c = N div ways"
    "dc_total_entries c = N"
    by (auto simp: DramDirectoryCache_new_def Let_def result_simps)
  have slot: "slot c k = None" for k by (simp add: slot_def c d)
  then show "ptrs c = {}" by (simp add: ptrs_def c)
  have "unat N div unat ways \<noteq> 0" using assms(3) c(4) by (simp add: word_le_nat_alt div_eq_0_iff unat_eq_0)
  then have "N div ways \<noteq> 0" unfolding unat_div [symmetric] by (metis unat_0)
  then show "dc_inv c" by (simp add: dc_inv_def dc_geometry_def slot c d ptrs_def)
qed

end
