(* ===== verification/Directory_Steps.thy ===== *)
theory Directory_Steps
  imports Directory_Cntlr Directory_Table
begin

text \<open>
  The elementary steps of the tag directory, and what it takes for a property to be kept by all of
  its handlers: a property closed under the steps on entries, on the table and on the rest of the
  state is kept by the parts that leave the queues alone, and one that is closed under queueing and
  taking out of requests as well is kept by every message.
\<close>

section \<open>Steps\<close>

abbreviation dirOf :: "dircntlr \<Rightarrow> directory" where
  "dirOf s \<equiv> dc_directory (dd_cache s)"

inductive entry_step :: "dir_entry \<Rightarrow> dir_entry \<Rightarrow> bool" where
  granted: "de_dstate e = UNCACHED \<Longrightarrow> st \<in> {DIR_SHARED, DIR_MODIFIED, DIR_EXCLUSIVE} \<Longrightarrow>
    grantEntry r n st e = Inr e' \<Longrightarrow> entry_step e e'"
| added: "de_dstate e = DIR_SHARED \<Longrightarrow> addSharer r n e = Inr (b, e') \<Longrightarrow> entry_step e e'"
| chosen: "getOneSharer e = Inr (c, e') \<Longrightarrow> entry_step e e'"
| forwarded: "entry_step e (e\<lparr>de_forwarder := c\<rparr>)"
| invalidated: "dropInvalidated c e = Inr e' \<Longrightarrow> entry_step e e'"
| flushed: "dropFlushed c e = Inr e' \<Longrightarrow> entry_step e e'"
| written_back: "shareWrittenBack c e = Inr e' \<Longrightarrow> entry_step e e'"
| rewritten: "de_dstate e \<in> {DIR_MODIFIED, DIR_EXCLUSIVE} \<Longrightarrow> entry_step e (e\<lparr>de_dstate := DIR_MODIFIED\<rparr>)"
| upgraded: "de_dstate e = DIR_SHARED \<Longrightarrow> sharer_list e = [r] \<Longrightarrow> setOwner r e = Inr e' \<Longrightarrow>
    entry_step e (e'\<lparr>de_dstate := DIR_MODIFIED\<rparr>)"
| abandoned: "getNumSharers e = 0 \<Longrightarrow> entry_step e (e\<lparr>de_dstate := UNCACHED\<rparr>)"

text \<open>A lookup assigns the address of a line to a free entry; \<open>~0\<close> stands for no address.\<close>

inductive table_step :: "ddcache \<Rightarrow> ddcache \<Rightarrow> bool" where
  looked_up: "a \<noteq> NO_ADDRESS \<Longrightarrow> dc_getDirectoryEntry a m c = Inr (p, ts, c') \<Longrightarrow> table_step c c'"
| candidates: "a \<noteq> NO_ADDRESS \<Longrightarrow> getReplacementCandidates a c = Inr (ps, c') \<Longrightarrow> table_step c c'"
| replaced: "room a ps c \<Longrightarrow> p \<in> set ps \<Longrightarrow> addr c p = Some b \<Longrightarrow> replaceDirectoryEntry b a c = Inr (q, c') \<Longrightarrow> table_step c c'"
| removed: "invalidateDirectoryEntry a c = Inr c' \<Longrightarrow> table_step c c'"

lemma table_step_inv: "table_step c c' \<Longrightarrow> dc_inv c \<Longrightarrow> dc_inv c'"
  by (induction rule: table_step.induct)
    (use getDirectoryEntry_spec getReplacementCandidates_spec(1) replaceDirectoryEntry_spec(1) invalidateDirectoryEntry_spec(1) in blast)+

lemma entry_step_address: "entry_step e e' \<Longrightarrow> de_address e' = de_address e"
  by (induction rule: entry_step.induct)
    (auto simp: grantEntry_def setOwner_Inr dropInvalidated_def dropFlushed_def shareWrittenBack_def removeSharer_Inr Let_def result_simps
      dest: addSharer_Inr(5) getOneSharer_Inr(2) split: if_splits)

text \<open>The table and the queues are well formed: every waiting request is in the queue of its line.\<close>

definition keyed :: "shmem_req req_queue \<Rightarrow> bool" where
  "keyed q \<longleftrightarrow> rq_inv q \<and> (\<forall>a. \<forall>r \<in> set (pending q a). msg_address (sr_msg r) = a)"

definition dir_wf :: "dircntlr \<Rightarrow> bool" where
  "dir_wf s \<longleftrightarrow> dc_inv (dd_cache s) \<and> keyed (dd_queue s)"

definition same_request :: "(shmem_req \<Rightarrow> shmem_req) \<Rightarrow> bool" where
  "same_request f \<longleftrightarrow> (\<forall>r. msg_address (sr_msg (f r)) = msg_address (sr_msg r) \<and>
     msg_type (sr_msg (f r)) = msg_type (sr_msg r) \<and> msg_requester (sr_msg (f r)) = msg_requester (sr_msg r))"

definition mod_front :: "IntPtr \<Rightarrow> (shmem_req \<Rightarrow> shmem_req) \<Rightarrow> shmem_req req_queue \<Rightarrow> shmem_req req_queue" where
  "mod_front a f q = q(a := (case q a of Some (r # rs) \<Rightarrow> Some (f r # rs) | x \<Rightarrow> x))"

text \<open>Sequencing with a fact about the state in between.\<close>

definition after :: "('s \<Rightarrow> bool) \<Rightarrow> ('s, 'a) action \<Rightarrow> ('s \<Rightarrow> bool) \<Rightarrow> bool" where
  "after P m Q \<longleftrightarrow> (\<forall>s a s'. P s \<longrightarrow> m s = Inr (a, s') \<longrightarrow> Q s')"

named_theorems after_rules \<open>rules for actions on an entry that was just read\<close>

lemma after_failA [after_rules]: "after P (failA e) Q"
  by (simp add: after_def action_simps)

lemma after_assertA [after_rules]: "(b \<Longrightarrow> after P m Q) \<Longrightarrow> after P (thenA (assertA b e) m) Q"
  by (auto simp: after_def action_simps)

lemma after_thenA: "after P m R \<Longrightarrow> after R n Q \<Longrightarrow> after P (thenA m n) Q"
  unfolding after_def thenA_Inr by blast

lemma after_liftA [after_rules]: "(\<And>a. r = Inr a \<Longrightarrow> after P (f a) Q) \<Longrightarrow> after P (bindA (liftA r) f) Q"
  by (auto simp: after_def action_simps)

lemma after_getA [after_rules]: "(\<And>a. after P (f a) Q) \<Longrightarrow> after P (bindA (getA g) f) Q"
  by (auto simp: after_def action_simps)

lemma after_if [after_rules]: "(b \<Longrightarrow> after P m Q) \<Longrightarrow> (\<not> b \<Longrightarrow> after P n Q) \<Longrightarrow> after P (if b then m else n) Q"
  by simp

lemma after_whenA [after_rules]: "(b \<Longrightarrow> after P m Q) \<Longrightarrow> (\<And>s. P s \<Longrightarrow> Q s) \<Longrightarrow> after P (whenA b m) Q"
  by (auto simp: after_def whenA_def action_simps)

lemma after_dstate:
  assumes "x = UNCACHED \<Longrightarrow> after P m1 Q" "x = DIR_SHARED \<Longrightarrow> after P m2 Q" "x = DIR_OWNED \<Longrightarrow> after P m3 Q"
    "x = DIR_MODIFIED \<Longrightarrow> after P m4 Q" "x = DIR_EXCLUSIVE \<Longrightarrow> after P m5 Q"
  shows "after P (case x of UNCACHED \<Rightarrow> m1 | DIR_SHARED \<Rightarrow> m2 | DIR_OWNED \<Rightarrow> m3 | DIR_MODIFIED \<Rightarrow> m4 | DIR_EXCLUSIVE \<Rightarrow> m5) Q"
  using assms by (cases x) simp_all

lemma keeps_after: "keeps Q m \<Longrightarrow> (\<And>s. P s \<Longrightarrow> Q s) \<Longrightarrow> after P m Q"
  by (auto simp: after_def keeps_def)

section \<open>Properties closed under the steps that leave the queues alone\<close>

locale dir_closed =
  fixes P :: "dircntlr \<Rightarrow> bool"
  assumes wf: "P s \<Longrightarrow> dir_wf s"
    and other: "P s \<Longrightarrow> P (s\<lparr>dd_nuca := nu, dd_clock := ck, dd_evict := ev, dd_forward := fw, dd_forward_failed := ff, dd_net := dd_net s @ ps\<rparr>)"
    and table: "P s \<Longrightarrow> table_step (dd_cache s) c \<Longrightarrow> P (s\<lparr>dd_cache := c\<rparr>)"
    and entry: "P s \<Longrightarrow> entry_at p (dirOf s) = Inr e \<Longrightarrow> entry_step e e' \<Longrightarrow>
      P (s\<lparr>dd_cache := (dd_cache s)\<lparr>dc_directory := put_entry p e' (dirOf s)\<rparr>\<rparr>)"
    and front: "P s \<Longrightarrow> same_request f \<Longrightarrow> P (s\<lparr>dd_queue := mod_front a f (dd_queue s)\<rparr>)"
begin

lemma other_parts:
  assumes "P s"
  shows "P (s\<lparr>dd_clock := ck\<rparr>)" "P (s\<lparr>dd_nuca := nu\<rparr>)" "P (s\<lparr>dd_evict := ev\<rparr>)" "P (s\<lparr>dd_forward := fw\<rparr>)"
    "P (s\<lparr>dd_forward_failed := ff\<rparr>)" "P (s\<lparr>dd_net := dd_net s @ ps\<rparr>)"
  using other [OF assms, where nu = "dd_nuca s" and ck = "ck" and ev = "dd_evict s" and fw = "dd_forward s" and ff = "dd_forward_failed s" and ps = "[]"]
    other [OF assms, where nu = "nu" and ck = "dd_clock s" and ev = "dd_evict s" and fw = "dd_forward s" and ff = "dd_forward_failed s" and ps = "[]"]
    other [OF assms, where nu = "dd_nuca s" and ck = "dd_clock s" and ev = "ev" and fw = "dd_forward s" and ff = "dd_forward_failed s" and ps = "[]"]
    other [OF assms, where nu = "dd_nuca s" and ck = "dd_clock s" and ev = "dd_evict s" and fw = "fw" and ff = "dd_forward_failed s" and ps = "[]"]
    other [OF assms, where nu = "dd_nuca s" and ck = "dd_clock s" and ev = "dd_evict s" and fw = "dd_forward s" and ff = "ff" and ps = "[]"]
    other [OF assms, where nu = "dd_nuca s" and ck = "dd_clock s" and ev = "dd_evict s" and fw = "dd_forward s" and ff = "dd_forward_failed s" and ps = "ps"]
  by simp_all

lemma keeps_time [keeps_rules]:
  "keeps P dd_now" "keeps P (dd_setTime t)" "keeps P (dd_updateTime t)" "keeps P (dd_incrTime t)"
  by (auto simp: keeps_def dd_now_def dd_setTime_def dd_updateTime_def dd_incrTime_def action_simps result_simps intro: other_parts)

lemma keeps_counters [keeps_rules]:
  "keeps P (modA (\<lambda>s. s\<lparr>dd_evict := ev s\<rparr>))" "keeps P (modA (\<lambda>s. s\<lparr>dd_forward := fw s\<rparr>))"
  "keeps P (modA (\<lambda>s. s\<lparr>dd_forward_failed := ff s\<rparr>))" "keeps P (modA (\<lambda>s. s\<lparr>dd_nuca := nu s\<rparr>))"
  by (auto simp: keeps_def action_simps intro: other_parts)

lemma keeps_send [keeps_rules]: "keeps P (dd_send ty rc rq rcv a buf n w)"
  unfolding dd_send_def by (intro keeps_rules) (auto simp: keeps_def action_simps intro: other_parts)

lemma keeps_toCache [keeps_rules]: "keeps P (toCache ty rq rcv a)"
  unfolding toCache_def by (rule keeps_send)

lemma keeps_replyToCache [keeps_rules]: "keeps P (replyToCache ty rcv a buf w)"
  unfolding replyToCache_def by (intro keeps_rules)

lemma keeps_queueSize [keeps_rules]: "keeps P (queueSize a)" "keeps P (frontReq a)" "keeps P (entryOf p)"
  unfolding queueSize_def frontReq_def entryOf_def by (intro keeps_rules)+

lemma keeps_modFront [keeps_rules]: "same_request f \<Longrightarrow> keeps P (modFront a f)"
  unfolding modFront_def using front by (fastforce simp: keeps_def action_simps mod_front_def)

lemma front_address: "P s \<Longrightarrow> rq_front a (dd_queue s) = Inr r \<Longrightarrow> msg_address (sr_msg r) = a"
  using wf [of s] rq_front_pending [of "dd_queue s" a r] by (auto simp: dir_wf_def keyed_def)

lemma keeps_frontReq_bind: "(\<And>r. msg_address (sr_msg r) = a \<Longrightarrow> keeps P (f r)) \<Longrightarrow> keeps P (bindA (frontReq a) f)"
proof (rule keepsI)
  fix s x s' assume f: "\<And>r. msg_address (sr_msg r) = a \<Longrightarrow> keeps P (f r)" and P: "P s" and "bindA (frontReq a) f s = Inr (x, s')"
  then obtain r where "rq_front a (dd_queue s) = Inr r" "f r s = Inr (x, s')" by (auto simp: frontReq_def action_simps)
  with f [OF front_address [OF P]] P show "P s'" by (blast intro: keepsD)
qed

lemma keeps_touchFront [keeps_rules]: "keeps P (touchFront a t)"
  unfolding touchFront_def by (intro keeps_rules) (simp add: same_request_def req_updateTime_def)

lemma touchFront_address: "P s \<Longrightarrow> touchFront a t s = Inr (r, s') \<Longrightarrow> msg_address (sr_msg r) = a"
proof -
  assume P: "P s" and run: "touchFront a t s = Inr (r, s')"
  let ?s = "s\<lparr>dd_queue := mod_front a (req_updateTime t) (dd_queue s)\<rparr>"
  have "P ?s" by (rule front [OF P]) (simp add: same_request_def req_updateTime_def)
  moreover have "rq_front a (dd_queue ?s) = Inr r"
    using run by (auto simp: touchFront_def modFront_def frontReq_def dd_updateTime_def mod_front_def action_simps)
  ultimately show ?thesis by (rule front_address)
qed

lemma keeps_touchFront_bind: "(\<And>r. msg_address (sr_msg r) = a \<Longrightarrow> keeps P (f r)) \<Longrightarrow> keeps P (bindA (touchFront a t) f)"
  using touchFront_address keeps_touchFront unfolding keeps_def bindA_Inr by blast

lemma keeps_onDirCache: "(\<And>c a c'. f c = Inr (a, c') \<Longrightarrow> table_step c c') \<Longrightarrow> keeps P (onDirCache f)"
  unfolding onDirCache_def keeps_def by (auto simp: action_simps intro: table)

lemma keeps_lookupEntry [keeps_rules]: "a \<noteq> NO_ADDRESS \<Longrightarrow> keeps P (lookupEntry a m)"
  unfolding lookupEntry_def
  by (intro keeps_rules keeps_onDirCache) (auto simp: result_simps intro: table_step.looked_up)

lemma keeps_requireEntry [keeps_rules]: "a \<noteq> NO_ADDRESS \<Longrightarrow> keeps P (requireEntry a)"
  unfolding requireEntry_def by (intro keeps_rules)

lemma keeps_invalidateSharers [keeps_rules]: "keeps P (invalidateSharers rq a sl)"
  unfolding invalidateSharers_def by (intro keeps_rules)

lemma keeps_upgradeInvalidations [keeps_rules]: "keeps P (upgradeInvalidations rq a h cs)"
  unfolding upgradeInvalidations_def by (intro keeps_rules)

lemma keeps_onEntry:
  assumes "\<And>e a e'. f e = Inr (a, e') \<Longrightarrow> entry_step e e'"
  shows "keeps P (onEntry p f)"
  unfolding onEntry_def entryOf_def putEntry_def keeps_def by (auto simp: action_simps intro: entry assms)

lemma keeps_sendDataToNUCA [keeps_rules]: "keeps P (sendDataToNUCA a buf cnt)"
  unfolding sendDataToNUCA_def by (intro keeps_rules)

lemma keeps_sendDataToDram [keeps_rules]: "keeps P (sendDataToDram a rq buf)"
  unfolding sendDataToDram_def by (intro keeps_rules)

lemma keeps_readNuca [keeps_rules]: "keeps P (readNuca a)"
  unfolding readNuca_def by (intro keeps_rules)

lemma keeps_readDram [keeps_rules]: "keeps P (readDram p rcv a)"
  unfolding readDram_def by (intro keeps_rules) (simp_all add: same_request_def)

lemma keeps_pickCandidate [keeps_rules]: "keeps P (pickCandidate ps best)"
  by (induction ps arbitrary: best) (auto intro!: keeps_rules)

lemma keeps_retrieveData:
  "(\<And>a. a \<noteq> NO_ADDRESS \<Longrightarrow> keeps P (next a)) \<Longrightarrow> a \<noteq> NO_ADDRESS \<Longrightarrow>
   keeps P (retrieveDataAndSendToL2Cache next ty rcv a buf)"
  unfolding retrieveDataAndSendToL2Cache_def
  by (intro keeps_rules keeps_onEntry) (auto intro: entry_step.forwarded)

text \<open>What is known of the table still holds while messages are sent and clocks advance.\<close>

definition tracking :: "(ddcache \<Rightarrow> bool) \<Rightarrow> dircntlr \<Rightarrow> bool" where
  "tracking R s \<longleftrightarrow> P s \<and> R (dd_cache s)"

definition holding :: "nat \<Rightarrow> dir_entry \<Rightarrow> dircntlr \<Rightarrow> bool" where
  "holding p e = tracking (\<lambda>c. entry_at p (dc_directory c) = Inr e)"

lemma tracking_keeps: "keeps P m \<Longrightarrow> (\<And>s a s'. m s = Inr (a, s') \<Longrightarrow> dd_cache s' = dd_cache s) \<Longrightarrow> keeps (tracking R) m"
  unfolding keeps_def tracking_def by metis

lemma tracking_time: "keeps (tracking R) dd_now" "keeps (tracking R) (dd_incrTime t)"
  "keeps (tracking R) (modA (\<lambda>s. s\<lparr>dd_evict := ev s\<rparr>))" "keeps (tracking R) (getA g)" "keeps (tracking R) (queueSize a)"
  by (rule tracking_keeps, rule keeps_rules;
    auto simp: dd_now_def dd_incrTime_def queueSize_def action_simps result_simps)+

lemma tracking_send: "keeps (tracking R) (dd_send ty rc rq rcv a buf n w)"
  by (rule tracking_keeps [OF keeps_send]) (auto simp: dd_send_def dd_now_def action_simps)

lemma tracking_touchFront: "keeps (tracking R) (touchFront a t)"
  by (rule tracking_keeps [OF keeps_touchFront])
    (auto simp: touchFront_def modFront_def frontReq_def dd_updateTime_def action_simps)

lemma tracking_bind: "keeps (tracking R) m \<Longrightarrow> (\<And>a. after (tracking R) (f a) Q) \<Longrightarrow> after (tracking R) (bindA m f) Q"
  unfolding after_def keeps_def bindA_Inr by blast

lemma tracking_then: "keeps (tracking R) m \<Longrightarrow> after (tracking R) n Q \<Longrightarrow> after (tracking R) (thenA m n) Q"
  unfolding thenA_def by (rule tracking_bind)

lemma tracking_fact: "(\<And>s. tracking R s \<Longrightarrow> F) \<Longrightarrow> (F \<Longrightarrow> after (tracking R) m Q) \<Longrightarrow> after (tracking R) m Q"
  unfolding after_def by blast

lemma keeps_entryOf_bind: "(\<And>e. after (holding p e) (f e) P) \<Longrightarrow> keeps P (bindA (entryOf p) f)"
  unfolding keeps_def after_def holding_def tracking_def entryOf_def by (auto simp: action_simps)

lemma after_keeps: "keeps P m \<Longrightarrow> after (holding p e) m P"
  by (rule keeps_after) (simp_all add: holding_def tracking_def)

lemma after_onEntry:
  assumes "\<And>a e'. f e = Inr (a, e') \<Longrightarrow> entry_step e e'"
  shows "after (holding p e) (onEntry p f) P"
  unfolding onEntry_def entryOf_def putEntry_def after_def holding_def tracking_def by (auto simp: action_simps intro: entry assms)

lemma after_onEntry_bind:
  assumes "\<And>a e'. f e = Inr (a, e') \<Longrightarrow> entry_step e e'" "\<And>a. keeps P (g a)"
  shows "after (holding p e) (bindA (onEntry p f) g) P"
proof -
  have "after (holding p e) (onEntry p f) P" by (rule after_onEntry) (rule assms(1))
  with assms(2) show ?thesis unfolding after_def keeps_def bindA_Inr by blast
qed

lemma after_onEntry_then:
  assumes "\<And>a e'. f e = Inr (a, e') \<Longrightarrow> entry_step e e'" "keeps P n"
  shows "after (holding p e) (thenA (onEntry p f) n) P"
  using after_onEntry_bind [of f e "\<lambda>_. n"] assms unfolding thenA_def by blast

lemma after_grant:
  assumes "de_dstate e = UNCACHED" "st \<in> {DIR_SHARED, DIR_MODIFIED, DIR_EXCLUSIVE}" "keeps P n"
  shows "after (holding p e) (thenA (grant p r st) n) P"
proof (rule after_thenA)
  show "after P n P" using assms(3) by (simp add: after_def keeps_def)
  show "after (holding p e) (grant p r st) P"
    unfolding grant_def
    by (intro after_rules after_onEntry) (auto simp: result_simps intro: entry_step.granted [OF assms(1,2)])
qed

end

section \<open>Properties closed under all steps of a handler\<close>

text \<open>
  A handler takes out the requests it has answered; the only request it queues itself asks for a
  replaced entry to be given up, and it is alone in its queue.
\<close>

lemma newRequest_Inr:
  "newRequest msg t s = Inr (r, s') \<Longrightarrow> sr_msg r = msg \<and> s' = s\<lparr>dd_queue := enqueue (msg_address msg) r (dd_queue s)\<rparr>"
  by (auto simp: newRequest_def ShmemReq_new_def action_simps result_simps)

locale dir_queue_closed = dir_closed +
  assumes queued: "P s \<Longrightarrow> rq_size (msg_address (sr_msg r)) (enqueue (msg_address (sr_msg r)) r (dd_queue s)) = 1 \<Longrightarrow>
      P (s\<lparr>dd_queue := enqueue (msg_address (sr_msg r)) r (dd_queue s)\<rparr>)"
    and taken: "P s \<Longrightarrow> dequeue a (dd_queue s) = Inr (r, q) \<Longrightarrow> P (s\<lparr>dd_queue := q\<rparr>)"
begin

lemma keeps_only_request:
  assumes "\<And>r. sr_msg r = msg \<Longrightarrow> keeps P (f r)"
  shows "keeps P (bindA (newRequest msg t) (\<lambda>r. bindA (queueSize (msg_address msg)) (\<lambda>n. thenA (assertA (n = 1) e) (f r))))"
proof (rule keepsI)
  fix s x s' assume P: "P s"
    and "bindA (newRequest msg t) (\<lambda>r. bindA (queueSize (msg_address msg)) (\<lambda>n. thenA (assertA (n = 1) e) (f r))) s = Inr (x, s')"
  then obtain r u where r: "newRequest msg t s = Inr (r, u)" "rq_size (msg_address msg) (dd_queue u) = 1" "f r u = Inr (x, s')"
    by (auto simp: queueSize_def action_simps)
  from newRequest_Inr [OF r(1)] r(2) queued [OF P, of r] have "P u" "sr_msg r = msg" by auto
  from keepsD [OF assms [OF this(2)] r(3) this(1)] show "P s'" .
qed

lemma keeps_processNullifyReq:
  assumes "\<And>a. a \<noteq> NO_ADDRESS \<Longrightarrow> keeps P (next a)" "msg_address (sr_msg req) \<noteq> NO_ADDRESS"
  shows "keeps P (processNullifyReq next req)"
proof -
  have "keeps P (onDirCache (\<lambda>c. mapE (Pair ()) (invalidateDirectoryEntry a c)))" for a
    by (rule keeps_onDirCache) (auto simp: result_simps intro: table_step.removed)
  then show ?thesis
    unfolding processNullifyReq_def Let_def
    by (intro keeps_bindA keeps_requireEntry keeps_entryOf_bind after_dstate after_keeps keeps_rules assms)
qed

lemma after_candidates:
  assumes "a \<noteq> NO_ADDRESS" "\<And>ps. after (tracking (room a ps)) (f ps) P"
  shows "keeps P (bindA (onDirCache (getReplacementCandidates a)) f)"
proof (rule keepsI)
  fix s x s' assume P: "P s" and "bindA (onDirCache (getReplacementCandidates a)) f s = Inr (x, s')"
  then obtain ps c where c: "getReplacementCandidates a (dd_cache s) = Inr (ps, c)" and run: "f ps (s\<lparr>dd_cache := c\<rparr>) = Inr (x, s')"
    by (auto simp: onDirCache_def action_simps)
  have "dc_inv (dd_cache s)" using wf [OF P] by (simp add: dir_wf_def)
  then have "tracking (room a ps) (s\<lparr>dd_cache := c\<rparr>)"
    using table [OF P table_step.candidates [OF assms(1) c]] getReplacementCandidates_spec(2) [OF _ assms(1) c] by (simp add: tracking_def)
  with assms(2) run show "P s'" unfolding after_def by blast
qed

lemma pickCandidate_result:
  "pickCandidate ps best s = Inr (r, s') \<Longrightarrow> s' = s \<and> (r = best \<or> (\<exists>p \<in> set ps. r = Some p))"
proof (induction ps arbitrary: best)
  case (Cons p ps)
  from Cons.prems obtain best' where "best' = best \<or> best' = Some p" "pickCandidate ps best' s = Inr (r, s')"
    by (auto simp: entryOf_def queueSize_def action_simps split: option.splits if_splits)
  with Cons.IH [of best'] show ?case by auto
qed (simp add: action_simps)

lemma after_pick:
  assumes "\<And>b. b \<in> set ps \<Longrightarrow> after (tracking R) (f (Some b)) P" "after (tracking R) (f None) P"
  shows "after (tracking R) (bindA (pickCandidate ps None) f) P"
  using assms pickCandidate_result [of ps None] unfolding after_def bindA_Inr by blast

lemma after_victim:
  assumes "\<And>e. after (tracking (\<lambda>c. R c \<and> addr c b = Some (de_address e))) (f e) P"
  shows "after (tracking R) (bindA (entryOf b) f) P"
  using assms unfolding after_def tracking_def entryOf_def by (auto simp: action_simps addr_Some)

lemma after_replace:
  assumes "b \<in> set ps" "\<And>q. keeps P (f q)"
  shows "after (tracking (\<lambda>c. room a ps c \<and> addr c b = Some x)) (bindA (onDirCache (replaceDirectoryEntry x a)) f) P"
  using assms(2) table table_step.replaced [OF _ assms(1)] unfolding after_def tracking_def keeps_def onDirCache_def
  by (auto simp: action_simps) blast

lemma keeps_allocation:
  assumes "\<And>a. a \<noteq> NO_ADDRESS \<Longrightarrow> keeps P (next a)" "msg_address (sr_msg req) \<noteq> NO_ADDRESS"
  shows "keeps P (processDirectoryEntryAllocationReq next req)"
  unfolding processDirectoryEntryAllocationReq_def Let_def
proof (rule keeps_bindA [OF keeps_time(1)], rule after_candidates [OF assms(2)], rule after_pick, goal_cases)
  case (1 t ps b)
  have "x \<noteq> NO_ADDRESS" if "tracking (\<lambda>c. room a ps c \<and> addr c b = Some x) s" for a x s
    using that wf [of s] room_candidate(1) [of "dd_cache s" a ps b x] 1 by (auto simp: tracking_def dir_wf_def)
  note fact = this
  show ?case unfolding option.case
  proof (rule after_victim, rule tracking_then, rule tracking_time, rule tracking_bind, rule tracking_time, rule tracking_then,
      rule tracking_time, rule tracking_fact, erule fact, rule after_replace, rule 1, rule keeps_only_request [where msg = "\<lparr>msg_type = _, msg_sender_component = _, msg_receiver_component = _,
        msg_requester = _, msg_where = _, msg_address = _, msg_data_buf = _, msg_data_length = _\<rparr>", simplified], goal_cases)
    case (1 e t_access q r)
    then have "keeps P (processNullifyReq next r)" by (intro keeps_processNullifyReq assms(1)) simp_all
    then show ?case by (intro keeps_rules)
  qed
qed (simp add: after_failA)

lemma keeps_entryFor:
  "(\<And>a. a \<noteq> NO_ADDRESS \<Longrightarrow> keeps P (next a)) \<Longrightarrow> msg_address (sr_msg req) \<noteq> NO_ADDRESS \<Longrightarrow> keeps P (entryFor next req)"
  unfolding entryFor_def by (intro keeps_rules keeps_allocation)

lemma keeps_processExReq:
  assumes "\<And>a. a \<noteq> NO_ADDRESS \<Longrightarrow> keeps P (next a)" "msg_address (sr_msg req) \<noteq> NO_ADDRESS"
  shows "keeps P (processExReqFromL2Cache next req buf)"
  unfolding processExReqFromL2Cache_def Let_def
proof (rule keeps_bindA, rule keeps_entryFor, rule assms(1), assumption, rule assms(2), rule keeps_entryOf_bind, rule after_dstate, goal_cases)
  case 1
  then show ?case by (intro after_grant keeps_retrieveData assms) auto
qed (rule after_keeps, intro keeps_rules)+

lemma keeps_processShReq:
  assumes "\<And>a. a \<noteq> NO_ADDRESS \<Longrightarrow> keeps P (next a)" "msg_address (sr_msg req) \<noteq> NO_ADDRESS"
  shows "keeps P (processShReqFromL2Cache next req buf)"
  unfolding processShReqFromL2Cache_def Let_def
proof (rule keeps_bindA, rule keeps_entryFor, rule assms(1), assumption, rule assms(2), rule keeps_entryOf_bind, rule after_dstate, goal_cases)
  case 1
  then show ?case by (intro after_getA after_if after_grant keeps_retrieveData assms) auto
next
  case (2 p e)
  have one: "keeps P (bindA (onEntry p getOneSharer) (\<lambda>c. toCache INV_REQ r c a))" for r a
    by (intro keeps_rules keeps_onEntry) (rule entry_step.chosen)
  show ?case
    by (intro after_liftA after_if after_getA after_onEntry_bind, rule after_keeps)
      (auto intro!: keeps_if one keeps_retrieveData assms keeps_rules intro: entry_step.added [OF 2])
qed (rule after_keeps, intro keeps_rules)+

lemma keeps_processUpgradeReq:
  assumes "\<And>a. a \<noteq> NO_ADDRESS \<Longrightarrow> keeps P (next a)" "msg_address (sr_msg req) \<noteq> NO_ADDRESS"
  shows "keeps P (processUpgradeReqFromL2Cache next req buf)"
proof -
  have modified: "after (holding p e)
      (thenA (toCache ty r c a) (thenA (onEntry p (\<lambda>e. Inr ((), e\<lparr>de_dstate := DIR_MODIFIED\<rparr>))) (next a'))) P"
    if "de_dstate e \<in> {DIR_MODIFIED, DIR_EXCLUSIVE}" "a' \<noteq> NO_ADDRESS" for p e ty r c a a'
  proof (rule after_thenA)
    show "after (holding p e) (toCache ty r c a) (holding p e)"
      unfolding toCache_def holding_def by (rule keeps_after [OF tracking_send])
    show "after (holding p e) (thenA (onEntry p (\<lambda>e. Inr ((), e\<lparr>de_dstate := DIR_MODIFIED\<rparr>))) (next a')) P"
      by (rule after_onEntry_then [OF _ assms(1)]) (use that in \<open>auto intro: entry_step.rewritten\<close>)
  qed
  show ?thesis
    unfolding processUpgradeReqFromL2Cache_def Let_def getSharersList_def
  proof (rule keeps_bindA, rule keeps_entryFor, rule assms(1), assumption, rule assms(2), rule keeps_entryOf_bind, rule after_dstate, goal_cases)
    case 1
    then show ?case by (intro after_assertA after_grant keeps_retrieveData assms) auto
  next
    case (2 p e)
    show ?case unfolding snd_conv
    proof (rule after_if)
      assume "sharer_list e = [msg_requester (sr_msg req)]"
      with 2 show "after (holding p e) (thenA (onEntry p (\<lambda>e. mapE (\<lambda>e'. ((), e'\<lparr>de_dstate := DIR_MODIFIED\<rparr>)) (setOwner (msg_requester (sr_msg req)) e)))
          (thenA (toCache UPGRADE_REP (msg_requester (sr_msg req)) (msg_requester (sr_msg req)) (msg_address (sr_msg req)))
            (next (msg_address (sr_msg req))))) P"
        by (intro after_onEntry_then keeps_rules assms) (auto simp: result_simps intro: entry_step.upgraded)
    qed (rule after_keeps, intro keeps_rules)
  next
    case (4 p e)
    then show ?case by (intro after_liftA after_if after_assertA modified assms(2)) (auto intro: after_keeps keeps_toCache)
  next
    case (5 p e)
    then show ?case by (intro after_liftA after_if after_assertA modified assms(2)) (auto intro: after_keeps keeps_toCache)
  qed (rule after_failA)
qed

lemma keeps_processNextReq_upto: "a \<noteq> NO_ADDRESS \<Longrightarrow> keeps P (processNextReq_upto k a)"
proof (induction k arbitrary: a)
  case 0
  show ?case by (simp add: keeps_failA)
next
  case (Suc k)
  have handled: "keeps P (case ty of EX_REQ \<Rightarrow> processExReqFromL2Cache (processNextReq_upto k) req NULL
      | SH_REQ \<Rightarrow> processShReqFromL2Cache (processNextReq_upto k) req NULL
      | UPGRADE_REQ \<Rightarrow> processUpgradeReqFromL2Cache (processNextReq_upto k) req NULL
      | _ \<Rightarrow> failA (Print_Error ''Unrecognized Request''))"
    if "msg_address (sr_msg req) = a" for ty req
    using that Suc.prems by (cases ty) (simp_all add: keeps_failA keeps_processExReq keeps_processShReq keeps_processUpgradeReq Suc.IH)
  have take: "keeps P (bindA (getA dd_queue) (\<lambda>q. bindA (liftA (dequeue a q)) (\<lambda>(r, q').
      thenA (modA (\<lambda>s. s\<lparr>dd_queue := q'\<rparr>)) (f q'))))" if "\<And>q. keeps P (f q)" for f :: "shmem_req req_queue \<Rightarrow> unit dact"
    using that taken unfolding keeps_def by (fastforce simp: action_simps)
  show ?case
    unfolding processNextReq_upto.simps 
    by (intro keeps_bindA [OF keeps_queueSize(1)] keeps_thenA [OF keeps_assertA] take keeps_if keeps_retA keeps_frontReq_bind
        keeps_thenA [OF keeps_time(2)] handled)
qed

lemma keeps_processNextReq [keeps_rules]: "a \<noteq> NO_ADDRESS \<Longrightarrow> keeps P (processNextReqFromL2Cache a)"
  unfolding processNextReqFromL2Cache_def by (rule keeps_bound) (rule keeps_processNextReq_upto)

lemma keeps_requests [keeps_rules]:
  assumes "msg_address (sr_msg req) \<noteq> NO_ADDRESS"
  shows "keeps P (processExReq req buf)" "keeps P (processShReq req buf)" "keeps P (processUpgradeReq req buf)" "keeps P (processNullify req)"
  by (intro keeps_processExReq keeps_processShReq keeps_processUpgradeReq keeps_processNullifyReq keeps_processNextReq assms; assumption)+

text \<open>The entry has no sharer any more and the request at the front is an upgrade.\<close>

lemma after_abandon:
  assumes "getNumSharers e = 0" "keeps P n"
  shows "after (holding p e) (thenA (onEntry p (\<lambda>e. Inr ((), e\<lparr>de_dstate := UNCACHED\<rparr>))) n) P"
  by (rule after_onEntry_then) (use assms in \<open>auto intro: entry_step.abandoned\<close>)

lemma after_touchFront:
  assumes "\<And>r. msg_address (sr_msg r) = a \<Longrightarrow> after (tracking R) (f r) P"
  shows "after (tracking R) (bindA (touchFront a t) f) P"
proof -
  have "msg_address (sr_msg r) = a \<and> tracking R s'" if "tracking R s" "touchFront a t s = Inr (r, s')" for s r s'
    using that touchFront_address [OF _ that(2)] keepsD [OF tracking_touchFront that(2,1)] by (simp add: tracking_def)
  with assms show ?thesis unfolding after_def bindA_Inr by blast
qed

lemma keeps_processInvRep [keeps_rules]: "msg_address msg \<noteq> NO_ADDRESS \<Longrightarrow> keeps P (processInvRepFromL2Cache c msg)"
proof -
  assume a: "msg_address msg \<noteq> NO_ADDRESS"
  have drop: "keeps P (onEntry p (\<lambda>e. mapE (Pair ()) (dropInvalidated c e)))" for p
    by (rule keeps_onEntry) (auto simp: result_simps intro: entry_step.invalidated)
  show ?thesis
    unfolding processInvRepFromL2Cache_def Let_def
  proof (rule keeps_bindA [OF keeps_requireEntry [OF a]], rule keeps_bindA [OF keeps_queueSize(3)], rule keeps_thenA [OF keeps_assertA],
      rule keeps_thenA [OF drop], rule keeps_entryOf_bind,
      unfold holding_def, rule tracking_bind [OF tracking_time(5)], rule after_whenA, rule tracking_bind [OF tracking_time(1)],
      rule after_touchFront, fold holding_def, goal_cases)
    case (1 p e0 e n t req)
    with a have r: "msg_address (sr_msg req) \<noteq> NO_ADDRESS" by simp
    show ?case
    proof (cases "msg_type (sr_msg req) = UPGRADE_REQ")
      case True
      then show ?thesis
        by simp (intro conjI impI after_liftA after_if after_abandon keeps_requests r; (rule after_keeps, intro keeps_rules r)?; assumption?)
    next
      case False
      show ?thesis
        by (rule after_keeps, cases "msg_type (sr_msg req)") (use False r in \<open>auto intro!: keeps_rules\<close>)
    qed
  qed (simp add: holding_def tracking_def)
qed

lemma keeps_processFlushRep [keeps_rules]: "msg_address msg \<noteq> NO_ADDRESS \<Longrightarrow> keeps P (processFlushRepFromL2Cache c msg)"
proof -
  assume a: "msg_address msg \<noteq> NO_ADDRESS"
  have drop: "keeps P (onEntry p (\<lambda>e. mapE (Pair ()) (dropFlushed c e)))" for p
    by (rule keeps_onEntry) (auto simp: result_simps intro: entry_step.flushed)
  show ?thesis
    unfolding processFlushRepFromL2Cache_def Let_def
  proof (intro keeps_bindA [OF keeps_time(1)] keeps_bindA [OF keeps_requireEntry] keeps_thenA [OF drop]
      keeps_bindA [OF keeps_queueSize(1)] keeps_if keeps_touchFront_bind keeps_entryOf_bind, goal_cases)
    case (3 t p n req e)
    with a have r: "msg_address (sr_msg req) \<noteq> NO_ADDRESS" by simp
    show ?case
    proof (cases "msg_type (sr_msg req) = UPGRADE_REQ")
      case True
      have "keeps P (modFront a (\<lambda>r. r\<lparr>sr_msg := (sr_msg r)\<lparr>msg_data_buf := b\<rparr>\<rparr>))" for a b
        by (rule keeps_modFront) (simp add: same_request_def)
      with True show ?thesis
        by (simp add: after_if [OF after_abandon [OF _ keeps_requests(3) [OF r]] after_keeps])
    next
      case False
      show ?thesis
        by (rule after_keeps, cases "msg_type (sr_msg req)") (use False r in \<open>auto intro!: keeps_rules\<close>)
    qed
  qed (use a in \<open>auto intro: keeps_rules\<close>)
qed

lemma keeps_shareWrittenBack: "keeps P (onEntry p (\<lambda>e. mapE (Pair ()) (shareWrittenBack c e)))"
  by (rule keeps_onEntry) (auto simp: result_simps intro: entry_step.written_back)

lemma keeps_processWbRep [keeps_rules]: "msg_address msg \<noteq> NO_ADDRESS \<Longrightarrow> keeps P (processWbRepFromL2Cache c msg)"
  unfolding processWbRepFromL2Cache_def Let_def
  by (intro keeps_bindA [OF keeps_time(1)] keeps_bindA [OF keeps_requireEntry] keeps_thenA [OF keeps_shareWrittenBack]
      keeps_bindA [OF keeps_queueSize(1)] keeps_if keeps_failA keeps_touchFront_bind keeps_thenA [OF keeps_assertA] keeps_requests)
    simp_all

lemma keeps_processCpRep [keeps_rules]: "msg_address msg \<noteq> NO_ADDRESS \<Longrightarrow> keeps P (processCpRepFromL2Cache c msg)"
  unfolding processCpRepFromL2Cache_def by (intro keeps_rules keeps_shareWrittenBack)

lemma keeps_processDRAMReply [keeps_rules]: "msg_address msg \<noteq> NO_ADDRESS \<Longrightarrow> keeps P (processDRAMReply c msg)"
  unfolding processDRAMReply_def Let_def by (intro keeps_rules)

theorem keeps_handleMsgFromDRAM: "msg_address msg \<noteq> NO_ADDRESS \<Longrightarrow> keeps P (handleMsgFromDRAM c msg)"
  unfolding handleMsgFromDRAM_def by (cases "msg_type msg") (auto intro!: keeps_rules)

end

section \<open>Properties closed under all messages\<close>

locale dir_message_closed = dir_queue_closed +
  assumes arrived: "P s \<Longrightarrow> P (s\<lparr>dd_queue := enqueue (msg_address (sr_msg r)) r (dd_queue s)\<rparr>)"
begin

lemma keeps_queueRequest:
  assumes "\<And>r. sr_msg r = msg \<Longrightarrow> keeps P (h r)"
  shows "keeps P (queueRequest msg t h)"
proof (rule keepsI)
  fix s x s' assume P: "P s" and "queueRequest msg t h s = Inr (x, s')"
  then obtain r u where r: "newRequest msg t s = Inr (r, u)"
    and run: "(if rq_size (msg_address msg) (dd_queue u) = 1 then h r u = Inr (x, s') else (x, s') = ((), u))"
    by (auto simp: queueRequest_def queueSize_def action_simps)
  from newRequest_Inr [OF r] arrived [OF P, of r] have "P u" "keeps P (h r)" using assms by auto
  with run show "P s'" by (auto split: if_splits dest: keepsD)
qed

theorem keeps_handleMsgFromL2Cache: "msg_address msg \<noteq> NO_ADDRESS \<Longrightarrow> keeps P (handleMsgFromL2Cache c msg)"
  unfolding handleMsgFromL2Cache_def
  by (cases "msg_type msg") (auto intro!: keeps_queueRequest keeps_rules)

end

end
