(* ===== verification/Directory_Invariant.thy ===== *)
theory Directory_Invariant
  imports Directory_Steps
begin

text \<open>
  The invariant of the tag directory: the table has one entry per line, every waiting request is in
  the queue of its line, and the state of an entry agrees with its sharers. Every message keeps it,
  so that it holds in every state the directory gets into.
\<close>

section \<open>Entries\<close>

lemma entry_ok_new: "entry_ok (DirectoryEntry_new fw (sharers_size n) k)"
proof -
  have "sharers_size n < 2 ^ 32" using unat_lt2p [of n] by (auto simp: sharers_size_def)
  then show ?thesis by (simp add: entry_ok_def DirectoryEntry_new_def sharers_def)
qed

lemma entry_ok_frame [simp]:
  "entry_ok (e\<lparr>de_address := a\<rparr>) = entry_ok e" "entry_ok (e\<lparr>de_forwarder := c\<rparr>) = entry_ok e" "entry_ok (e\<lparr>de_kind := k\<rparr>) = entry_ok e"
  by (simp_all add: entry_ok_def)

lemma grantEntry_ok:
  assumes "grantEntry r n st e = Inr e'" "entry_ok e" "de_dstate e = UNCACHED" "st \<in> {DIR_SHARED, DIR_MODIFIED, DIR_EXCLUSIVE}"
  shows "entry_ok e'" "sharers e' = {unat r}" "de_owner e' = r" "de_dstate e' = st" "de_address e' = de_address e"
proof -
  from assms(1) obtain e1 where add: "addSharer r n e = Inr (True, e1)" and e': "e' = e1\<lparr>de_owner := r, de_dstate := st\<rparr>"
    by (auto simp: grantEntry_def setOwner_Inr result_simps)
  note a = addSharer_Inr [OF add]
  have "sharers e = {}" using assms(2,3) by (simp add: entry_ok_def)
  then show sh: "sharers e' = {unat r}" using a(3) by (simp add: e')
  show "entry_ok e'" using assms(2,4) sh a(4) by (auto simp: entry_ok_def e')
  show "de_owner e' = r" "de_dstate e' = st" "de_address e' = de_address e" using a(5) by (simp_all add: e')
qed

lemma without_sharer:
  assumes "unat c \<in> sharers e" "entry_ok e"
  defines "e1 \<equiv> e\<lparr>de_sharers := (de_sharers e)[unat c := False]\<rparr>"
  shows "sharers e1 = sharers e - {unat c}" "length (de_sharers e1) < 2 ^ 32"
    "getNumSharers e1 = 0 \<longleftrightarrow> sharers e1 = {}" "sharers e1 \<noteq> {} \<Longrightarrow> de_dstate e = DIR_SHARED"
proof -
  have l: "unat c < length (de_sharers e)" using assms(1) by (simp add: sharers_def)
  show s: "sharers e1 = sharers e - {unat c}" using sharers_update [OF l, of False] by (simp add: e1_def)
  show len: "length (de_sharers e1) < 2 ^ 32" using assms(2) by (simp add: e1_def entry_ok_def)
  show "getNumSharers e1 = 0 \<longleftrightarrow> sharers e1 = {}" by (rule getNumSharers_0 [OF len])
  show "sharers e1 \<noteq> {} \<Longrightarrow> de_dstate e = DIR_SHARED"
    using assms(1,2) s by (cases "de_dstate e") (auto simp: entry_ok_def)
qed

lemma getNumSharers_frame [simp]:
  "getNumSharers (e\<lparr>de_forwarder := c\<rparr>) = getNumSharers e" "getNumSharers (e\<lparr>de_owner := c\<rparr>) = getNumSharers e"
  by (simp_all add: getNumSharers_def)

text \<open>The cache is no sharer any more; the line stays shared as long as there are others.\<close>

lemma dropped:
  assumes "dropInvalidated c e = Inr e' \<or> dropFlushed c e = Inr e'" "entry_ok e"
  shows "unat c \<in> sharers e" "sharers e' = sharers e - {unat c}" "length (de_sharers e') = length (de_sharers e)"
    "de_dstate e' = (if sharers e' = {} then UNCACHED else DIR_SHARED)" "entry_ok e'"
proof -
  show c: "unat c \<in> sharers e"
    using assms(1) by (auto simp: dropInvalidated_def dropFlushed_def removeSharer_Inr bindE_eq_Inr check_eq_Inr)
  define e1 where "e1 = e\<lparr>de_sharers := (de_sharers e)[unat c := False]\<rparr>"
  note d = without_sharer [OF c assms(2), folded e1_def]
  obtain e2 where e2: "e' = (if getNumSharers e1 = 0 then e2\<lparr>de_dstate := UNCACHED\<rparr> else e2)" "sharers e2 = sharers e1"
    "de_dstate e2 = de_dstate e" "length (de_sharers e2) = length (de_sharers e)"
  proof (cases "dropInvalidated c e = Inr e'")
    case True
    then show ?thesis
      by (intro that [of "if de_forwarder e = c then e1\<lparr>de_forwarder := INVALID_CORE_ID\<rparr> else e1"])
        (auto simp: dropInvalidated_def removeSharer_Inr bindE_eq_Inr Let_def e1_def)
  next
    case False
    with assms(1) show ?thesis
      by (intro that [of "e1\<lparr>de_forwarder := INVALID_CORE_ID, de_owner := INVALID_CORE_ID\<rparr>"])
        (auto simp: dropFlushed_def removeSharer_Inr setOwner_Inr bindE_eq_Inr check_eq_Inr e1_def split: if_splits)
  qed
  from e2 d show sh: "sharers e' = sharers e - {unat c}" and st: "de_dstate e' = (if sharers e' = {} then UNCACHED else DIR_SHARED)"
    and l: "length (de_sharers e') = length (de_sharers e)" by auto
  show "entry_ok e'" using assms(2) st l by (simp add: entry_ok_def)
qed

lemma entry_step_ok: "entry_step e e' \<Longrightarrow> entry_ok e \<Longrightarrow> entry_ok e'"
proof (induction rule: entry_step.induct)
  case (granted e st r n e')
  then show ?case by (blast intro: grantEntry_ok)
next
  case (added e r n b e')
  note a = addSharer_Inr [OF added(2)]
  from added a show ?case by (auto simp: entry_ok_def)
next
  case (chosen e c e')
  then show ?case by (auto dest: getOneSharer_Inr(2))
next
  case (invalidated c e e')
  then show ?case by (blast intro: dropped(5))
next
  case (flushed c e e')
  then show ?case by (blast intro: dropped(5))
next
  case (written_back c e e')
  then show ?case by (auto simp: shareWrittenBack_def hasSharer_Inr setOwner_Inr entry_ok_def result_simps)
next
  case (upgraded e r e')
  then have "sharers e = {unat r}" using sharer_list_set [of e] by (auto simp: entry_ok_def)
  with upgraded show ?case by (auto simp: entry_ok_def setOwner_Inr)
next
  case (abandoned e)
  then show ?case by (auto simp: entry_ok_def getNumSharers_0)
qed (auto simp: entry_ok_def)

section \<open>The table\<close>

definition heap_ok :: "directory \<Rightarrow> bool" where
  "heap_ok d \<longleftrightarrow> (\<forall>p e. entry_at p d = Inr e \<longrightarrow> entry_ok e)"

lemma put_entry_Inr: "entry_at q (put_entry p e d) = Inr x \<Longrightarrow> (q = p \<and> x = e) \<or> entry_at q d = Inr x"
  by (cases "p = q") (auto simp: entry_at_Inr put_entry_def)

lemma put_entry_at: "entry_at p d = Inr e \<Longrightarrow> entry_at q (put_entry p e' d) = (if q = p then Inr e' else entry_at q d)"
  using entry_at_Inr [of p d e] by (cases "p = q") (auto simp: entry_at_def at_def put_entry_def)

lemma heap_ok_put: "heap_ok d \<Longrightarrow> entry_ok e \<Longrightarrow> heap_ok (put_entry p e d)"
  unfolding heap_ok_def by (blast dest: put_entry_Inr)

lemma heap_ok_delete: "heap_ok d \<Longrightarrow> heap_ok (delete_entry p d)"
  by (auto simp: heap_ok_def entry_at_Inr delete_entry_def) (metis nth_list_update_eq nth_list_update_neq option.distinct(1))

lemma heap_ok_create:
  assumes "heap_ok d" "createDirectoryEntry d = (p, d')"
  shows "heap_ok d'"
  using assms entry_ok_new
  by (auto simp: heap_ok_def createDirectoryEntry_def Let_def entry_at_Inr nth_append split: if_splits)

lemma heap_ok_way: "way_entry n i c = Inr (p, e, c') \<Longrightarrow> heap_ok (dc_directory c) \<Longrightarrow> heap_ok (dc_directory c')"
  using heap_ok_create
  by (auto simp: way_entry_def dir_getEntry_def heap_ok_def entry_at_Inr Let_def result_simps split: option.splits prod.splits)

lemma heap_ok_scan: "scan_ways m test n i c = Inr (r, c') \<Longrightarrow> heap_ok (dc_directory c) \<Longrightarrow> heap_ok (dc_directory c')"
  by (induction m arbitrary: i c) (auto simp: result_simps split: if_splits dest: heap_ok_way)

lemma heap_ok_scan_hit:
  "scan_ways m test n i c = Inr (Some (j, p, e), c') \<Longrightarrow> heap_ok (dc_directory c) \<Longrightarrow> entry_ok e"
proof (induction m arbitrary: i c)
  case (Suc m)
  from Suc.prems(1) obtain q x d where w: "way_entry n i c = Inr (q, x, d)"
    and rest: "(if test x then Inr (Some (i, q, x), d) else scan_ways m test n (Suc i) d) = Inr (Some (j, p, e), c')"
    by (auto simp: result_simps)
  have d: "heap_ok (dc_directory d)" by (rule heap_ok_way [OF w Suc.prems(2)])
  moreover have "entry_at q (dc_directory d) = Inr x" using w by (auto simp: way_entry_def result_simps)
  ultimately show ?case using rest Suc.IH [OF _ d] by (auto simp: heap_ok_def split: if_splits)
qed simp

lemma heap_ok_collect: "collect_ways is n c = Inr (ps, c') \<Longrightarrow> heap_ok (dc_directory c) \<Longrightarrow> heap_ok (dc_directory c')"
  by (induction "is" arbitrary: c ps) (auto simp: result_simps dest: heap_ok_way)

lemma heap_ok_lookup:
  assumes "dc_getDirectoryEntry a m c = Inr (r, ts, c')" "heap_ok (dc_directory c)"
  shows "heap_ok (dc_directory c')"
  using assms(1)
proof (cases rule: lookup_E)
  case (free c1 c2 i p e)
  have "heap_ok (dc_directory c1)" by (rule heap_ok_scan [OF free(1) assms(2)])
  from heap_ok_scan [OF free(2) this] heap_ok_scan_hit [OF free(2) this] show ?thesis by (simp add: free(4) heap_ok_put)
qed (use assms(2) heap_ok_scan in blast)+

lemma table_step_heap: "table_step c c' \<Longrightarrow> heap_ok (dc_directory c) \<Longrightarrow> heap_ok (dc_directory c')"
proof (induction rule: table_step.induct)
  case (candidates a c ps c')
  then show ?case
    by (auto simp: getReplacementCandidates_def Let_def result_simps dest!: heap_ok_lookup heap_ok_collect)
next
  case (replaced a ps c p b q c')
  from replaced(4) obtain i r e c1 where s: "scan_ways (assoc c) (\<lambda>e. de_address e = b) (snd (dc_splitAddress b c)) 0 c = Inr (Some (i, r, e), c1)"
    and step: "(let (q0, d) = createDirectoryEntry (dc_directory c1)
      in bindE (entry_at q0 d) (\<lambda>new. bindE (dir_setEntry (snd (dc_splitAddress b c) * dc_associativity c1 + of_nat i) q0
           (put_entry q0 (new\<lparr>de_address := a\<rparr>) d)) (\<lambda>d'. Inr (q0, c1\<lparr>dc_directory := d', dc_replaced := dc_replaced c1 @ [r]\<rparr>)))) = Inr (q, c')"
    by (rule replaceDirectoryEntry_E)
  obtain q0 d where cr: "createDirectoryEntry (dc_directory c1) = (q0, d)" by (cases "createDirectoryEntry (dc_directory c1)")
  have d: "heap_ok d" by (rule heap_ok_create [OF heap_ok_scan [OF s replaced(5)] cr])
  from step cr obtain new d' where new: "entry_at q0 d = Inr new" and c': "dc_directory c' = d'"
    and set: "dir_setEntry (snd (dc_splitAddress b c) * dc_associativity c1 + of_nat i) q0 (put_entry q0 (new\<lparr>de_address := a\<rparr>) d) = Inr d'"
    by (auto simp: result_simps)
  have "heap_ok (put_entry q0 (new\<lparr>de_address := a\<rparr>) d)" using d new by (intro heap_ok_put) (auto simp: heap_ok_def)
  with set show ?case by (auto simp: c' dir_setEntry_def heap_ok_def entry_at_def result_simps)
qed (auto dest: heap_ok_lookup simp: invalidateDirectoryEntry_def result_simps split: option.splits intro: heap_ok_delete)

section \<open>The invariant\<close>

definition dir_inv :: "dircntlr \<Rightarrow> bool" where
  "dir_inv s \<longleftrightarrow> dir_wf s \<and> heap_ok (dirOf s)"

lemma dc_inv_put:
  assumes "entry_at p (dc_directory c) = Inr e" "de_address e' = de_address e"
  shows "dc_inv (c\<lparr>dc_directory := put_entry p e' (dc_directory c)\<rparr>) = dc_inv c"
proof -
  let ?c = "c\<lparr>dc_directory := put_entry p e' (dc_directory c)\<rparr>"
  have G: "dc_geometry ?c = dc_geometry c" "set_of ?c = set_of c" "slot ?c = slot c" "ptrs ?c = ptrs c"
    by (auto simp: dc_geometry_def put_entry_def set_of_def dc_splitAddress_def fun_eq_iff slot_def ptrs_def)
  have "addr ?c q = addr c q" for q
    using assms by (simp add: addr_def put_entry_at [OF assms(1)])
  then show ?thesis unfolding dc_inv_def full_def G by simp
qed

lemma keyed_mod_front: "keyed q \<Longrightarrow> same_request f \<Longrightarrow> keyed (mod_front a f q)"
  by (auto simp: keyed_def mod_front_def rq_inv_def pending_def same_request_def split: option.splits list.splits)

lemma keyed_enqueue: "keyed q \<Longrightarrow> keyed (enqueue (msg_address (sr_msg r)) r q)"
  by (auto simp: keyed_def enqueue_inv enqueue_pending)

lemma keyed_dequeue: "keyed q \<Longrightarrow> dequeue a q = Inr (r, q') \<Longrightarrow> keyed q'"
  unfolding keyed_def by (metis dequeue_pending(2) list.set_intros(2))

interpretation dinv: dir_message_closed dir_inv
proof
  fix s c assume "dir_inv s" "table_step (dd_cache s) c"
  then show "dir_inv (s\<lparr>dd_cache := c\<rparr>)" by (simp add: dir_inv_def dir_wf_def table_step_inv table_step_heap)
next
  fix s p e e' assume "dir_inv s" "entry_at p (dirOf s) = Inr e" "entry_step e e'"
  then show "dir_inv (s\<lparr>dd_cache := (dd_cache s)\<lparr>dc_directory := put_entry p e' (dirOf s)\<rparr>\<rparr>)"
    using entry_step_ok [of e e']
    by (auto simp: dir_inv_def dir_wf_def dc_inv_put entry_step_address intro!: heap_ok_put) (auto simp: heap_ok_def)
qed (auto simp: dir_inv_def dir_wf_def keyed_mod_front keyed_enqueue intro: keyed_dequeue)

section \<open>Reachable states\<close>

text \<open>The directory starts without entries and requests and then handles messages.\<close>

definition dir_start :: "dircntlr \<Rightarrow> bool" where
  "dir_start s \<longleftrightarrow> (\<exists>core master home nuca ty entries hw mx pen fw d ways block t rp c ck protocol.
     Directory_new ty entries hw mx pen fw = Inr d \<and> DramDirectoryCache_new d entries ways block t rp = Inr c \<and> ways \<le> entries \<and>
     DramDirectoryCntlr_new core master home nuca c block ck protocol = Inr s)"

inductive dir_reachable :: "dircntlr \<Rightarrow> bool" where
  started: "dir_start s \<Longrightarrow> dir_reachable s"
| from_cache: "dir_reachable s \<Longrightarrow> msg_address msg \<noteq> NO_ADDRESS \<Longrightarrow> handleMsgFromL2Cache c msg s = Inr (u, s') \<Longrightarrow> dir_reachable s'"
| from_dram: "dir_reachable s \<Longrightarrow> msg_address msg \<noteq> NO_ADDRESS \<Longrightarrow> handleMsgFromDRAM c msg s = Inr (u, s') \<Longrightarrow> dir_reachable s'"

lemma dir_start_inv:
  assumes "dir_start s"
  shows "dir_inv s"
proof -
  from assms obtain ty "entries" hw mx pen fw d ways block t rp c where d: "Directory_new ty entries hw mx pen fw = Inr d"
    and c: "DramDirectoryCache_new d entries ways block t rp = Inr c" "ways \<le> entries" and s: "dd_cache s = c" "dd_queue s = rq_new"
    unfolding dir_start_def by (auto simp: DramDirectoryCntlr_new_def result_simps)
  have "dir_heap (dc_directory c) = []" using d c(1)
    by (auto simp: Directory_new_def DramDirectoryCache_new_def Let_def result_simps)
  then show ?thesis
    using DramDirectoryCache_new_inv(1) [OF d c] by (simp add: dir_inv_def dir_wf_def keyed_def s heap_ok_def entry_at_Inr)
qed

lemma dir_reachable_inv: "dir_reachable s \<Longrightarrow> dir_inv s"
proof (induction rule: dir_reachable.induct)
  case (from_cache s msg c u s')
  show ?case by (rule keepsD [OF dinv.keeps_handleMsgFromL2Cache [OF from_cache(2)] from_cache(3,4)])
next
  case (from_dram s msg c u s')
  show ?case by (rule keepsD [OF dinv.keeps_handleMsgFromDRAM [OF from_dram(2)] from_dram(3,4)])
qed (rule dir_start_inv)

end
