(* ===== verification/Directory_Termination.thy ===== *)
theory Directory_Termination
  imports Directory_Invariant
begin

text \<open>
  The recursion of the tag directory ends: every round takes one request out of the queue of the
  line, and what a round queues itself is for a line without waiting requests. The bound that
  \<open>processNextReqFromL2Cache\<close> gives the recursion is never the reason for its result.
\<close>

section \<open>Queues of bounded length\<close>

definition short_queues :: "shmem_req req_queue \<Rightarrow> bool" where
  "short_queues q \<longleftrightarrow> (\<forall>x. length (pending q x) < 2 ^ 32)"

definition bounded :: "IntPtr \<Rightarrow> nat \<Rightarrow> shmem_req req_queue \<Rightarrow> bool" where
  "bounded a n q \<longleftrightarrow> keyed q \<and> short_queues q \<and> length (pending q a) \<le> n"

lemma size_one:
  assumes "short_queues q" "rq_size a (enqueue a r q) = 1"
  shows "pending q a = []"
proof -
  have "Suc (length (pending q a)) < 2 ^ 32 \<or> Suc (length (pending q a)) = 2 ^ 32"
    using assms(1) unfolding short_queues_def by (metis Suc_lessI)
  moreover from assms(2) have "(of_nat (Suc (length (pending q a))) :: UInt32) = 1"
    by (simp add: rq_size_pending enqueue_pending)
  then have "unat (of_nat (Suc (length (pending q a))) :: UInt32) = 1" by simp
  then have "Suc (length (pending q a)) mod 2 ^ 32 = 1" by (simp only: unat_of_nat len_of_numeral_defs) simp
  ultimately show ?thesis by auto
qed

lemma bounded_enqueue:
  "bounded a n q \<Longrightarrow> 1 \<le> n \<Longrightarrow> pending q (msg_address (sr_msg r)) = [] \<Longrightarrow> bounded a n (enqueue (msg_address (sr_msg r)) r q)"
  by (auto simp: bounded_def keyed_enqueue short_queues_def enqueue_pending)

lemma pending_clear: "pending (q(b := None)) x = (if x = b then [] else pending q x)"
  by (simp add: pending_def)

lemma bounded_clear: "bounded a n q \<Longrightarrow> bounded a n (q(b := None))"
  by (auto simp: bounded_def keyed_def rq_inv_def short_queues_def pending_clear)

lemma bounded_dequeue: "bounded a (Suc n) q \<Longrightarrow> dequeue a q = Inr (r, q') \<Longrightarrow> bounded a n q'"
proof -
  assume b: "bounded a (Suc n) q" and d: "dequeue a q = Inr (r, q')"
  have q: "rq_inv q" using b by (simp add: bounded_def keyed_def)
  note p = dequeue_pending(2) [OF q d]
  have "length (pending q' x) < 2 ^ 32" for x
    using b p by (cases "x = a") (auto simp: bounded_def short_queues_def dest: spec [of _ a])
  then show ?thesis using b p keyed_dequeue [OF _ d] by (simp add: bounded_def short_queues_def)
qed

section \<open>Actions that leave the queues alone\<close>

abbreviation at_queue :: "shmem_req req_queue \<Rightarrow> dircntlr \<Rightarrow> bool" where
  "at_queue q s \<equiv> dd_queue s = q"

named_theorems same_queue \<open>actions that do not change the queues\<close>

lemma same_queue_basic [same_queue]:
  "keeps (at_queue q) dd_now" "keeps (at_queue q) (dd_incrTime t)" "keeps (at_queue q) (dd_setTime t)" "keeps (at_queue q) (queueSize a)"
  "keeps (at_queue q) (entryOf p)" "keeps (at_queue q) (onDirCache h)" "keeps (at_queue q) (onEntry p g)"
  "keeps (at_queue q) (modA (\<lambda>s. s\<lparr>dd_evict := ev s\<rparr>))" "keeps (at_queue q) (modA (\<lambda>s. s\<lparr>dd_nuca := nu s\<rparr>))"
  "keeps (at_queue q) (modA (\<lambda>s. s\<lparr>dd_forward := fw s\<rparr>))" "keeps (at_queue q) (modA (\<lambda>s. s\<lparr>dd_forward_failed := ff s\<rparr>))"
  "keeps (at_queue q) (dd_send ty rc rq rcv a buf n w)"
  by (auto simp: keeps_def dd_now_def dd_incrTime_def dd_setTime_def queueSize_def entryOf_def putEntry_def onEntry_def dd_send_def
      onDirCache_def action_simps result_simps)

lemma same_queue_requireEntry [same_queue]: "keeps (at_queue q) (requireEntry a)" "keeps (at_queue q) (lookupEntry a m)"
  unfolding requireEntry_def lookupEntry_def by (intro keeps_rules same_queue)+

lemma same_queue_pick [same_queue]: "keeps (at_queue q) (pickCandidate ps best)"
  using dinv.pickCandidate_result unfolding keeps_def by blast

lemma same_queue_messages [same_queue]:
  "keeps (at_queue q) (toCache ty rq rcv a)" "keeps (at_queue q) (replyToCache ty rcv a buf w)" "keeps (at_queue q) (grant p r st)"
  "keeps (at_queue q) (readNuca a)"
  unfolding toCache_def replyToCache_def grant_def readNuca_def by (intro keeps_rules same_queue)+

lemma keeps_queue: "(\<And>q. keeps (at_queue q) m) \<Longrightarrow> keeps (\<lambda>s. R (dd_queue s)) m"
  unfolding keeps_def by metis

lemmas same_bounded = same_queue_basic [THEN keeps_queue [of _ "bounded a n" for a n]]
  same_queue_requireEntry [THEN keeps_queue [of _ "bounded a n" for a n]] same_queue_pick [THEN keeps_queue [of _ "bounded a n" for a n]]
  same_queue_messages [THEN keeps_queue [of _ "bounded a n" for a n]]

lemma agree_seq: "keeps P m \<Longrightarrow> (\<And>a. agree P (f a) (g a)) \<Longrightarrow> agree P (bindA m f) (bindA m g)"
  by (rule agree_bindA) simp_all

lemma agree_then: "keeps P m \<Longrightarrow> agree P f g \<Longrightarrow> agree P (thenA m f) (thenA m g)"
  unfolding thenA_def by (rule agree_seq)

lemma agree_dstate:
  assumes "agree P m1 n1" "agree P m2 n2" "agree P m3 n3" "agree P m4 n4" "agree P m5 n5"
  shows "agree P (case x of UNCACHED \<Rightarrow> m1 | DIR_SHARED \<Rightarrow> m2 | DIR_OWNED \<Rightarrow> m3 | DIR_MODIFIED \<Rightarrow> m4 | DIR_EXCLUSIVE \<Rightarrow> m5)
    (case x of UNCACHED \<Rightarrow> n1 | DIR_SHARED \<Rightarrow> n2 | DIR_OWNED \<Rightarrow> n3 | DIR_MODIFIED \<Rightarrow> n4 | DIR_EXCLUSIVE \<Rightarrow> n5)"
  using assms by (cases x) simp_all

lemma agree_option:
  "agree P m n \<Longrightarrow> (\<And>x. agree P (f x) (g x)) \<Longrightarrow>
   agree P (case p of None \<Rightarrow> m | Some x \<Rightarrow> f x) (case p of None \<Rightarrow> n | Some x \<Rightarrow> g x)"
  by (rule agree_case)

lemmas agree_rules = agree_seq agree_then agree_dstate agree_option agree_if agree_whenA

section \<open>A line whose only request is to give up its entry\<close>

definition same_when_alone :: "(IntPtr \<Rightarrow> unit dact) \<Rightarrow> (IntPtr \<Rightarrow> unit dact) \<Rightarrow> bool" where
  "same_when_alone f g \<longleftrightarrow> (\<forall>b s. rq_inv (dd_queue s) \<longrightarrow> length (pending (dd_queue s) b) = 1 \<longrightarrow>
     f b s = g b s \<and> (\<forall>u s'. f b s = Inr (u, s') \<longrightarrow> dd_queue s' = (dd_queue s)(b := None)))"

lemma nullify_agree:
  assumes "same_when_alone f g" "rq_inv q" "length (pending q (msg_address (sr_msg r))) = 1"
  shows "agree (at_queue q) (processNullifyReq f r) (processNullifyReq g r)"
proof -
  have "agree (at_queue q) (f (msg_address (sr_msg r))) (g (msg_address (sr_msg r)))"
    using assms by (auto simp: agree_def same_when_alone_def)
  then show ?thesis
    unfolding processNullifyReq_def Let_def by (intro agree_rules same_queue agree_refl)
qed

lemma after_seq: "keeps P m \<Longrightarrow> (\<And>a. after P (f a) Q) \<Longrightarrow> after P (bindA m f) Q"
  unfolding after_def keeps_def bindA_Inr by blast

lemma nullify_queue:
  assumes "same_when_alone f g" "rq_inv (dd_queue s)" "length (pending (dd_queue s) (msg_address (sr_msg r))) = 1"
    and "processNullifyReq f r s = Inr (u, s')"
  shows "dd_queue s' = dd_queue s \<or> dd_queue s' = (dd_queue s)(msg_address (sr_msg r) := None)"
proof -
  let ?P = "at_queue (dd_queue s)" and ?Q = "\<lambda>s'. dd_queue s' = dd_queue s \<or> dd_queue s' = (dd_queue s)(msg_address (sr_msg r) := None)"
  have next': "after ?P (f (msg_address (sr_msg r))) ?Q"
    using assms(1-3) unfolding after_def same_when_alone_def by metis
  have stay: "after ?P m ?Q" if "keeps ?P m" for m :: "unit dact"
    using that unfolding after_def keeps_def by blast
  have "after ?P (processNullifyReq f r) ?Q"
    unfolding processNullifyReq_def Let_def invalidateSharers_def thenA_def
    by (rule after_seq [OF same_queue_requireEntry(1)], rule after_seq [OF same_queue_basic(5)], rule after_dstate)
      (intro after_seq same_queue next' stay keeps_rules)+
  with assms(4) show ?thesis unfolding after_def by blast
qed

text \<open>Queueing that request and handling it, as the allocation of an entry does.\<close>

abbreviation nullifyAlone :: "(IntPtr \<Rightarrow> unit dact) \<Rightarrow> shmem_msg \<Rightarrow> time \<Rightarrow> sim_error \<Rightarrow> nat \<Rightarrow> nat dact" where
  "nullifyAlone next msg t e p \<equiv> bindA (newRequest msg t) (\<lambda>r. bindA (queueSize (msg_address msg)) (\<lambda>n.
     thenA (assertA (n = 1) e) (thenA (processNullifyReq next r) (retA p))))"

lemma alone_in_queue:
  assumes "bounded a n (dd_queue s)" "1 \<le> n" "newRequest msg t s = Inr (r, u)" "rq_size (msg_address msg) (dd_queue u) = 1"
  shows "bounded a n (dd_queue u)" "rq_inv (dd_queue u)" "length (pending (dd_queue u) (msg_address (sr_msg r))) = 1"
proof -
  have u: "sr_msg r = msg" "dd_queue u = enqueue (msg_address msg) r (dd_queue s)" using newRequest_Inr [OF assms(3)] by auto
  have none: "pending (dd_queue s) (msg_address msg) = []"
    using size_one [of "dd_queue s" "msg_address msg" r] assms(1,4) u(2) by (simp add: bounded_def)
  show b: "bounded a n (dd_queue u)" using bounded_enqueue [OF assms(1,2), of r] none u by simp
  then show "rq_inv (dd_queue u)" by (simp add: bounded_def keyed_def)
  show "length (pending (dd_queue u) (msg_address (sr_msg r))) = 1" using none u by (simp add: enqueue_pending)
qed

lemma nullifyAlone_agree:
  assumes "same_when_alone f g" "1 \<le> n"
  shows "agree (\<lambda>s. bounded a n (dd_queue s)) (nullifyAlone f msg t e p) (nullifyAlone g msg t e p)"
  unfolding agree_def
proof (intro allI impI)
  fix s :: dircntlr assume b: "bounded a n (dd_queue s)"
  let ?F = "\<lambda>h r. bindA (queueSize (msg_address msg)) (\<lambda>n. thenA (assertA (n = 1) e) (thenA (processNullifyReq h r) (retA p)))"
  show "nullifyAlone f msg t e p s = nullifyAlone g msg t e p s"
  proof (cases "newRequest msg t s")
    case (Inr ru)
    obtain r u where ru: "newRequest msg t s = Inr (r, u)" using Inr by (cases ru) auto
    have "?F f r u = ?F g r u"
    proof (cases "rq_size (msg_address msg) (dd_queue u) = 1")
      case True
      note al = alone_in_queue [OF b assms(2) ru True]
      from nullify_agree [OF assms(1) al(2,3)] have "processNullifyReq f r u = processNullifyReq g r u" by (simp add: agree_def)
      then show ?thesis by (simp add: bindA_def thenA_def queueSize_def getA_def assertA_def retA_def failA_def)
    qed (simp add: bindA_def thenA_def queueSize_def getA_def assertA_def failA_def)
    then show ?thesis by (simp add: bindA_def ru)
  qed (simp add: bindA_def)
qed

lemma nullifyAlone_keeps:
  assumes "same_when_alone f g" "1 \<le> n"
  shows "keeps (\<lambda>s. bounded a n (dd_queue s)) (nullifyAlone f msg t e p)"
proof (rule keepsI)
  fix s :: dircntlr and x s' assume b: "bounded a n (dd_queue s)" and "nullifyAlone f msg t e p s = Inr (x, s')"
  then obtain r u v where r: "newRequest msg t s = Inr (r, u)" "rq_size (msg_address msg) (dd_queue u) = 1" "processNullifyReq f r u = Inr (v, s')"
    by (auto simp: queueSize_def action_simps)
  note al = alone_in_queue [OF b assms(2) r(1,2)]
  from al(1) nullify_queue [OF assms(1) al(2,3) r(3)] show "bounded a n (dd_queue s')" by (auto intro: bounded_clear)
qed

section \<open>Handlers with different continuations\<close>

lemma entryFor_agree:
  assumes "same_when_alone f g" "1 \<le> n"
  shows "agree (\<lambda>s. bounded a n (dd_queue s)) (entryFor f req) (entryFor g req)" (is "agree ?P _ _")
    and "keeps (\<lambda>s. bounded a n (dd_queue s)) (entryFor f req)"
proof -
  note alone = nullifyAlone_agree [OF assms, where msg = "\<lparr>msg_type = NULLIFY_REQ, msg_sender_component = TAG_DIR, msg_receiver_component = TAG_DIR,
      msg_requester = r, msg_where = WHERE_UNKNOWN, msg_address = x, msg_data_buf = NULL, msg_data_length = 0\<rparr>" for r x, simplified]
    and stays = nullifyAlone_keeps [OF assms, where msg = "\<lparr>msg_type = NULLIFY_REQ, msg_sender_component = TAG_DIR, msg_receiver_component = TAG_DIR,
      msg_requester = r, msg_where = WHERE_UNKNOWN, msg_address = x, msg_data_buf = NULL, msg_data_length = 0\<rparr>" for r x, simplified]
  show "agree ?P (entryFor f req) (entryFor g req)"
    unfolding entryFor_def processDirectoryEntryAllocationReq_def Let_def by (intro agree_rules same_bounded agree_refl keeps_getA alone)
  show "keeps ?P (entryFor f req)"
    unfolding entryFor_def processDirectoryEntryAllocationReq_def Let_def
    by (intro keeps_bindA [OF same_bounded(14)] keeps_option keeps_retA keeps_failA keeps_bindA [OF same_bounded(1)]
        keeps_bindA [OF same_bounded(6)] keeps_bindA [OF same_bounded(15)] keeps_bindA [OF same_bounded(5)] keeps_thenA [OF same_bounded(8)]
        keeps_bindA [OF keeps_getA] keeps_thenA [OF same_bounded(2)] stays)
qed

definition same_next :: "IntPtr \<Rightarrow> nat \<Rightarrow> (IntPtr \<Rightarrow> unit dact) \<Rightarrow> (IntPtr \<Rightarrow> unit dact) \<Rightarrow> bool" where
  "same_next a n f g \<longleftrightarrow> same_when_alone f g \<and> 1 \<le> n \<and> agree (\<lambda>s. bounded a n (dd_queue s)) (f a) (g a)"

lemma retrieveData_agree:
  assumes "same_next a n f g"
  shows "agree (\<lambda>s. bounded a n (dd_queue s)) (retrieveDataAndSendToL2Cache f ty r a buf) (retrieveDataAndSendToL2Cache g ty r a buf)"
proof -
  have "agree (\<lambda>s. bounded a n (dd_queue s)) (f a) (g a)" using assms by (simp add: same_next_def)
  then show ?thesis unfolding retrieveDataAndSendToL2Cache_def by (intro agree_rules same_bounded agree_refl)
qed

lemma for_entry_agree:
  assumes "same_next a n f g" "\<And>p. agree (\<lambda>s. bounded a n (dd_queue s)) (F p) (G p)"
  shows "agree (\<lambda>s. bounded a n (dd_queue s)) (bindA (entryFor f req) F) (bindA (entryFor g req) G)"
  using assms by (intro agree_bindA entryFor_agree) (auto simp: same_next_def)

lemma requests_agree:
  assumes "same_next a n f g" "msg_address (sr_msg req) = a"
  shows "agree (\<lambda>s. bounded a n (dd_queue s)) (processExReqFromL2Cache f req buf) (processExReqFromL2Cache g req buf)"
    and "agree (\<lambda>s. bounded a n (dd_queue s)) (processShReqFromL2Cache f req buf) (processShReqFromL2Cache g req buf)"
    and "agree (\<lambda>s. bounded a n (dd_queue s)) (processUpgradeReqFromL2Cache f req buf) (processUpgradeReqFromL2Cache g req buf)"
proof -
  have nx: "agree (\<lambda>s. bounded a n (dd_queue s)) (f a) (g a)" using assms(1) by (simp add: same_next_def)
  note data = retrieveData_agree [OF assms(1)] and entry = for_entry_agree [OF assms(1)]
  show "agree (\<lambda>s. bounded a n (dd_queue s)) (processExReqFromL2Cache f req buf) (processExReqFromL2Cache g req buf)"
    unfolding processExReqFromL2Cache_def Let_def assms(2)
    by (intro entry agree_rules same_bounded agree_refl data keeps_assertA)
  show "agree (\<lambda>s. bounded a n (dd_queue s)) (processShReqFromL2Cache f req buf) (processShReqFromL2Cache g req buf)"
    unfolding processShReqFromL2Cache_def Let_def assms(2)
    by (intro entry agree_rules same_bounded agree_refl data keeps_getA keeps_liftA keeps_whenA keeps_assertA)
  show "agree (\<lambda>s. bounded a n (dd_queue s)) (processUpgradeReqFromL2Cache f req buf) (processUpgradeReqFromL2Cache g req buf)"
    unfolding processUpgradeReqFromL2Cache_def Let_def assms(2)
    by (intro entry agree_rules same_bounded agree_refl data nx keeps_liftA keeps_assertA)
qed

section \<open>The bound is enough\<close>

lemma upto_alone: "same_when_alone (processNextReq_upto (Suc k)) (processNextReq_upto (Suc k'))"
proof -
  have run: "processNextReq_upto (Suc k) b s = Inr ((), s\<lparr>dd_queue := (dd_queue s)(b := None)\<rparr>)"
    if "length (pending (dd_queue s) b) = 1" for k b s
  proof -
    from that obtain r where "dd_queue s b = Some [r]" by (auto simp: pending_def length_Suc_conv split: option.splits)
    then show ?thesis
      by (simp add: bindA_def thenA_def queueSize_def getA_def assertA_def retA_def liftA_def modA_def rq_size_def dequeue_def rq_empty_def)
  qed
  then show ?thesis by (auto simp: same_when_alone_def)
qed

text \<open>What a round does once the answered request is out of the queue.\<close>

abbreviation nextRound :: "(IntPtr \<Rightarrow> unit dact) \<Rightarrow> IntPtr \<Rightarrow> unit dact" where
  "nextRound next a \<equiv> bindA (frontReq a) (\<lambda>req.
     thenA (dd_setTime (sr_time req))
       (case msg_type (sr_msg req) of
          EX_REQ \<Rightarrow> processExReqFromL2Cache next req NULL
        | SH_REQ \<Rightarrow> processShReqFromL2Cache next req NULL
        | UPGRADE_REQ \<Rightarrow> processUpgradeReqFromL2Cache next req NULL
        | _ \<Rightarrow> failA (Print_Error ''Unrecognized Request'')))"

lemma nextRound_agree:
  assumes "same_next a n f g"
  shows "agree (\<lambda>s. bounded a n (dd_queue s)) (nextRound f a) (nextRound g a)"
proof (rule agree_bindA)
  show "keeps (\<lambda>s. bounded a n (dd_queue s)) (frontReq a)" unfolding frontReq_def by (intro keeps_rules)
next
  fix req and s s' :: dircntlr assume "bounded a n (dd_queue s)" "frontReq a s = Inr (req, s')"
  then have "msg_address (sr_msg req) = a"
    using rq_front_pending [of "dd_queue s" a req] by (auto simp: frontReq_def action_simps bounded_def keyed_def)
  note requests = requests_agree [OF assms this]
  show "agree (\<lambda>s. bounded a n (dd_queue s))
      (thenA (dd_setTime (sr_time req)) (case msg_type (sr_msg req) of EX_REQ \<Rightarrow> processExReqFromL2Cache f req NULL
        | SH_REQ \<Rightarrow> processShReqFromL2Cache f req NULL | UPGRADE_REQ \<Rightarrow> processUpgradeReqFromL2Cache f req NULL
        | _ \<Rightarrow> failA (Print_Error ''Unrecognized Request'')))
      (thenA (dd_setTime (sr_time req)) (case msg_type (sr_msg req) of EX_REQ \<Rightarrow> processExReqFromL2Cache g req NULL
        | SH_REQ \<Rightarrow> processShReqFromL2Cache g req NULL | UPGRADE_REQ \<Rightarrow> processUpgradeReqFromL2Cache g req NULL
        | _ \<Rightarrow> failA (Print_Error ''Unrecognized Request'')))"
    by (rule agree_then [OF same_bounded(3)], cases "msg_type (sr_msg req)") (simp_all add: requests)
qed simp

lemma upto_agree:
  "1 \<le> n \<Longrightarrow> n \<le> k \<Longrightarrow> n \<le> k' \<Longrightarrow>
   agree (\<lambda>s. bounded a n (dd_queue s)) (processNextReq_upto k a) (processNextReq_upto k' a)"
proof (induction n arbitrary: k k' a)
  case (Suc n)
  from Suc.prems obtain j j' where k: "k = Suc j" "k' = Suc j'" "n \<le> j" "n \<le> j'" by (cases k; cases k') auto
  show ?case
    unfolding agree_def k
  proof (intro allI impI)
    fix s :: dircntlr assume b: "bounded a (Suc n) (dd_queue s)"
    show "processNextReq_upto (Suc j) a s = processNextReq_upto (Suc j') a s"
    proof (cases "dequeue a (dd_queue s)")
      case (Inr rq)
      obtain r q where d: "dequeue a (dd_queue s) = Inr (r, q)" using Inr by (cases rq) auto
      have q: "bounded a n q" by (rule bounded_dequeue [OF b d])
      have "nextRound (processNextReq_upto j) a (s\<lparr>dd_queue := q\<rparr>) = nextRound (processNextReq_upto j') a (s\<lparr>dd_queue := q\<rparr>)" if "\<not> rq_empty a q"
      proof -
        have "pending q a \<noteq> []" using that q rq_empty_pending [of q a] by (simp add: bounded_def keyed_def)
        then have n: "1 \<le> n" using q by (cases "pending q a") (auto simp: bounded_def)
        obtain m m' where m: "j = Suc m" "j' = Suc m'" using k(3,4) n by (cases j; cases j') auto
        have "same_next a n (processNextReq_upto j) (processNextReq_upto j')"
          using n Suc.IH [OF n k(3,4)] upto_alone [of m m'] by (simp add: same_next_def m del: processNextReq_upto.simps)
        from nextRound_agree [OF this] q show ?thesis by (simp add: agree_def)
      qed
      then show ?thesis
        by (simp add: d bindA_def thenA_def queueSize_def getA_def assertA_def retA_def failA_def liftA_def modA_def)
    qed (simp add: bindA_def thenA_def queueSize_def getA_def assertA_def retA_def failA_def liftA_def)
  qed
qed simp

text \<open>Any bound beyond the number of waiting requests gives the same result.\<close>

lemma processNextReq_bound:
  assumes "keyed (dd_queue s)" "short_queues (dd_queue s)" "length (pending (dd_queue s) a) < k"
  shows "processNextReq_upto k a s = processNextReqFromL2Cache a s"
proof -
  let ?n = "Suc (length (pending (dd_queue s) a))"
  have "bounded a ?n (dd_queue s)" using assms(1,2) by (simp add: bounded_def)
  with upto_agree [of ?n k ?n a] assms(3) show ?thesis by (simp add: agree_def processNextReqFromL2Cache_def)
qed

end
