(* ===== verification/Directory_Behaviour.thy ===== *)
theory Directory_Behaviour
  imports Directory_Termination
begin

text \<open>
  What the tag directory does with a message: looking up a line never fails, a request for a busy
  line only waits, a write to a shared line asks exactly the sharers to give it up, a write to a line
  that is in no cache is served from memory, and data that comes back is written to memory.
\<close>

section \<open>Lookups return\<close>

lemma way_entry_total:
  assumes "dc_inv c" "i < assoc c"
  shows "\<exists>p e c'. way_entry (snd (dc_splitAddress a c)) i c = Inr (p, e, c')"
proof -
  let ?n = "snd (dc_splitAddress a c) * dc_associativity c + of_nat i" and ?d = "dc_directory c"
  note G = dc_invD(1) [OF assms(1)]
  have n: "unat ?n < unat (dc_total_entries c)" using slot_number(1,2) [OF G assms(2), of a] by simp
  then have lt: "?n < dir_num_entries ?d" "unat ?n < length (dir_list ?d)"
    using G by (simp_all add: dc_geometry_def word_less_nat_alt)
  have "\<exists>p d e. dir_getEntry ?n ?d = Inr (p, d) \<and> entry_at p d = Inr e"
  proof (cases "dir_list ?d ! unat ?n")
    case None
    then show ?thesis using lt
      by (simp add: dir_getEntry_def Let_def createDirectoryEntry_def entry_at_def nth_append split: if_splits)
  next
    case (Some p)
    then have "slot c (unat ?n) = Some p" using lt(2) by (simp add: slot_def)
    from dc_invD(2) [OF assms(1) this] show ?thesis using lt Some by (auto simp: dir_getEntry_def addr_Some)
  qed
  then show ?thesis by (auto simp: way_entry_def)
qed

lemma scan_ways_total:
  "dc_inv c \<Longrightarrow> i + m \<le> assoc c \<Longrightarrow> \<exists>r c'. scan_ways m test (snd (dc_splitAddress a c)) i c = Inr (r, c')"
proof (induction m arbitrary: i c)
  case (Suc m)
  from Suc.prems obtain p e d where w: "way_entry (snd (dc_splitAddress a c)) i c = Inr (p, e, d)"
    using way_entry_total [of c i a] by fastforce
  note d = way_entry_grown [OF w Suc.prems(1)]
  have "\<exists>r c'. scan_ways m test (snd (dc_splitAddress a d)) (Suc i) d = Inr (r, c')"
    using Suc.IH [OF d(2), of "Suc i"] Suc.prems(2) by (simp add: grown_assoc [OF d(1)])
  with w show ?case by (auto simp: same_geometryD(4) [OF grownD(1) [OF d(1)]])
qed simp

lemma find_replaced_total: "(\<And>p. p \<in> set ps \<Longrightarrow> \<exists>e. entry_at p d = Inr e) \<Longrightarrow> \<exists>r. find_replaced a d ps = Inr r"
proof (induction ps)
  case (Cons p ps)
  from Cons.prems [of p] obtain e where e: "entry_at p d = Inr e" by auto
  from Cons obtain r where "find_replaced a d ps = Inr r" by auto
  with e show ?case by (simp split: if_splits)
qed simp

lemma lookup_total:
  assumes "dc_inv c" "a \<noteq> NO_ADDRESS"
  shows "\<exists>r ts c'. dc_getDirectoryEntry a m c = Inr (r, ts, c')"
proof -
  let ?n = "snd (dc_splitAddress a c)"
  obtain hit c1 where s1: "scan_ways (assoc c) (\<lambda>e. de_address e = a) ?n 0 c = Inr (hit, c1)"
    using scan_ways_total [OF assms(1), of 0 "assoc c"] by fastforce
  show ?thesis
  proof (cases hit)
    case None
    note g = scan_ways_grown [OF s1 assms(1)]
    obtain free c2 where s2: "scan_ways (assoc c) (\<lambda>e. de_address e = NO_ADDRESS) ?n 0 c1 = Inr (free, c2)"
      using scan_ways_total [of c1 0 "assoc c" _ a] g grown_assoc [of c c1] same_geometryD(4) [OF grownD(1), of c c1 a] by fastforce
    have "dc_inv c2" using scan_ways_grown [OF s2] g by blast
    then obtain r where "find_replaced a (dc_directory c2) (dc_replaced c2) = Inr r"
      using find_replaced_total [of "dc_replaced c2" "dc_directory c2" a] dc_invD(3) [of c2] by (auto simp: addr_Some)
    with s1 None s2 show ?thesis by (cases free) (auto simp: dc_getDirectoryEntry_def Let_def)
  qed (use s1 in \<open>auto simp: dc_getDirectoryEntry_def Let_def\<close>)
qed

section \<open>Lines the directory knows\<close>

text \<open>At least one sharer is tracked in hardware.\<close>

definition hw_ok :: "ddcache \<Rightarrow> bool" where
  "hw_ok c \<longleftrightarrow> dir_use_max_hw_sharers (dc_directory c) \<noteq> 0 \<and> dir_max_num_sharers (dc_directory c) \<noteq> 0"

lemma hw_ok_way: "way_entry n i c = Inr (p, e, c') \<Longrightarrow> hw_ok c \<Longrightarrow> hw_ok c' \<and> dc_access_time c' = dc_access_time c"
  by (auto simp: way_entry_def dir_getEntry_def createDirectoryEntry_def hw_ok_def Let_def result_simps split: option.splits if_splits)

lemma hw_ok_scan: "scan_ways m test n i c = Inr (r, c') \<Longrightarrow> hw_ok c \<Longrightarrow> hw_ok c' \<and> dc_access_time c' = dc_access_time c"
proof (induction m arbitrary: i c)
  case (Suc m)
  from Suc.prems(1) obtain q x d where w: "way_entry n i c = Inr (q, x, d)"
    and rest: "(if test x then Inr (Some (i, q, x), d) else scan_ways m test n (Suc i) d) = Inr (r, c')"
    by (auto simp: result_simps)
  from hw_ok_way [OF w Suc.prems(2)] Suc.IH [of "Suc i" d] rest show ?case by (auto split: if_splits)
qed simp

lemma lookup_keeps:
  assumes "dc_getDirectoryEntry a m c = Inr (r, ts, c')" "dc_inv c" "hw_ok c"
  shows "hw_ok c' \<and> dc_access_time c' = dc_access_time c \<and>
    (\<forall>q x. entry_at q (dc_directory c) = Inr x \<longrightarrow> de_address x \<noteq> NO_ADDRESS \<longrightarrow> entry_at q (dc_directory c') = Inr x)"
  using assms(1)
proof (cases rule: lookup_E)
  case (hit i p e)
  then show ?thesis using hw_ok_scan [OF hit(1) assms(3)] grownD(4) scan_ways_grown [OF hit(1) assms(2)] by blast
next
  case (free c1 c2 i p e)
  note g = scan_ways_grown [OF free(1) assms(2)] and h = hw_ok_scan [OF free(1) assms(3)]
  note g2 = scan_ways_grown [OF free(2) conjunct2 [OF g]] and h2 = hw_ok_scan [OF free(2) conjunct1 [OF h]]
  have hit: "entry_at p (dc_directory c2) = Inr e" "de_address e = NO_ADDRESS" using scan_ways_hit [OF free(2)] g by blast+
  have "entry_at q (dc_directory c') = Inr x" if "entry_at q (dc_directory c) = Inr x" "de_address x \<noteq> NO_ADDRESS" for q x
    using that hit g g2 grownD(4) by (auto simp: free(4) put_entry_at [OF hit(1)])
  then show ?thesis using h h2 by (simp add: free(4) hw_ok_def put_entry_def)
next
  case (full c1)
  note g = scan_ways_grown [OF full(1) assms(2)] and h = hw_ok_scan [OF full(1) assms(3)]
  from g h scan_ways_grown [OF full(2)] hw_ok_scan [OF full(2)] grownD(4) show ?thesis by metis
qed

text \<open>A line with an entry: looking it up finds that entry and changes no entry that is in use.\<close>

definition line :: "dircntlr \<Rightarrow> IntPtr \<Rightarrow> nat \<Rightarrow> dir_entry \<Rightarrow> bool" where
  "line s a p e \<longleftrightarrow> dc_inv (dd_cache s) \<and> hw_ok (dd_cache s) \<and> p \<in> ptrs (dd_cache s) \<and>
     entry_at p (dirOf s) = Inr e \<and> de_address e = a \<and> a \<noteq> NO_ADDRESS"

lemma grown_ptrs_mono: "grown c c' \<Longrightarrow> ptrs c \<subseteq> ptrs c'"
  unfolding ptrs_def using grownD(2,3) by fastforce

lemma lookup_ptrs:
  assumes "dc_getDirectoryEntry a m c = Inr (r, ts, c')" "dc_inv c"
  shows "ptrs c \<subseteq> ptrs c'"
  using assms(1)
proof (cases rule: lookup_E)
  case (hit i p e)
  then show ?thesis using scan_ways_grown [OF hit(1) assms(2)] grown_ptrs_mono by blast
next
  case (free c1 c2 i p e)
  note g = scan_ways_grown [OF free(1) assms(2)]
  have "ptrs c \<subseteq> ptrs c2" using g scan_ways_grown [OF free(2)] grown_ptrs_mono by blast
  moreover have "ptrs c' = ptrs c2" by (simp add: free(4) ptrs_def slot_def put_entry_def)
  ultimately show ?thesis by simp
next
  case (full c1)
  then show ?thesis using scan_ways_grown [OF full(1) assms(2)] scan_ways_grown [OF full(2)] grown_ptrs_mono by blast
qed

lemma lookup_line:
  assumes "line s a p e"
  obtains ts c' where "dc_getDirectoryEntry a m (dd_cache s) = Inr (Some p, ts, c')" "line (s\<lparr>dd_cache := c'\<rparr>) a p e"
    "dc_access_time c' = dc_access_time (dd_cache s)"
    "ts = (if m then [dc_access_time (dd_cache s)] else []) \<or> ts = (if m then [dc_access_time (dd_cache s), getLatency e] else [])"
proof -
  let ?c = "dd_cache s"
  have l: "dc_inv ?c" "hw_ok ?c" "p \<in> ptrs ?c" "entry_at p (dc_directory ?c) = Inr e" "de_address e = a" "a \<noteq> NO_ADDRESS"
    using assms by (simp_all add: line_def)
  obtain r ts c' where run: "dc_getDirectoryEntry a m ?c = Inr (r, ts, c')" using lookup_total [OF l(1,6)] by blast
  note spec = getDirectoryEntry_spec [OF l(1,6) run] and keep = lookup_keeps [OF run l(1,2)]
  have e': "entry_at p (dc_directory c') = Inr e" using keep l(4-6) by blast
  have p': "p \<in> ptrs c'" using lookup_ptrs [OF run l(1)] l(3) by blast
  have a': "addr c' p = Some a" using e' l(5) by (simp add: addr_Some)
  obtain q where r: "r = Some q" "q \<in> ptrs c'" "addr c' q = Some a" using spec p' a' by (cases r) auto
  then have q: "q = p" using dc_invD(7) [of c' q p a] spec p' a' l(6) by blast
  have ts: "ts = (if m then [dc_access_time ?c] else []) \<or> ts = (if m then [dc_access_time ?c, getLatency e] else [])"
    using run
  proof (cases rule: lookup_E)
    case (hit i p' e1)
    then have "e1 = e" using scan_ways_hit [OF hit(1) l(1)] r(1) q e' by auto
    with hit show ?thesis by simp
  qed simp_all
  show ?thesis using that [of ts c'] run r(1) q keep spec p' e' l(5,6) ts by (simp add: line_def)
qed

section \<open>Running the parts of a handler\<close>

lemmas run_simps = bindA_def thenA_def getA_def modA_def retA_def liftA_def assertA_def

text \<open>The clock of the directory does not overflow when the times are charged.\<close>

definition latest :: "dircntlr \<Rightarrow> dir_entry \<Rightarrow> nat" where
  "latest s e = unat (dd_clock s (dd_core_id s) SIM_THREAD) + unat (dc_access_time (dd_cache s)) + unat (getLatency e)"

definition clock_room :: "dircntlr \<Rightarrow> dir_entry \<Rightarrow> bool" where
  "clock_room s e \<longleftrightarrow> latest s e < 2 ^ 64"

lemma incr_clock:
  assumes "unat (ck c SIM_THREAD) + unat t < 2 ^ 64"
  shows "clock_incrElapsedTime c t SIM_THREAD ck = Inr (set_clock c SIM_THREAD (ck c SIM_THREAD + t) ck)"
proof -
  have "unat (ck c SIM_THREAD + t) = unat (ck c SIM_THREAD) + unat t" using assms by (simp add: unat_add_lem [THEN iffD1])
  then have "ck c SIM_THREAD \<le> ck c SIM_THREAD + t" by (simp add: word_le_nat_alt)
  then show ?thesis by (simp add: clock_incrElapsedTime_def Let_def check_def)
qed

lemma lookupEntry_line:
  assumes "line s a p e" "m \<longrightarrow> clock_room s e"
  obtains ck c' where "lookupEntry a m s = Inr (Some p, s\<lparr>dd_cache := c', dd_clock := ck\<rparr>)" "line (s\<lparr>dd_cache := c', dd_clock := ck\<rparr>) a p e"
    "\<not> m \<Longrightarrow> ck = dd_clock s" "unat (ck (dd_core_id s) SIM_THREAD) \<le> latest s e"
proof -
  obtain ts c' where get: "dc_getDirectoryEntry a m (dd_cache s) = Inr (Some p, ts, c')" and line: "line (s\<lparr>dd_cache := c'\<rparr>) a p e"
    and ts: "ts = (if m then [dc_access_time (dd_cache s)] else []) \<or> ts = (if m then [dc_access_time (dd_cache s), getLatency e] else [])"
    by (rule lookup_line [OF assms(1)])
  let ?s = "s\<lparr>dd_cache := c'\<rparr>"
  have "\<exists>ck. foldA (\<lambda>t _. dd_incrTime t) ts () ?s = Inr ((), ?s\<lparr>dd_clock := ck\<rparr>) \<and> (\<not> m \<longrightarrow> ck = dd_clock s) \<and>
      unat (ck (dd_core_id s) SIM_THREAD) \<le> latest s e"
  proof (cases m)
    case True
    have room: "unat (dd_clock s (dd_core_id s) SIM_THREAD) + unat (dc_access_time (dd_cache s)) + unat (getLatency e) < 2 ^ 64"
      using assms(2) True by (simp add: clock_room_def latest_def)
    then have sum: "unat (dd_clock s (dd_core_id s) SIM_THREAD + dc_access_time (dd_cache s)) =
        unat (dd_clock s (dd_core_id s) SIM_THREAD) + unat (dc_access_time (dd_cache s))" by (simp add: unat_add_lem [THEN iffD1])
    from ts True room show ?thesis
      by (auto simp: run_simps dd_incrTime_def incr_clock set_clock_def sum latest_def unat_add_lem [THEN iffD1])
  qed (use ts in \<open>auto simp: run_simps latest_def\<close>)
  then obtain ck where ck: "foldA (\<lambda>t _. dd_incrTime t) ts () ?s = Inr ((), ?s\<lparr>dd_clock := ck\<rparr>)" "\<not> m \<longrightarrow> ck = dd_clock s"
    "unat (ck (dd_core_id s) SIM_THREAD) \<le> latest s e" by blast
  show ?thesis
  proof (rule that [of ck c'])
    show "lookupEntry a m s = Inr (Some p, s\<lparr>dd_cache := c', dd_clock := ck\<rparr>)"
      using get ck(1) by (simp add: lookupEntry_def onDirCache_def run_simps)
    show "line (s\<lparr>dd_cache := c', dd_clock := ck\<rparr>) a p e" using line by (simp add: line_def)
  qed (use ck(2,3) in simp_all)
qed

lemma line_other [simp]:
  "line (s\<lparr>dd_queue := q\<rparr>) = line s" "line (s\<lparr>dd_clock := ck\<rparr>) = line s" "line (s\<lparr>dd_net := net\<rparr>) = line s"
  by (simp_all add: line_def fun_eq_iff)

definition dir_packet :: "dircntlr \<Rightarrow> msg_t \<Rightarrow> mem_component \<Rightarrow> core_id_t \<Rightarrow> core_id_t \<Rightarrow> IntPtr \<Rightarrow> buffer \<Rightarrow> UInt32 \<Rightarrow> where_t \<Rightarrow> packet" where
  "dir_packet s ty component requester receiver a buf n hit_where =
     \<lparr>pk_time = dd_clock s (dd_core_id s) SIM_THREAD, pk_sender = dd_core_id_master s, pk_receiver = receiver,
      pk_msg = \<lparr>msg_type = ty, msg_sender_component = TAG_DIR, msg_receiver_component = component, msg_requester = requester,
                msg_where = hit_where, msg_address = a, msg_data_buf = buf, msg_data_length = n\<rparr>\<rparr>"

lemma send_run:
  "(buf = NULL) = (n = 0) \<Longrightarrow>
   dd_send ty rc rq rcv a buf n w s = Inr ((), s\<lparr>dd_net := dd_net s @ [dir_packet s ty rc rq rcv a buf n w]\<rparr>)"
  by (simp add: dd_send_def dd_now_def run_simps dir_packet_def)

abbreviation inv_packet :: "dircntlr \<Rightarrow> core_id_t \<Rightarrow> IntPtr \<Rightarrow> core_id_t \<Rightarrow> packet" where
  "inv_packet s requester a c \<equiv> dir_packet s INV_REQ L2_CACHE requester c a NULL 0 WHERE_UNKNOWN"

lemma dir_packet_frame [simp]:
  "dir_packet (s\<lparr>dd_net := net\<rparr>) = dir_packet s" "dir_packet (s\<lparr>dd_cache := c\<rparr>) = dir_packet s" "dir_packet (s\<lparr>dd_queue := q\<rparr>) = dir_packet s"
  by (simp_all add: dir_packet_def fun_eq_iff)

lemma inv_requests_run:
  "foldA (\<lambda>c _. toCache INV_REQ requester c a) cs () s = Inr ((), s\<lparr>dd_net := dd_net s @ map (inv_packet s requester a) cs\<rparr>)"
proof (induction cs arbitrary: s)
  case (Cons c cs)
  have "toCache INV_REQ requester c a s = Inr ((), s\<lparr>dd_net := dd_net s @ [inv_packet s requester a c]\<rparr>)"
    by (simp add: toCache_def send_run)
  with Cons show ?case by (simp add: bindA_def)
qed (simp add: retA_def)

lemma lookupEntry_known:
  assumes "line s a p e"
  obtains c' where "lookupEntry a False s = Inr (Some p, s\<lparr>dd_cache := c'\<rparr>)" "line (s\<lparr>dd_cache := c'\<rparr>) a p e"
proof -
  obtain ck c' where l: "lookupEntry a False s = Inr (Some p, s\<lparr>dd_cache := c', dd_clock := ck\<rparr>)" "line (s\<lparr>dd_cache := c', dd_clock := ck\<rparr>) a p e"
    "ck = dd_clock s"
    by (rule lookupEntry_line [OF assms, of False]) auto
  from that [of c'] l(1,2) show ?thesis unfolding l(3) by simp
qed

section \<open>A request for a line nobody else asks for\<close>

text \<open>The request is the only one of the line and its handler starts.\<close>

lemma ex_request_starts:
  assumes "line s a p e" "clock_room s e" "pending (dd_queue s) a = []" "msg_type msg = EX_REQ" "msg_address msg = a" "msg_data_buf msg = NULL"
  obtains c1 ck r where "line (s\<lparr>dd_cache := c1, dd_clock := ck, dd_queue := enqueue a r (dd_queue s)\<rparr>) a p e"
    "pending (enqueue a r (dd_queue s)) a = [r]" "sr_msg r = msg"
    "handleMsgFromL2Cache c msg s = processExReq r NULL (s\<lparr>dd_cache := c1, dd_clock := ck, dd_queue := enqueue a r (dd_queue s)\<rparr>)"
    "unat (ck (dd_core_id s) SIM_THREAD) \<le> latest s e"
proof -
  obtain ck c1 where l1: "lookupEntry a True s = Inr (Some p, s\<lparr>dd_cache := c1, dd_clock := ck\<rparr>)" "line (s\<lparr>dd_cache := c1, dd_clock := ck\<rparr>) a p e"
    "unat (ck (dd_core_id s) SIM_THREAD) \<le> latest s e"
    using lookupEntry_line [OF assms(1), of True] assms(2) by blast
  define r where "r = \<lparr>sr_msg = msg, sr_time = dd_clock s (dd_core_id s) SIM_THREAD, sr_wait_for_data = False, sr_forwarding_from = INVALID_CORE_ID\<rparr>"
  have q: "pending (enqueue a r (dd_queue s)) a = [r]" "rq_size a (enqueue a r (dd_queue s)) = 1"
    using assms(3) by (simp_all add: enqueue_pending rq_size_pending)
  have new: "queueRequest msg (dd_clock s (dd_core_id s) SIM_THREAD) h (s\<lparr>dd_cache := c1, dd_clock := ck\<rparr>) =
      h r (s\<lparr>dd_cache := c1, dd_clock := ck, dd_queue := enqueue a r (dd_queue s)\<rparr>)" for h
    using assms(5,6) q(2) by (simp add: queueRequest_def newRequest_def ShmemReq_new_def queueSize_def whenA_def run_simps r_def [symmetric] check_def)
  show ?thesis
  proof (rule that [of r ck c1])
    show "sr_msg r = msg" by (simp add: r_def)
  qed (use l1 q new assms(4,5) in \<open>simp_all add: handleMsgFromL2Cache_def dd_now_def bindA_def getA_def\<close>)
qed

lemma entryFor_known: "lookupEntry (msg_address (sr_msg r)) False s = Inr (Some p, s') \<Longrightarrow> entryFor next r s = Inr (p, s')"
  by (simp add: entryFor_def bindA_def retA_def)

lemma entryOf_known: "line s a p e \<Longrightarrow> entryOf p s = Inr (e, s)"
  by (simp add: entryOf_def line_def run_simps)

section \<open>A write to a shared line\<close>

lemma write_to_shared_line:
  assumes "line s a p e" "clock_room s e" "pending (dd_queue s) a = []" "de_dstate e = DIR_SHARED"
    and msg: "msg_type msg = EX_REQ" "msg_address msg = a" "msg_data_buf msg = NULL"
  obtains s' r where "handleMsgFromL2Cache c msg s = Inr ((), s')"
    "dd_net s' = dd_net s @ map (inv_packet s' (msg_requester msg) a) (sharer_list e)"
    "line s' a p e" "dd_queue s' = enqueue a r (dd_queue s)" "sr_msg r = msg"
proof -
  obtain c1 ck r where st: "line (s\<lparr>dd_cache := c1, dd_clock := ck, dd_queue := enqueue a r (dd_queue s)\<rparr>) a p e"
    "pending (enqueue a r (dd_queue s)) a = [r]" "sr_msg r = msg"
    "handleMsgFromL2Cache c msg s = processExReq r NULL (s\<lparr>dd_cache := c1, dd_clock := ck, dd_queue := enqueue a r (dd_queue s)\<rparr>)"
    using ex_request_starts [OF assms(1-3) msg] by blast
  let ?s2 = "s\<lparr>dd_cache := c1, dd_clock := ck, dd_queue := enqueue a r (dd_queue s)\<rparr>"
  obtain c2 where l2: "lookupEntry a False ?s2 = Inr (Some p, ?s2\<lparr>dd_cache := c2\<rparr>)" "line (?s2\<lparr>dd_cache := c2\<rparr>) a p e"
    by (rule lookupEntry_known [OF st(1)])
  define s3 where "s3 = ?s2\<lparr>dd_cache := c2\<rparr>"
  have "processExReq r NULL ?s2 = Inr ((), s3\<lparr>dd_net := dd_net s3 @ map (inv_packet s3 (msg_requester msg) a) (sharer_list e)\<rparr>)"
    using entryFor_known [of r ?s2 p s3 processNextReqFromL2Cache] entryOf_known [of s3 a p e] l2 st(3) msg(2) assms(4)
    by (simp add: processExReqFromL2Cache_def Let_def s3_def [symmetric] bindA_def thenA_def assertA_def retA_def invalidateSharers_def getSharersList_def
        inv_requests_run)
  then show ?thesis
    using that [of "s3\<lparr>dd_net := dd_net s3 @ map (inv_packet s3 (msg_requester msg) a) (sharer_list e)\<rparr>" r] st l2(2)
    by (simp add: s3_def)
qed

section \<open>A request for a busy line waits\<close>

lemma request_waits:
  assumes "line s a p e" "clock_room s e" "pending (dd_queue s) a \<noteq> []" "length (pending (dd_queue s) a) < 2 ^ 32 - 1"
    and msg: "msg_type msg \<in> {EX_REQ, SH_REQ, UPGRADE_REQ}" "msg_address msg = a" "msg_data_buf msg = NULL"
  obtains s' r where "handleMsgFromL2Cache c msg s = Inr ((), s')" "dd_net s' = dd_net s" "line s' a p e"
    "dd_queue s' = enqueue a r (dd_queue s)" "sr_msg r = msg"
proof -
  obtain ck c1 where l1: "lookupEntry a True s = Inr (Some p, s\<lparr>dd_cache := c1, dd_clock := ck\<rparr>)" "line (s\<lparr>dd_cache := c1, dd_clock := ck\<rparr>) a p e"
    using lookupEntry_line [OF assms(1), of True] assms(2) by blast
  define r where "r = \<lparr>sr_msg = msg, sr_time = dd_clock s (dd_core_id s) SIM_THREAD, sr_wait_for_data = False, sr_forwarding_from = INVALID_CORE_ID\<rparr>"
  have "rq_size a (enqueue a r (dd_queue s)) \<noteq> 1"
  proof
    assume "rq_size a (enqueue a r (dd_queue s)) = 1"
    then have "unat (of_nat (Suc (length (pending (dd_queue s) a))) :: UInt32) = 1" by (simp add: rq_size_pending enqueue_pending)
    moreover have "unat (of_nat (Suc (length (pending (dd_queue s) a))) :: UInt32) = Suc (length (pending (dd_queue s) a))"
      using assms(4) by (simp only: unat_of_nat len_of_numeral_defs) simp
    ultimately show False using assms(3) by simp
  qed
  then have wait: "queueRequest msg (dd_clock s (dd_core_id s) SIM_THREAD) h (s\<lparr>dd_cache := c1, dd_clock := ck\<rparr>) =
      Inr ((), s\<lparr>dd_cache := c1, dd_clock := ck, dd_queue := enqueue a r (dd_queue s)\<rparr>)" for h
    using msg(2,3) by (simp add: queueRequest_def newRequest_def ShmemReq_new_def queueSize_def whenA_def run_simps r_def [symmetric] check_def)
  show ?thesis
    by (rule that [of "s\<lparr>dd_cache := c1, dd_clock := ck, dd_queue := enqueue a r (dd_queue s)\<rparr>" r])
      (use l1 wait msg(1,2) in \<open>auto simp: handleMsgFromL2Cache_def dd_now_def bindA_def getA_def\<close>, simp_all add: r_def)
qed

section \<open>A write to a line that is in no cache\<close>

lemma grantEntry_run:
  assumes "entry_ok e" "de_dstate e = UNCACHED" "unat r < length (de_sharers e)" "n \<noteq> 0" "st \<in> {DIR_SHARED, DIR_MODIFIED, DIR_EXCLUSIVE}"
  obtains e' where "grantEntry r n st e = Inr e'" "entry_ok e'" "sharers e' = {unat r}" "de_owner e' = r" "de_dstate e' = st"
    "de_address e' = de_address e"
proof -
  have none: "sharers e = {}" using assms(1,2) by (simp add: entry_ok_def)
  have "getNumSharers e = 0" using assms(1) none by (simp add: getNumSharers_0 entry_ok_def)
  then have "\<not> n \<le> getNumSharers e" using assms(4) by (simp add: word_le_nat_alt unat_eq_0)
  moreover have "hasSharer r e = Inr False" using assms(3) none by (simp add: hasSharer_Inr)
  ultimately obtain e1 where add: "addSharer r n e = Inr (True, e1)"
    by (cases "de_kind e") (auto simp: addSharer_def check_def)
  have "unat r \<in> sharers e1" using addSharer_Inr(3) [OF add] by simp
  then have "grantEntry r n st e = Inr (e1\<lparr>de_owner := r, de_dstate := st\<rparr>)"
    using add by (simp add: grantEntry_def check_def bindE_def setOwner_Inr [THEN iffD2])
  with grantEntry_ok [OF this assms(1,2,5)] that show ?thesis by blast
qed

lemma onEntry_run:
  assumes "line s a p e" "f e = Inr (x, e')" "de_address e' = de_address e"
  obtains c where "onEntry p f s = Inr (x, s\<lparr>dd_cache := c\<rparr>)" "line (s\<lparr>dd_cache := c\<rparr>) a p e'"
proof -
  have l: "dc_inv (dd_cache s)" "entry_at p (dirOf s) = Inr e" using assms(1) by (simp_all add: line_def)
  let ?c = "(dd_cache s)\<lparr>dc_directory := put_entry p e' (dirOf s)\<rparr>"
  have "ptrs ?c = ptrs (dd_cache s)" by (simp add: ptrs_def slot_def put_entry_def)
  then have "line (s\<lparr>dd_cache := ?c\<rparr>) a p e'"
    using assms(1,3) dc_inv_put [OF l(2) assms(3)] by (simp add: line_def put_entry_at [OF l(2)] hw_ok_def) (simp add: put_entry_def)
  moreover have "onEntry p f s = Inr (x, s\<lparr>dd_cache := ?c\<rparr>)"
    using assms(2) l(2) by (simp add: onEntry_def entryOf_def putEntry_def run_simps)
  ultimately show ?thesis using that by blast
qed

lemma grant_run:
  assumes "line s a p e" "entry_ok e" "de_dstate e = UNCACHED" "unat r < length (de_sharers e)" "st \<in> {DIR_SHARED, DIR_MODIFIED, DIR_EXCLUSIVE}"
  obtains e' c where "grant p r st s = Inr ((), s\<lparr>dd_cache := c\<rparr>)" "line (s\<lparr>dd_cache := c\<rparr>) a p e'"
    "entry_ok e'" "sharers e' = {unat r}" "de_owner e' = r" "de_dstate e' = st"
proof -
  have l: "dc_inv (dd_cache s)" "getMaxHwSharers (dd_cache s) \<noteq> 0" "entry_at p (dirOf s) = Inr e" "de_address e = a"
    using assms(1) by (simp_all add: line_def hw_ok_def getMaxHwSharers_def)
  obtain e' where g: "grantEntry r (getMaxHwSharers (dd_cache s)) st e = Inr e'" "entry_ok e'" "sharers e' = {unat r}" "de_owner e' = r"
    "de_dstate e' = st" "de_address e' = de_address e"
    by (rule grantEntry_run [OF assms(2-4) l(2) assms(5)])
  obtain c where "onEntry p (\<lambda>e. mapE (Pair ()) (grantEntry r (getMaxHwSharers (dd_cache s)) st e)) s = Inr ((), s\<lparr>dd_cache := c\<rparr>)"
    "line (s\<lparr>dd_cache := c\<rparr>) a p e'"
    by (rule onEntry_run [OF assms(1), of "\<lambda>e. mapE (Pair ()) (grantEntry r (getMaxHwSharers (dd_cache s)) st e)" "()" e']) (simp_all add: g(1,6))
  then show ?thesis using that [of c e'] g(2-5) by (simp add: grant_def bindA_def getA_def)
qed

text \<open>The directory gives the line to the requester and asks memory for the data.\<close>

lemma cache_twice: "(s :: dircntlr)\<lparr>dd_cache := c, dd_cache := d\<rparr> = s\<lparr>dd_cache := d\<rparr>"
  by simp

lemma readDram_run:
  assumes "line t a p e" "de_dstate e = DIR_MODIFIED" "dd_queue t a = Some [r]" "getHome (dd_home t) a = Inr node"
  shows "readDram p rq a t = Inr ((), t\<lparr>dd_queue := (dd_queue t)(a := Some [r\<lparr>sr_wait_for_data := True\<rparr>]),
    dd_net := dd_net t @ [dir_packet t DRAM_READ_REQ DRAM rq node a NULL 0 WHERE_UNKNOWN]\<rparr>)"
  using assms(2-4)
  by (simp add: readDram_def bindA_def thenA_def queueSize_def frontReq_def modFront_def rq_size_def rq_front_def entryOf_known [OF assms(1)]
      getA_def modA_def liftA_def assertA_def retA_def send_run)

lemma ex_uncached_run:
  assumes "line t a p e" "de_dstate e = UNCACHED" "entry_ok e" "dd_queue t a = Some [r]"
    and msg: "msg_address (sr_msg r) = a" "unat (msg_requester (sr_msg r)) < length (de_sharers e)"
    and mem: "dd_nuca t = None" "getHome (dd_home t) a = Inr node"
  obtains c e' where "processExReq r NULL t = Inr ((), t\<lparr>dd_cache := c, dd_queue := (dd_queue t)(a := Some [r\<lparr>sr_wait_for_data := True\<rparr>]),
      dd_net := dd_net t @ [dir_packet t DRAM_READ_REQ DRAM (msg_requester (sr_msg r)) node a NULL 0 WHERE_UNKNOWN]\<rparr>)"
    "line (t\<lparr>dd_cache := c\<rparr>) a p e'" "de_dstate e' = DIR_MODIFIED" "sharers e' = {unat (msg_requester (sr_msg r))}"
    "de_owner e' = msg_requester (sr_msg r)"
proof -
  let ?rq = "msg_requester (sr_msg r)"
  obtain c2 where l2: "lookupEntry a False t = Inr (Some p, t\<lparr>dd_cache := c2\<rparr>)" "line (t\<lparr>dd_cache := c2\<rparr>) a p e"
    by (rule lookupEntry_known [OF assms(1)])
  obtain e' c3 where g: "grant p ?rq DIR_MODIFIED (t\<lparr>dd_cache := c2\<rparr>) = Inr ((), t\<lparr>dd_cache := c2, dd_cache := c3\<rparr>)"
    "line (t\<lparr>dd_cache := c2, dd_cache := c3\<rparr>) a p e'" "sharers e' = {unat ?rq}" "de_owner e' = ?rq" "de_dstate e' = DIR_MODIFIED"
    by (rule grant_run [OF l2(2) assms(3,2) msg(2), of DIR_MODIFIED]) auto
  note g' = g(1,2) [unfolded cache_twice]
  obtain c4 where l4: "lookupEntry a False (t\<lparr>dd_cache := c3\<rparr>) = Inr (Some p, t\<lparr>dd_cache := c3, dd_cache := c4\<rparr>)"
      "line (t\<lparr>dd_cache := c3, dd_cache := c4\<rparr>) a p e'"
    by (rule lookupEntry_known [OF g'(2)])
  note l4' = l4 [unfolded cache_twice]
  have data: "retrieveDataAndSendToL2Cache processNextReqFromL2Cache EX_REP ?rq a NULL (t\<lparr>dd_cache := c3\<rparr>) =
      readDram p ?rq a (t\<lparr>dd_cache := c4\<rparr>)"
    using l4'(1) mem(1) by (simp add: retrieveDataAndSendToL2Cache_def requireEntry_def readNuca_def bindA_def retA_def getA_def)
  have "processExReq r NULL t = readDram p ?rq a (t\<lparr>dd_cache := c4\<rparr>)"
    using entryFor_known [of r t p "t\<lparr>dd_cache := c2\<rparr>"] entryOf_known [OF l2(2)] l2(1) g'(1) msg(1) assms(2) data
    by (simp add: processExReqFromL2Cache_def Let_def bindA_def thenA_def)
  also have "\<dots> = Inr ((), t\<lparr>dd_cache := c4, dd_queue := (dd_queue t)(a := Some [r\<lparr>sr_wait_for_data := True\<rparr>]),
      dd_net := dd_net t @ [dir_packet t DRAM_READ_REQ DRAM ?rq node a NULL 0 WHERE_UNKNOWN]\<rparr>)"
    using readDram_run [OF l4'(2) g(5), of r node ?rq] assms(4) mem(2) by simp
  finally show ?thesis using that l4'(2) g(3-5) by blast
qed

lemma write_to_uncached_line:
  assumes "line s a p e" "clock_room s e" "pending (dd_queue s) a = []" "de_dstate e = UNCACHED" "entry_ok e"
    and msg: "msg_type msg = EX_REQ" "msg_address msg = a" "msg_data_buf msg = NULL" "unat (msg_requester msg) < length (de_sharers e)"
    and mem: "dd_nuca s = None" "getHome (dd_home s) a = Inr node"
  obtains s' e' r where "handleMsgFromL2Cache c msg s = Inr ((), s')"
    "dd_net s' = dd_net s @ [dir_packet s' DRAM_READ_REQ DRAM (msg_requester msg) node a NULL 0 WHERE_UNKNOWN]"
    "line s' a p e'" "de_dstate e' = DIR_MODIFIED" "sharers e' = {unat (msg_requester msg)}" "de_owner e' = msg_requester msg"
    "dd_queue s' = (dd_queue s)(a := Some [r])" "sr_msg r = msg" "dd_nuca s' = None" "dd_block_size s' = dd_block_size s"
    "unat (dd_clock s' (dd_core_id s') SIM_THREAD) \<le> latest s e"
proof -
  obtain c1 ck r where st: "line (s\<lparr>dd_cache := c1, dd_clock := ck, dd_queue := enqueue a r (dd_queue s)\<rparr>) a p e"
    "pending (enqueue a r (dd_queue s)) a = [r]" "sr_msg r = msg"
    "handleMsgFromL2Cache c msg s = processExReq r NULL (s\<lparr>dd_cache := c1, dd_clock := ck, dd_queue := enqueue a r (dd_queue s)\<rparr>)"
    "unat (ck (dd_core_id s) SIM_THREAD) \<le> latest s e"
    by (rule ex_request_starts [OF assms(1-3) msg(1-3)])
  define t where "t = s\<lparr>dd_cache := c1, dd_clock := ck, dd_queue := enqueue a r (dd_queue s)\<rparr>"
  have t: "dd_queue t a = Some [r]" "dd_nuca t = None" "getHome (dd_home t) a = Inr node" "dd_net t = dd_net s" "dd_block_size t = dd_block_size s"
    "(dd_queue t)(a := x) = (dd_queue s)(a := x)" for x
    using st(2) mem by (auto simp: t_def pending_def enqueue_def Let_def fun_eq_iff split: option.splits)
  obtain d e' where run: "processExReq r NULL t = Inr ((), t\<lparr>dd_cache := d, dd_queue := (dd_queue t)(a := Some [r\<lparr>sr_wait_for_data := True\<rparr>]),
      dd_net := dd_net t @ [dir_packet t DRAM_READ_REQ DRAM (msg_requester (sr_msg r)) node a NULL 0 WHERE_UNKNOWN]\<rparr>)"
    and e': "line (t\<lparr>dd_cache := d\<rparr>) a p e'" "de_dstate e' = DIR_MODIFIED" "sharers e' = {unat (msg_requester (sr_msg r))}"
      "de_owner e' = msg_requester (sr_msg r)"
    by (rule ex_uncached_run [OF st(1) [folded t_def] assms(4,5) t(1), of node]) (use st(3) msg t in auto)
  show ?thesis
    by (rule that [of "t\<lparr>dd_cache := d, dd_queue := (dd_queue t)(a := Some [r\<lparr>sr_wait_for_data := True\<rparr>]),
          dd_net := dd_net t @ [dir_packet t DRAM_READ_REQ DRAM (msg_requester (sr_msg r)) node a NULL 0 WHERE_UNKNOWN]\<rparr>" e' "r\<lparr>sr_wait_for_data := True\<rparr>"])
      (use st(3-5) run e' t in \<open>simp_all add: t_def [symmetric]\<close>, simp add: t_def)
qed

text \<open>When the data arrives the requester gets it and the line is free for the next request.\<close>

lemma memory_answers:
  assumes "line s a p e" "de_dstate e = DIR_MODIFIED" "dd_queue s a = Some [r]" "msg_type (sr_msg r) = EX_REQ" "dd_nuca s = None"
    and rep: "msg_type rep = DRAM_READ_REP" "msg_address rep = a" "(msg_data_buf rep = NULL) = (dd_block_size s = 0)"
  obtains s' hit_where where "handleMsgFromDRAM node rep s = Inr ((), s')"
    "dd_net s' = dd_net s @ [dir_packet s EX_REP L2_CACHE (msg_requester (sr_msg r)) (msg_requester (sr_msg r)) a (msg_data_buf rep) (dd_block_size s) hit_where]"
    "line s' a p e" "dd_queue s' = (dd_queue s)(a := None)"
proof -
  let ?rq = "msg_requester (sr_msg r)"
  obtain c where l: "lookupEntry a False s = Inr (Some p, s\<lparr>dd_cache := c\<rparr>)" "line (s\<lparr>dd_cache := c\<rparr>) a p e"
    by (rule lookupEntry_known [OF assms(1)])
  define w where "w = (if msg_where rep = HIT_DRAM then (if node = msg_requester rep then WHERE_DRAM_LOCAL else WHERE_DRAM_REMOTE) else msg_where rep)"
  define s2 where "s2 = s\<lparr>dd_cache := c, dd_net := dd_net s @ [dir_packet s EX_REP L2_CACHE ?rq ?rq a (msg_data_buf rep) (dd_block_size s) w]\<rparr>"
  have last: "processNextReqFromL2Cache a s2 = Inr ((), s2\<lparr>dd_queue := (dd_queue s)(a := None)\<rparr>)"
    using assms(3) by (simp add: processNextReqFromL2Cache_def pending_def s2_def run_simps queueSize_def rq_size_def dequeue_def rq_empty_def)
  have reply: "replyToCache EX_REP ?rq a (msg_data_buf rep) w (s\<lparr>dd_cache := c\<rparr>) = Inr ((), s2)"
    using rep(3) by (simp add: replyToCache_def s2_def bindA_def getA_def send_run)
  have nuca: "sendDataToNUCA a (msg_data_buf rep) False s2 = Inr ((), s2)"
    using assms(5) by (simp add: sendDataToNUCA_def run_simps s2_def)
  have "processDRAMReply node rep s = Inr ((), s2\<lparr>dd_queue := (dd_queue s)(a := None)\<rparr>)"
    using assms(2-4) l(1) reply last nuca entryOf_known [OF l(2)] rep(2)
    by (simp add: processDRAMReply_def Let_def queueSize_def frontReq_def rq_size_def rq_front_def requireEntry_def dramReplyType_def check_def
        run_simps w_def [symmetric])
  then show ?thesis
    using that [of "s2\<lparr>dd_queue := (dd_queue s)(a := None)\<rparr>" w] rep(1) l(2) by (simp add: handleMsgFromDRAM_def s2_def)
qed

section \<open>Data that comes back is written to memory\<close>

lemma sendDataToDram_run:
  assumes "dd_nuca s = None" "getHome (dd_home s) a = Inr node" "(buf = NULL) = (dd_block_size s = 0)"
  shows "sendDataToDram a rq buf s =
    Inr ((), s\<lparr>dd_net := dd_net s @ [dir_packet s DRAM_WRITE_REQ DRAM rq node a buf (dd_block_size s) WHERE_UNKNOWN]\<rparr>)"
  using assms by (simp add: sendDataToDram_def run_simps send_run)

text \<open>A checkpoint: the data goes to memory and the cache keeps a copy it may not write.\<close>

lemma checkpoint_written:
  assumes "line s a p e" "clock_room s e" "unat c \<in> sharers e"
    and msg: "msg_type msg = CP_REP" "msg_address msg = a" "(msg_data_buf msg = NULL) = (dd_block_size s = 0)"
    and mem: "dd_nuca s = None" "getHome (dd_home s) a = Inr node"
  obtains s' e' where "handleMsgFromL2Cache c msg s = Inr ((), s')"
    "dd_net s' = dd_net s @ [dir_packet s' DRAM_WRITE_REQ DRAM (msg_requester msg) node a (msg_data_buf msg) (dd_block_size s) WHERE_UNKNOWN]"
    "line s' a p e'" "de_dstate e' = DIR_SHARED" "sharers e' = sharers e" "dd_queue s' = dd_queue s"
proof -
  obtain ck c1 where l1: "lookupEntry a True s = Inr (Some p, s\<lparr>dd_cache := c1, dd_clock := ck\<rparr>)" "line (s\<lparr>dd_cache := c1, dd_clock := ck\<rparr>) a p e"
    using lookupEntry_line [OF assms(1), of True] assms(2) by blast
  define t where "t = s\<lparr>dd_cache := c1, dd_clock := ck\<rparr>"
  have t: "dd_nuca t = None" "getHome (dd_home t) a = Inr node" "(msg_data_buf msg = NULL) = (dd_block_size t = 0)"
    "dd_net t = dd_net s" "dd_block_size t = dd_block_size s" "dd_queue t = dd_queue s"
    using mem msg(3) by (simp_all add: t_def)
  obtain c2 where l2: "lookupEntry a False t = Inr (Some p, t\<lparr>dd_cache := c2\<rparr>)" "line (t\<lparr>dd_cache := c2\<rparr>) a p e"
    by (rule lookupEntry_known [OF l1(2) [folded t_def]])
  define e' where "e' = e\<lparr>de_owner := INVALID_CORE_ID, de_dstate := DIR_SHARED\<rparr>"
  have "unat c < length (de_sharers e)" using assms(3) by (simp add: sharers_def)
  then have e': "mapE (Pair ()) (shareWrittenBack c e) = Inr ((), e')"
    using assms(3) by (simp add: shareWrittenBack_def hasSharer_Inr [THEN iffD2] setOwner_def check_def e'_def)
  obtain c3 where w: "onEntry p (\<lambda>e. mapE (Pair ()) (shareWrittenBack c e)) (t\<lparr>dd_cache := c2\<rparr>) = Inr ((), t\<lparr>dd_cache := c2, dd_cache := c3\<rparr>)"
    "line (t\<lparr>dd_cache := c2, dd_cache := c3\<rparr>) a p e'"
    by (rule onEntry_run [OF l2(2), of "\<lambda>e. mapE (Pair ()) (shareWrittenBack c e)" "()" e']) (use e' in \<open>simp_all add: e'_def\<close>)
  note w' = w [unfolded cache_twice]
  let ?s' = "t\<lparr>dd_cache := c3, dd_net := dd_net s @ [dir_packet t DRAM_WRITE_REQ DRAM (msg_requester msg) node a (msg_data_buf msg) (dd_block_size s) WHERE_UNKNOWN]\<rparr>"
  have "sendDataToDram a (msg_requester msg) (msg_data_buf msg) (t\<lparr>dd_cache := c3\<rparr>) = Inr ((), ?s')"
    using sendDataToDram_run [of "t\<lparr>dd_cache := c3\<rparr>" a node "msg_data_buf msg"] t by simp
  then have "handleMsgFromL2Cache c msg s = Inr ((), ?s')"
    using l1(1) l2(1) w'(1) msg(1,2)
    by (simp add: handleMsgFromL2Cache_def processCpRepFromL2Cache_def requireEntry_def run_simps dd_now_def t_def [symmetric])
  then show ?thesis using that [of ?s' e'] w'(2) t by (simp add: e'_def)
qed

section \<open>The last sharer gives up the line\<close>

lemma touchFront_run:
  assumes "dd_queue s a = Some (r # rs)"
  obtains ck where "touchFront a t s = Inr (req_updateTime t r, s\<lparr>dd_queue := (dd_queue s)(a := Some (req_updateTime t r # rs)), dd_clock := ck\<rparr>)"
  using assms by (simp add: touchFront_def modFront_def frontReq_def rq_front_def dd_updateTime_def run_simps)

lemma dropInvalidated_last:
  assumes "entry_ok e" "sharers e = {unat c}"
  obtains e' where "dropInvalidated c e = Inr e'" "entry_ok e'" "de_dstate e' = UNCACHED" "de_address e' = de_address e"
    "length (de_sharers e') = length (de_sharers e)"
proof -
  have "unat c \<in> sharers e" using assms(2) by simp
  then obtain e' where run: "dropInvalidated c e = Inr e'" by (simp add: dropInvalidated_def Let_def removeSharer_Inr [THEN iffD2])
  note d = dropped [OF disjI1 [OF run] assms(1)]
  have "de_address e' = de_address e" by (rule entry_step_address [OF entry_step.invalidated [OF run]])
  with that [OF run] d assms(2) show ?thesis by simp
qed

lemma inv_rep_run:
  assumes "line t a p e" "de_dstate e = DIR_SHARED" "entry_ok e" "sharers e = {unat c}"
    and req: "dd_queue t a = Some [r]" "msg_type (sr_msg r) = EX_REQ" "msg_address msg = a"
  obtains d ck e1 r1 where
    "processInvRepFromL2Cache c msg t = processExReq r1 NULL (t\<lparr>dd_cache := d, dd_queue := (dd_queue t)(a := Some [r1]), dd_clock := ck\<rparr>)"
    "line (t\<lparr>dd_cache := d, dd_queue := (dd_queue t)(a := Some [r1]), dd_clock := ck\<rparr>) a p e1" "sr_msg r1 = sr_msg r"
    "entry_ok e1" "de_dstate e1 = UNCACHED" "length (de_sharers e1) = length (de_sharers e)"
proof -
  obtain c2 where l2: "lookupEntry a False t = Inr (Some p, t\<lparr>dd_cache := c2\<rparr>)" "line (t\<lparr>dd_cache := c2\<rparr>) a p e"
    by (rule lookupEntry_known [OF assms(1)])
  obtain e1 where e1: "dropInvalidated c e = Inr e1" "entry_ok e1" "de_dstate e1 = UNCACHED" "de_address e1 = de_address e"
    "length (de_sharers e1) = length (de_sharers e)"
    by (rule dropInvalidated_last [OF assms(3,4)])
  obtain c3 where w: "onEntry p (\<lambda>e. mapE (Pair ()) (dropInvalidated c e)) (t\<lparr>dd_cache := c2\<rparr>) = Inr ((), t\<lparr>dd_cache := c2, dd_cache := c3\<rparr>)"
    "line (t\<lparr>dd_cache := c2, dd_cache := c3\<rparr>) a p e1"
    by (rule onEntry_run [OF l2(2), of "\<lambda>e. mapE (Pair ()) (dropInvalidated c e)" "()" e1]) (simp_all add: e1(1,4))
  define t3 where "t3 = t\<lparr>dd_cache := c3\<rparr>"
  note w' = w [unfolded cache_twice, folded t3_def]
  have q3: "dd_queue t3 a = Some [r]" "rq_size a (dd_queue t3) = 1" using req(1) by (simp_all add: t3_def rq_size_def)
  define now where "now = dd_clock t3 (dd_core_id t3) SIM_THREAD"
  define r1 where "r1 = req_updateTime now r"
  have r1: "sr_msg r1 = sr_msg r" by (simp add: r1_def req_updateTime_def)
  obtain ck where tf: "touchFront a now t3 = Inr (r1, t3\<lparr>dd_queue := (dd_queue t3)(a := Some [r1]), dd_clock := ck\<rparr>)"
    using touchFront_run [OF q3(1), of now] unfolding r1_def by auto
  have "processInvRepFromL2Cache c msg t = processExReq r1 NULL (t3\<lparr>dd_queue := (dd_queue t3)(a := Some [r1]), dd_clock := ck\<rparr>)"
    using l2(1) entryOf_known [OF l2(2)] entryOf_known [OF w'(2)] w'(1) tf req(2,3) r1 e1(3) assms(2) q3(2)
    by (simp add: processInvRepFromL2Cache_def Let_def requireEntry_def run_simps queueSize_def whenA_def dd_now_def now_def [symmetric])
  with that [of r1 ck c3 e1] w'(2) r1 e1(2,3,5) show ?thesis by (simp add: t3_def)
qed

lemma write_waits_no_more:
  assumes "line s a p e" "clock_room s e" "de_dstate e = DIR_SHARED" "entry_ok e" "sharers e = {unat c}"
    and req: "dd_queue s a = Some [r]" "msg_type (sr_msg r) = EX_REQ" "msg_address (sr_msg r) = a"
      "unat (msg_requester (sr_msg r)) < length (de_sharers e)"
    and msg: "msg_type msg = INV_REP" "msg_address msg = a"
    and mem: "dd_nuca s = None" "getHome (dd_home s) a = Inr node"
  obtains s' e' r' where "handleMsgFromL2Cache c msg s = Inr ((), s')"
    "dd_net s' = dd_net s @ [dir_packet s' DRAM_READ_REQ DRAM (msg_requester (sr_msg r)) node a NULL 0 WHERE_UNKNOWN]"
    "line s' a p e'" "de_dstate e' = DIR_MODIFIED" "sharers e' = {unat (msg_requester (sr_msg r))}" "de_owner e' = msg_requester (sr_msg r)"
    "dd_queue s' = (dd_queue s)(a := Some [r'])" "sr_msg r' = sr_msg r"
proof -
  obtain ck c1 where l1: "lookupEntry a True s = Inr (Some p, s\<lparr>dd_cache := c1, dd_clock := ck\<rparr>)" "line (s\<lparr>dd_cache := c1, dd_clock := ck\<rparr>) a p e"
    using lookupEntry_line [OF assms(1), of True] assms(2) by blast
  define t where "t = s\<lparr>dd_cache := c1, dd_clock := ck\<rparr>"
  have t: "dd_queue t = dd_queue s" "dd_net t = dd_net s" "dd_nuca t = None" "getHome (dd_home t) a = Inr node" using mem by (simp_all add: t_def)
  obtain d ck' e1 r1 where inv: "processInvRepFromL2Cache c msg t = processExReq r1 NULL (t\<lparr>dd_cache := d, dd_queue := (dd_queue t)(a := Some [r1]), dd_clock := ck'\<rparr>)"
    "line (t\<lparr>dd_cache := d, dd_queue := (dd_queue t)(a := Some [r1]), dd_clock := ck'\<rparr>) a p e1" "sr_msg r1 = sr_msg r"
    "entry_ok e1" "de_dstate e1 = UNCACHED" "length (de_sharers e1) = length (de_sharers e)"
    by (rule inv_rep_run [OF l1(2) [folded t_def] assms(3-5), of r msg]) (use req msg t in simp_all)
  define t4 where "t4 = t\<lparr>dd_cache := d, dd_queue := (dd_queue t)(a := Some [r1]), dd_clock := ck'\<rparr>"
  have t4: "dd_queue t4 a = Some [r1]" "dd_nuca t4 = None" "getHome (dd_home t4) a = Inr node" "dd_net t4 = dd_net s"
    "(dd_queue t4)(a := x) = (dd_queue s)(a := x)" for x
    using t by (simp_all add: t4_def)
  obtain d' e' where run: "processExReq r1 NULL t4 = Inr ((), t4\<lparr>dd_cache := d', dd_queue := (dd_queue t4)(a := Some [r1\<lparr>sr_wait_for_data := True\<rparr>]),
      dd_net := dd_net t4 @ [dir_packet t4 DRAM_READ_REQ DRAM (msg_requester (sr_msg r1)) node a NULL 0 WHERE_UNKNOWN]\<rparr>)"
    and e': "line (t4\<lparr>dd_cache := d'\<rparr>) a p e'" "de_dstate e' = DIR_MODIFIED" "sharers e' = {unat (msg_requester (sr_msg r1))}"
      "de_owner e' = msg_requester (sr_msg r1)"
    by (rule ex_uncached_run [OF inv(2) [folded t4_def] inv(5,4) t4(1), of node]) (use inv(3,6) req t4 in auto)
  have "handleMsgFromL2Cache c msg s = processExReq r1 NULL t4"
    using l1(1) msg inv(1) by (simp add: handleMsgFromL2Cache_def run_simps dd_now_def t_def [symmetric] t4_def [symmetric])
  with run show ?thesis
    using that [of _ e' "r1\<lparr>sr_wait_for_data := True\<rparr>"] e' t4 inv(3) by simp
qed

end
