(* ===== verification/Memory_Manager.thy ===== *)
theory Memory_Manager
  imports Dram_Cache Tlb Cntlr_Invariant Directory_Behaviour
begin

text \<open>
  \<open>parametric_dram_directory_msi/memory_manager.cc\<close> and \<open>dram/dram_cntlr_interface.cc\<close>: the memory
  managers of all cores with everything they own, and the messages between them. A memory manager
  takes the requests of its core and hands every message it receives to the cache, the directory or
  the memory it is meant for. The state \<open>machine\<close> has the cache hierarchy of all cores, the
  directories and memories by node, and the packets that are under way.
\<close>

section \<open>Memory as the messages see it\<close>

datatype dram_interface = Memory mem_cntlr | CachedMemory dram_cache

definition if_getDataFromDram :: "IntPtr \<Rightarrow> core_id_t \<Rightarrow> time \<Rightarrow> dram_interface \<Rightarrow> (time \<times> where_t \<times> buffer \<times> dram_interface) result" where
  "if_getDataFromDram address requester t_now m =
     (case m of
        Memory c \<Rightarrow> mapE (\<lambda>(latency, hit_where, out, c'). (latency, hit_where, buf_out (Buf None) out, Memory c')) (mem_get address requester t_now c)
      | CachedMemory k \<Rightarrow> mapE (\<lambda>(latency, hit_where, buf, k'). (latency, hit_where, buf, CachedMemory k')) (dk_getDataFromDram address requester t_now k))"

definition if_putDataToDram :: "IntPtr \<Rightarrow> core_id_t \<Rightarrow> buffer \<Rightarrow> time \<Rightarrow> dram_interface \<Rightarrow> (time \<times> where_t \<times> dram_interface) result" where
  "if_putDataToDram address requester data_buf t_now m =
     (case m of
        Memory c \<Rightarrow>
          bindE (buf_in (mem_fim c) data_buf) (\<lambda>bytes.
            mapE (\<lambda>(latency, hit_where, c'). (latency, hit_where, Memory c')) (mem_put address requester bytes t_now c))
      | CachedMemory k \<Rightarrow> mapE (\<lambda>(latency, hit_where, k'). (latency, hit_where, CachedMemory k')) (dk_putDataToDram address requester data_buf t_now k))"

section \<open>State\<close>

text \<open>The TLBs of a core; \<open>itlb\<close> and \<open>dtlb\<close> share the second level.\<close>

record tlbs =
  mt_itlb :: "tlb option"
  mt_dtlb :: "tlb option"
  mt_stlb :: "tlb option"

record machine =
  mc_hier :: hier
  mc_dirs :: "core_id_t \<Rightarrow> dircntlr option"
  mc_mems :: "core_id_t \<Rightarrow> dram_interface option"
  mc_tlbs :: "core_id_t \<Rightarrow> tlbs"
  mc_cntlrs :: "core_id_t \<Rightarrow> mem_component \<Rightarrow> nat option"
  mc_last_level :: mem_component
  mc_tag_directory_present :: "core_id_t \<Rightarrow> bool"
  mc_master :: "core_id_t \<Rightarrow> core_id_t"
  mc_block_size :: UInt32
  mc_tlb_miss_penalty :: time
  mc_tlb_miss_parallel :: bool
  mc_pseudo :: "core_id_t \<Rightarrow> (time \<times> bool) list"
  mc_net :: "packet list"

type_synonym 'a mact = "(machine, 'a) action"

text \<open>
  A call of a cache controller or of a directory. They share the clocks of the cores; what they send
  joins the packets under way.
\<close>

definition onHier :: "'a hact \<Rightarrow> 'a mact" where
  "onHier f =
     (\<lambda>m. bindE (f ((mc_hier m)\<lparr>h_net := []\<rparr>)) (\<lambda>(a, h).
        Inr (a, m\<lparr>mc_hier := h\<lparr>h_net := []\<rparr>, mc_net := mc_net m @ h_net h\<rparr>)))"

definition onDir :: "core_id_t \<Rightarrow> 'a dact \<Rightarrow> 'a mact" where
  "onDir core f =
     (\<lambda>m. case mc_dirs m core of
        None \<Rightarrow> Inl (Undefined ''null dereference'')
      | Some d \<Rightarrow>
          bindE (f (d\<lparr>dd_clock := h_clock (mc_hier m), dd_net := []\<rparr>)) (\<lambda>(a, d').
            Inr (a, m\<lparr>mc_dirs := (mc_dirs m)(core \<mapsto> d'\<lparr>dd_net := []\<rparr>), mc_hier := (mc_hier m)\<lparr>h_clock := dd_clock d'\<rparr>,
                      mc_net := mc_net m @ dd_net d'\<rparr>)))"

definition onMem :: "core_id_t \<Rightarrow> (dram_interface \<Rightarrow> ('a \<times> dram_interface) result) \<Rightarrow> 'a mact" where
  "onMem core f =
     (\<lambda>m. case mc_mems m core of
        None \<Rightarrow> Inl (Undefined ''null dereference'')
      | Some i \<Rightarrow> bindE (f i) (\<lambda>(a, i'). Inr (a, m\<lparr>mc_mems := (mc_mems m)(core \<mapsto> i')\<rparr>)))"

definition mm_now :: "core_id_t \<Rightarrow> thread_t \<Rightarrow> time mact" where
  "mm_now core th = getA (\<lambda>m. h_clock (mc_hier m) core th)"

definition mm_setTime :: "core_id_t \<Rightarrow> thread_t \<Rightarrow> time \<Rightarrow> unit mact" where
  "mm_setTime core th t = modA (\<lambda>m. m\<lparr>mc_hier := (mc_hier m)\<lparr>h_clock := set_clock core th t (h_clock (mc_hier m))\<rparr>\<rparr>)"

definition mm_incrTime :: "core_id_t \<Rightarrow> time \<Rightarrow> thread_t \<Rightarrow> unit mact" where
  "mm_incrTime core t th =
     (\<lambda>m. bindE (clock_incrElapsedTime core t th (h_clock (mc_hier m))) (\<lambda>ck. Inr ((), m\<lparr>mc_hier := (mc_hier m)\<lparr>h_clock := ck\<rparr>\<rparr>)))"

definition mm_sendMsg ::
  "core_id_t \<Rightarrow> msg_t \<Rightarrow> mem_component \<Rightarrow> mem_component \<Rightarrow> core_id_t \<Rightarrow> core_id_t \<Rightarrow> IntPtr \<Rightarrow> buffer \<Rightarrow> UInt32 \<Rightarrow> where_t \<Rightarrow> thread_t \<Rightarrow> unit mact" where
  "mm_sendMsg core ty sender_component receiver_component requester receiver address data_buf data_length hit_where th =
     thenA (assertA ((data_buf = NULL) = (data_length = 0)) (Assert ''(data_buf == NULL) == (data_length == 0)''))
    (bindA (mm_now core th) (\<lambda>msg_time.
       modA (\<lambda>m. m\<lparr>mc_net := mc_net m @
         [\<lparr>pk_time = msg_time, pk_sender = mc_master m core, pk_receiver = receiver,
           pk_msg = \<lparr>msg_type = ty, msg_sender_component = sender_component, msg_receiver_component = receiver_component,
                     msg_requester = requester, msg_where = hit_where, msg_address = address,
                     msg_data_buf = data_buf, msg_data_length = data_length\<rparr>\<rparr>]\<rparr>)))"

section \<open>Memory requests of a directory\<close>

definition handleMsgFromTagDirectory :: "core_id_t \<Rightarrow> core_id_t \<Rightarrow> shmem_msg \<Rightarrow> unit mact" where
  "handleMsgFromTagDirectory core sender msg =
     bindA (mm_now core SIM_THREAD) (\<lambda>msg_time.
       case msg_type msg of
         DRAM_READ_REQ \<Rightarrow>
           bindA (onMem core (\<lambda>i. mapE (\<lambda>(l, w, buf, i'). ((l, w, buf), i')) (if_getDataFromDram (msg_address msg) (msg_requester msg) msg_time i)))
             (\<lambda>(dram_latency, hit_where, data_buf).
           thenA (mm_incrTime core dram_latency SIM_THREAD)
          (bindA (getA mc_block_size) (\<lambda>n.
             mm_sendMsg core DRAM_READ_REP DRAM TAG_DIR (msg_requester msg) sender (msg_address msg) data_buf n hit_where SIM_THREAD)))
       | DRAM_WRITE_REQ \<Rightarrow>
           onMem core (\<lambda>i. mapE (\<lambda>(_, _, i'). ((), i')) (if_putDataToDram (msg_address msg) (msg_requester msg) (msg_data_buf msg) msg_time i))
       | _ \<Rightarrow> failA (Print_Error ''Unrecognized Shmem Msg Type''))"

section \<open>Requests of the core\<close>

datatype mem_modeled =
    MEM_MODELED_NONE | MEM_MODELED_COUNT | MEM_MODELED_COUNT_TLBTIME | MEM_MODELED_TIME | MEM_MODELED_FENCED | MEM_MODELED_RETURN

definition tlb_levels :: "tlb \<Rightarrow> tlbs \<Rightarrow> tlb list" where
  "tlb_levels t ts = t # (case mt_stlb ts of None \<Rightarrow> [] | Some s \<Rightarrow> [s])"

definition put_tlb_levels :: "bool \<Rightarrow> tlb list \<Rightarrow> tlbs \<Rightarrow> tlbs" where
  "put_tlb_levels ifetch levels ts =
     (let ts1 = (case levels of [] \<Rightarrow> ts | t # _ \<Rightarrow> if ifetch then ts\<lparr>mt_itlb := Some t\<rparr> else ts\<lparr>mt_dtlb := Some t\<rparr>)
      in case levels of _ # s # _ \<Rightarrow> ts1\<lparr>mt_stlb := Some s\<rparr> | _ \<Rightarrow> ts1)"

definition accessTLB :: "core_id_t \<Rightarrow> tlb \<Rightarrow> IntPtr \<Rightarrow> bool \<Rightarrow> mem_modeled \<Rightarrow> unit mact" where
  "accessTLB core t address isIfetch modeled =
     bindA (getA (\<lambda>m. mc_tlbs m core)) (\<lambda>ts.
     bindA (liftA (tlb_lookup address True (tlb_levels t ts))) (\<lambda>(hit, levels).
     thenA (modA (\<lambda>m. m\<lparr>mc_tlbs := (mc_tlbs m)(core := put_tlb_levels isIfetch levels ts)\<rparr>))
    (bindA (getA mc_tlb_miss_penalty) (\<lambda>penalty.
     bindA (getA mc_tlb_miss_parallel) (\<lambda>parallel.
       whenA (\<not> hit \<and> \<not> (modeled = MEM_MODELED_NONE \<or> modeled = MEM_MODELED_COUNT) \<and> penalty \<noteq> 0)
         (if parallel then mm_incrTime core penalty USER_THREAD
          else modA (\<lambda>m. m\<lparr>mc_pseudo := (mc_pseudo m)(core := mc_pseudo m core @ [(penalty, isIfetch)])\<rparr>)))))))"

definition translate :: "core_id_t \<Rightarrow> mem_component \<Rightarrow> IntPtr \<Rightarrow> mem_modeled \<Rightarrow> unit mact" where
  "translate core component address modeled =
     bindA (getA (\<lambda>m. mc_tlbs m core)) (\<lambda>ts.
       case (component, mt_itlb ts, mt_dtlb ts) of
         (L1_ICACHE, Some t, _) \<Rightarrow> accessTLB core t address True modeled
       | (L1_DCACHE, _, Some t) \<Rightarrow> accessTLB core t address False modeled
       | _ \<Rightarrow> retA ())"

definition cntlrOf :: "core_id_t \<Rightarrow> mem_component \<Rightarrow> nat mact" where
  "cntlrOf core component =
     bindA (getA (\<lambda>m. mc_cntlrs m core component)) (\<lambda>i.
       case i of None \<Rightarrow> failA (Undefined ''null dereference'') | Some k \<Rightarrow> retA k)"

definition coreInitiateMemoryAccess ::
  "(nat \<Rightarrow> unit hact) \<Rightarrow> core_id_t \<Rightarrow> mem_component \<Rightarrow> lock_signal_t \<Rightarrow> mem_op_t \<Rightarrow> IntPtr \<Rightarrow> UInt32 \<Rightarrow> buffer \<Rightarrow> UInt32 \<Rightarrow> mem_modeled
    \<Rightarrow> (where_t \<times> buffer) mact" where
  "coreInitiateMemoryAccess net core component lock_signal mem_op_type address offset data_buf data_length modeled =
     bindA (getA mc_last_level) (\<lambda>llc.
     thenA (assertA (mem_component_num component \<le> mem_component_num llc) (Assert ''invalid mem_component''))
    (thenA (translate core component address modeled)
    (bindA (cntlrOf core component) (\<lambda>i.
       onHier (processMemOpFromCore net i lock_signal mem_op_type address offset data_buf data_length
         (\<not> (modeled = MEM_MODELED_NONE \<or> modeled = MEM_MODELED_COUNT)) (modeled \<noteq> MEM_MODELED_NONE))))))"

section \<open>Messages from the network\<close>

definition handleMsgFromNetwork :: "nat \<Rightarrow> (nat \<Rightarrow> unit hact) \<Rightarrow> core_id_t \<Rightarrow> packet \<Rightarrow> unit mact" where
  "handleMsgFromNetwork bound usr core p =
     (let msg = pk_msg p; sender = pk_sender p;
          sender_component = msg_sender_component msg;
          to_cache = (case sender_component of
              TAG_DIR \<Rightarrow> bindA (getA mc_last_level) (\<lambda>llc. bindA (cntlrOf core llc) (\<lambda>i. onHier (handleMsgFromDramDirectory bound usr i sender msg)))
            | _ \<Rightarrow> failA (Print_Error ''Unrecognized sender component''))
      in thenA (mm_setTime core SIM_THREAD (pk_time p))
        (thenA (case msg_receiver_component msg of
            L2_CACHE \<Rightarrow> to_cache
          | LAST_LEVEL_CACHE \<Rightarrow> to_cache
          | TAG_DIR \<Rightarrow>
              bindA (getA (\<lambda>m. mc_tag_directory_present m core)) (\<lambda>present.
              thenA (assertA present (Assert ''Tag directory NOT present''))
               (case sender_component of
                  LAST_LEVEL_CACHE \<Rightarrow> onDir core (handleMsgFromL2Cache sender msg)
                | DRAM \<Rightarrow> onDir core (handleMsgFromDRAM sender msg)
                | _ \<Rightarrow> failA (Print_Error ''Unrecognized sender component'')))
          | DRAM \<Rightarrow>
              bindA (getA (\<lambda>m. mc_mems m core \<noteq> None)) (\<lambda>present.
              thenA (assertA present (Assert ''Dram Cntlr NOT present''))
               (case sender_component of
                  TAG_DIR \<Rightarrow> handleMsgFromTagDirectory core sender msg
                | ONCHIP_UNDO_BUFFER \<Rightarrow>
                    onMem core (\<lambda>i. mapE (\<lambda>(_, _, i'). ((), i'))
                      (if_putDataToDram (msg_address msg) (msg_requester msg) (msg_data_buf msg) (pk_time p) i))
                | _ \<Rightarrow> failA (Print_Error ''Unrecognized sender component'')))
          | _ \<Rightarrow> failA (Print_Error ''Unrecognized receiver component''))
         (assertA (0 < msg_data_length msg \<longrightarrow> msg_data_buf msg \<noteq> NULL) (Assert ''shmem_msg->getDataBuf()''))))"

end
