(* ===== verification/Cntlr_Coherence.thy ===== *)
theory Cntlr_Coherence
  imports Cntlr_Invariant
begin

text \<open>
  What the operations that cross levels achieve: the links between the controllers never change,
  a line that is invalidated disappears from every cache on the side of the cores, and the
  recursion along the links ends.
\<close>

section \<open>The links are fixed\<close>

definition topology :: "hier \<Rightarrow> (nat \<times> nat option \<times> bool \<times> bool) list \<times> (nat list \<times> cache_base) list" where
  "topology s =
     (map (\<lambda>c. (cc_master c, cc_next c, cc_coherent c, cc_writethrough c)) (h_cntlrs s),
      map (\<lambda>m. (cm_prev m, c_base (cm_cache m))) (h_masters s))"

lemma map_update_same: "k < length xs \<Longrightarrow> f y = f (xs ! k) \<Longrightarrow> map f (xs[k := y]) = map f xs"
  by (simp add: map_update list_update_same_conv)

lemma topology_put_master:
  "k < length (h_masters s) \<Longrightarrow> cm_prev m = cm_prev (h_masters s ! k) \<Longrightarrow>
   c_base (cm_cache m) = c_base (cm_cache (h_masters s ! k)) \<Longrightarrow> topology (put_master k m s) = topology s"
  by (simp add: topology_def put_master_def map_update_same)

lemma topology_cost: "cost_step s s' \<Longrightarrow> topology s' = topology s"
proof (induction rule: cost_step.induct)
  case (stat i s c)
  then show ?case using cntlr_frame_fields [of "h_cntlrs s ! i" c]
    by (simp add: topology_def put_cntlr_def map_update_same)
qed (simp add: topology_def)

lemma topology_costs: "cost_step\<^sup>*\<^sup>* s s' \<Longrightarrow> topology s' = topology s"
  by (induction rule: rtranclp_induct) (simp_all add: topology_cost)

lemma topology_quiet: "quiet_step s s' \<Longrightarrow> topology s' = topology s"
proof (induction rule: quiet_step.induct)
  case (undo u s b x s')
  then show ?case by (auto simp: onUndo_def result_simps topology_def)
next
  case (master k s m)
  then show ?case by (intro topology_put_master) (auto simp: master_frame_def)
next
  case (cache k s c)
  then show ?case by (intro topology_put_master) (simp_all add: cache_step_base)
qed (simp_all add: topology_cost, simp_all add: topology_def)

lemma insert_base: "insertSingleLine a data ev want cn c = Inr (out, ea, c') \<Longrightarrow> c_base c' = c_base c"
  by (erule insertSingleLine_cases) simp_all

lemma topology_fill: "fill_step s s' \<Longrightarrow> topology s' = topology s"
proof (induction rule: fill_step.induct)
  case (fill k s c a p data ev cn out ea c1 s2 r cstate)
  let ?s1 = "put_master k ((h_masters s ! k)\<lparr>cm_cache := c1\<rparr>) s"
  have b: "c_base c1 = c_base c" using fill(5) by (rule insert_base)
  have "topology s2 = topology ?s1" using fill(6) by (rule topology_costs)
  also have "\<dots> = topology s" using fill(1,2) b by (intro topology_put_master) simp_all
  finally have t: "topology s2 = topology s" .
  have m: "h_masters s2 = h_masters ?s1" using cost_steps_frame [OF fill(6)] by simp
  with fill(1,2) b have "topology (put_master k ((h_masters s2 ! k)\<lparr>cm_cache := set_block r ((block_at c1 r)\<lparr>m_cstate := cstate\<rparr>) c1\<rparr>) s2) = topology s2"
    by (intro topology_put_master) (simp_all add: put_master_def)
  with t show ?case by simp
qed

interpretation topo: step_closed "\<lambda>s. topology s = T" for T
  by unfold_locales (simp_all add: topology_quiet topology_fill)

lemma topology_masters: "topology s = topology t \<Longrightarrow> length (h_masters s) = length (h_masters t)"
  by (auto simp: topology_def dest: map_eq_imp_length_eq)

lemma topology_cntlrs: "topology s = topology t \<Longrightarrow> length (h_cntlrs s) = length (h_cntlrs t)"
  by (auto simp: topology_def dest: map_eq_imp_length_eq)

lemma topology_cntlr:
  assumes "topology s = topology t" "i < length (h_cntlrs s)"
  shows "cc_master (h_cntlrs s ! i) = cc_master (h_cntlrs t ! i)" "cc_next (h_cntlrs s ! i) = cc_next (h_cntlrs t ! i)"
    "cc_coherent (h_cntlrs s ! i) = cc_coherent (h_cntlrs t ! i)"
    "cc_writethrough (h_cntlrs s ! i) = cc_writethrough (h_cntlrs t ! i)"
proof -
  let ?f = "\<lambda>c. (cc_master c, cc_next c, cc_coherent c, cc_writethrough c)"
  have "map ?f (h_cntlrs s) = map ?f (h_cntlrs t)" using assms(1) by (simp add: topology_def)
  then have "map ?f (h_cntlrs s) ! i = map ?f (h_cntlrs t) ! i" by simp
  with assms(2) topology_cntlrs [OF assms(1)] have "?f (h_cntlrs s ! i) = ?f (h_cntlrs t ! i)" by simp
  then show "cc_master (h_cntlrs s ! i) = cc_master (h_cntlrs t ! i)" "cc_next (h_cntlrs s ! i) = cc_next (h_cntlrs t ! i)"
    "cc_coherent (h_cntlrs s ! i) = cc_coherent (h_cntlrs t ! i)"
    "cc_writethrough (h_cntlrs s ! i) = cc_writethrough (h_cntlrs t ! i)" by simp_all
qed

lemma topology_master:
  assumes "topology s = topology t" "k < length (h_masters s)"
  shows "cm_prev (h_masters s ! k) = cm_prev (h_masters t ! k)" "c_base (cm_cache (h_masters s ! k)) = c_base (cm_cache (h_masters t ! k))"
proof -
  let ?f = "\<lambda>m. (cm_prev m, c_base (cm_cache m))"
  have "map ?f (h_masters s) = map ?f (h_masters t)" using assms(1) by (simp add: topology_def)
  then have "map ?f (h_masters s) ! k = map ?f (h_masters t) ! k" by simp
  with assms(2) topology_masters [OF assms(1)] have "?f (h_masters s ! k) = ?f (h_masters t ! k)" by simp
  then show "cm_prev (h_masters s ! k) = cm_prev (h_masters t ! k)" "c_base (cm_cache (h_masters s ! k)) = c_base (cm_cache (h_masters t ! k))"
    by simp_all
qed

section \<open>Invalidation reaches every cache below\<close>

definition holds :: "hier \<Rightarrow> nat \<Rightarrow> IntPtr \<Rightarrow> bool" where
  "holds s i a \<longleftrightarrow> (let c = cm_cache (master_at s i) in line_of c a \<in> cached c)"

definition linked :: "hier \<Rightarrow> nat \<Rightarrow> bool" where
  "linked s i \<longleftrightarrow> i < length (h_cntlrs s) \<and> cc_master (h_cntlrs s ! i) < length (h_masters s)"

text \<open>\<open>below s p i\<close>: controller \<open>p\<close> is \<open>i\<close> or is reached from it by links to previous levels.\<close>

inductive below :: "hier \<Rightarrow> nat \<Rightarrow> nat \<Rightarrow> bool" for s where
  here: "linked s i \<Longrightarrow> below s i i"
| prev: "linked s i \<Longrightarrow> j \<in> set (cm_prev (master_at s i)) \<Longrightarrow> below s p j \<Longrightarrow> below s p i"

definition shrunk :: "hier \<Rightarrow> hier \<Rightarrow> bool" where
  "shrunk s0 s \<longleftrightarrow> hier_inv s \<and> topology s = topology s0 \<and>
     (\<forall>k < length (h_masters s0). cached (cm_cache (h_masters s ! k)) \<subseteq> cached (cm_cache (h_masters s0 ! k)))"

lemma quiet_cached:
  assumes "quiet_step s s'" "hier_inv s" "k < length (h_masters s)"
  shows "cached (cm_cache (h_masters s' ! k)) \<subseteq> cached (cm_cache (h_masters s ! k))"
  using assms
proof (induction rule: quiet_step.induct)
  case (cost s s')
  then show ?case using cost_steps_frame [OF r_into_rtranclp, of s s'] by simp
next
  case (undo u s b x s')
  then show ?case by (auto simp: onUndo_def result_simps)
next
  case (cache j s c)
  then have "cached c \<subseteq> cached (cm_cache (h_masters s ! j))"
    using hier_inv_master [of s j] cache_step_ok(2) by (simp add: master_ok_def cache_ok_def)
  with cache show ?case by (cases "j = k") (simp_all add: put_master_def)
qed (simp_all add: put_master_def nth_list_update master_frame_def)

interpretation shrink: quiet_closed "shrunk s0" for s0
proof
  fix s s' assume s: "shrunk s0 s" and q: "quiet_step s s'"
  then have "hier_inv s'" "topology s' = topology s0" by (auto simp: shrunk_def topology_quiet intro: hier_inv_quiet)
  moreover have "cached (cm_cache (h_masters s' ! k)) \<subseteq> cached (cm_cache (h_masters s0 ! k))"
    if "k < length (h_masters s0)" for k
  proof -
    have "k < length (h_masters s)" using s that topology_masters [of s s0] by (simp add: shrunk_def)
    then have "cached (cm_cache (h_masters s' ! k)) \<subseteq> cached (cm_cache (h_masters s ! k))"
      using s by (intro quiet_cached [OF q]) (simp_all add: shrunk_def)
    with s that show ?thesis by (auto simp: shrunk_def)
  qed
  ultimately show "shrunk s0 s'" by (simp add: shrunk_def)
qed

lemma shrunk_refl: "hier_inv s \<Longrightarrow> shrunk s s"
  by (simp add: shrunk_def)

lemma shrunk_self: "shrunk s0 s \<Longrightarrow> shrunk s s"
  by (simp add: shrunk_def)

lemma topology_linked: "topology s = topology t \<Longrightarrow> linked s i = linked t i"
  using topology_cntlr(1) [of s t i] topology_cntlrs [of s t] topology_masters [of s t] by (auto simp: linked_def)

lemma topology_prev:
  "topology s = topology t \<Longrightarrow> linked s i \<Longrightarrow> cm_prev (master_at s i) = cm_prev (master_at t i)"
  using topology_cntlr(1) [of s t i] topology_master(1) [of s t] by (simp add: linked_def master_at_def)

lemma below_linked: "below s p i \<Longrightarrow> linked s p"
  by (induction rule: below.induct)

lemma topology_below: "below s p i \<Longrightarrow> topology s = topology t \<Longrightarrow> below t p i"
proof (induction rule: below.induct)
  case (prev i j p)
  then show ?case using topology_linked [of s t i] topology_prev [of s t i] by (auto intro: below.prev)
next
  case (here i)
  then show ?case using topology_linked [of s t i] by (simp add: below.here)
qed

lemma shrunk_holds: "shrunk s0 s \<Longrightarrow> linked s0 i \<Longrightarrow> holds s i a \<Longrightarrow> holds s0 i a"
proof -
  assume sh: "shrunk s0 s" and l: "linked s0 i" and h: "holds s i a"
  let ?k = "cc_master (h_cntlrs s0 ! i)"
  have k: "?k < length (h_masters s0)" "cc_master (h_cntlrs s ! i) = ?k" "c_base (cm_cache (h_masters s ! ?k)) = c_base (cm_cache (h_masters s0 ! ?k))"
    using l sh topology_cntlr(1) [of s0 s i] topology_master(2) [of s0 s ?k] by (simp_all add: linked_def shrunk_def)
  with sh h show ?thesis by (auto simp: holds_def master_at_def shrunk_def Let_def line_of_def)
qed

lemma invalid_not_held: "hier_inv s \<Longrightarrow> getCacheState i a s = Inr (INVALID, t) \<Longrightarrow> \<not> holds s i a"
proof -
  assume inv: "hier_inv s" and st: "getCacheState i a s = Inr (INVALID, t)"
  let ?c = "cm_cache (master_at s i)"
  from st inv have "line_state a ?c = Inr INVALID" "cache_ok ?c"
    by (auto simp: getCacheState_Inr master_at_def master_ok_def dest: hier_inv_master)
  then show ?thesis using not_resident [of ?c a]
    by (auto simp: holds_def Let_def line_state_def result_simps split: option.splits)
qed

lemma updateLocal_checks:
  assumes "updateLocal i a st reason buf sib s = Inr (x, s')"
  shows "\<exists>st'. getCacheState i a s' = Inr (st', s') \<and> (st' = INVALID \<or> st' = st \<or> \<not> cc_coherent (h_cntlrs s ! i)) \<and>
    i < length (h_cntlrs s)"
proof -
  from assms obtain st' t where "getCacheState i a t = Inr (st', t)" "i < length (h_cntlrs s)"
    "st' = INVALID \<or> st' = st \<or> \<not> cc_coherent (h_cntlrs s ! i)" "s' = t"
    unfolding updateLocal_def
    by (elim bindA_E thenA_E) (auto simp: getC_Inr getCacheState_Inr stateOf_Inr assertA_Inr retA_Inr bindA_Inr thenA_Inr)
  then show ?thesis by blast
qed

theorem updateCacheBlock_invalidates:
  assumes "updateCacheBlock_upto n i a INVALID reason buf s = Inr (x, s')" "hier_inv s" "below s p i"
    "cc_coherent (h_cntlrs s ! p)"
  shows "\<not> holds s' p a"
  using assms
proof (induction n arbitrary: i reason buf s x s')
  case (Suc n)
  let ?f = "\<lambda>p sib. bindA (updateCacheBlock_upto n p a INVALID (if reason = EVICT then BACK_INVAL else reason) NULL)
                (\<lambda>(latency, hit, _). retA (sib \<or> hit))"
  from Suc.prems(1) obtain sib t where i: "linked s i"
    and f: "foldA ?f (cm_prev (master_at s i)) False s = Inr (sib, t)"
    and l: "updateLocal i a INVALID reason buf sib t = Inr (x, s')"
    by (auto simp: thenA_Inr bindA_Inr getM_Inr assertA_Inr linked_def)
  have kf: "keeps (shrunk s0) (?f q c)" for q c s0
    by (intro keeps_rules shrink.keeps_updateCacheBlock_upto)
  have "keeps (shrunk s) (foldA ?f (cm_prev (master_at s i)) False)" by (rule keeps_foldA) (rule kf)
  from keepsD [OF this f shrunk_refl [OF Suc.prems(2)]] have t: "shrunk s t" .
  have s': "shrunk s0 t \<Longrightarrow> shrunk s0 s'" for s0 using keepsD [OF shrink.keeps_updateLocal l] by blast
  from Suc.prems(3) show ?case
  proof cases
    case here
    have "i < length (h_cntlrs s)" using i by (simp add: linked_def)
    then have "cc_coherent (h_cntlrs t ! i)" using here Suc.prems(4) t topology_cntlr(3) [of s t i] by (simp add: shrunk_def)
    with updateLocal_checks [OF l] have "getCacheState i a s' = Inr (INVALID, s')" by auto
    moreover have "hier_inv s'" using s' [OF t] by (simp add: shrunk_def)
    ultimately show ?thesis using invalid_not_held i here by blast
  next
    case (prev j)
    from foldA_visits [OF f prev(2) shrunk_refl [OF Suc.prems(2)] kf] obtain c u d u' ys where
      u: "shrunk s u" "?f j c u = Inr (d, u')" "foldA ?f ys d u' = Inr (sib, t)" by blast
    from u(2) obtain y where r: "updateCacheBlock_upto n j a INVALID (if reason = EVICT then BACK_INVAL else reason) NULL u = Inr (y, u')"
      by (auto simp: bindA_Inr retA_Inr split: prod.splits)
    have tu: "topology s = topology u" "hier_inv u" using u(1) by (simp_all add: shrunk_def)
    have "linked s p" using Suc.prems(3) by (rule below_linked)
    then have p: "below u p j" "cc_coherent (h_cntlrs u ! p)"
      using topology_below [OF prev(3) tu(1)] topology_cntlr(3) [OF tu(1), of p] Suc.prems(4) by (simp_all add: linked_def)
    have nh: "\<not> holds u' p a" by (rule Suc.IH [OF r tu(2) p])
    have "shrunk u u'" using keepsD [OF shrink.keeps_updateCacheBlock_upto r] shrunk_refl [OF tu(2)] .
    then have u': "hier_inv u'" "linked u' p"
      using below_linked [OF p(1)] topology_linked [of u u' p] by (simp_all add: shrunk_def)
    have "keeps (shrunk u') (foldA ?f ys d)" by (rule keeps_foldA) (rule kf)
    from keepsD [OF this u(3) shrunk_refl [OF u'(1)]] have "shrunk u' t" .
    with shrunk_holds [OF s' u'(2)] nh show ?thesis by blast
  qed
qed (simp add: failA_Inr)

section \<open>The recursion along the links ends\<close>

text \<open>
  The recursive methods of the controllers carry a bound in the model. When the levels are ordered,
  so that every link to a previous level goes down and every link to the next level goes up, every
  bound that is larger than the distance to the end gives the same result.
\<close>

definition levels :: "(nat \<Rightarrow> nat) \<Rightarrow> hier \<Rightarrow> bool" where
  "levels r s \<longleftrightarrow>
     (\<forall>i. linked s i \<longrightarrow> (\<forall>p \<in> set (cm_prev (master_at s i)). r p < r i)) \<and>
     (\<forall>i < length (h_cntlrs s). r i < length (h_cntlrs s) \<and> (\<forall>j. cc_next (h_cntlrs s ! i) = Some j \<longrightarrow> r i < r j))"

lemma topology_levels: "topology s = topology t \<Longrightarrow> levels r s \<Longrightarrow> levels r t"
  using topology_linked [of s t] topology_prev [of s t] topology_cntlr(2) [of s t] topology_cntlrs [of s t]
  unfolding levels_def by simp

lemma levels_prev: "levels r s \<Longrightarrow> getM i s = Inr (m, s') \<Longrightarrow> p \<in> set (cm_prev m) \<Longrightarrow> r p < r i"
  by (auto simp: levels_def getM_Inr linked_def)

lemma levels_next:
  "levels r s \<Longrightarrow> getC i s = Inr (c, s') \<Longrightarrow> cc_next c = Some j \<Longrightarrow> r i < r j"
  by (auto simp: levels_def getC_Inr)

interpretation levels: step_closed "levels r" for r
  by unfold_locales (metis topology_quiet topology_fill topology_levels)+

lemma updateCacheBlock_upto_agree:
  "r i < n \<Longrightarrow> r i < m \<Longrightarrow>
   agree (levels r) (updateCacheBlock_upto n i a st reason buf) (updateCacheBlock_upto m i a st reason buf)"
proof (induction n arbitrary: m i reason buf)
  case (Suc n)
  then obtain m' where m: "m = Suc m'" by (cases m) auto
  have "agree (levels r) (updateCacheBlock_upto n p a st rs b) (updateCacheBlock_upto m' p a st rs b)"
    if "r p < r i" for p rs b using that Suc m by simp
  then show ?case
    unfolding m updateCacheBlock_upto.simps
    by (intro agree_thenA agree_bindA agree_foldA keeps_rules levels.keeps_updateCacheBlock_upto agree_refl)
       (auto dest: levels_prev)
qed simp

text \<open>Upwards: \<open>h\<close> is the height of the hierarchy.\<close>

lemma writeCacheBlock_upto_agree:
  assumes "\<And>j. r j < h"
  shows "h - r i \<le> n \<Longrightarrow> h - r i \<le> m \<Longrightarrow>
   agree (levels r) (writeCacheBlock_upto n i a o' buf k) (writeCacheBlock_upto m i a o' buf k)"
proof (induction n arbitrary: m i)
  case (Suc n)
  then obtain m' where m: "m = Suc m'" using assms [of i] by (cases m) auto
  have "agree (levels r) (writeCacheBlock_upto n j a o' buf k) (writeCacheBlock_upto m' j a o' buf k)"
    if "r i < r j" for j using that Suc m assms [of i] by simp
  then show ?case
    unfolding m writeCacheBlock_upto.simps
    by (intro agree_thenA agree_bindA agree_whenA keeps_rules agree_refl)
       (auto simp: deref_Inr dest: levels_next)
next
  case 0
  then show ?case using assms [of i] by simp
qed

lemma processShmemReq_upto_agree:
  assumes "\<And>j. r j < h"
  shows "h - r i \<le> n \<Longrightarrow> h - r i \<le> m \<Longrightarrow>
   agree (levels r) (processShmemReq_upto n i rq op a modeled cnt pf t) (processShmemReq_upto m i rq op a modeled cnt pf t)"
proof (induction n arbitrary: m i rq pf)
  case (Suc n)
  then obtain m' where m: "m = Suc m'" using assms [of i] by (cases m) auto
  have next_level: "agree (levels r) (processShmemReq_upto n j i op a modeled cnt pf t) (processShmemReq_upto m' j i op a modeled cnt pf t)"
    if "r i < r j" for j pf using that Suc m assms [of i] by simp
  have kr: "keeps (levels r) (processShmemReq_upto n j rq op a modeled cnt pf t)" for j rq pf
    by (rule levels.keeps_processShmemReq_upto)
  show ?case
    unfolding m processShmemReq_upto.simps
    by (rule agree_refl agree_bindA agree_thenA agree_prod agree_if agree_case
         | (intro keeps_rules kr; fail) | (rule next_level, erule (2) levels_next))+
next
  case 0
  then show ?case using assms [of i] by simp
qed

end
