(* ===== verification/Epoch_System.thy ===== *)
theory Epoch_System
  imports Cntlr_Coherence
begin

text \<open>
  The undo buffers of all cores together. Every memory manager has a buffer of its own, all of them
  are called by the hooks at an epoch boundary and when the application ends, and they share the
  epoch manager and the log in memory.
\<close>

section \<open>The hooks\<close>

definition undoHook :: "(UInt64 \<Rightarrow> picl \<Rightarrow> picl result) \<Rightarrow> nat \<Rightarrow> UInt64 \<Rightarrow> UInt64 \<Rightarrow> hier \<Rightarrow> (SInt64 \<times> hier) result" where
  "undoHook f u = (\<lambda>this arg s. mapE (\<lambda>(_, s'). (0, s')) (onUndo u (f arg) s))"

text \<open>The controllers register when the cores are created, the epoch manager afterwards.\<close>

definition registerUndo :: "hier registry \<Rightarrow> nat \<Rightarrow> hier registry" where
  "registerUndo reg u =
     registerHook HOOK_APPLICATION_EXIT (undoHook persistLastEpochs u) (of_nat u) ORDER_NOTIFY_PRE
      (registerHook HOOK_PERIODIC_INS (undoHook asyncCacheScan u) (of_nat u) ORDER_NOTIFY_PRE reg)"

definition system_registry :: "nat \<Rightarrow> hier registry" where
  "system_registry n =
     registerHook HOOK_PERIODIC_INS (\<lambda>this arg s. Inr (0, s\<lparr>h_em := em_increment arg (h_em s)\<rparr>)) 0 ORDER_NOTIFY_PRE
      (foldl registerUndo (\<lambda>ty. []) [0..<n])"

definition system_boundary :: "UInt64 \<Rightarrow> hier \<Rightarrow> hier result" where
  "system_boundary icount s = mapE snd (callHooks (system_registry (length (h_undo s))) HOOK_PERIODIC_INS icount False s)"

definition system_exit :: "UInt64 \<Rightarrow> hier \<Rightarrow> hier result" where
  "system_exit app s = mapE snd (callHooks (system_registry (length (h_undo s))) HOOK_APPLICATION_EXIT app False s)"

abbreviation undo_hooks :: "(UInt64 \<Rightarrow> picl \<Rightarrow> picl result) \<Rightarrow> nat list \<Rightarrow> hier hook_callback list" where
  "undo_hooks f us \<equiv> map (\<lambda>u. \<lparr>hc_func = undoHook f u, hc_arg = of_nat u, hc_order = ORDER_NOTIFY_PRE\<rparr>) us"

lemma registered:
  "foldl registerUndo reg us HOOK_PERIODIC_INS = reg HOOK_PERIODIC_INS @ undo_hooks asyncCacheScan us"
  "foldl registerUndo reg us HOOK_APPLICATION_EXIT = reg HOOK_APPLICATION_EXIT @ undo_hooks persistLastEpochs us"
  by (induction us arbitrary: reg) (simp_all add: registerUndo_def registerHook_def)

lemma system_boundary_run:
  "system_boundary icount s =
     mapE (\<lambda>s'. s'\<lparr>h_em := em_increment icount (h_em s')\<rparr>) (run_all icount (undo_hooks asyncCacheScan [0..<length (h_undo s)]) s)"
proof -
  have reg: "system_registry n HOOK_PERIODIC_INS = undo_hooks asyncCacheScan [0..<n] @
      [\<lparr>hc_func = \<lambda>this arg s. Inr (0, s\<lparr>h_em := em_increment arg (h_em s)\<rparr>), hc_arg = 0, hc_order = ORDER_NOTIFY_PRE\<rparr>]" for n
    unfolding system_registry_def by (simp add: registerHook_def registered)
  show ?thesis
    unfolding system_boundary_def
    by (subst callHooks_pre_only, force simp: reg)
      (cases "run_all icount (undo_hooks asyncCacheScan [0..<length (h_undo s)]) s"; simp add: reg run_all_append)
qed

lemma system_exit_run: "system_exit app s = run_all app (undo_hooks persistLastEpochs [0..<length (h_undo s)]) s"
proof -
  have reg: "system_registry n HOOK_APPLICATION_EXIT = undo_hooks persistLastEpochs [0..<n]" for n
    unfolding system_registry_def by (simp add: registerHook_def registered)
  show ?thesis
    unfolding system_exit_def
    by (subst callHooks_pre_only, force simp: reg)
      (cases "run_all app (undo_hooks persistLastEpochs [0..<length (h_undo s)]) s"; simp add: reg)
qed

section \<open>The invariant of all buffers\<close>

lemma hier_inv_put_undo:
  assumes "hier_inv s" "picl_inv p" "m_system_eid (pc_em p) = m_system_eid (h_em s)"
  shows "hier_inv (s\<lparr>h_undo := (h_undo s)[u := pc_cntlr p], h_em := pc_em p, h_nvm := pc_nvm p\<rparr>)" (is "hier_inv ?s")
proof -
  have "undo_view ?s (pc_cntlr p) = p" by (simp add: undo_view_def)
  then have "picl_inv (undo_view ?s (pc_cntlr p))" using assms(2) by simp
  moreover have "picl_inv (undo_view ?s w)" if "w \<in> set (h_undo s)" for w
    using assms(1,3) that by (simp add: hier_inv_def picl_inv_def undo_view_def volatile_def)
  ultimately show ?thesis
    using assms(1) set_update_subset_insert [of "h_undo s" u "pc_cntlr p"] by (auto simp: hier_inv_def)
qed

lemma hook_inv:
  assumes "\<And>p p'. picl_inv p \<Longrightarrow> f arg p = Inr p' \<Longrightarrow> picl_inv p' \<and> same_setup p p'"
    and "run_all arg (undo_hooks f us) s = Inr s'" "hier_inv s"
  shows "hier_inv s' \<and> topology s' = topology s \<and> m_system_eid (h_em s') = m_system_eid (h_em s)"
  using assms(2,3)
proof (induction us arbitrary: s)
  case (Cons u us)
  from Cons.prems(1) obtain p where u: "u < length (h_undo s)" and p: "f arg (undo_view s (h_undo s ! u)) = Inr p"
    and rest: "run_all arg (undo_hooks f us) (s\<lparr>h_undo := (h_undo s)[u := pc_cntlr p], h_em := pc_em p, h_nvm := pc_nvm p\<rparr>) = Inr s'"
    by (auto simp: undoHook_def onUndo_def result_simps undo_view_def)
  have "picl_inv (undo_view s (h_undo s ! u))" using Cons.prems(2) u by (simp add: hier_inv_def)
  from assms(1) [OF this p] have "picl_inv p" "m_system_eid (pc_em p) = m_system_eid (h_em s)"
    by (simp_all add: same_setup_def undo_view_def)
  with Cons.IH [OF rest] hier_inv_put_undo [OF Cons.prems(2), of p u] show ?case by (simp add: topology_def)
qed simp

lemma hier_inv_next_epoch:
  assumes "hier_inv s" "m_system_eid (h_em s) \<noteq> - 1"
  shows "hier_inv (s\<lparr>h_em := em_increment icount (h_em s)\<rparr>)"
  using assms word_Suc_le [of _ "m_system_eid (h_em s)"]
  by (auto simp: hier_inv_def picl_inv_def undo_view_def em_increment_def volatile_def)

section \<open>A hook that flushes every buffer up to one epoch\<close>

abbreviation buffered :: "hier \<Rightarrow> nat \<Rightarrow> undo_entry list" where
  "buffered s u \<equiv> ub_entries (uc_buffer (h_undo s ! u))"

abbreviation logged :: "hier \<Rightarrow> undo_entry list" where
  "logged s \<equiv> map lm_entry (h_nvm s)"

text \<open>
  What the hook of one controller promises in epoch \<open>sys\<close> with the gap \<open>g\<close>: it moves the oldest
  entries of the buffer to the log and reports the epoch \<open>report sys g\<close>, after which every entry that
  is left ends.
\<close>

locale undo_flush =
  fixes f :: "UInt64 \<Rightarrow> picl \<Rightarrow> picl result" and ready :: "UInt64 \<Rightarrow> UInt32 \<Rightarrow> bool" and report :: "UInt64 \<Rightarrow> UInt32 \<Rightarrow> UInt64"
  assumes flushes: "picl_inv p \<Longrightarrow> m_system_eid (pc_em p) = sys \<Longrightarrow> uc_acs_gap (pc_cntlr p) = gap \<Longrightarrow> ready sys gap \<Longrightarrow>
    \<exists>p' old. f arg p = Inr p' \<and> picl_inv p' \<and> same_setup p p' \<and> durable p' = durable p @ old \<and>
      volatile p = old @ volatile p' \<and> m_persisted_eid (pc_em p') = report sys gap \<and> (\<forall>e \<in> set (volatile p'). report sys gap < ue_till e)"
begin

lemma one_flushed:
  assumes "hier_inv s" "m_system_eid (h_em s) = sys" "u < length (h_undo s)" "uc_acs_gap (h_undo s ! u) = gap" "ready sys gap"
  defines "pe \<equiv> report sys gap"
  obtains s' old where "undoHook f u ptr arg s = Inr (0, s')" "hier_inv s'" "m_system_eid (h_em s') = sys"
    "m_persisted_eid (h_em s') = pe" "length (h_undo s') = length (h_undo s)" "\<forall>v. v \<noteq> u \<longrightarrow> h_undo s' ! v = h_undo s ! v"
    "buffered s u = old @ buffered s' u" "\<forall>e \<in> set (buffered s' u). pe < ue_till e" "logged s' = logged s @ old"
    "\<forall>v. uc_acs_gap (h_undo s' ! v) = uc_acs_gap (h_undo s ! v)"
proof -
  let ?p = "undo_view s (h_undo s ! u)"
  have inv: "picl_inv ?p" using assms(1,3) by (simp add: hier_inv_def)
  have "m_system_eid (pc_em ?p) = sys" "uc_acs_gap (pc_cntlr ?p) = gap" using assms(2,4) by (simp_all add: undo_view_def)
  from flushes [OF inv this assms(5), of arg, folded pe_def] obtain p' old where p': "f arg ?p = Inr p'" "picl_inv p'" "same_setup ?p p'"
    "durable p' = durable ?p @ old" "volatile ?p = old @ volatile p'" "m_persisted_eid (pc_em p') = pe"
    "\<forall>e \<in> set (volatile p'). pe < ue_till e" by blast
  define s' where "s' = s\<lparr>h_undo := (h_undo s)[u := pc_cntlr p'], h_em := pc_em p', h_nvm := pc_nvm p'\<rparr>"
  have sys: "m_system_eid (pc_em p') = sys" and gap: "uc_acs_gap (pc_cntlr p') = gap"
    using p'(3) assms(2,4) by (simp_all add: same_setup_def undo_view_def)
  have "hier_inv s'"
    using hier_inv_put_undo [OF assms(1) p'(2), of u] sys assms(2) by (simp add: s'_def)
  moreover have "undoHook f u ptr arg s = Inr (0, s')"
    using assms(3) p'(1) by (simp add: undoHook_def onUndo_def undo_view_def s'_def at_Inr)
  moreover have "uc_acs_gap (h_undo s' ! v) = uc_acs_gap (h_undo s ! v)" for v
    using assms(3,4) gap by (cases "v = u") (simp_all add: s'_def)
  ultimately show ?thesis
    using p'(4-7) sys assms(3) by (intro that [of s' old]) (simp_all add: s'_def durable_def volatile_def undo_view_def)
qed

lemma all_flushed:
  assumes "hier_inv s" "m_system_eid (h_em s) = sys" "\<forall>u \<in> set us. u < length (h_undo s) \<and> uc_acs_gap (h_undo s ! u) = gap" "distinct us" "ready sys gap"
  defines "pe \<equiv> report sys gap"
  shows "\<exists>s' old. run_all arg (undo_hooks f us) s = Inr s' \<and> hier_inv s' \<and> m_system_eid (h_em s') = sys \<and>
    (us \<noteq> [] \<longrightarrow> m_persisted_eid (h_em s') = pe) \<and> length (h_undo s') = length (h_undo s) \<and>
    (\<forall>v. v \<notin> set us \<longrightarrow> h_undo s' ! v = h_undo s ! v) \<and>
    (\<forall>u \<in> set us. buffered s u = old u @ buffered s' u \<and> (\<forall>e \<in> set (buffered s' u). pe < ue_till e)) \<and>
    logged s' = logged s @ concat (map old us)"
  using assms(1-4)
proof (induction us arbitrary: s)
  case Nil
  then show ?case by simp
next
  case (Cons u us)
  from Cons.prems(3) have u: "u < length (h_undo s)" "uc_acs_gap (h_undo s ! u) = gap" by simp_all
  obtain s1 o1 where s1: "undoHook f u (of_nat u) arg s = Inr (0, s1)" "hier_inv s1" "m_system_eid (h_em s1) = sys"
    "m_persisted_eid (h_em s1) = pe" "length (h_undo s1) = length (h_undo s)" "\<forall>v. v \<noteq> u \<longrightarrow> h_undo s1 ! v = h_undo s ! v"
    "buffered s u = o1 @ buffered s1 u" "\<forall>e \<in> set (buffered s1 u). pe < ue_till e" "logged s1 = logged s @ o1"
    "\<forall>v. uc_acs_gap (h_undo s1 ! v) = uc_acs_gap (h_undo s ! v)"
    by (rule one_flushed [OF Cons.prems(1,2) u assms(5), folded pe_def, where ptr = "of_nat u" and arg = arg])
  have fresh: "u \<notin> set us" using Cons.prems(4) by simp
  have "\<forall>u \<in> set us. u < length (h_undo s1) \<and> uc_acs_gap (h_undo s1 ! u) = gap" using Cons.prems(3) s1(5,10) by simp
  from Cons.IH [OF s1(2,3) this] Cons.prems(4) obtain s' old where
    s': "run_all arg (undo_hooks f us) s1 = Inr s'" "hier_inv s'" "m_system_eid (h_em s') = sys" "us \<noteq> [] \<longrightarrow> m_persisted_eid (h_em s') = pe"
      "length (h_undo s') = length (h_undo s1)" "\<forall>v. v \<notin> set us \<longrightarrow> h_undo s' ! v = h_undo s1 ! v"
      "\<forall>u \<in> set us. buffered s1 u = old u @ buffered s' u \<and> (\<forall>e \<in> set (buffered s' u). pe < ue_till e)"
      "logged s' = logged s1 @ concat (map old us)" by auto
  have pe: "m_persisted_eid (h_em s') = pe" using s'(1,4) s1(4) by (cases us) auto
  have same: "buffered s1 v = buffered s v" if "v \<in> set us" for v using s1(6) that fresh by metis
  have own: "h_undo s' ! u = h_undo s1 ! u" using s'(6) fresh by blast
  show ?case
  proof (intro exI [of _ s'] exI [of _ "old(u := o1)"] conjI)
    show "run_all arg (undo_hooks f (u # us)) s = Inr s'" using s1(1) s'(1) by simp
    show "\<forall>v \<in> set (u # us). buffered s v = (old(u := o1)) v @ buffered s' v \<and> (\<forall>e \<in> set (buffered s' v). pe < ue_till e)"
      using s1(7,8) s'(7) same own fresh by auto
    have "concat (map (old(u := o1)) us) = concat (map old us)" by (rule arg_cong [OF map_fun_upd [OF fresh]])
    then show "logged s' = logged s @ concat (map (old(u := o1)) (u # us))" using s1(9) s'(8) by simp
  qed (use s' s1 pe in auto)
qed

end

section \<open>Epoch boundary and application exit\<close>

interpretation scan: undo_flush asyncCacheScan "\<lambda>sys gap. ucast gap \<le> sys" "\<lambda>sys gap. sys - ucast gap"
proof
  fix p arg sys and gap :: UInt32 assume p: "picl_inv p" "m_system_eid (pc_em p) = sys" "uc_acs_gap (pc_cntlr p) = gap" "ucast gap \<le> sys"
  from asyncCacheScan_ok [OF p(1), of arg] show "\<exists>p' old. asyncCacheScan arg p = Inr p' \<and> picl_inv p' \<and> same_setup p p' \<and>
      durable p' = durable p @ old \<and> volatile p = old @ volatile p' \<and> m_persisted_eid (pc_em p') = sys - ucast gap \<and>
      (\<forall>e \<in> set (volatile p'). sys - ucast gap < ue_till e)"
    using p(2-4) by (auto split: if_splits)
qed

interpretation final: undo_flush persistLastEpochs "\<lambda>sys gap. sys \<noteq> 0" "\<lambda>sys gap. sys"
proof
  fix p arg sys and gap :: UInt32 assume p: "picl_inv p" "m_system_eid (pc_em p) = sys" "uc_acs_gap (pc_cntlr p) = gap" "sys \<noteq> 0"
  from flush_eid_ok [OF p(1), of sys] obtain q old where q: "flush_eid sys p = Inr q" "picl_inv q" "same_setup p q" "durable q = durable p @ old"
    "volatile p = old @ volatile q" "m_persisted_eid (pc_em q) = sys" "volatile q = []"
    using p(2) by auto
  let ?c = "pc_cntlr q"
  let ?p = "q\<lparr>pc_cntlr := ?c\<lparr>uc_stats := (uc_stats ?c)\<lparr>st_avg_log_writes_by_epoch := st_log_writes (uc_stats ?c) div sys\<rparr>\<rparr>\<rparr>"
  have "persistLastEpochs arg p = Inr ?p" using q(1) p(2,4) by (simp add: persistLastEpochs_def Let_def check_def)
  moreover have "picl_inv ?p" "same_setup p ?p" "durable ?p = durable q" "volatile ?p = volatile q"
    using q(2,3) by (simp_all add: picl_inv_def volatile_def durable_def same_setup_def)
  ultimately show "\<exists>p' old. persistLastEpochs arg p = Inr p' \<and> picl_inv p' \<and> same_setup p p' \<and>
      durable p' = durable p @ old \<and> volatile p = old @ volatile p' \<and> m_persisted_eid (pc_em p') = sys \<and>
      (\<forall>e \<in> set (volatile p'). sys < ue_till e)"
    using q(4-7) by (intro exI [of _ ?p] exI [of _ old]) simp
qed

text \<open>The epoch boundary of the whole machine, with one gap in the configuration.\<close>

lemma system_boundary_ok:
  assumes "hier_inv s" "h_undo s \<noteq> []" "\<forall>c \<in> set (h_undo s). uc_acs_gap c = gap"
    and "ucast gap \<le> m_system_eid (h_em s)" "m_system_eid (h_em s) \<noteq> - 1"
  shows "\<exists>s' old. system_boundary icount s = Inr s' \<and> hier_inv s' \<and> m_system_eid (h_em s') = m_system_eid (h_em s) + 1 \<and>
    m_persisted_eid (h_em s') = m_system_eid (h_em s) - ucast gap \<and> length (h_undo s') = length (h_undo s) \<and>
    (\<forall>u < length (h_undo s). buffered s u = old u @ buffered s' u \<and> (\<forall>e \<in> set (buffered s' u). m_persisted_eid (h_em s') < ue_till e)) \<and>
    logged s' = logged s @ concat (map old [0..<length (h_undo s)])"
proof -
  let ?us = "[0..<length (h_undo s)]" and ?sys = "m_system_eid (h_em s)"
  have "\<forall>u \<in> set ?us. u < length (h_undo s) \<and> uc_acs_gap (h_undo s ! u) = gap" using assms(3) by simp
  from scan.all_flushed [OF assms(1) refl this _ assms(4), of icount] obtain t old where
    t: "run_all icount (undo_hooks asyncCacheScan ?us) s = Inr t" "hier_inv t" "m_system_eid (h_em t) = ?sys"
      "m_persisted_eid (h_em t) = ?sys - ucast gap" "length (h_undo t) = length (h_undo s)"
      "\<forall>u \<in> set ?us. buffered s u = old u @ buffered t u \<and> (\<forall>e \<in> set (buffered t u). ?sys - ucast gap < ue_till e)"
      "logged t = logged s @ concat (map old ?us)"
    using assms(2) by auto
  let ?s' = "t\<lparr>h_em := em_increment icount (h_em t)\<rparr>"
  have "hier_inv ?s'" by (rule hier_inv_next_epoch [OF t(2)]) (simp add: t(3) assms(5))
  with t show ?thesis
    by (intro exI [of _ ?s'] exI [of _ old]) (simp add: system_boundary_run em_increment_def)
qed

lemma system_exit_ok:
  assumes "hier_inv s" "h_undo s \<noteq> []" "\<forall>c \<in> set (h_undo s). uc_acs_gap c = gap" "m_system_eid (h_em s) \<noteq> 0"
  shows "\<exists>s'. system_exit app s = Inr s' \<and> hier_inv s' \<and> m_persisted_eid (h_em s') = m_system_eid (h_em s) \<and>
    (\<forall>u < length (h_undo s). buffered s' u = []) \<and> logged s' = logged s @ concat (map (buffered s) [0..<length (h_undo s)])"
proof -
  let ?us = "[0..<length (h_undo s)]" and ?sys = "m_system_eid (h_em s)"
  have "\<forall>u \<in> set ?us. u < length (h_undo s) \<and> uc_acs_gap (h_undo s ! u) = gap" using assms(3) by simp
  from final.all_flushed [OF assms(1) refl this _ assms(4), of app] obtain t old where
    t: "run_all app (undo_hooks persistLastEpochs ?us) s = Inr t" "hier_inv t" "m_system_eid (h_em t) = ?sys"
      "m_persisted_eid (h_em t) = ?sys" "length (h_undo t) = length (h_undo s)"
      "\<forall>u \<in> set ?us. buffered s u = old u @ buffered t u \<and> (\<forall>e \<in> set (buffered t u). ?sys < ue_till e)"
      "logged t = logged s @ concat (map old ?us)"
    using assms(2) by auto
  have empty: "buffered t u = []" if "u < length (h_undo s)" for u
  proof -
    have "picl_inv (undo_view t (h_undo t ! u))" using t(2,5) that by (simp add: hier_inv_def)
    then have "\<forall>e \<in> set (buffered t u). ue_till e \<le> ?sys" using t(3) by (simp add: picl_inv_def undo_view_def volatile_def)
    moreover have "\<forall>e \<in> set (buffered t u). ?sys < ue_till e" using t(6) that by simp
    ultimately show ?thesis by (metis list.set_intros(1) linorder_not_less neq_Nil_conv)
  qed
  have "map old ?us = map (buffered s) ?us" using t(6) empty by simp
  then have "logged t = logged s @ concat (map (buffered s) ?us)" using t(7) by metis
  with t(1,2,4) empty show ?thesis by (simp add: system_exit_run)
qed

text \<open>Whatever the gaps of the controllers are, the invariant holds after the hooks.\<close>

lemma system_boundary_inv:
  assumes "hier_inv s" "m_system_eid (h_em s) \<noteq> - 1" "system_boundary icount s = Inr s'"
  shows "hier_inv s' \<and> topology s' = topology s"
proof -
  from assms(3) obtain t where t: "run_all icount (undo_hooks asyncCacheScan [0..<length (h_undo s)]) s = Inr t"
    and s': "s' = t\<lparr>h_em := em_increment icount (h_em t)\<rparr>"
    by (auto simp: system_boundary_run result_simps)
  have "picl_inv p' \<and> same_setup p p'" if "picl_inv p" "asyncCacheScan icount p = Inr p'" for p p'
    using asyncCacheScan_ok [OF that(1), of icount] that(2) by auto
  from hook_inv [OF this t assms(1)] have "hier_inv t" "topology t = topology s" "m_system_eid (h_em t) = m_system_eid (h_em s)" by auto
  then show ?thesis using hier_inv_next_epoch [of t icount] assms(2) by (simp add: s' topology_def)
qed

lemma system_exit_inv:
  assumes "hier_inv s" "system_exit app s = Inr s'"
  shows "hier_inv s' \<and> topology s' = topology s"
proof -
  have "picl_inv p' \<and> same_setup p p'" if "picl_inv p" "persistLastEpochs app p = Inr p'" for p p'
  proof -
    have "m_system_eid (pc_em p) \<noteq> 0" using that(2) by (auto simp: persistLastEpochs_def Let_def result_simps)
    from final.flushes [OF that(1) refl refl this, of app] that(2) show ?thesis by auto
  qed
  from hook_inv [OF this assms(2) [unfolded system_exit_run] assms(1)] show ?thesis by simp
qed

section \<open>One buffer speaks for all\<close>

text \<open>
  When a buffer overflows, its controller reports an epoch for the whole machine. The other buffers
  are not flushed: after an insertion the report is right exactly if it is older than the running
  epoch and than the ends of all entries of the other buffers.
\<close>

definition system_persisted_ok :: "hier \<Rightarrow> bool" where
  "system_persisted_ok s \<longleftrightarrow> (\<forall>u < length (h_undo s). \<forall>e \<in> set (buffered s u). m_persisted_eid (h_em s) < ue_till e)"

lemma insertion_speaks_for_all:
  assumes "hier_inv s" "u < length (h_undo s)" "system_persisted_ok s"
    and "onUndo u (insertUndoEntry (m_system_eid (h_em s)) b) s = Inr ((), s')"
  shows "system_persisted_ok s' \<longleftrightarrow> m_persisted_eid (h_em s') < m_system_eid (h_em s) \<and>
    (\<forall>v < length (h_undo s). v \<noteq> u \<longrightarrow> (\<forall>e \<in> set (buffered s v). m_persisted_eid (h_em s') < ue_till e))"
proof -
  let ?p = "undo_view s (h_undo s ! u)"
  from assms(4) obtain p where p: "insertUndoEntry (m_system_eid (pc_em ?p)) b ?p = Inr p"
    and s': "s' = s\<lparr>h_undo := (h_undo s)[u := pc_cntlr p], h_em := pc_em p, h_nvm := pc_nvm p\<rparr>"
    using assms(2) by (auto simp: onUndo_def result_simps undo_view_def)
  have inv: "picl_inv ?p" using assms(1,2) by (simp add: hier_inv_def)
  have "persisted_ok ?p" using assms(2,3) by (simp add: persisted_ok_def system_persisted_ok_def undo_view_def volatile_def)
  note own = insertUndoEntry_persisted [OF inv this p]
  have "m_system_eid (pc_em p) = m_system_eid (h_em s)" using insertUndoEntry_ok [OF inv, of b] p by (auto simp: undo_view_def)
  then have "persisted_ok p \<longleftrightarrow> m_persisted_eid (pc_em p) < m_system_eid (h_em s)" using own by simp
  moreover have "system_persisted_ok s' \<longleftrightarrow> persisted_ok p \<and>
      (\<forall>v < length (h_undo s). v \<noteq> u \<longrightarrow> (\<forall>e \<in> set (buffered s v). m_persisted_eid (pc_em p) < ue_till e))"
    using assms(2) by (auto simp: system_persisted_ok_def persisted_ok_def volatile_def s' nth_list_update split: if_splits)
  ultimately show ?thesis by (simp add: s')
qed

end
