(* ===== verification/Machine.thy ===== *)
theory Machine
  imports Memory_Manager Epoch_System Cntlr_Coherence
begin

text \<open>
  The memory managers of all cores at work: what every message and every request of a core keeps,
  the states the machine reaches, and a write miss from the request to the data.
\<close>

section \<open>What the machine keeps\<close>

text \<open>
  A property of the machine that rests on one property of the cache hierarchy and one of the
  directories, each kept by the handlers of its own component.
\<close>

locale machine_closed =
  fixes P :: "machine \<Rightarrow> bool" and H :: "hier \<Rightarrow> bool" and D :: "dircntlr \<Rightarrow> bool"
  assumes hier_part: "P m \<Longrightarrow> H (mc_hier m)"
    and dir_part: "P m \<Longrightarrow> mc_dirs m c = Some d \<Longrightarrow> D d"
    and put_hier: "P m \<Longrightarrow> H h \<Longrightarrow> P (m\<lparr>mc_hier := h\<rparr>)"
    and put_dir: "P m \<Longrightarrow> mc_dirs m c = Some d \<Longrightarrow> D d' \<Longrightarrow> P (m\<lparr>mc_dirs := (mc_dirs m)(c \<mapsto> d')\<rparr>)"
    and put_mems: "P m \<Longrightarrow> P (m\<lparr>mc_mems := ms\<rparr>)" and put_tlbs: "P m \<Longrightarrow> P (m\<lparr>mc_tlbs := ts\<rparr>)"
    and put_pseudo: "P m \<Longrightarrow> P (m\<lparr>mc_pseudo := q\<rparr>)" and put_net: "P m \<Longrightarrow> P (m\<lparr>mc_net := ps\<rparr>)"
    and clock_net: "H (h\<lparr>h_clock := ck\<rparr>) = H h" "H (h\<lparr>h_net := ps\<rparr>) = H h" "D (d\<lparr>dd_clock := ck\<rparr>) = D d" "D (d\<lparr>dd_net := ps\<rparr>) = D d"
    and core_kept: "(\<And>j. keeps H (net j)) \<Longrightarrow> keeps H (processMemOpFromCore net i lk op a off buf n modeled cnt)"
    and message_kept: "(\<And>j. keeps H (usr j)) \<Longrightarrow> keeps H (handleMsgFromDramDirectory bound usr i sender msg)"
    and cache_request_kept: "msg_address msg \<noteq> NO_ADDRESS \<Longrightarrow> keeps D (handleMsgFromL2Cache sender msg)"
    and dram_reply_kept: "msg_address msg \<noteq> NO_ADDRESS \<Longrightarrow> keeps D (handleMsgFromDRAM sender msg)"
begin

lemma keeps_onHier: "keeps H f \<Longrightarrow> keeps P (onHier f)"
proof (rule keepsI)
  fix m a m' assume f: "keeps H f" and P: "P m" and run: "onHier f m = Inr (a, m')"
  from run obtain h where h: "f ((mc_hier m)\<lparr>h_net := []\<rparr>) = Inr (a, h)" and m': "m' = m\<lparr>mc_hier := h\<lparr>h_net := []\<rparr>, mc_net := mc_net m @ h_net h\<rparr>"
    by (auto simp: onHier_def result_simps)
  have "H h" using keepsD [OF f h] hier_part [OF P] by (simp add: clock_net)
  then have "P (m\<lparr>mc_hier := h\<lparr>h_net := []\<rparr>\<rparr>)" using put_hier [OF P] by (simp add: clock_net)
  from put_net [OF this, of "mc_net m @ h_net h"] show "P m'" by (simp add: m')
qed

lemma keeps_onDir: "keeps D f \<Longrightarrow> keeps P (onDir core f)"
proof (rule keepsI)
  fix m a m' assume f: "keeps D f" and P: "P m" and run: "onDir core f m = Inr (a, m')"
  from run obtain d d' where d: "mc_dirs m core = Some d" "f (d\<lparr>dd_clock := h_clock (mc_hier m), dd_net := []\<rparr>) = Inr (a, d')"
    and m': "m' = m\<lparr>mc_dirs := (mc_dirs m)(core \<mapsto> d'\<lparr>dd_net := []\<rparr>), mc_hier := (mc_hier m)\<lparr>h_clock := dd_clock d'\<rparr>, mc_net := mc_net m @ dd_net d'\<rparr>"
    by (auto simp: onDir_def result_simps split: option.splits)
  have "D d'" using keepsD [OF f d(2)] dir_part [OF P d(1)] by (simp add: clock_net)
  then have 1: "P (m\<lparr>mc_dirs := (mc_dirs m)(core \<mapsto> d'\<lparr>dd_net := []\<rparr>)\<rparr>)" using put_dir [OF P d(1)] by (simp add: clock_net)
  have "H ((mc_hier m)\<lparr>h_clock := dd_clock d'\<rparr>)" using hier_part [OF P] by (simp add: clock_net)
  from put_net [OF put_hier [OF 1 this], of "mc_net m @ dd_net d'"] show "P m'" by (simp add: m')
qed

lemma keeps_onMem: "keeps P (onMem core f)"
  by (rule keepsI) (auto simp: onMem_def result_simps put_mems split: option.splits)

lemma keeps_modA: "(\<And>m. P m \<Longrightarrow> P (f m)) \<Longrightarrow> keeps P (modA f)"
  by (rule keepsI) (simp add: modA_Inr)

lemma keeps_clock: "keeps P (mm_setTime core th t)" "keeps P (mm_incrTime core t th)" "keeps P (mm_now core th)"
proof -
  have clock: "P (m\<lparr>mc_hier := (mc_hier m)\<lparr>h_clock := ck\<rparr>\<rparr>)" if "P m" for m ck
    using put_hier [OF that] hier_part [OF that] by (simp add: clock_net)
  show "keeps P (mm_setTime core th t)" unfolding mm_setTime_def by (rule keeps_modA) (rule clock)
  show "keeps P (mm_incrTime core t th)" by (rule keepsI) (auto simp: mm_incrTime_def result_simps clock)
  show "keeps P (mm_now core th)" unfolding mm_now_def by (rule keeps_getA)
qed

lemma keeps_sendMsg: "keeps P (mm_sendMsg core ty sc rc rq rcv a buf n w th)"
  unfolding mm_sendMsg_def by (intro keeps_rules keeps_clock keeps_modA put_net)

lemma keeps_handleMsgFromTagDirectory: "keeps P (handleMsgFromTagDirectory core sender msg)"
  unfolding handleMsgFromTagDirectory_def
  by (cases "msg_type msg") (auto intro!: keeps_rules keeps_clock keeps_onMem keeps_sendMsg)

lemma keeps_accessTLB: "keeps P (accessTLB core t a ifetch modeled)"
  unfolding accessTLB_def by (intro keeps_rules keeps_modA keeps_clock put_tlbs put_pseudo)

lemma keeps_translate: "keeps P (translate core component a modeled)"
proof -
  have "keeps P (case (component, mt_itlb ts, mt_dtlb ts) of
         (L1_ICACHE, Some t, _) \<Rightarrow> accessTLB core t a True modeled
       | (L1_DCACHE, _, Some t) \<Rightarrow> accessTLB core t a False modeled
       | _ \<Rightarrow> retA ())" for ts
    by (cases component; cases "mt_itlb ts"; cases "mt_dtlb ts") (simp_all add: keeps_accessTLB keeps_retA)
  then show ?thesis unfolding translate_def by (intro keeps_bindA keeps_getA)
qed

lemma keeps_cntlrOf: "keeps P (cntlrOf core component)"
  unfolding cntlrOf_def by (intro keeps_rules)

theorem keeps_coreInitiateMemoryAccess:
  "(\<And>j. keeps H (net j)) \<Longrightarrow> keeps P (coreInitiateMemoryAccess net core component lk op a off buf n modeled)"
  unfolding coreInitiateMemoryAccess_def by (intro keeps_rules keeps_translate keeps_cntlrOf keeps_onHier core_kept)

theorem keeps_handleMsgFromNetwork:
  assumes "\<And>j. keeps H (usr j)" "msg_address (pk_msg p) \<noteq> NO_ADDRESS"
  shows "keeps P (handleMsgFromNetwork bound usr core p)"
proof -
  have cache: "keeps P (bindA (getA mc_last_level) (\<lambda>llc. bindA (cntlrOf core llc) (\<lambda>i.
      onHier (handleMsgFromDramDirectory bound usr i (pk_sender p) (pk_msg p)))))"
    by (intro keeps_rules keeps_cntlrOf keeps_onHier message_kept assms(1))
  have dir: "keeps P (onDir core (handleMsgFromL2Cache (pk_sender p) (pk_msg p)))" "keeps P (onDir core (handleMsgFromDRAM (pk_sender p) (pk_msg p)))"
    by (intro keeps_onDir cache_request_kept dram_reply_kept assms(2))+
  show ?thesis
    unfolding handleMsgFromNetwork_def Let_def
    by (cases "msg_receiver_component (pk_msg p)"; cases "msg_sender_component (pk_msg p)")
      (auto intro!: keeps_rules keeps_clock keeps_onMem keeps_handleMsgFromTagDirectory cache dir)
qed

end

section \<open>The invariant and the wiring\<close>

definition machine_inv :: "machine \<Rightarrow> bool" where
  "machine_inv m \<longleftrightarrow> hier_inv (mc_hier m) \<and> (\<forall>c d. mc_dirs m c = Some d \<longrightarrow> dir_inv d)"

interpretation minv: machine_closed machine_inv hier_inv dir_inv
proof
  show "hier_inv (h\<lparr>h_clock := ck\<rparr>) = hier_inv h" "hier_inv (h\<lparr>h_net := ps\<rparr>) = hier_inv h" for h ck ps
    by (simp_all add: hier_inv_def undo_view_def)
  show "dir_inv (d\<lparr>dd_clock := ck\<rparr>) = dir_inv d" "dir_inv (d\<lparr>dd_net := ps\<rparr>) = dir_inv d" for d ck ps
    by (simp_all add: dir_inv_def dir_wf_def)
qed (auto simp: machine_inv_def intro: inv.keeps_processMemOpFromCore inv.keeps_handleMsgFromDramDirectory
      dinv.keeps_handleMsgFromL2Cache dinv.keeps_handleMsgFromDRAM)

text \<open>No message and no request changes which controllers, caches and directories there are.\<close>

definition wiring :: "machine \<Rightarrow> _" where
  "wiring m = (topology (mc_hier m), dom (mc_dirs m), mc_cntlrs m, mc_last_level m, mc_tag_directory_present m, mc_master m)"

interpretation wired: machine_closed "\<lambda>m. wiring m = w" "\<lambda>h. topology h = fst w" "\<lambda>_. True" for w
proof
  show "(topology (h\<lparr>h_clock := ck\<rparr>) = fst w) = (topology h = fst w)" "(topology (h\<lparr>h_net := ps\<rparr>) = fst w) = (topology h = fst w)" for h ck ps
    by (simp_all add: topology_def)
qed (auto simp: wiring_def keeps_def[of "\<lambda>_. True"] intro: topo.keeps_processMemOpFromCore topo.keeps_handleMsgFromDramDirectory)

section \<open>States the machine reaches\<close>

text \<open>
  What the threads do to the cache hierarchy while another thread waits: they handle messages and
  memory operations of the cores, one after the other, and wait themselves.
\<close>

inductive activity :: "unit hact \<Rightarrow> bool" where
  idle: "activity (retA ())"
| message: "(\<And>j. activity (usr j)) \<Longrightarrow> activity (handleMsgFromDramDirectory bound usr i sender msg)"
| operation: "(\<And>j. activity (net j)) \<Longrightarrow> activity (thenA (processMemOpFromCore net i lk op a off buf n modeled cnt) (retA ()))"
| sequence: "activity f \<Longrightarrow> activity g \<Longrightarrow> activity (thenA f g)"

lemma activity_keeps:
  assumes "activity f"
  shows "keeps hier_inv f" "keeps (\<lambda>h. topology h = T) f"
  using assms
  by (induction rule: activity.induct)
    (simp_all add: keeps_retA keeps_thenA inv.keeps_processMemOpFromCore inv.keeps_handleMsgFromDramDirectory
      topo.keeps_processMemOpFromCore topo.keeps_handleMsgFromDramDirectory)

text \<open>
  The steps of the machine: any message arrives at any node, a core accesses memory, an epoch ends, the
  application ends. The network may delay and reorder messages as it likes.
\<close>

inductive machine_step :: "machine \<Rightarrow> machine \<Rightarrow> bool" where
  arrival: "(\<And>j. activity (usr j)) \<Longrightarrow> msg_address (pk_msg p) \<noteq> NO_ADDRESS \<Longrightarrow> handleMsgFromNetwork bound usr core p m = Inr ((), m') \<Longrightarrow>
    machine_step m m'"
| memory_access: "(\<And>j. activity (net j)) \<Longrightarrow>
    coreInitiateMemoryAccess net core component lk op a off buf n modeled m = Inr (r, m') \<Longrightarrow> machine_step m m'"
| boundary: "m_system_eid (h_em (mc_hier m)) \<noteq> - 1 \<Longrightarrow> system_boundary icount (mc_hier m) = Inr h \<Longrightarrow> machine_step m (m\<lparr>mc_hier := h\<rparr>)"
| finish: "system_exit app (mc_hier m) = Inr h \<Longrightarrow> machine_step m (m\<lparr>mc_hier := h\<rparr>)"

inductive machine_reachable :: "machine \<Rightarrow> machine \<Rightarrow> bool" where
  start: "machine_reachable m m"
| step: "machine_reachable m0 m \<Longrightarrow> machine_step m m' \<Longrightarrow> machine_reachable m0 m'"

lemma machine_step_inv:
  assumes "machine_step m m'" "machine_inv m"
  shows "machine_inv m' \<and> wiring m' = wiring m"
  using assms
proof (induction rule: machine_step.induct)
  case (arrival usr p bound core m m')
  note run = arrival(3)
  show ?case
    using keepsD [OF minv.keeps_handleMsgFromNetwork run arrival(4)] keepsD [OF wired.keeps_handleMsgFromNetwork run refl]
      activity_keeps [OF arrival(1)] arrival(2) by blast
next
  case (memory_access net core component lk op a off buf n modeled m r m')
  note run = memory_access(2)
  show ?case
    using keepsD [OF minv.keeps_coreInitiateMemoryAccess run memory_access(3)] keepsD [OF wired.keeps_coreInitiateMemoryAccess run refl]
      activity_keeps [OF memory_access(1)] by blast
next
  case (boundary m icount h)
  then show ?case using system_boundary_inv [of "mc_hier m" icount h] by (simp add: machine_inv_def wiring_def)
next
  case (finish app m h)
  then show ?case using system_exit_inv [of "mc_hier m" app h] by (simp add: machine_inv_def wiring_def)
qed

theorem machine_reachable_inv:
  "machine_reachable m0 m \<Longrightarrow> machine_inv m0 \<Longrightarrow> machine_inv m \<and> wiring m = wiring m0"
  by (induction rule: machine_reachable.induct) (auto dest: machine_step_inv)

section \<open>A write miss, from the request to the data\<close>

text \<open>What a directory sees when a message arrives at its node, and what the machine takes over from it.\<close>

definition dir_at :: "machine \<Rightarrow> core_id_t \<Rightarrow> time \<Rightarrow> dircntlr \<Rightarrow> dircntlr" where
  "dir_at m core t d = d\<lparr>dd_clock := set_clock core SIM_THREAD t (h_clock (mc_hier m)), dd_net := []\<rparr>"

definition put_dir_at :: "machine \<Rightarrow> core_id_t \<Rightarrow> dircntlr \<Rightarrow> machine" where
  "put_dir_at m core d = m\<lparr>mc_dirs := (mc_dirs m)(core \<mapsto> d\<lparr>dd_net := []\<rparr>), mc_hier := (mc_hier m)\<lparr>h_clock := dd_clock d\<rparr>, mc_net := mc_net m @ dd_net d\<rparr>"

lemma put_dir_at_frame [simp]:
  "mc_dirs (put_dir_at m core d) = (mc_dirs m)(core \<mapsto> d\<lparr>dd_net := []\<rparr>)" "mc_net (put_dir_at m core d) = mc_net m @ dd_net d"
  "mc_mems (put_dir_at m core d) = mc_mems m" "mc_block_size (put_dir_at m core d) = mc_block_size m" "mc_master (put_dir_at m core d) = mc_master m"
  "mc_tag_directory_present (put_dir_at m core d) = mc_tag_directory_present m"
  by (simp_all add: put_dir_at_def)

lemma arrival_at_directory:
  assumes "mc_tag_directory_present m core" "mc_dirs m core = Some d" "msg_receiver_component (pk_msg p) = TAG_DIR"
    and "0 < msg_data_length (pk_msg p) \<longrightarrow> msg_data_buf (pk_msg p) \<noteq> NULL"
    and "msg_sender_component (pk_msg p) = LAST_LEVEL_CACHE \<and> handleMsgFromL2Cache (pk_sender p) (pk_msg p) (dir_at m core (pk_time p) d) = Inr ((), d') \<or>
         msg_sender_component (pk_msg p) = DRAM \<and> handleMsgFromDRAM (pk_sender p) (pk_msg p) (dir_at m core (pk_time p) d) = Inr ((), d')"
  shows "handleMsgFromNetwork bound usr core p m = Inr ((), put_dir_at m core d')"
  using assms by (auto simp: handleMsgFromNetwork_def run_simps mm_setTime_def onDir_def dir_at_def put_dir_at_def)

text \<open>A directory stays where it is and never changes its configuration.\<close>

definition placement :: "dircntlr \<Rightarrow> core_id_t \<times> core_id_t \<times> ahl \<times> UInt32 \<times> protocol_t" where
  "placement d = (dd_core_id d, dd_core_id_master d, dd_home d, dd_block_size d, dd_protocol d)"

interpretation dplace: dir_message_closed "\<lambda>s. dir_inv s \<and> placement s = k" for k
  by unfold_locales
    (auto simp: placement_def intro: dinv.wf dinv.other dinv.table dinv.entry dinv.front dinv.queued dinv.taken dinv.arrived)

lemma line_dir_at [simp]: "line (dir_at m core t d) = line d"
  by (simp add: dir_at_def)

lemma request_arrives:
  assumes dir: "mc_tag_directory_present m home" "mc_dirs m home = Some d" and inv: "machine_inv m"
    and ln: "line d a ptr e" "de_dstate e = UNCACHED" "entry_ok e" "clock_room (dir_at m home (pk_time p) d) e" "pending (dd_queue d) a = []"
      "dd_nuca d = None" "getHome (dd_home d) a = Inr node"
    and msg: "msg_type (pk_msg p) = EX_REQ" "msg_sender_component (pk_msg p) = LAST_LEVEL_CACHE" "msg_receiver_component (pk_msg p) = TAG_DIR"
      "msg_address (pk_msg p) = a" "msg_data_buf (pk_msg p) = NULL" "msg_data_length (pk_msg p) = 0"
      "unat (msg_requester (pk_msg p)) < length (de_sharers e)"
  obtains d' e' r where "handleMsgFromNetwork bound usr home p m = Inr ((), put_dir_at m home d')"
    "dd_net d' = [dir_packet d' DRAM_READ_REQ DRAM (msg_requester (pk_msg p)) node a NULL 0 WHERE_UNKNOWN]"
    "line d' a ptr e'" "de_dstate e' = DIR_MODIFIED" "sharers e' = {unat (msg_requester (pk_msg p))}" "de_owner e' = msg_requester (pk_msg p)"
    "dd_queue d' a = Some [r]" "sr_msg r = pk_msg p" "dd_nuca d' = None" "placement d' = placement d"
    "unat (dd_clock d' (dd_core_id d') SIM_THREAD) \<le> latest (dir_at m home (pk_time p) d) e"
proof -
  let ?d = "dir_at m home (pk_time p) d"
  have same: "dd_queue ?d = dd_queue d" "dd_nuca ?d = dd_nuca d" "dd_home ?d = dd_home d" "dd_net ?d = []" "dd_block_size ?d = dd_block_size d"
    by (simp_all add: dir_at_def)
  obtain d' e' r where run: "handleMsgFromL2Cache (pk_sender p) (pk_msg p) ?d = Inr ((), d')"
    and d': "dd_net d' = dd_net ?d @ [dir_packet d' DRAM_READ_REQ DRAM (msg_requester (pk_msg p)) node a NULL 0 WHERE_UNKNOWN]"
      "line d' a ptr e'" "de_dstate e' = DIR_MODIFIED" "sharers e' = {unat (msg_requester (pk_msg p))}" "de_owner e' = msg_requester (pk_msg p)"
      "dd_queue d' = (dd_queue ?d)(a := Some [r])" "sr_msg r = pk_msg p" "dd_nuca d' = None" "dd_block_size d' = dd_block_size ?d"
      "unat (dd_clock d' (dd_core_id d') SIM_THREAD) \<le> latest ?d e"
    by (rule write_to_uncached_line [of ?d a ptr e "pk_msg p" node "pk_sender p"]) (use ln msg in \<open>auto simp: same\<close>)
  have "dir_inv ?d" using inv dir(2) by (simp add: machine_inv_def dir_at_def minv.clock_net)
  moreover have "msg_address (pk_msg p) \<noteq> NO_ADDRESS" using ln(1) msg(4) by (simp add: line_def)
  ultimately have "placement d' = placement d"
    using keepsD [OF dplace.keeps_handleMsgFromL2Cache run, of "placement ?d"] by (simp add: placement_def dir_at_def)
  moreover have "handleMsgFromNetwork bound usr home p m = Inr ((), put_dir_at m home d')"
    by (rule arrival_at_directory [OF dir(1,2) msg(3)]) (use msg run in auto)
  ultimately show ?thesis using d' by (intro that [of d' e' r]) (simp_all add: same)
qed

text \<open>Memory without stored data answers a read with a buffer, if the clock has room for the latency.\<close>

lemma set_clock_same: "set_clock c th t ck c th = t"
  by (simp add: set_clock_def)

lemma memory_reads:
  assumes "mc_mems m node = Some (Memory c)" "\<not> mem_fim c" "mc_block_size m \<noteq> 0"
    and msg: "msg_type (pk_msg q) = DRAM_READ_REQ" "msg_sender_component (pk_msg q) = TAG_DIR" "msg_receiver_component (pk_msg q) = DRAM"
      "msg_data_length (pk_msg q) = 0"
    and room: "\<forall>l w out c'. mem_get (msg_address (pk_msg q)) (msg_requester (pk_msg q)) (pk_time q) c = Inr (l, w, out, c') \<longrightarrow>
      unat (pk_time q) + unat l < 2 ^ 64"
  obtains m' ck c' t where "handleMsgFromNetwork bound usr node q m = Inr ((), m')"
    "m' = m\<lparr>mc_hier := (mc_hier m)\<lparr>h_clock := ck\<rparr>, mc_mems := (mc_mems m)(node \<mapsto> Memory c'),
      mc_net := mc_net m @ [\<lparr>pk_time = t, pk_sender = mc_master m node, pk_receiver = pk_sender q,
        pk_msg = \<lparr>msg_type = DRAM_READ_REP, msg_sender_component = DRAM, msg_receiver_component = TAG_DIR,
          msg_requester = msg_requester (pk_msg q), msg_where = HIT_DRAM, msg_address = msg_address (pk_msg q),
          msg_data_buf = Buf None, msg_data_length = mc_block_size m\<rparr>\<rparr>]\<rparr>"
    "dr_reads (base_of c') = dr_reads (base_of c) + 1"
proof -
  obtain l c' where get: "mem_get (msg_address (pk_msg q)) (msg_requester (pk_msg q)) (pk_time q) c = Inr (l, HIT_DRAM, None, c')"
    and c': "dr_reads (base_of c') = dr_reads (base_of c) + 1"
    using mem_total(1) [OF assms(2)] by blast
  have "unat (pk_time q) + unat l < 2 ^ 64" using room get by blast
  then have clock: "clock_incrElapsedTime node l SIM_THREAD (set_clock node SIM_THREAD (pk_time q) ck) =
      Inr (set_clock node SIM_THREAD (pk_time q + l) (set_clock node SIM_THREAD (pk_time q) ck))" for ck
    by (simp add: incr_clock set_clock_def)
  show ?thesis
    by (rule that [of _ "pk_time q + l" c' "set_clock node SIM_THREAD (pk_time q + l) (set_clock node SIM_THREAD (pk_time q) (h_clock (mc_hier m)))", OF _ refl c'])
      (use assms(1,3) msg get in \<open>simp add: handleMsgFromNetwork_def Let_def run_simps mm_setTime_def handleMsgFromTagDirectory_def mm_now_def onMem_def
        if_getDataFromDram_def mm_incrTime_def clock mm_sendMsg_def set_clock_same buf_out_def\<close>)
qed

text \<open>The three messages of a write to a line no cache has.\<close>

lemma write_miss_served:
  assumes inv: "machine_inv m" and dir: "mc_tag_directory_present m home" "mc_dirs m home = Some d" "dd_core_id_master d = home"
    and ln: "line d a ptr e" "de_dstate e = UNCACHED" "entry_ok e" "clock_room (dir_at m home (pk_time p) d) e" "pending (dd_queue d) a = []"
      "dd_nuca d = None" "getHome (dd_home d) a = Inr node"
    and msg: "msg_type (pk_msg p) = EX_REQ" "msg_sender_component (pk_msg p) = LAST_LEVEL_CACHE" "msg_receiver_component (pk_msg p) = TAG_DIR"
      "msg_address (pk_msg p) = a" "msg_data_buf (pk_msg p) = NULL" "msg_data_length (pk_msg p) = 0"
      "unat (msg_requester (pk_msg p)) < length (de_sharers e)"
    and mem: "mc_mems m node = Some (Memory c)" "\<not> mem_fim c" "mc_block_size m \<noteq> 0" "dd_block_size d = mc_block_size m"
    and room: "\<forall>t l w out c'. mem_get a (msg_requester (pk_msg p)) t c = Inr (l, w, out, c') \<longrightarrow>
      latest (dir_at m home (pk_time p) d) e + unat l < 2 ^ 64"
  obtains m1 m2 m3 d3 e' q1 q2 q3 where
    "handleMsgFromNetwork bound usr home p m = Inr ((), m1)" "mc_net m1 = mc_net m @ [q1]" "pk_receiver q1 = node"
    "handleMsgFromNetwork bound usr node q1 m1 = Inr ((), m2)" "mc_net m2 = mc_net m1 @ [q2]" "pk_receiver q2 = home"
    "handleMsgFromNetwork bound usr home q2 m2 = Inr ((), m3)" "mc_net m3 = mc_net m2 @ [q3]" "pk_receiver q3 = msg_requester (pk_msg p)"
    "msg_type (pk_msg q3) = EX_REP" "msg_receiver_component (pk_msg q3) = L2_CACHE" "msg_address (pk_msg q3) = a" "msg_data_buf (pk_msg q3) \<noteq> NULL"
    "mc_dirs m3 home = Some d3" "line d3 a ptr e'" "de_dstate e' = DIR_MODIFIED" "sharers e' = {unat (msg_requester (pk_msg p))}"
    "de_owner e' = msg_requester (pk_msg p)" "pending (dd_queue d3) a = []"
proof -
  let ?rq = "msg_requester (pk_msg p)"
  obtain d1 e' r where d1: "handleMsgFromNetwork bound usr home p m = Inr ((), put_dir_at m home d1)"
    "dd_net d1 = [dir_packet d1 DRAM_READ_REQ DRAM ?rq node a NULL 0 WHERE_UNKNOWN]" "line d1 a ptr e'" "de_dstate e' = DIR_MODIFIED"
    "sharers e' = {unat ?rq}" "de_owner e' = ?rq" "dd_queue d1 a = Some [r]" "sr_msg r = pk_msg p" "dd_nuca d1 = None" "placement d1 = placement d"
    "unat (dd_clock d1 (dd_core_id d1) SIM_THREAD) \<le> latest (dir_at m home (pk_time p) d) e"
    by (rule request_arrives [OF dir(1,2) inv ln msg])
  let ?m1 = "put_dir_at m home d1"
  define q1 where "q1 = dir_packet d1 DRAM_READ_REQ DRAM ?rq node a NULL 0 WHERE_UNKNOWN"
  have q1: "msg_type (pk_msg q1) = DRAM_READ_REQ" "msg_sender_component (pk_msg q1) = TAG_DIR" "msg_receiver_component (pk_msg q1) = DRAM"
    "msg_data_length (pk_msg q1) = 0" "msg_address (pk_msg q1) = a" "msg_requester (pk_msg q1) = ?rq" "pk_receiver q1 = node" "pk_sender q1 = home"
    using d1(10) dir(3) by (simp_all add: q1_def dir_packet_def placement_def)
  have late: "unat (pk_time q1) \<le> latest (dir_at m home (pk_time p) d) e" using d1(11) by (simp add: q1_def dir_packet_def)
  have "\<forall>l w out c'. mem_get (msg_address (pk_msg q1)) (msg_requester (pk_msg q1)) (pk_time q1) c = Inr (l, w, out, c') \<longrightarrow>
      unat (pk_time q1) + unat l < 2 ^ 64"
    unfolding q1(5,6) using room late by (meson add_le_mono1 le_less_trans)
  then obtain m2 ck c' t where m2: "handleMsgFromNetwork bound usr node q1 ?m1 = Inr ((), m2)"
    "m2 = ?m1\<lparr>mc_hier := (mc_hier ?m1)\<lparr>h_clock := ck\<rparr>, mc_mems := (mc_mems ?m1)(node \<mapsto> Memory c'),
      mc_net := mc_net ?m1 @ [\<lparr>pk_time = t, pk_sender = mc_master ?m1 node, pk_receiver = home,
        pk_msg = \<lparr>msg_type = DRAM_READ_REP, msg_sender_component = DRAM, msg_receiver_component = TAG_DIR,
          msg_requester = ?rq, msg_where = HIT_DRAM, msg_address = a, msg_data_buf = Buf None, msg_data_length = mc_block_size ?m1\<rparr>\<rparr>]\<rparr>"
    using memory_reads [of ?m1 node c q1 bound usr] mem(1-3) q1 by (metis put_dir_at_frame(3,4))
  define q2 where "q2 = \<lparr>pk_time = t, pk_sender = mc_master m node, pk_receiver = home,
        pk_msg = \<lparr>msg_type = DRAM_READ_REP, msg_sender_component = DRAM, msg_receiver_component = TAG_DIR,
          msg_requester = ?rq, msg_where = HIT_DRAM, msg_address = a, msg_data_buf = Buf None, msg_data_length = mc_block_size m\<rparr>\<rparr>"
  let ?d2 = "dir_at m2 home t (d1\<lparr>dd_net := []\<rparr>)"
  have d2: "mc_dirs m2 home = Some (d1\<lparr>dd_net := []\<rparr>)" "mc_tag_directory_present m2 home" "line ?d2 a ptr e'" "dd_queue ?d2 a = Some [r]"
    "dd_nuca ?d2 = None" "msg_type (sr_msg r) = EX_REQ" "dd_net ?d2 = []" "dd_block_size ?d2 = mc_block_size m" "mc_net m2 = mc_net ?m1 @ [q2]"
    using m2(2) dir(1) d1(3,7-10) msg(1) mem(4) by (simp_all add: dir_at_def q2_def placement_def)
  obtain d3 hw where d3: "handleMsgFromDRAM (mc_master m node) (pk_msg q2) ?d2 = Inr ((), d3)"
    "dd_net d3 = dd_net ?d2 @ [dir_packet ?d2 EX_REP L2_CACHE (msg_requester (sr_msg r)) (msg_requester (sr_msg r)) a (msg_data_buf (pk_msg q2)) (dd_block_size ?d2) hw]"
    "line d3 a ptr e'" "dd_queue d3 = (dd_queue ?d2)(a := None)"
    by (rule memory_answers [OF d2(3) d1(4) d2(4,6,5), of "pk_msg q2" "mc_master m node"]) (use d2(8) mem(3) in \<open>simp_all add: q2_def\<close>)
  have run3: "handleMsgFromNetwork bound usr home q2 m2 = Inr ((), put_dir_at m2 home d3)"
    by (rule arrival_at_directory [OF d2(2,1)]) (use d3(1) in \<open>simp_all add: q2_def\<close>)
  let ?q3 = "dir_packet ?d2 EX_REP L2_CACHE (msg_requester (sr_msg r)) (msg_requester (sr_msg r)) a (msg_data_buf (pk_msg q2)) (dd_block_size ?d2) hw"
  show ?thesis
    by (rule that [OF d1(1) _ q1(7) m2(1) d2(9) _ run3, of ?q3 "d3\<lparr>dd_net := []\<rparr>" e'])
      (use d1(2,4-6,8) d2(7) d3(2-4) in \<open>simp_all add: q1_def dir_packet_def q2_def pending_def\<close>)
qed

section \<open>The undo log reaches memory\<close>

text \<open>The message of the undo buffer controller: the contents of the log record are not set.\<close>

definition log_packet :: "time \<Rightarrow> core_id_t \<Rightarrow> log_msg \<Rightarrow> packet" where
  "log_packet t sender l =
     \<lparr>pk_time = t, pk_sender = sender, pk_receiver = lm_dest l,
      pk_msg = \<lparr>msg_type = CP_REP, msg_sender_component = lm_sender l, msg_receiver_component = lm_receiver l, msg_requester = lm_requester l,
                msg_where = WHERE_UNKNOWN, msg_address = lm_address l, msg_data_buf = Buf None, msg_data_length = lm_length l\<rparr>\<rparr>"

definition log_arrives :: "nat \<Rightarrow> (nat \<Rightarrow> unit hact) \<Rightarrow> time \<Rightarrow> core_id_t \<Rightarrow> log_msg list \<Rightarrow> unit mact" where
  "log_arrives bound usr t sender ls = foldA (\<lambda>l _. handleMsgFromNetwork bound usr (lm_dest l) (log_packet t sender l)) ls ()"

lemma mem_fim_base: "mem_fim c = dr_fim (base_of c)"
  by (cases c) (simp_all add: mem_fim_def base_of_def)

lemma log_stored:
  assumes "mc_mems m (lm_dest l) = Some (Memory c)" "\<not> mem_fim c" "lm_sender l = ONCHIP_UNDO_BUFFER" "lm_receiver l = DRAM"
  obtains ck c' where "handleMsgFromNetwork bound usr (lm_dest l) (log_packet t sender l) m =
      Inr ((), m\<lparr>mc_hier := (mc_hier m)\<lparr>h_clock := ck\<rparr>, mc_mems := (mc_mems m)(lm_dest l \<mapsto> Memory c')\<rparr>)"
    "dr_writes (base_of c') = dr_writes (base_of c) + 1" "\<not> mem_fim c'"
proof -
  obtain la c' where put: "mem_put (lm_address l) (lm_requester l) None t c = Inr (la, HIT_DRAM, c')"
    and c': "dr_writes (base_of c') = dr_writes (base_of c) + 1"
    using mem_total(2) [OF assms(2)] by blast
  have "\<not> mem_fim c'"
    using mem_put_base [OF put] assms(2) runDramPerfModel_frame(4) [of "lm_requester l" t "lm_address l" DRAM_WRITE "base_of c"]
    by (auto simp: mem_fim_base putDataToDram_def Let_def split_def) (metis dram.select_convs(2) dram.surjective dram.update_convs(7))
  have "handleMsgFromNetwork bound usr (lm_dest l) (log_packet t sender l) m =
      Inr ((), m\<lparr>mc_hier := (mc_hier m)\<lparr>h_clock := set_clock (lm_dest l) SIM_THREAD t (h_clock (mc_hier m))\<rparr>, mc_mems := (mc_mems m)(lm_dest l \<mapsto> Memory c')\<rparr>)"
    using assms put by (simp add: handleMsgFromNetwork_def Let_def log_packet_def run_simps mm_setTime_def onMem_def if_putDataToDram_def buf_in_def)
  with that c' \<open>\<not> mem_fim c'\<close> show ?thesis by blast
qed

lemma log_lost:
  "mc_mems m (lm_dest l) = None \<Longrightarrow> lm_receiver l = DRAM \<Longrightarrow>
   handleMsgFromNetwork bound usr (lm_dest l) (log_packet t sender l) m = Inl (Assert ''Dram Cntlr NOT present'')"
  by (simp add: handleMsgFromNetwork_def Let_def log_packet_def run_simps mm_setTime_def failA_def)

lemma log_cached:
  assumes "mc_mems m (lm_dest l) = Some (CachedMemory k)" "lm_sender l = ONCHIP_UNDO_BUFFER" "lm_receiver l = DRAM"
  shows "\<exists>e. handleMsgFromNetwork bound usr (lm_dest l) (log_packet t sender l) m = Inl e"
  using assms dk_write_stops [of "lm_address l" "lm_requester l" "Buf None" t k]
  by (auto simp: handleMsgFromNetwork_def Let_def log_packet_def run_simps mm_setTime_def onMem_def if_putDataToDram_def)

theorem log_arrives_ok:
  assumes "\<forall>l \<in> set ls. lm_dest l = node \<and> lm_sender l = ONCHIP_UNDO_BUFFER \<and> lm_receiver l = DRAM"
    and "mc_mems m node = Some (Memory c)" "\<not> mem_fim c"
  shows "\<exists>m' c'. log_arrives bound usr t sender ls m = Inr ((), m') \<and> mc_mems m' = (mc_mems m)(node \<mapsto> Memory c') \<and>
    dr_writes (base_of c') = dr_writes (base_of c) + of_nat (length ls)"
  using assms
proof (induction ls arbitrary: m c)
  case Nil
  then show ?case by (intro exI [of _ m] exI [of _ c]) (simp add: log_arrives_def retA_def fun_upd_idem)
next
  case (Cons l ls)
  from Cons.prems(1) have l: "lm_dest l = node" "lm_sender l = ONCHIP_UNDO_BUFFER" "lm_receiver l = DRAM" by simp_all
  obtain ck c1 where 1: "handleMsgFromNetwork bound usr node (log_packet t sender l) m =
      Inr ((), m\<lparr>mc_hier := (mc_hier m)\<lparr>h_clock := ck\<rparr>, mc_mems := (mc_mems m)(node \<mapsto> Memory c1)\<rparr>)"
    "dr_writes (base_of c1) = dr_writes (base_of c) + 1" "\<not> mem_fim c1"
    by (rule log_stored [of m l c bound usr t sender, unfolded l(1), OF Cons.prems(2,3) l(2,3)])
  let ?m = "m\<lparr>mc_hier := (mc_hier m)\<lparr>h_clock := ck\<rparr>, mc_mems := (mc_mems m)(node \<mapsto> Memory c1)\<rparr>"
  have "\<exists>m' c'. log_arrives bound usr t sender ls ?m = Inr ((), m') \<and> mc_mems m' = (mc_mems ?m)(node \<mapsto> Memory c') \<and>
      dr_writes (base_of c') = dr_writes (base_of c1) + of_nat (length ls)"
    by (rule Cons.IH) (use Cons.prems(1) 1(3) in simp_all)
  then obtain m' c' where 2: "log_arrives bound usr t sender ls ?m = Inr ((), m')" "mc_mems m' = (mc_mems ?m)(node \<mapsto> Memory c')"
    "dr_writes (base_of c') = dr_writes (base_of c1) + of_nat (length ls)" by blast
  have "log_arrives bound usr t sender (l # ls) m = Inr ((), m')"
    using 1(1) 2(1) l(1) by (simp add: log_arrives_def bindA_def)
  then show ?case using 1(2) 2(2,3) by (intro exI [of _ m'] exI [of _ c']) simp
qed

end
