(* ===== verification/Core_Memory.thy ===== *)
theory Core_Memory
  imports Machine
begin

unbundle bit_operations_syntax

text \<open>
  \<open>core/core.cc\<close>: how a core accesses memory. An access is cut into pieces that lie in one cache line
  each; instruction fetches go to the cache only when they leave the line fetched last. The state adds to
  the machine what the core keeps and what it reports to its performance model. The lock that serialises
  the accesses of one core and the cheetah statistics are left out.
\<close>

section \<open>State\<close>

record mem_access_instruction =
  mi_cost :: time
  mi_address :: IntPtr
  mi_data_size :: UInt32
  mi_is_fence :: bool

datatype simulation_mode = PINTOOL | STANDALONE

record cores =
  co_machine :: machine
  co_icache_last_block :: "core_id_t \<Rightarrow> IntPtr"
  co_elapsed_time :: "core_id_t \<Rightarrow> time"
  co_perf_enabled :: "core_id_t \<Rightarrow> bool"
  co_pseudo_instructions :: "core_id_t \<Rightarrow> mem_access_instruction list"
  co_memory_latencies :: "core_id_t \<Rightarrow> (time \<times> where_t) list"
  co_shmem_enabled :: "core_id_t \<Rightarrow> bool"
  co_num_memory_accesses :: "core_id_t \<Rightarrow> UInt64"
  co_total_memory_access_latency :: "core_id_t \<Rightarrow> time"
  co_l1_hit_latency :: "core_id_t \<Rightarrow> time"
  co_simulation_mode :: simulation_mode
  co_copies :: "(simulation_mode \<times> core_id_t \<times> mem_op_t \<times> IntPtr \<times> UInt32) list"

type_synonym 'a cact = "(cores, 'a) action"

definition onMachine :: "'a mact \<Rightarrow> 'a cact" where
  "onMachine f = (\<lambda>s. mapE (\<lambda>(a, m). (a, s\<lparr>co_machine := m\<rparr>)) (f (co_machine s)))"

definition incrTotalMemoryAccessLatency :: "core_id_t \<Rightarrow> time \<Rightarrow> unit cact" where
  "incrTotalMemoryAccessLatency core shmem_time =
     bindA (getA (\<lambda>s. co_shmem_enabled s core)) (\<lambda>enabled.
       whenA enabled (modA (\<lambda>s. s\<lparr>co_num_memory_accesses := (co_num_memory_accesses s)(core := co_num_memory_accesses s core + 1),
         co_total_memory_access_latency := (co_total_memory_access_latency s)(core := co_total_memory_access_latency s core + shmem_time)\<rparr>)))"

section \<open>Pieces of an access\<close>

text \<open>
  The lines from the one with the first byte to the one behind the last byte. The address of the next line
  may wrap around; a loop that does not end has no value.
\<close>

definition align :: "UInt32 \<Rightarrow> IntPtr \<Rightarrow> IntPtr" where
  "align bs a = a - a mod ucast bs"

partial_function (option) pieces :: "UInt32 \<Rightarrow> IntPtr \<Rightarrow> IntPtr \<Rightarrow> IntPtr \<Rightarrow> (IntPtr \<times> UInt32 \<times> UInt32) list option" where
  "pieces bs begin_addr end_addr curr_addr =
     (if curr_addr \<le> align bs end_addr
      then (let curr_offset = (if curr_addr = align bs begin_addr then ucast (begin_addr mod ucast bs) else 0);
                curr_size = (if curr_addr = align bs end_addr then ucast (end_addr mod ucast bs) - curr_offset else bs - curr_offset)
            in Option.bind (pieces bs begin_addr end_addr (curr_addr + ucast bs)) (\<lambda>ps.
                 Some (if curr_addr = align bs end_addr \<and> curr_size = 0 then ps else (curr_addr, curr_offset, curr_size) # ps)))
      else Some [])"

declare pieces.simps [code]

text \<open>The part of the caller's buffer a piece works on.\<close>

definition buf_piece :: "nat \<Rightarrow> nat \<Rightarrow> buffer \<Rightarrow> buffer" where
  "buf_piece k n b = (case b of Buf (Some bs) \<Rightarrow> Buf (Some (take n (drop k bs))) | _ \<Rightarrow> b)"

definition put_piece :: "nat \<Rightarrow> buffer \<Rightarrow> buffer \<Rightarrow> buffer" where
  "put_piece k out b =
     (case (b, out) of
        (Buf (Some bs), Buf (Some ds)) \<Rightarrow> Buf (Some (take k bs @ ds @ drop (k + length ds) bs))
      | (Buf None, Buf (Some ds)) \<Rightarrow> if k = 0 then out else b
      | _ \<Rightarrow> b)"

definition worse_hit :: "where_t \<Rightarrow> where_t \<Rightarrow> where_t" where
  "worse_hit hit_where this_hit_where =
     (if hit_where = WHERE_UNKNOWN \<or> this_hit_where \<noteq> WHERE_UNKNOWN \<and> this_hit_where > hit_where then this_hit_where else hit_where)"

section \<open>Memory accesses\<close>

definition accessPiece ::
  "(nat \<Rightarrow> unit hact) \<Rightarrow> core_id_t \<Rightarrow> mem_component \<Rightarrow> lock_signal_t \<Rightarrow> mem_op_t \<Rightarrow> mem_modeled \<Rightarrow> IntPtr \<times> UInt32 \<times> UInt32
    \<Rightarrow> where_t \<times> nat \<times> buffer \<Rightarrow> (where_t \<times> nat \<times> buffer) cact" where
  "accessPiece net core component lock_signal mem_op_type modeled =
     (\<lambda>(curr_addr, off, n) (hit_where, k, data_buf).
        bindA (onMachine (coreInitiateMemoryAccess net core component lock_signal mem_op_type curr_addr off (buf_piece k (unat n) data_buf) n modeled))
          (\<lambda>(this_hit_where, out). retA (worse_hit hit_where this_hit_where, k + unat n, put_piece k out data_buf)))"

definition reportAccess :: "core_id_t \<Rightarrow> mem_modeled \<Rightarrow> IntPtr \<Rightarrow> UInt32 \<Rightarrow> time \<Rightarrow> where_t \<Rightarrow> unit cact" where
  "reportAccess core modeled address data_size shmem_time hit_where =
     (let queue = (\<lambda>fence. bindA (getA (\<lambda>s. co_perf_enabled s core)) (\<lambda>enabled.
            whenA enabled (modA (\<lambda>s. s\<lparr>co_pseudo_instructions := (co_pseudo_instructions s)(core := co_pseudo_instructions s core @
              [\<lparr>mi_cost = shmem_time, mi_address = address, mi_data_size = data_size, mi_is_fence = fence\<rparr>])\<rparr>))));
          count = whenA (0 < shmem_time) (modA (\<lambda>s. s\<lparr>co_memory_latencies := (co_memory_latencies s)(core := co_memory_latencies s core @ [(shmem_time, hit_where)])\<rparr>))
      in case modeled of
           MEM_MODELED_TIME \<Rightarrow> queue False
         | MEM_MODELED_FENCED \<Rightarrow> queue True
         | MEM_MODELED_COUNT \<Rightarrow> count
         | MEM_MODELED_COUNT_TLBTIME \<Rightarrow> count
         | MEM_MODELED_NONE \<Rightarrow> retA ()
         | MEM_MODELED_RETURN \<Rightarrow> retA ())"

definition accessPieces :: "UInt32 \<Rightarrow> IntPtr \<Rightarrow> UInt32 \<Rightarrow> (IntPtr \<times> UInt32 \<times> UInt32) list result" where
  "accessPieces bs address data_size =
     check (bs \<noteq> 0) (Undefined ''division by zero'')
       (case pieces bs address (address + ucast data_size) (align bs address) of None \<Rightarrow> Inl Diverges | Some ps \<Rightarrow> Inr ps)"

definition initiateMemoryAccess ::
  "(nat \<Rightarrow> unit hact) \<Rightarrow> core_id_t \<Rightarrow> mem_component \<Rightarrow> lock_signal_t \<Rightarrow> mem_op_t \<Rightarrow> IntPtr \<Rightarrow> buffer \<Rightarrow> UInt32 \<Rightarrow> mem_modeled \<Rightarrow> time
    \<Rightarrow> (where_t \<times> time \<times> buffer) cact" where
  "initiateMemoryAccess net core component lock_signal mem_op_type address data_buf data_size modeled t_now =
     (if data_size = 0 then retA (where_component component, 0, data_buf)
      else bindA (getA (\<lambda>s. if t_now = MaxTime then co_elapsed_time s core else t_now)) (\<lambda>initial_time.
           thenA (onMachine (mm_setTime core USER_THREAD initial_time))
          (bindA (getA (\<lambda>s. mc_block_size (co_machine s))) (\<lambda>bs.
           bindA (liftA (accessPieces bs address data_size)) (\<lambda>ps.
           bindA (foldA (accessPiece net core component lock_signal mem_op_type modeled) ps (WHERE_UNKNOWN, 0, data_buf)) (\<lambda>(hit_where, _, out).
           bindA (onMachine (mm_now core USER_THREAD)) (\<lambda>final_time.
           thenA (assertA (initial_time \<le> final_time) (Assert ''final_time < initial_time''))
          (thenA (reportAccess core modeled address data_size (final_time - initial_time) hit_where)
          (thenA (whenA (modeled \<noteq> MEM_MODELED_NONE) (incrTotalMemoryAccessLatency core (final_time - initial_time)))
          (thenA (assertA (hit_where \<noteq> WHERE_UNKNOWN) (Assert ''HitWhere == UNKNOWN''))
             (retA (hit_where, final_time - initial_time, out))))))))))))"

definition readInstructionMemory :: "(nat \<Rightarrow> unit hact) \<Rightarrow> core_id_t \<Rightarrow> IntPtr \<Rightarrow> UInt32 \<Rightarrow> (where_t \<times> time) cact" where
  "readInstructionMemory net core address instruction_size =
     bindA (getA (\<lambda>s. mc_block_size (co_machine s))) (\<lambda>bs.
     bindA (getA (\<lambda>s. co_icache_last_block s core)) (\<lambda>last_block.
       (let blockmask = NOT (ucast bs - 1);
            single_cache_line = (address AND blockmask = (address + ucast instruction_size - 1) AND blockmask)
        in if address AND blockmask = last_block \<and> single_cache_line
           then bindA (getA (\<lambda>s. co_l1_hit_latency s core)) (\<lambda>l. retA (where_component L1_ICACHE, l))
           else (let line = (if address AND blockmask = last_block then (address AND blockmask) + ucast bs else address) AND blockmask
                 in thenA (modA (\<lambda>s. s\<lparr>co_icache_last_block := (co_icache_last_block s)(core := line)\<rparr>))
                   (bindA (initiateMemoryAccess net core L1_ICACHE NO_SIGNAL READ line NULL bs MEM_MODELED_COUNT_TLBTIME MaxTime)
                     (\<lambda>(hit_where, latency, _). retA (hit_where, latency)))))))"

text \<open>The data of an access is copied from or to the memory of the simulated process, not the caches.\<close>

definition accessMemory ::
  "(nat \<Rightarrow> unit hact) \<Rightarrow> core_id_t \<Rightarrow> lock_signal_t \<Rightarrow> mem_op_t \<Rightarrow> IntPtr \<Rightarrow> buffer \<Rightarrow> UInt32 \<Rightarrow> mem_modeled \<Rightarrow> time \<Rightarrow> bool \<Rightarrow> (where_t \<times> time) cact" where
  "accessMemory net core lock_signal mem_op_type d_addr data_buffer data_size modeled t_now is_fault_mask =
     (let copied = (data_buffer \<noteq> NULL \<and> \<not> is_fault_mask)
      in thenA (whenA copied (modA (\<lambda>s. s\<lparr>co_copies := co_copies s @ [(co_simulation_mode s, core, mem_op_type, d_addr, data_size)]\<rparr>)))
        (if modeled = MEM_MODELED_NONE then retA (WHERE_UNKNOWN, 0)
         else bindA (initiateMemoryAccess net core L1_DCACHE lock_signal mem_op_type d_addr (if copied then NULL else data_buffer) data_size modeled t_now)
                (\<lambda>(hit_where, latency, _). retA (hit_where, latency))))"

section \<open>The pieces are the access\<close>

text \<open>
  The bytes of the pieces, one piece after the other, are the bytes of the access, and no piece leaves its
  line. The condition keeps the line behind the access below the end of the address space.
\<close>

definition piece_bytes :: "IntPtr \<times> UInt32 \<times> UInt32 \<Rightarrow> nat list" where
  "piece_bytes = (\<lambda>(a, off, n). [unat a + unat off..<unat a + unat off + unat n])"

definition piece_ok :: "UInt32 \<Rightarrow> IntPtr \<times> UInt32 \<times> UInt32 \<Rightarrow> bool" where
  "piece_ok bs = (\<lambda>(a, off, n). unat bs dvd unat a \<and> 0 < n \<and> unat off + unat n \<le> unat bs)"

lemma unat_wider [simp]: "unat (ucast w :: 64 word) = unat w" for w :: "32 word"
proof -
  have "unat w < 2 ^ 64" using unat_lt2p [of w] by simp
  then show ?thesis by (simp add: unsigned_ucast_eq take_bit_nat_def)
qed

lemma unat_align: "unat (align bs a) = unat a - unat a mod unat bs"
proof -
  have "a mod ucast bs \<le> a" by (simp add: word_le_nat_alt unat_mod)
  then show ?thesis by (simp add: align_def unat_sub unat_mod)
qed

lemma unat_line_mod: "unat (ucast (a mod ucast bs) :: UInt32) = unat a mod unat bs" if "0 < unat bs" for a :: IntPtr and bs :: UInt32
proof -
  have "unat a mod unat bs < unat bs" using that by simp
  also have "unat bs < 2 ^ 32" using unat_lt2p [of bs] by simp
  finally have "unat a mod unat bs < 2 ^ 32" .
  then show ?thesis by (simp add: unsigned_ucast_eq take_bit_nat_def unat_mod)
qed

lemma line_bounds: "(e :: nat) - e mod s \<le> e" "0 < s \<Longrightarrow> e < e - e mod s + s" "s dvd e - e mod s"
  using dividend_less_times_div [of s e] by (simp_all add: minus_mod_eq_mult_div add.commute)

text \<open>Offset and size of the piece in one line, as numbers.\<close>

lemma piece_range:
  assumes "0 < s" "b < e" "s dvd c" "b - b mod s \<le> c" "c \<le> e - e mod (s :: nat)"
  defines "off \<equiv> if c = b - b mod s then b mod s else 0"
  defines "n \<equiv> if c = e - e mod s then e mod s - off else s - off"
  shows "off < s" "c + off = max b c" "c + off + n = min e (c + s)" "off \<le> (if c = e - e mod s then e mod s else s)" "off + n \<le> s"
    "c \<noteq> e - e mod s \<Longrightarrow> 0 < n"
proof -
  note bb = line_bounds(1) [of b s] line_bounds(2) [OF assms(1), of b] line_bounds(3) [of s b]
  note ee = line_bounds(1) [of e s] line_bounds(2) [OF assms(1), of e] line_bounds(3) [of s e]
  have next_line: "x + s \<le> y" if "s dvd x" "s dvd y" "x < y" for x y
    using that by (metis add.commute dvd_imp_le dvd_minus_self le_add_diff_inverse2 less_imp_le_nat nat_add_left_cancel_le not_less zero_less_diff dvd_diff_nat)
  have bm: "b mod s < s" "b - b mod s + b mod s = b" and em: "e mod s < s" "e - e mod s + e mod s = e" using assms(1) by simp_all
  show "off < s" using bm(1) assms(1) by (simp add: off_def)
  show start: "c + off = max b c"
    using next_line [OF bb(3) assms(3)] bm assms(4) bb(2) by (cases "c = b - b mod s") (auto simp: off_def)
  show le: "off \<le> (if c = e - e mod s then e mod s else s)"
    unfolding off_def using bm em assms(2) by (split if_split, split if_split) linarith
  show "c + off + n = min e (c + s)"
  proof (cases "c = e - e mod s")
    case True
    then have "n = e mod s - off" "off \<le> e mod s" using le by (simp_all add: n_def)
    moreover have "min e (c + s) = e" using True ee(2) by simp
    ultimately show ?thesis using True em(2) by linarith
  next
    case False
    then have "c + s \<le> e" using next_line [OF assms(3) ee(3)] assms(5) ee(1) by linarith
    then show ?thesis using False le by (simp add: n_def)
  qed
  show "off + n \<le> s" using le em(1) by (auto simp: n_def)
  show "0 < n" if "c \<noteq> e - e mod s" using \<open>off < s\<close> that by (simp add: n_def)
qed

lemma align_eq_iff: "c = align bs a \<longleftrightarrow> unat c = unat a - unat a mod unat bs"
  by (metis unat_align word_unat_eq_iff)

lemma piece_words:
  assumes "0 < unat bs" "unat b < unat e" "unat bs dvd unat c" "align bs b \<le> c" "c \<le> align bs e"
  defines "off \<equiv> if c = align bs b then ucast (b mod ucast bs) else 0 :: UInt32"
  defines "n \<equiv> if c = align bs e then ucast (e mod ucast bs) - off else bs - off"
  shows "unat c + unat off = max (unat b) (unat c)" "unat c + unat off + unat n = min (unat e) (unat c + unat bs)"
    "unat off + unat n \<le> unat bs" "c \<noteq> align bs e \<Longrightarrow> n \<noteq> 0"
proof -
  have off: "unat off = (if unat c = unat b - unat b mod unat bs then unat b mod unat bs else 0)"
    by (simp add: off_def align_eq_iff unat_line_mod [OF assms(1)])
  have c: "unat b - unat b mod unat bs \<le> unat c" "unat c \<le> unat e - unat e mod unat bs"
    using assms(4,5) by (simp_all add: word_le_nat_alt unat_align)
  note r = piece_range [OF assms(1-3) c, folded off]
  have n: "unat n = (if unat c = unat e - unat e mod unat bs then unat e mod unat bs - unat off else unat bs - unat off)"
  proof (cases "c = align bs e")
    case True
    then have "off \<le> ucast (e mod ucast bs)" using r(4) by (simp add: align_eq_iff word_le_nat_alt unat_line_mod [OF assms(1)])
    then show ?thesis using True by (simp add: n_def unat_sub align_eq_iff unat_line_mod [OF assms(1)])
  next
    case False
    then have "off \<le> bs" using r(4) by (simp add: align_eq_iff word_le_nat_alt)
    then show ?thesis using False by (simp add: n_def unat_sub align_eq_iff)
  qed
  note r = r [folded n]
  show "unat c + unat off = max (unat b) (unat c)" "unat c + unat off + unat n = min (unat e) (unat c + unat bs)" "unat off + unat n \<le> unat bs"
    by (rule r)+
  show "n \<noteq> 0" if "c \<noteq> align bs e" using r(6) that by (auto simp: align_eq_iff)
qed

lemma upt_split: "a \<le> c \<Longrightarrow> [a..<min e c] @ [max a c..<e] = [a..<e]"
  using upt_add_eq_append [of a c "e - c"] by (cases "c \<le> e") (auto simp: min_def max_def)

lemma pieces_from:
  assumes "0 < unat bs" "unat b < unat e" "unat (align bs e) + unat bs < 2 ^ 64"
  shows "unat bs dvd unat c \<Longrightarrow> align bs b \<le> c \<Longrightarrow> unat c \<le> unat (align bs e) + unat bs \<Longrightarrow>
    \<exists>ps. pieces bs b e c = Some ps \<and> list_all (piece_ok bs) ps \<and> concat (map piece_bytes ps) = [max (unat b) (unat c)..<unat e]"
proof (induction "unat (align bs e) + unat bs - unat c" arbitrary: c rule: less_induct)
  case less
  let ?s = "unat bs" and ?e = "unat (align bs e)"
  show ?case
  proof (cases "c \<le> align bs e")
    case False
    then have "?e < unat c" by (simp add: word_le_nat_alt)
    then have "?e + ?s \<le> unat c" using less.prems(1) line_bounds(3) [of ?s "unat e"] unat_align [of bs e]
      by (metis add.commute dvd_diff_nat dvd_imp_le le_add_diff_inverse2 less_imp_le_nat nat_add_left_cancel_le zero_less_diff)
    then have "unat e < unat c" using line_bounds(2) [OF assms(1), of "unat e"] by (simp add: unat_align)
    then show ?thesis using False by (subst pieces.simps) simp
  next
    case True
    define off where "off = (if c = align bs b then ucast (b mod ucast bs) else 0 :: UInt32)"
    define n where "n = (if c = align bs e then ucast (e mod ucast bs) - off else bs - off)"
    note r = piece_words [OF assms(1,2) less.prems(1,2) True, folded off_def, folded n_def]
    have nx: "unat (c + ucast bs) = unat c + ?s" using True assms(3) by (simp add: unat_word_ariths(1) word_le_nat_alt)
    have "?e + ?s - unat (c + ucast bs) < ?e + ?s - unat c" "unat (c + ucast bs) \<le> ?e + ?s" "align bs b \<le> c + ucast bs"
      using nx True assms(1) less.prems(2) by (simp_all add: word_le_nat_alt)
    with less.hyps [of "c + ucast bs"] less.prems(1) nx obtain ps where ps: "pieces bs b e (c + ucast bs) = Some ps" "list_all (piece_ok bs) ps"
      "concat (map piece_bytes ps) = [max (unat b) (unat c + ?s)..<unat e]" by fastforce
    have run: "pieces bs b e c = Some (if c = align bs e \<and> n = 0 then ps else (c, off, n) # ps)"
      using True ps(1) by (subst pieces.simps) (simp only: off_def [symmetric] n_def [symmetric] Let_def if_True Option.bind.simps)
    have "unat b \<le> unat c + ?s"
      using less.prems(2) line_bounds(2) [OF assms(1), of "unat b"] by (simp add: word_le_nat_alt unat_align)
    then have "piece_bytes (c, off, n) @ concat (map piece_bytes ps) = [max (unat b) (unat c)..<unat e]"
      using upt_split [of "max (unat b) (unat c)" "unat c + ?s" "unat e"] r(1,2) ps(3) by (simp add: piece_bytes_def max.absorb2)
    moreover have "piece_bytes (c, off, 0) = []" by (simp add: piece_bytes_def)
    moreover have "piece_ok bs (c, off, n)" if "n \<noteq> 0" using that r(3) less.prems(1) by (simp add: piece_ok_def word_gt_0)
    ultimately show ?thesis using run ps(2) r(4) by auto
  qed
qed

text \<open>An access of at least one byte, away from the end of the address space, is cut into its pieces.\<close>

lemma accessPieces_ok:
  assumes "0 < bs" "0 < n" "unat a + unat n + unat bs < 2 ^ 64"
  shows "\<exists>ps. accessPieces bs a n = Inr ps \<and> list_all (piece_ok bs) ps \<and> concat (map piece_bytes ps) = [unat a..<unat a + unat n]"
proof -
  have pos: "0 < unat bs" "0 < unat n" using assms(1,2) by (simp_all add: word_gt_0 unat_gt_0)
  have e: "unat (a + ucast n) = unat a + unat n" using assms(3) by (simp add: unat_word_ariths(1))
  have le: "unat (align bs a) \<le> unat a" "unat (align bs (a + ucast n)) \<le> unat a + unat n" by (simp_all add: unat_align e)
  have "unat bs dvd unat (align bs a)" unfolding unat_align by (rule line_bounds(3))
  moreover have "unat (align bs a) \<le> unat (align bs (a + ucast n)) + unat bs"
    using line_bounds(2) [OF pos(1), of "unat a + unat n"] le(1) unfolding unat_align e by linarith
  moreover have "unat a < unat (a + ucast n)" "unat (align bs (a + ucast n)) + unat bs < 2 ^ 64" using pos(2) le(2) assms(3) e by linarith+
  ultimately obtain ps where "pieces bs a (a + ucast n) (align bs a) = Some ps" "list_all (piece_ok bs) ps"
    "concat (map piece_bytes ps) = [max (unat a) (unat (align bs a))..<unat (a + ucast n)]"
    using pieces_from [OF pos(1), of a "a + ucast n" "align bs a"] by blast
  then show ?thesis using assms(1) e le(1) by (auto simp: accessPieces_def max_def word_gt_0)
qed

text \<open>A whole line is one piece.\<close>

lemma accessPieces_line:
  assumes "0 < bs" "unat bs dvd unat a" "unat a + 2 * unat bs < 2 ^ 64"
  shows "accessPieces bs a bs = Inr [(a, 0, bs)]"
proof -
  have pos: "0 < unat bs" using assms(1) by (simp add: word_gt_0 unat_gt_0)
  have e1: "unat (a + ucast bs) = unat a + unat bs" using assms(3) by (simp add: unat_word_ariths(1))
  have "unat (a + ucast bs + ucast bs) = unat (a + ucast bs) + unat bs"
    unfolding unat_word_ariths(1) [of "a + ucast bs"] using assms(3) e1 by simp
  note e = e1 this [unfolded e1]
  have al: "align bs a = a" "align bs (a + ucast bs) = a + ucast bs"
    using assms(2) by (simp_all add: word_unat_eq_iff unat_align e)
  have m: "a mod ucast bs = 0" "(a + ucast bs) mod ucast bs = 0" using assms(2) by (simp_all add: word_unat_eq_iff unat_mod e)
  have less: "a \<le> a + ucast bs" "a \<noteq> a + ucast bs" "\<not> a + ucast bs + ucast bs \<le> a + ucast bs"
    using pos e by (auto simp: word_le_nat_alt)
  have "pieces bs a (a + ucast bs) (a + ucast bs + ucast bs) = Some []" using less by (subst pieces.simps) (simp add: al)
  then have "pieces bs a (a + ucast bs) (a + ucast bs) = Some []" using less by (subst pieces.simps) (simp add: al m Let_def)
  then have "pieces bs a (a + ucast bs) a = Some [(a, 0, bs)]" using less by (subst pieces.simps) (simp add: al m Let_def)
  then show ?thesis using assms(1) by (simp add: accessPieces_def al word_gt_0)
qed

text \<open>If the access ends in the last line of the address space, the loop does not end.\<close>

lemma pieces_endless:
  assumes "0 < unat bs" "unat bs dvd 2 ^ 64" "unat (align bs e) + unat bs = 2 ^ 64" "unat bs dvd unat c"
  shows "pieces bs b e c = None"
proof (rule ccontr)
  assume "pieces bs b e c \<noteq> None"
  then obtain ps where "pieces bs b e c = Some ps" by auto
  then have "unat (align bs e) + unat bs = 2 ^ 64 \<and> unat bs dvd 2 ^ 64 \<and> unat bs dvd unat c \<longrightarrow> False"
  proof (rule pieces.raw_induct [where P = "\<lambda>bs b e c ps. unat (align bs e) + unat bs = 2 ^ 64 \<and> unat bs dvd 2 ^ 64 \<and> unat bs dvd unat c \<longrightarrow> False", rotated])
    fix rec :: "UInt32 \<Rightarrow> IntPtr \<Rightarrow> IntPtr \<Rightarrow> IntPtr \<Rightarrow> (IntPtr \<times> UInt32 \<times> UInt32) list option" and bs b e c ps
    assume step: "\<And>bs b e c ps. rec bs b e c = Some ps \<Longrightarrow> unat (align bs e) + unat bs = 2 ^ 64 \<and> unat bs dvd 2 ^ 64 \<and> unat bs dvd unat c \<longrightarrow> False"
      and body: "(if c \<le> align bs e
        then (let curr_offset = (if c = align bs b then ucast (b mod ucast bs) else 0);
                  curr_size = (if c = align bs e then ucast (e mod ucast bs) - curr_offset else bs - curr_offset)
              in Option.bind (rec bs b e (c + ucast bs)) (\<lambda>ps. Some (if c = align bs e \<and> curr_size = 0 then ps else (c, curr_offset, curr_size) # ps)))
        else Some []) = Some ps"
    show "unat (align bs e) + unat bs = 2 ^ 64 \<and> unat bs dvd 2 ^ 64 \<and> unat bs dvd unat c \<longrightarrow> False"
    proof
      assume a: "unat (align bs e) + unat bs = 2 ^ 64 \<and> unat bs dvd 2 ^ 64 \<and> unat bs dvd unat c"
      then have "unat bs dvd 2 ^ 64 - unat c" by (simp add: dvd_diff_nat)
      then have "unat bs \<le> 2 ^ 64 - unat c" by (rule dvd_imp_le) (use unat_lt2p [of c] in simp)
      then have "unat c + unat bs \<le> unat (align bs e) + unat bs" using conjunct1 [OF a] unat_lt2p [of c] by simp
      then have "c \<le> align bs e" by (simp add: word_le_nat_alt)
      with body obtain ps1 where "rec bs b e (c + ucast bs) = Some ps1"
        by (auto simp: Let_def split: Option.bind_splits if_splits)
      from step [OF this] a have "\<not> unat bs dvd unat (c + ucast bs)" by blast
      moreover have "unat bs dvd unat (c + ucast bs)" using a by (simp add: unat_word_ariths(1) dvd_mod)
      ultimately show False by simp
    qed
  qed
  with assms show False by blast
qed

section \<open>What an access keeps\<close>

lemma keeps_onMachine [keeps_rules]: "keeps P f \<Longrightarrow> keeps (\<lambda>s. P (co_machine s)) (onMachine f)"
  by (rule keepsI) (auto simp: onMachine_def result_simps dest: keepsD)

lemma keeps_co: "(\<And>s. co_machine (f s) = co_machine s) \<Longrightarrow> keeps (\<lambda>s. P (co_machine s)) (modA f)"
  by (rule keepsI) (simp add: modA_Inr)

context machine_closed
begin

lemma keeps_accessPiece:
  "(\<And>j. keeps H (net j)) \<Longrightarrow> keeps (\<lambda>s. P (co_machine s)) (accessPiece net core component lk op modeled p acc)"
  unfolding accessPiece_def
  by (cases p; cases acc) (auto intro!: keeps_rules keeps_coreInitiateMemoryAccess)

lemma keeps_reportAccess: "keeps (\<lambda>s. P (co_machine s)) (reportAccess core modeled a n t w)"
  unfolding reportAccess_def Let_def by (cases modeled) (auto intro!: keeps_rules keeps_co)

lemma keeps_incrTotal: "keeps (\<lambda>s. P (co_machine s)) (incrTotalMemoryAccessLatency core t)"
  unfolding incrTotalMemoryAccessLatency_def by (intro keeps_rules keeps_co) simp

theorem keeps_initiateMemoryAccess:
  assumes "\<And>j. keeps H (net j)"
  shows "keeps (\<lambda>s. P (co_machine s)) (initiateMemoryAccess net core component lk op a buf n modeled t)"
  unfolding initiateMemoryAccess_def
  by (intro keeps_rules keeps_clock keeps_reportAccess keeps_incrTotal keeps_accessPiece assms)

theorem keeps_readInstructionMemory:
  assumes "\<And>j. keeps H (net j)"
  shows "keeps (\<lambda>s. P (co_machine s)) (readInstructionMemory net core a n)"
  unfolding readInstructionMemory_def Let_def
  by (intro keeps_rules keeps_co keeps_initiateMemoryAccess assms) simp

theorem keeps_accessMemory:
  assumes "\<And>j. keeps H (net j)"
  shows "keeps (\<lambda>s. P (co_machine s)) (accessMemory net core lk op a buf n modeled t fault)"
  unfolding accessMemory_def Let_def
  by (intro keeps_rules keeps_co keeps_initiateMemoryAccess assms) simp

end

section \<open>Cores at work\<close>

text \<open>
  A core accesses data or fetches an instruction, the machine takes a step of its own, or the performance
  model of a core moves on and is switched on or off.
\<close>

inductive core_step :: "cores \<Rightarrow> cores \<Rightarrow> bool" where
  data: "(\<And>j. activity (net j)) \<Longrightarrow> accessMemory net core lk op a buf n modeled t fault s = Inr (r, s') \<Longrightarrow> core_step s s'"
| fetch: "(\<And>j. activity (net j)) \<Longrightarrow> readInstructionMemory net core a n s = Inr (r, s') \<Longrightarrow> core_step s s'"
| system: "machine_step (co_machine s) m \<Longrightarrow> core_step s (s\<lparr>co_machine := m\<rparr>)"
| time_passes: "core_step s (s\<lparr>co_elapsed_time := (co_elapsed_time s)(core := t), co_perf_enabled := (co_perf_enabled s)(core := b),
    co_shmem_enabled := (co_shmem_enabled s)(core := b')\<rparr>)"

inductive cores_reachable :: "cores \<Rightarrow> cores \<Rightarrow> bool" where
  start: "cores_reachable s s"
| step: "cores_reachable s0 s \<Longrightarrow> core_step s s' \<Longrightarrow> cores_reachable s0 s'"

lemma core_step_inv:
  assumes "core_step s s'" "machine_inv (co_machine s)"
  shows "machine_inv (co_machine s') \<and> wiring (co_machine s') = wiring (co_machine s)"
  using assms
proof (induction rule: core_step.induct)
  case (data net core lk op a buf n modeled t fault s r s')
  note run = data(2)
  show ?case
    using keepsD [OF minv.keeps_accessMemory run data(3)] keepsD [OF wired.keeps_accessMemory run refl] activity_keeps [OF data(1)] by blast
next
  case (fetch net core a n s r s')
  note run = fetch(2)
  show ?case
    using keepsD [OF minv.keeps_readInstructionMemory run fetch(3)] keepsD [OF wired.keeps_readInstructionMemory run refl]
      activity_keeps [OF fetch(1)] by blast
qed (simp_all add: machine_step_inv)

theorem cores_reachable_inv:
  "cores_reachable s0 s \<Longrightarrow> machine_inv (co_machine s0) \<Longrightarrow> machine_inv (co_machine s) \<and> wiring (co_machine s) = wiring (co_machine s0)"
  by (induction rule: cores_reachable.induct) (auto dest: core_step_inv)

section \<open>Instruction fetches\<close>

text \<open>
  A fetch within the line fetched last costs a hit and leaves the caches alone. Every other fetch reads one
  line: the line of its first byte, or the next one if the first is the line fetched last.
\<close>

lemma fetch_same_line:
  assumes "a AND NOT (ucast (mc_block_size (co_machine s)) - 1) = co_icache_last_block s core"
    "(a + ucast n - 1) AND NOT (ucast (mc_block_size (co_machine s)) - 1) = co_icache_last_block s core"
  shows "readInstructionMemory net core a n s = Inr ((where_component L1_ICACHE, co_l1_hit_latency s core), s)"
  using assms by (simp add: readInstructionMemory_def Let_def bindA_def getA_def retA_def)

lemma reports_machine:
  "reportAccess core modeled a n x y s = Inr (u, s') \<Longrightarrow> co_machine s' = co_machine s"
  "incrTotalMemoryAccessLatency core x s = Inr (u, s') \<Longrightarrow> co_machine s' = co_machine s"
  by (cases modeled; auto simp: reportAccess_def action_simps split: if_splits)
    (auto simp: incrTotalMemoryAccessLatency_def action_simps split: if_splits)

text \<open>The only piece of an access to a whole line.\<close>

lemma initiate_line:
  assumes "initiateMemoryAccess net core component lk op a buf bs modeled t s = Inr ((w, l, out), s')"
    "bs = mc_block_size (co_machine s)" "0 < bs" "unat bs dvd unat a" "unat a + 2 * unat bs < 2 ^ 64"
  obtains m out1 m' where "coreInitiateMemoryAccess net core component lk op a 0 (buf_piece 0 (unat bs) buf) bs modeled m = Inr ((w, out1), m')"
    "m = (co_machine s)\<lparr>mc_hier := (mc_hier (co_machine s))\<lparr>h_clock := set_clock core USER_THREAD (if t = MaxTime then co_elapsed_time s core else t) (h_clock (mc_hier (co_machine s)))\<rparr>\<rparr>"
    "co_machine s' = m'"
proof -
  have "bs \<noteq> 0" using assms(3) by (simp add: word_gt_0)
  show ?thesis
    using assms(1,2) \<open>bs \<noteq> 0\<close> that accessPieces_line [OF assms(3-5)]
    by (auto simp: initiateMemoryAccess_def action_simps accessPiece_def onMachine_def mm_setTime_def mm_now_def result_simps worse_hit_def
        dest!: reports_machine split: if_splits)
qed

end
