(* ===== verification/Moving_Average.thy ===== *)
theory Moving_Average
  imports Contention
begin

text \<open>
  \<open>misc/modulo_num.cc\<close> and \<open>misc/moving_average.h\<close>: averages over the last values, kept in a ring
  buffer with one slot more than the window has values. The abstract value of an average is the list
  of the values in its window, oldest first.
\<close>

section \<open>ModuloNum\<close>

record modulo_num =
  mn_value :: UInt32
  mn_max_value :: UInt32

definition ModuloNum_new :: "UInt32 \<Rightarrow> UInt32 \<Rightarrow> modulo_num" where
  "ModuloNum_new max_value v = \<lparr>mn_value = v, mn_max_value = max_value\<rparr>"

definition mn_add_num :: "modulo_num \<Rightarrow> modulo_num \<Rightarrow> modulo_num result" where
  "mn_add_num a num =
     check (mn_max_value a = mn_max_value num) (Assert ''m_max_value == num.getMaxValue()'')
    (check (mn_max_value a \<noteq> 0) (Undefined ''division by zero'')
       (Inr (ModuloNum_new (mn_max_value a) ((mn_value a + mn_value num) mod mn_max_value a))))"

definition mn_sub_num :: "modulo_num \<Rightarrow> modulo_num \<Rightarrow> modulo_num result" where
  "mn_sub_num a num =
     check (mn_max_value a = mn_max_value num) (Assert ''m_max_value == num.getMaxValue()'')
       (Inr (ModuloNum_new (mn_max_value a)
          (if mn_value num \<le> mn_value a then mn_value a - mn_value num else mn_max_value a - mn_value num + mn_value a)))"

definition mn_add :: "modulo_num \<Rightarrow> UInt32 \<Rightarrow> modulo_num result" where
  "mn_add a v =
     check (mn_max_value a \<noteq> 0) (Undefined ''division by zero'') (mn_add_num a (ModuloNum_new (mn_max_value a) (v mod mn_max_value a)))"

definition mn_sub :: "modulo_num \<Rightarrow> UInt32 \<Rightarrow> modulo_num result" where
  "mn_sub a v =
     check (mn_max_value a \<noteq> 0) (Undefined ''division by zero'') (mn_sub_num a (ModuloNum_new (mn_max_value a) (v mod mn_max_value a)))"

section \<open>MovingAverage\<close>

datatype avg_type = ARITHMETIC_MEAN | GEOMETRIC_MEAN | MEDIAN

definition parseAvgType :: "string \<Rightarrow> avg_type result" where
  "parseAvgType s =
     (if s = ''arithmetic_mean'' then Inr ARITHMETIC_MEAN
      else if s = ''geometric_mean'' then Inr GEOMETRIC_MEAN
      else if s = ''median'' then Inr MEDIAN
      else Inl (Print_Error ''Unsupported Average Type''))"

record moving_average =
  ma_type :: avg_type
  ma_num_list :: "time list"
  ma_max_window_size :: UInt32
  ma_front :: modulo_num
  ma_back :: modulo_num
  ma_sum :: time

definition createAvgType :: "avg_type \<Rightarrow> UInt32 \<Rightarrow> moving_average" where
  "createAvgType ty n =
     \<lparr>ma_type = ty, ma_num_list = replicate (unat (n + 1)) 0, ma_max_window_size = n,
      ma_front = ModuloNum_new (n + 1) 0, ma_back = ModuloNum_new (n + 1) 0, ma_sum = 0\<rparr>"

definition addToWindow :: "time \<Rightarrow> moving_average \<Rightarrow> moving_average result" where
  "addToWindow next_num m =
     check (unat (mn_value (ma_back m)) < length (ma_num_list m)) (Undefined ''index out of range'')
    (bindE (mn_add (ma_back m) 1) (\<lambda>back.
       (let m1 = m\<lparr>ma_num_list := (ma_num_list m)[unat (mn_value (ma_back m)) := next_num], ma_back := back\<rparr>
        in if back = ma_front m then mapE (\<lambda>front. m1\<lparr>ma_front := front\<rparr>) (mn_add (ma_front m) 1) else Inr m1)))"

definition window_size :: "moving_average \<Rightarrow> UInt32 result" where
  "window_size m = mapE mn_value (mn_sub_num (ma_back m) (ma_front m))"

definition ma_update :: "time \<Rightarrow> moving_average \<Rightarrow> moving_average result" where
  "ma_update next_num m =
     (if ma_type m = ARITHMETIC_MEAN
      then bindE (window_size m) (\<lambda>curr_window_size.
           bindE (if curr_window_size = ma_max_window_size m
                  then mapE (\<lambda>oldest. ma_sum m - oldest) (at (ma_num_list m) (unat (mn_value (ma_front m))))
                  else Inr (ma_sum m)) (\<lambda>sum1.
             addToWindow next_num (m\<lparr>ma_sum := sum1 + next_num\<rparr>)))
      else addToWindow next_num m)"

text \<open>
  The geometric mean multiplies the values and takes a root in floating point; \<open>root\<close> is that
  function. The loop runs over the indices from the front to the back of the ring.
\<close>

definition ring_indices :: "moving_average \<Rightarrow> nat list" where
  "ring_indices m =
     (let n = length (ma_num_list m); f = unat (mn_value (ma_front m)); b = unat (mn_value (ma_back m))
      in map (\<lambda>k. (f + k) mod n) [0..<(if f \<le> b then b - f else n - f + b)])"

definition ma_compute :: "(time \<Rightarrow> UInt32 \<Rightarrow> time) \<Rightarrow> moving_average \<Rightarrow> time result" where
  "ma_compute root m =
     bindE (window_size m) (\<lambda>curr_window_size.
       case ma_type m of
         ARITHMETIC_MEAN \<Rightarrow> check (curr_window_size \<noteq> 0) (Undefined ''division by zero'') (Inr (ma_sum m div ucast curr_window_size))
       | GEOMETRIC_MEAN \<Rightarrow> Inr (root (foldl (\<lambda>p i. p * ma_num_list m ! i) 1 (ring_indices m)) curr_window_size)
       | MEDIAN \<Rightarrow> bindE (mn_add (ma_front m) (curr_window_size div 2)) (\<lambda>i. at (ma_num_list m) (unat (mn_value i))))"

definition ma_compute_next :: "(time \<Rightarrow> UInt32 \<Rightarrow> time) \<Rightarrow> time \<Rightarrow> moving_average \<Rightarrow> (time \<times> moving_average) result" where
  "ma_compute_next root next_num m = bindE (ma_update next_num m) (\<lambda>m'. mapE (\<lambda>v. (v, m')) (ma_compute root m'))"

section \<open>The window\<close>

definition ring :: "'a list \<Rightarrow> nat \<Rightarrow> nat \<Rightarrow> 'a list" where
  "ring xs f s = map (\<lambda>k. xs ! ((f + k) mod length xs)) [0..<s]"

lemma mod_shift_inj:
  assumes "(f + i) mod n = (f + j) mod n" "i < n" "j < (n :: nat)"
  shows "i = j"
proof -
  have less: "a \<ge> b" if "(f + a) mod n = (f + b) mod n" "b < n" for a b
  proof (rule ccontr)
    assume "\<not> b \<le> a"
    then have "n dvd (f + b) - (f + a)" using that(1) mod_eq_dvd_iff_nat [of "f + a" "f + b" n] by simp
    with \<open>\<not> b \<le> a\<close> that(2) show False by (auto dest: dvd_imp_le)
  qed
  from less [OF assms(1,3)] less [OF assms(1) [symmetric] assms(2)] show ?thesis by simp
qed

lemma ring_grows:
  assumes "s < length xs" "b = (f + s) mod length xs"
  shows "ring (xs[b := x]) f (Suc s) = ring xs f s @ [x]"
proof -
  have "(xs[b := x]) ! ((f + k) mod length xs) = xs ! ((f + k) mod length xs)" if "k < s" for k
  proof -
    have "b \<noteq> (f + k) mod length xs" using that assms mod_shift_inj [of f k "length xs" s] by auto
    then show ?thesis by (rule nth_list_update_neq)
  qed
  moreover have "b < length xs" unfolding assms(2) by (rule mod_less_divisor) (use assms(1) in linarith)
  ultimately show ?thesis using assms(2) by (simp add: ring_def)
qed

lemma ring_Suc: "ring xs f (Suc s) = xs ! (f mod length xs) # ring xs ((f + 1) mod length xs) s"
proof -
  have "[0..<Suc s] = 0 # map Suc [0..<s]" by (simp add: upt_conv_Cons map_Suc_upt)
  then show ?thesis by (simp add: ring_def mod_add_left_eq)
qed

text \<open>The invariant of the ring and the values in the window.\<close>

definition ma_inv :: "moving_average \<Rightarrow> bool" where
  "ma_inv m \<longleftrightarrow> 0 < ma_max_window_size m \<and> unat (ma_max_window_size m) < 2 ^ 31 \<and>
     mn_max_value (ma_front m) = ma_max_window_size m + 1 \<and> mn_max_value (ma_back m) = ma_max_window_size m + 1 \<and>
     length (ma_num_list m) = unat (ma_max_window_size m) + 1 \<and>
     unat (mn_value (ma_front m)) < length (ma_num_list m) \<and> unat (mn_value (ma_back m)) < length (ma_num_list m)"

definition used :: "moving_average \<Rightarrow> nat" where
  "used m = (let f = unat (mn_value (ma_front m)); b = unat (mn_value (ma_back m)) in if f \<le> b then b - f else length (ma_num_list m) - f + b)"

definition window :: "moving_average \<Rightarrow> time list" where
  "window m = ring (ma_num_list m) (unat (mn_value (ma_front m))) (used m)"

lemma ma_size:
  assumes "ma_inv m"
  shows "unat (ma_max_window_size m + 1) = length (ma_num_list m)" "2 \<le> length (ma_num_list m)" "length (ma_num_list m) \<le> 2 ^ 31"
  using assms by (auto simp: ma_inv_def unat_word_ariths(1) word_gt_0_no unat_gt_0 word_greater_zero_iff Suc_le_eq)

lemma mn_add_ok:
  assumes "unat (mn_max_value a) = n" "0 < n" "n \<le> 2 ^ 31" "unat (mn_value a) < n" "unat v < n"
  obtains w where "mn_add a v = Inr (ModuloNum_new (mn_max_value a) w)" "unat w = (unat (mn_value a) + unat v) mod n"
proof -
  have "mn_max_value a \<noteq> 0" using assms(1,2) by auto
  moreover have "unat ((mn_value a + v mod mn_max_value a) mod mn_max_value a) = (unat (mn_value a) + unat v) mod n"
    using assms by (simp add: unat_mod unat_word_ariths(1))
  ultimately show ?thesis using that by (simp add: mn_add_def mn_add_num_def ModuloNum_new_def)
qed

lemma window_size_ok: "ma_inv m \<Longrightarrow> \<exists>w. window_size m = Inr w \<and> unat w = used m"
proof -
  assume inv: "ma_inv m"
  let ?f = "mn_value (ma_front m)" and ?b = "mn_value (ma_back m)" and ?n = "ma_max_window_size m + 1"
  have n: "unat ?n = length (ma_num_list m)" "unat ?f < unat ?n" "unat ?b < unat ?n"
    "mn_max_value (ma_back m) = ?n" "mn_max_value (ma_front m) = ?n"
    using ma_size [OF inv] inv by (simp_all add: ma_inv_def)
  have sub: "unat (?n - ?f) = unat ?n - unat ?f" using n(2) by (simp add: unat_sub word_le_nat_alt)
  show ?thesis
  proof (cases "?f \<le> ?b")
    case True
    then show ?thesis using n by (simp add: window_size_def mn_sub_num_def ModuloNum_new_def used_def word_le_nat_alt unat_sub)
  next
    case False
    then have "unat (?n - ?f + ?b) = unat ?n - unat ?f + unat ?b"
      using n(2) ma_size [OF inv] by (simp add: unat_word_ariths(1) sub word_le_nat_alt)
    with False n show ?thesis by (simp add: window_size_def mn_sub_num_def ModuloNum_new_def used_def word_le_nat_alt)
  qed
qed

lemma addToWindow_ok:
  assumes "ma_inv m"
  obtains m' where "addToWindow x m = Inr m'" "ma_inv m'" "ma_type m' = ma_type m" "ma_max_window_size m' = ma_max_window_size m"
    "ma_sum m' = ma_sum m" "window m' = (if used m = unat (ma_max_window_size m) then tl (window m) else window m) @ [x]"
proof -
  let ?xs = "ma_num_list m" and ?f = "unat (mn_value (ma_front m))" and ?b = "unat (mn_value (ma_back m))"
  let ?n = "length (ma_num_list m)"
  have n: "2 \<le> ?n" "?n \<le> 2 ^ 31" "?f < ?n" "?b < ?n" "?n = unat (ma_max_window_size m) + 1"
    and mx: "unat (mn_max_value (ma_back m)) = ?n" "unat (mn_max_value (ma_front m)) = ?n" "mn_max_value (ma_back m) = mn_max_value (ma_front m)"
    using ma_size [OF assms] assms by (simp_all add: ma_inv_def)
  obtain w where bk: "mn_add (ma_back m) 1 = Inr (ModuloNum_new (mn_max_value (ma_back m)) w)" "unat w = (?b + 1) mod ?n"
    by (rule mn_add_ok [OF mx(1), of 1]) (use n in simp_all)
  obtain v where front: "mn_add (ma_front m) 1 = Inr (ModuloNum_new (mn_max_value (ma_front m)) v)" "unat v = (?f + 1) mod ?n"
    by (rule mn_add_ok [OF mx(2), of 1]) (use n in simp_all)
  have b: "?b = (?f + used m) mod ?n" and u: "used m < ?n" using n(1-4) by (auto simp: used_def Let_def)
  have grown: "ring (?xs[?b := x]) ?f (Suc (used m)) = window m @ [x]"
    unfolding window_def by (rule ring_grows [OF u b])
  define m1 where "m1 = m\<lparr>ma_num_list := ?xs[?b := x], ma_back := ModuloNum_new (mn_max_value (ma_back m)) w\<rparr>"
  have w: "ModuloNum_new (mn_max_value (ma_back m)) w = ma_front m \<longleftrightarrow> unat w = ?f"
    using mx(3) by (cases "ma_front m") (auto simp: ModuloNum_new_def word_unat_eq_iff)
  have full: "unat w = ?f \<longleftrightarrow> used m = ?n - 1"
  proof
    assume "unat w = ?f"
    then have "(?f + (used m + 1)) mod ?n = (?f + 0) mod ?n" using b bk(2) n(3) by (simp add: mod_Suc_eq)
    then show "used m = ?n - 1" using mod_shift_inj [of ?f "used m + 1" ?n 0] u n(1) by fastforce
  next
    assume "used m = ?n - 1"
    then have all: "?f + used m + 1 = ?f + ?n" using n(1) by simp
    have "(?f + used m + 1) mod ?n = ?f" unfolding all using n(3) by simp
    then show "unat w = ?f" using b bk(2) by (simp add: mod_Suc_eq)
  qed
  have run: "addToWindow x m = (if unat w = ?f then Inr (m1\<lparr>ma_front := ModuloNum_new (mn_max_value (ma_front m)) v\<rparr>) else Inr m1)"
    using n(4) bk(1) front(1) w by (simp add: addToWindow_def Let_def m1_def)
  have inv: "ma_inv m1" "ma_inv (m1\<lparr>ma_front := ModuloNum_new (mn_max_value (ma_front m)) v\<rparr>)"
    using assms bk(2) front(2) n by (simp_all add: ma_inv_def m1_def ModuloNum_new_def)
  show ?thesis
  proof (cases "unat w = ?f")
    case True
    let ?m = "m1\<lparr>ma_front := ModuloNum_new (mn_max_value (ma_front m)) v\<rparr>"
    have "used ?m = ?n - 1"
      using n(1,3) True front(2) by (cases "?f + 1 = ?n") (auto simp: used_def m1_def ModuloNum_new_def Let_def)
    then have "window ?m = ring (?xs[?b := x]) ((?f + 1) mod ?n) (used m)"
      using True full front(2) by (simp add: window_def m1_def ModuloNum_new_def)
    then have "window m @ [x] = ?xs[?b := x] ! (?f mod ?n) # window ?m" using grown ring_Suc [of "?xs[?b := x]" ?f "used m"] by simp
    then have "window ?m = tl (window m @ [x])" by (metis list.sel(3))
    moreover have "window m \<noteq> []" using True full n(1) by (simp add: window_def ring_def)
    ultimately have "window ?m = tl (window m) @ [x]" by simp
    then show ?thesis using that [of ?m] run inv(2) True full n(5) by (simp add: m1_def)
  next
    case False
    have "used m1 = Suc (used m)"
      using False full n bk(2) by (auto simp: used_def m1_def ModuloNum_new_def Let_def mod_Suc split: if_splits)
    then have "window m1 = window m @ [x]" using grown by (simp add: window_def m1_def)
    then show ?thesis using that [of m1] run inv(1) False full n(5) by (simp add: m1_def)
  qed
qed

section \<open>Averages over the last values\<close>

definition slide :: "nat \<Rightarrow> time \<Rightarrow> time list \<Rightarrow> time list" where
  "slide n x ws = (if length ws = n then tl ws else ws) @ [x]"

definition sum_ok :: "moving_average \<Rightarrow> bool" where
  "sum_ok m \<longleftrightarrow> (ma_type m = ARITHMETIC_MEAN \<longrightarrow> ma_sum m = sum_list (window m))"

lemma window_frame [simp]: "used (m\<lparr>ma_sum := t\<rparr>) = used m" "window (m\<lparr>ma_sum := t\<rparr>) = window m"
  by (simp_all add: used_def window_def Let_def)

lemma window_length: "length (window m) = used m"
  by (simp add: window_def ring_def)

lemma window_hd: "ma_inv m \<Longrightarrow> window m \<noteq> [] \<Longrightarrow> hd (window m) = ma_num_list m ! unat (mn_value (ma_front m))"
  by (cases "used m") (simp_all add: window_def ring_Suc ma_inv_def, simp add: ring_def)

lemma ma_update_ok:
  assumes "ma_inv m" "sum_ok m"
  obtains m' where "ma_update x m = Inr m'" "ma_inv m'" "sum_ok m'" "ma_type m' = ma_type m" "ma_max_window_size m' = ma_max_window_size m"
    "window m' = slide (unat (ma_max_window_size m)) x (window m)"
proof (cases "ma_type m = ARITHMETIC_MEAN")
  case False
  obtain m' where "addToWindow x m = Inr m'" "ma_inv m'" "ma_type m' = ma_type m" "ma_max_window_size m' = ma_max_window_size m"
    "window m' = (if used m = unat (ma_max_window_size m) then tl (window m) else window m) @ [x]"
    by (rule addToWindow_ok [OF assms(1)])
  with that [of m'] False show ?thesis by (simp add: ma_update_def sum_ok_def slide_def window_length)
next
  case True
  let ?n = "unat (ma_max_window_size m)"
  obtain w where w: "window_size m = Inr w" "unat w = used m" using window_size_ok [OF assms(1)] by blast
  define rest where "rest = (if used m = ?n then tl (window m) else window m)"
  have f: "unat (mn_value (ma_front m)) < length (ma_num_list m)" and n: "0 < ?n"
    using assms(1) by (simp_all add: ma_inv_def unat_gt_0 word_gt_0)
  have "w = ma_max_window_size m \<longleftrightarrow> used m = ?n" using w(2) by (metis word_unat_eq_iff)
  moreover have "ma_sum m - ma_num_list m ! unat (mn_value (ma_front m)) = sum_list (tl (window m))" if "used m = ?n"
  proof -
    have "window m \<noteq> []" using that n window_length [of m] by auto
    then show ?thesis using True assms(2) window_hd [OF assms(1)] by (cases "window m") (auto simp: sum_ok_def)
  qed
  ultimately have run: "ma_update x m = addToWindow x (m\<lparr>ma_sum := sum_list rest + x\<rparr>)"
    using True w(1) f assms(2) by (auto simp: ma_update_def rest_def at_def sum_ok_def)
  have inv: "ma_inv (m\<lparr>ma_sum := sum_list rest + x\<rparr>)" using assms(1) by (simp add: ma_inv_def)
  obtain m' where m': "addToWindow x (m\<lparr>ma_sum := sum_list rest + x\<rparr>) = Inr m'" "ma_inv m'" "ma_type m' = ma_type m" "ma_max_window_size m' = ma_max_window_size m"
    "ma_sum m' = sum_list rest + x" "window m' = rest @ [x]"
    by (rule addToWindow_ok [OF inv, of x]) (simp add: rest_def)
  show ?thesis
    by (rule that [of m']) (use m' run in \<open>simp_all add: sum_ok_def slide_def window_length rest_def\<close>)
qed

lemma createAvgType_ok:
  assumes "0 < n" "unat n < 2 ^ 31"
  shows "ma_inv (createAvgType ty n)" "window (createAvgType ty n) = []" "sum_ok (createAvgType ty n)"
  using assms by (auto simp: ma_inv_def createAvgType_def ModuloNum_new_def unat_word_ariths(1) window_def used_def ring_def sum_ok_def)

text \<open>After any sequence of updates the window has the last values of the sequence.\<close>

fun ma_updates :: "time list \<Rightarrow> moving_average \<Rightarrow> moving_average result" where
  "ma_updates [] m = Inr m"
| "ma_updates (x # xs) m = bindE (ma_update x m) (ma_updates xs)"

lemma slide_suffix: "length ws \<le> n \<Longrightarrow> 0 < n \<Longrightarrow> slide n x ws = drop (length ws + 1 - n) (ws @ [x])"
  by (cases ws) (auto simp: slide_def)

lemma drop_suffix:
  assumes "length ws \<le> n" "0 < n" "us = drop (length ws + 1 - n) (ws @ [x])"
  shows "drop (length us + length xs - n) (us @ xs) = drop (length ws + length (x # xs) - n) (ws @ x # xs)"
proof -
  let ?j = "length ws + 1 - n"
  have "?j \<le> length (ws @ [x])" by simp
  then have us: "us @ xs = drop ?j (ws @ x # xs)" using assms(3) by (metis append.assoc append_Cons append_Nil diff_is_0_eq' drop_0 drop_append)
  have j: "length us + length xs - n + ?j = length ws + length (x # xs) - n" using assms by auto
  show ?thesis unfolding us drop_drop j ..
qed

lemma ma_updates_ok:
  assumes "ma_inv m" "sum_ok m" "length (window m) \<le> unat (ma_max_window_size m)"
  shows "\<exists>m'. ma_updates xs m = Inr m' \<and> ma_inv m' \<and> sum_ok m' \<and> ma_type m' = ma_type m \<and>
    window m' = drop (length (window m) + length xs - unat (ma_max_window_size m)) (window m @ xs)"
  using assms
proof (induction xs arbitrary: m)
  case Nil
  then show ?case by simp
next
  case (Cons x xs)
  let ?n = "unat (ma_max_window_size m)"
  obtain m1 where m1: "ma_update x m = Inr m1" "ma_inv m1" "sum_ok m1" "ma_type m1 = ma_type m" "ma_max_window_size m1 = ma_max_window_size m"
    "window m1 = slide ?n x (window m)" by (rule ma_update_ok [OF Cons.prems(1,2)])
  have n: "0 < ?n" using Cons.prems(1) by (simp add: ma_inv_def unat_gt_0 word_gt_0)
  then have w: "window m1 = drop (length (window m) + 1 - ?n) (window m @ [x])" using m1(6) slide_suffix [OF Cons.prems(3)] by simp
  then have "length (window m1) \<le> ?n" using Cons.prems(3) n by auto
  with Cons.IH [OF m1(2,3)] m1(5) obtain m' where m': "ma_updates xs m1 = Inr m'" "ma_inv m'" "sum_ok m'" "ma_type m' = ma_type m1"
    "window m' = drop (length (window m1) + length xs - ?n) (window m1 @ xs)" by auto
  have "window m' = drop (length (window m) + length (x # xs) - ?n) (window m @ x # xs)"
    using m'(5) drop_suffix [OF Cons.prems(3) n w, of xs] by simp
  with m' m1 show ?case by simp
qed

lemma mean_ok:
  assumes "ma_inv m" "sum_ok m" "ma_type m = ARITHMETIC_MEAN" "window m \<noteq> []"
  shows "ma_compute root m = Inr (sum_list (window m) div of_nat (length (window m)))"
proof -
  obtain w where w: "window_size m = Inr w" "unat w = used m" using window_size_ok [OF assms(1)] by blast
  have "ucast w = (of_nat (used m) :: time)" by (simp flip: w(2))
  moreover have "w \<noteq> 0" using w(2) assms(4) window_length [of m] by auto
  ultimately show ?thesis using w(1) assms(2,3) by (simp add: ma_compute_def sum_ok_def window_length)
qed

text \<open>The median is the value in the middle of the window, whatever the order of the values is.\<close>

lemma median_ok:
  assumes "ma_inv m" "ma_type m = MEDIAN" "window m \<noteq> []"
  shows "ma_compute root m = Inr (window m ! (length (window m) div 2))"
proof -
  let ?n = "length (ma_num_list m)"
  obtain w where w: "window_size m = Inr w" "unat w = used m" using window_size_ok [OF assms(1)] by blast
  have inv: "unat (mn_max_value (ma_front m)) = ?n" "0 < ?n" "?n \<le> 2 ^ 31" "unat (mn_value (ma_front m)) < ?n" "unat (mn_value (ma_back m)) < ?n"
    using assms(1) ma_size [OF assms(1)] by (simp_all add: ma_inv_def)
  have half: "unat (w div 2) = used m div 2" using w(2) by (simp add: unat_div)
  have u: "used m < ?n" using inv(4,5) by (auto simp: used_def Let_def)
  obtain v where "mn_add (ma_front m) (w div 2) = Inr (ModuloNum_new (mn_max_value (ma_front m)) v)"
    "unat v = (unat (mn_value (ma_front m)) + unat (w div 2)) mod ?n"
    by (rule mn_add_ok [OF inv(1-4), of "w div 2"]) (use half u in simp)
  moreover have "used m div 2 < used m" using assms(3) window_length [of m] by (cases "used m") auto
  ultimately show ?thesis
    using w(1) half inv(2) assms(2) by (simp add: ma_compute_def ModuloNum_new_def at_def window_length window_def ring_def)
qed

end
