(* ===== verification/Queue_Models.thy ===== *)
theory Queue_Models
  imports Moving_Average
begin

text \<open>
  \<open>performance_model/queue_model*.cc\<close>: how long a request waits for a shared resource. The basic
  model remembers when the resource is free, the contention model is one unit of a contention model,
  the history list keeps the intervals in which the resource is free, and the windowed M/G/1 model
  averages over a time window.
\<close>

section \<open>QueueModelBasic\<close>

record queue_basic =
  qb_queue_time :: time
  qb_moving_average :: "moving_average option"

definition QueueModelBasic_new :: "bool \<Rightarrow> UInt32 \<Rightarrow> string \<Rightarrow> queue_basic result" where
  "QueueModelBasic_new moving_avg_enabled moving_avg_window_size moving_avg_type_str =
     (if moving_avg_enabled
      then mapE (\<lambda>ty. \<lparr>qb_queue_time = 0, qb_moving_average = Some (createAvgType ty moving_avg_window_size)\<rparr>) (parseAvgType moving_avg_type_str)
      else Inr \<lparr>qb_queue_time = 0, qb_moving_average = None\<rparr>)"

definition qb_computeQueueDelay :: "(time \<Rightarrow> UInt32 \<Rightarrow> time) \<Rightarrow> time \<Rightarrow> time \<Rightarrow> queue_basic \<Rightarrow> (time \<times> queue_basic) result" where
  "qb_computeQueueDelay root pkt_time processing_time q =
     bindE (case qb_moving_average q of
              None \<Rightarrow> Inr (pkt_time, None)
            | Some m \<Rightarrow> mapE (\<lambda>(r, m'). (r, Some m')) (ma_compute_next root pkt_time m)) (\<lambda>(ref_time, avg).
       (let queue_delay = (if qb_queue_time q > ref_time then qb_queue_time q - ref_time else 0)
        in Inr (queue_delay, \<lparr>qb_queue_time = max (qb_queue_time q) ref_time + processing_time, qb_moving_average = avg\<rparr>)))"

section \<open>QueueModelContention\<close>

definition QueueModelContention_new :: "nat \<Rightarrow> contention" where
  "QueueModelContention_new num_outstanding = ContentionModel_new num_outstanding"

definition qc_computeQueueDelay :: "time \<Rightarrow> time \<Rightarrow> contention \<Rightarrow> time \<times> contention" where
  "qc_computeQueueDelay pkt_time processing_time c =
     (let (t_complete, c') = getCompletionTime pkt_time processing_time 0 c
      in (t_complete - pkt_time - processing_time, c'))"

section \<open>QueueModelHistoryList\<close>

record history_list =
  hl_min_processing_time :: time
  hl_max_free_interval_list_size :: UInt32
  hl_free_interval_list :: "(time \<times> time) list"
  hl_utilized_time :: time
  hl_total_queue_delay :: time
  hl_average_delay :: moving_average
  hl_analytical_model_enabled :: bool
  hl_total_requests :: UInt64
  hl_total_requests_using_analytical_model :: UInt64

definition QueueModelHistoryList_new :: "time \<Rightarrow> bool \<Rightarrow> UInt32 \<Rightarrow> history_list" where
  "QueueModelHistoryList_new min_processing_time analytical_model_enabled max_list_size =
     \<lparr>hl_min_processing_time = min_processing_time, hl_max_free_interval_list_size = max_list_size,
      hl_free_interval_list = [(0, push_bit 63 1)], hl_utilized_time = 0, hl_total_queue_delay = 0,
      hl_average_delay = createAvgType ARITHMETIC_MEAN max_list_size, hl_analytical_model_enabled = analytical_model_enabled,
      hl_total_requests = 0, hl_total_requests_using_analytical_model = 0\<rparr>"

text \<open>The search through the free intervals; \<open>None\<close> if no interval serves the request.\<close>

fun find_interval :: "time \<Rightarrow> time \<Rightarrow> time \<Rightarrow> (time \<times> time) list \<Rightarrow> (time \<times> (time \<times> time) list) option" where
  "find_interval least pkt_time processing_time [] = None"
| "find_interval least pkt_time processing_time ((lo, hi) # rest) =
     (if lo \<le> pkt_time \<and> pkt_time + processing_time \<le> hi
      then Some (0, (if least \<le> pkt_time - lo then [(lo, pkt_time)] else []) @
                    (if least \<le> hi - (pkt_time + processing_time) then [(pkt_time + processing_time, hi)] else []) @ rest)
      else if pkt_time < lo
      then Some (lo - pkt_time, (if least \<le> hi - (lo + processing_time) then [(lo + processing_time, hi)] else []) @ rest)
      else map_option (\<lambda>(d, ivs). (d, (lo, hi) # ivs)) (find_interval least pkt_time processing_time rest))"

definition computeUsingHistoryList :: "time \<Rightarrow> time \<Rightarrow> history_list \<Rightarrow> (time \<times> history_list) result" where
  "computeUsingHistoryList pkt_time processing_time q =
     check (length (hl_free_interval_list q) \<le> unat (hl_max_free_interval_list_size q)) (Assert ''Free Interval list size'')
    (let (queue_delay, ivs) =
           (case find_interval (hl_min_processing_time q) pkt_time processing_time (hl_free_interval_list q) of
              None \<Rightarrow> (MaxTime, hl_free_interval_list q) | Some r \<Rightarrow> r)
     in check (queue_delay \<noteq> MaxTime) (Assert ''free interval not found'')
       (Inr (queue_delay,
             q\<lparr>hl_free_interval_list := (if unat (hl_max_free_interval_list_size q) < length ivs then tl ivs else ivs)\<rparr>)))"

definition hl_computeQueueDelay :: "(time \<Rightarrow> UInt32 \<Rightarrow> time) \<Rightarrow> time \<Rightarrow> time \<Rightarrow> history_list \<Rightarrow> (time \<times> history_list) result" where
  "hl_computeQueueDelay root pkt_time processing_time q =
     check (1 \<le> length (hl_free_interval_list q)) (Assert ''Free Interval list size < 1'')
    (bindE (if hl_analytical_model_enabled q \<and> pkt_time + processing_time \<le> fst (hd (hl_free_interval_list q))
            then mapE (\<lambda>d. (d, q\<lparr>hl_total_requests_using_analytical_model := hl_total_requests_using_analytical_model q + 1\<rparr>))
                   (ma_compute root (hl_average_delay q))
            else bindE (computeUsingHistoryList pkt_time processing_time q) (\<lambda>(d, q1).
                   mapE (\<lambda>a. (d, q1\<lparr>hl_average_delay := a\<rparr>)) (ma_update d (hl_average_delay q1)))) (\<lambda>(queue_delay, q2).
       Inr (queue_delay, q2\<lparr>hl_utilized_time := hl_utilized_time q2 + processing_time, hl_total_requests := hl_total_requests q2 + 1,
                            hl_total_queue_delay := hl_total_queue_delay q2 + queue_delay\<rparr>)))"

section \<open>QueueModelWindowedMG1\<close>

text \<open>
  The window is a multimap from arrival to service times, kept in arrival order. The delay itself is
  computed in floating point from the number of arrivals and the two sums; \<open>estimate\<close> is that
  function, and the argument \<open>global_time\<close> is the time of the barrier.
\<close>

record windowed_mg1 =
  wm_window_size :: time
  wm_window :: "(time \<times> time) list"
  wm_num_arrivals :: UInt64
  wm_service_time_sum :: UInt64
  wm_service_time_sum2 :: UInt64
  wm_total_requests :: UInt64
  wm_total_utilized_time :: time
  wm_total_queue_delay :: time

definition QueueModelWindowedMG1_new :: "time \<Rightarrow> windowed_mg1" where
  "QueueModelWindowedMG1_new w =
     \<lparr>wm_window_size = w, wm_window = [], wm_num_arrivals = 0, wm_service_time_sum = 0, wm_service_time_sum2 = 0,
      wm_total_requests = 0, wm_total_utilized_time = 0, wm_total_queue_delay = 0\<rparr>"

definition getPS :: "time \<Rightarrow> UInt64" where
  "getPS t = t div 1000"

definition wm_addItem :: "time \<Rightarrow> time \<Rightarrow> windowed_mg1 \<Rightarrow> windowed_mg1" where
  "wm_addItem pkt_time service_time q =
     q\<lparr>wm_window := takeWhile (\<lambda>(t, _). t \<le> pkt_time) (wm_window q) @ [(pkt_time, service_time)] @ dropWhile (\<lambda>(t, _). t \<le> pkt_time) (wm_window q),
       wm_num_arrivals := wm_num_arrivals q + 1,
       wm_service_time_sum := wm_service_time_sum q + getPS service_time,
       wm_service_time_sum2 := wm_service_time_sum2 q + getPS service_time * getPS service_time\<rparr>"

fun wm_remove :: "time \<Rightarrow> (time \<times> time) list \<Rightarrow> windowed_mg1 \<Rightarrow> windowed_mg1" where
  "wm_remove earliest_time [] q = q\<lparr>wm_window := []\<rparr>"
| "wm_remove earliest_time ((t, sv) # rest) q =
     (if t < earliest_time
      then wm_remove earliest_time rest
             (q\<lparr>wm_num_arrivals := wm_num_arrivals q - 1, wm_service_time_sum := wm_service_time_sum q - getPS sv,
                wm_service_time_sum2 := wm_service_time_sum2 q - getPS sv * getPS sv\<rparr>)
      else q\<lparr>wm_window := (t, sv) # rest\<rparr>)"

definition wm_removeItems :: "time \<Rightarrow> windowed_mg1 \<Rightarrow> windowed_mg1" where
  "wm_removeItems earliest_time q = wm_remove earliest_time (wm_window q) q"

definition wm_computeQueueDelay ::
  "(time \<Rightarrow> UInt64 \<Rightarrow> UInt64 \<Rightarrow> UInt64 \<Rightarrow> time) \<Rightarrow> time \<Rightarrow> time \<Rightarrow> time \<Rightarrow> windowed_mg1 \<Rightarrow> time \<times> windowed_mg1" where
  "wm_computeQueueDelay estimate global_time pkt_time processing_time q =
     (let q1 = wm_removeItems (max (global_time - wm_window_size q) (pkt_time - 10 * wm_window_size q)) q;
          t_queue = (if wm_num_arrivals q1 > 1
                     then min (estimate (wm_window_size q1) (wm_num_arrivals q1) (wm_service_time_sum q1) (wm_service_time_sum2 q1)) (wm_window_size q1)
                     else 0);
          q2 = wm_addItem pkt_time processing_time q1
      in (t_queue, q2\<lparr>wm_total_requests := wm_total_requests q2 + 1, wm_total_utilized_time := wm_total_utilized_time q2 + processing_time,
                      wm_total_queue_delay := wm_total_queue_delay q2 + t_queue\<rparr>))"

section \<open>The basic model never lets two requests overlap\<close>

lemma qb_served:
  assumes "qb_moving_average q = None" "qb_computeQueueDelay root t p q = Inr (d, q')" "unat (max (qb_queue_time q) t) + unat p < 2 ^ 64"
  shows "t + d = max (qb_queue_time q) t" "qb_queue_time q \<le> t + d" "qb_queue_time q' = t + d + p" "t + d \<le> qb_queue_time q'"
    "qb_moving_average q' = None"
proof -
  from assms(1,2) have d: "d = (if qb_queue_time q > t then qb_queue_time q - t else 0)" and q': "qb_queue_time q' = max (qb_queue_time q) t + p"
    "qb_moving_average q' = None"
    by (auto simp: qb_computeQueueDelay_def Let_def)
  show start: "t + d = max (qb_queue_time q) t" by (auto simp: d max_def)
  show "qb_queue_time q \<le> t + d" "qb_queue_time q' = t + d + p" "qb_moving_average q' = None" by (simp_all add: start q')
  show "t + d \<le> qb_queue_time q'" using assms(3) unfolding start q' by (simp add: word_le_nat_alt unat_word_ariths(1))
qed

section \<open>Free intervals\<close>

definition covers :: "(time \<times> time) list \<Rightarrow> nat set" where
  "covers ivs = (\<Union>(lo, hi) \<in> set ivs. {unat lo..<unat hi})"

lemma covers_simps [simp]: "covers [] = {}" "covers ((lo, hi) # ivs) = {unat lo..<unat hi} \<union> covers ivs" "covers (xs @ ys) = covers xs \<union> covers ys"
  by (auto simp: covers_def)

text \<open>The intervals are in order, and each is long enough for the least request.\<close>

definition spaced :: "time \<Rightarrow> (time \<times> time) list \<Rightarrow> bool" where
  "spaced least ivs \<longleftrightarrow> (\<forall>(lo, hi) \<in> set ivs. unat lo + unat least \<le> unat hi \<and> unat hi \<le> 2 ^ 63) \<and>
     sorted_wrt (\<lambda>(lo, hi) (lo', hi'). unat hi \<le> unat lo') ivs"

lemma spaced_Cons:
  "spaced least ((lo, hi) # ivs) \<longleftrightarrow> unat lo + unat least \<le> unat hi \<and> unat hi \<le> 2 ^ 63 \<and> spaced least ivs \<and> (\<forall>(lo', hi') \<in> set ivs. unat hi \<le> unat lo')"
  by (auto simp: spaced_def)

lemma spaced_append:
  "spaced least (xs @ ys) \<longleftrightarrow> spaced least xs \<and> spaced least ys \<and> (\<forall>(lo, hi) \<in> set xs. \<forall>(lo', hi') \<in> set ys. unat hi \<le> unat lo')"
  by (auto simp: spaced_def sorted_wrt_append)

text \<open>
  The interval in which a request starts: the request does not fit into the intervals in front of it,
  and only the part the request takes is cut out.
\<close>

inductive served :: "time \<Rightarrow> time \<Rightarrow> time \<Rightarrow> (time \<times> time) list \<Rightarrow> time \<Rightarrow> (time \<times> time) list \<Rightarrow> bool" for least pkt p where
  cut: "start = (if lo \<le> pkt then pkt else lo) \<Longrightarrow> unat start + unat p \<le> unat hi \<Longrightarrow>
    \<forall>(lo', hi') \<in> set pre. lo' \<le> pkt \<and> unat hi' < unat pkt + unat p \<Longrightarrow>
    served least pkt p (pre @ (lo, hi) # post) (start - pkt)
      (pre @ (if lo \<le> pkt \<and> least \<le> pkt - lo then [(lo, pkt)] else []) @ (if least \<le> hi - (start + p) then [(start + p, hi)] else []) @ post)"

lemma find_interval_served:
  assumes "find_interval least pkt p ivs = Some (d, ivs')" "spaced least ivs" "p \<le> least" "unat pkt + unat p < 2 ^ 64"
  shows "served least pkt p ivs d ivs'"
  using assms(1,2)
proof (induction ivs arbitrary: d ivs')
  case (Cons iv ivs)
  obtain lo hi where iv: "iv = (lo, hi)" by (cases iv)
  have bounds: "unat lo + unat least \<le> unat hi" "spaced least ivs" using Cons.prems(2) by (simp_all add: iv spaced_Cons)
  have sum: "unat (pkt + p) = unat pkt + unat p" using assms(4) by (simp add: unat_word_ariths(1))
  consider (fits) "lo \<le> pkt" "unat pkt + unat p \<le> unat hi" | (before) "pkt < lo" | (past) "lo \<le> pkt" "unat hi < unat pkt + unat p"
    by fastforce
  then show ?case
  proof cases
    case fits
    then show ?thesis using Cons.prems(1) served.cut [of pkt lo pkt p hi "[]" least ivs] by (simp add: iv sum word_le_nat_alt)
  next
    case before
    have "unat lo + unat p \<le> unat hi" "\<not> lo \<le> pkt" using bounds(1) assms(3) before by (auto simp: word_le_nat_alt word_less_nat_alt)
    then show ?thesis using before Cons.prems(1) served.cut [of lo lo pkt p hi "[]" least ivs] by (simp add: iv)
  next
    case past
    then obtain ivs1 where rest: "find_interval least pkt p ivs = Some (d, ivs1)" and ivs': "ivs' = (lo, hi) # ivs1"
      using Cons.prems(1) by (auto simp: iv sum word_le_nat_alt word_less_nat_alt)
    from Cons.IH [OF rest bounds(2)] show ?thesis
    proof cases
      case (cut start lo1 hi1 pre post)
      show ?thesis
        using served.cut [OF cut(4,5), of "(lo, hi) # pre" least post] cut(6) past by (simp add: iv ivs' cut(1-3))
    qed
  qed
qed simp

lemma find_interval_found:
  assumes "ivs \<noteq> []" "snd (last ivs) = push_bit 63 1" "unat pkt + unat p \<le> 2 ^ 63"
  shows "\<exists>r. find_interval least pkt p ivs = Some r"
  using assms(1,2)
proof (induction ivs)
  case (Cons iv ivs)
  obtain lo hi where iv: "iv = (lo, hi)" by (cases iv)
  show ?case
  proof (cases "ivs = []")
    case True
    then have "pkt + p \<le> hi" using Cons.prems(2) assms(3) by (simp add: iv word_le_nat_alt unat_word_ariths(1) push_bit_eq_mult)
    then show ?thesis by (simp add: iv linorder_not_le True)
  next
    case False
    with Cons.IH Cons.prems(2) obtain r where "find_interval least pkt p ivs = Some r" by auto
    then show ?thesis by (simp add: iv)
  qed
qed simp

text \<open>
  What a served request means: it takes a free stretch of time that starts no earlier than the request
  and as early as a free interval allows, and this stretch is no longer free.
\<close>

lemma served_stretch:
  assumes "served least pkt p ivs d ivs'" "spaced least ivs" "p \<le> least"
  shows "unat (pkt + d) = unat pkt + unat d" "{unat (pkt + d)..<unat (pkt + d) + unat p} \<subseteq> covers ivs"
    "covers ivs' \<subseteq> covers ivs - {unat (pkt + d)..<unat (pkt + d) + unat p}" "spaced least ivs'"
    "\<forall>(lo, hi) \<in> set ivs. \<forall>t. unat pkt \<le> t \<and> unat lo \<le> t \<and> t + unat p \<le> unat hi \<longrightarrow> unat (pkt + d) \<le> t"
    "length ivs' \<le> length ivs + 1"
proof -
  from assms(1) obtain start lo hi pre post where
    start: "start = (if lo \<le> pkt then pkt else lo)" "unat start + unat p \<le> unat hi"
    and pre: "\<forall>(lo', hi') \<in> set pre. lo' \<le> pkt \<and> unat hi' < unat pkt + unat p"
    and ivs: "ivs = pre @ (lo, hi) # post" and d: "d = start - pkt"
    and ivs': "ivs' = pre @ (if lo \<le> pkt \<and> least \<le> pkt - lo then [(lo, pkt)] else []) @
      (if least \<le> hi - (start + p) then [(start + p, hi)] else []) @ post"
    by cases blast
  define mid where "mid = (if unat lo + unat least \<le> unat pkt then [(lo, pkt)] else []) @
    (if unat least + (unat start + unat p) \<le> unat hi then [(start + p, hi)] else [])"
  have hi: "unat hi \<le> 2 ^ 63" "unat lo + unat least \<le> unat hi" using assms(2) by (auto simp: ivs spaced_append spaced_Cons)
  have le: "pkt \<le> start" "unat lo \<le> unat start" using start(1) by (auto simp: word_le_nat_alt split: if_splits)
  have sp: "unat (start + p) = unat start + unat p" using start(2) hi(1) by (simp add: unat_word_ariths(1))
  then have rest: "least \<le> hi - (start + p) \<longleftrightarrow> unat least + (unat start + unat p) \<le> unat hi"
    using start(2) by (simp add: word_le_nat_alt unat_sub le_diff_conv2)
  have front: "lo \<le> pkt \<and> least \<le> pkt - lo \<longleftrightarrow> unat lo + unat least \<le> unat pkt"
    by (auto simp: word_le_nat_alt unat_sub le_diff_conv2)
  have st: "pkt + d = start" by (simp add: d)
  then show "unat (pkt + d) = unat pkt + unat d" using le(1) by (simp add: d unat_sub word_le_nat_alt)
  have new: "ivs' = pre @ mid @ post" unfolding ivs' mid_def front rest by simp
  have mid: "covers mid \<subseteq> {unat lo..<unat hi} - {unat start..<unat start + unat p}" "spaced least mid"
    "\<forall>(lo', hi') \<in> set mid. unat lo \<le> unat lo' \<and> unat hi' \<le> unat hi"
    using start(2) hi le by (auto simp: mid_def sp spaced_def word_le_nat_alt)
  have apart: "\<forall>(lo', hi') \<in> set pre. unat hi' \<le> unat lo" "\<forall>(lo', hi') \<in> set post. unat hi \<le> unat lo'"
    using assms(2) by (auto simp: ivs spaced_append spaced_Cons)
  show "spaced least ivs'"
    using assms(2) mid(2,3) apart by (fastforce simp: new ivs spaced_append spaced_Cons)
  show "{unat (pkt + d)..<unat (pkt + d) + unat p} \<subseteq> covers ivs" unfolding st using start(2) le(2) by (auto simp: ivs)
  have "covers pre \<inter> {unat lo..<unat hi} = {}" "covers post \<inter> {unat lo..<unat hi} = {}" using apart by (fastforce simp: covers_def)+
  with start(2) le(2) have "covers pre \<inter> {unat start..<unat start + unat p} = {}" "covers post \<inter> {unat start..<unat start + unat p} = {}" by force+
  then show "covers ivs' \<subseteq> covers ivs - {unat (pkt + d)..<unat (pkt + d) + unat p}" unfolding st new ivs using mid(1) by auto
  show "\<forall>(lo, hi) \<in> set ivs. \<forall>t. unat pkt \<le> t \<and> unat lo \<le> t \<and> t + unat p \<le> unat hi \<longrightarrow> unat (pkt + d) \<le> t"
    unfolding st using pre apart(2) start hi by (fastforce simp: ivs word_le_nat_alt)
  show "length ivs' \<le> length ivs + 1" by (simp add: new ivs mid_def)
qed

lemma served_last:
  assumes "served least pkt p ivs d ivs'" "snd (last ivs) = push_bit 63 1" "unat (pkt + d) + unat p + unat least \<le> 2 ^ 63"
  shows "ivs' \<noteq> [] \<and> snd (last ivs') = push_bit 63 1 \<and> (fst (last ivs') = fst (last ivs) \<or> fst (last ivs') = pkt + d + p)"
  using assms(1)
proof cases
  case (cut start lo hi pre post)
  show ?thesis
  proof (cases "post = []")
    case True
    then have hi: "unat hi = 2 ^ 63" "hi = push_bit 63 1" using assms(2) by (simp_all add: cut(1) push_bit_eq_mult)
    have "unat (start + p) = unat start + unat p" using cut(5) hi(1) by (simp add: unat_word_ariths(1))
    then have "least \<le> hi - (start + p)" using assms(3) cut(2,5) hi(1) by (simp add: word_le_nat_alt unat_sub)
    then show ?thesis using True hi(2) by (simp add: cut(2,3))
  next
    case False
    then show ?thesis using assms(2) by (simp add: cut(1,3))
  qed
qed

section \<open>The history list\<close>

definition hl_inv :: "history_list \<Rightarrow> bool" where
  "hl_inv q \<longleftrightarrow> 0 < hl_max_free_interval_list_size q \<and>
     spaced (hl_min_processing_time q) (hl_free_interval_list q) \<and> hl_free_interval_list q \<noteq> [] \<and>
     length (hl_free_interval_list q) \<le> unat (hl_max_free_interval_list_size q) \<and> snd (last (hl_free_interval_list q)) = push_bit 63 1 \<and>
     ma_inv (hl_average_delay q) \<and> sum_ok (hl_average_delay q) \<and> ma_type (hl_average_delay q) = ARITHMETIC_MEAN \<and>
     (window (hl_average_delay q) = [] \<longrightarrow> fst (hd (hl_free_interval_list q)) = 0)"

lemma hl_new_inv: "0 < n \<Longrightarrow> unat n < 2 ^ 31 \<Longrightarrow> unat least \<le> 2 ^ 63 \<Longrightarrow> hl_inv (QueueModelHistoryList_new least b n)"
  using createAvgType_ok [of n ARITHMETIC_MEAN]
  by (simp add: hl_inv_def QueueModelHistoryList_new_def spaced_def push_bit_eq_mult createAvgType_def word_gt_0 unat_gt_0 Suc_le_eq)

lemma spaced_tl: "spaced least ivs \<Longrightarrow> spaced least (tl ivs)"
  by (cases ivs) (auto simp: spaced_Cons)

lemma covers_tl: "covers (tl ivs) \<subseteq> covers ivs"
  by (cases ivs) (auto simp: covers_def)

lemma computeUsingHistoryList_ok:
  assumes "hl_inv q" "p \<le> hl_min_processing_time q" "unat pkt + unat p \<le> 2 ^ 63"
  obtains d ivs' where "computeUsingHistoryList pkt p q = Inr (d, q\<lparr>hl_free_interval_list := ivs'\<rparr>)"
    "unat (pkt + d) = unat pkt + unat d" "{unat (pkt + d)..<unat (pkt + d) + unat p} \<subseteq> covers (hl_free_interval_list q)"
    "covers ivs' \<subseteq> covers (hl_free_interval_list q) - {unat (pkt + d)..<unat (pkt + d) + unat p}"
    "\<forall>(lo, hi) \<in> set (hl_free_interval_list q). \<forall>t. unat pkt \<le> t \<and> unat lo \<le> t \<and> t + unat p \<le> unat hi \<longrightarrow> unat (pkt + d) \<le> t"
    "spaced (hl_min_processing_time q) ivs'" "length ivs' \<le> unat (hl_max_free_interval_list_size q)"
    "unat (pkt + d) + unat p + unat (hl_min_processing_time q) \<le> 2 ^ 63 \<Longrightarrow> ivs' \<noteq> [] \<and> snd (last ivs') = push_bit 63 1"
proof -
  let ?ivs = "hl_free_interval_list q" and ?least = "hl_min_processing_time q" and ?n = "unat (hl_max_free_interval_list_size q)"
  have q: "?ivs \<noteq> []" "snd (last ?ivs) = push_bit 63 1" "spaced ?least ?ivs" "length ?ivs \<le> ?n" "0 < ?n"
    using assms(1) by (simp_all add: hl_inv_def word_gt_0 unat_gt_0)
  obtain d ivs where found: "find_interval ?least pkt p ?ivs = Some (d, ivs)"
    using find_interval_found [OF q(1,2) assms(3)] by (metis surj_pair)
  have s: "served ?least pkt p ?ivs d ivs" using find_interval_served [OF found q(3) assms(2)] assms(3) by simp
  note st = served_stretch [OF s q(3) assms(2)]
  define ivs' where "ivs' = (if ?n < length ivs then tl ivs else ivs)"
  have "unat (pkt + d) + unat p \<le> 2 ^ 63"
    using s
  proof cases
    case (cut start lo hi pre post)
    then have "unat hi \<le> 2 ^ 63" using q(3) by (simp add: spaced_append spaced_Cons)
    moreover have "pkt + d = start" using cut(2) by simp
    ultimately show ?thesis using cut(5) by simp
  qed
  then have "unat d \<le> 2 ^ 63" using st(1) by simp
  then have "d \<noteq> MaxTime" by (auto simp: MaxTime_def)
  then have run: "computeUsingHistoryList pkt p q = Inr (d, q\<lparr>hl_free_interval_list := ivs'\<rparr>)"
    using found q(4) by (simp add: computeUsingHistoryList_def ivs'_def)
  show ?thesis
  proof (rule that [OF run st(1,2)])
    show "covers ivs' \<subseteq> covers ?ivs - {unat (pkt + d)..<unat (pkt + d) + unat p}" using st(3) covers_tl [of ivs] by (auto simp: ivs'_def)
    show "spaced ?least ivs'" using st(4) spaced_tl by (simp add: ivs'_def)
    show "length ivs' \<le> ?n" using st(6) q(4) by (auto simp: ivs'_def)
    show "ivs' \<noteq> [] \<and> snd (last ivs') = push_bit 63 1" if "unat (pkt + d) + unat p + unat ?least \<le> 2 ^ 63"
      using served_last [OF s q(2) that] q(5) by (cases ivs) (auto simp: ivs'_def last_tl split: if_splits)
  qed (rule st(5))
qed

text \<open>
  The model always gives a delay. It is the average of the delays so far for a request that lies
  before all free intervals, if the configuration says so; otherwise the request gets a stretch of
  free time of its own.
\<close>

theorem hl_computeQueueDelay_ok:
  assumes "hl_inv q" "0 < p" "p \<le> hl_min_processing_time q" "unat pkt + unat p \<le> 2 ^ 63"
  defines "ivs \<equiv> hl_free_interval_list q"
  shows "\<exists>d q'. hl_computeQueueDelay root pkt p q = Inr (d, q') \<and>
    (if hl_analytical_model_enabled q \<and> pkt + p \<le> fst (hd ivs)
     then d = sum_list (window (hl_average_delay q)) div of_nat (length (window (hl_average_delay q))) \<and> hl_inv q' \<and> hl_free_interval_list q' = ivs
     else unat (pkt + d) = unat pkt + unat d \<and> {unat (pkt + d)..<unat (pkt + d) + unat p} \<subseteq> covers ivs \<and>
       covers (hl_free_interval_list q') \<subseteq> covers ivs - {unat (pkt + d)..<unat (pkt + d) + unat p} \<and>
       (\<forall>(lo, hi) \<in> set ivs. \<forall>t. unat pkt \<le> t \<and> unat lo \<le> t \<and> t + unat p \<le> unat hi \<longrightarrow> unat (pkt + d) \<le> t) \<and>
       (unat (pkt + d) + unat p + unat (hl_min_processing_time q) \<le> 2 ^ 63 \<longrightarrow> hl_inv q'))"
proof (cases "hl_analytical_model_enabled q \<and> pkt + p \<le> fst (hd ivs)")
  case True
  have ne: "ivs \<noteq> []" and avg: "ma_inv (hl_average_delay q)" "sum_ok (hl_average_delay q)" "ma_type (hl_average_delay q) = ARITHMETIC_MEAN"
    and w: "window (hl_average_delay q) = [] \<longrightarrow> fst (hd ivs) = 0" using assms(1) by (simp_all add: hl_inv_def ivs_def)
  have "unat (pkt + p) = unat pkt + unat p" using assms(4) by (simp add: unat_word_ariths(1))
  then have "pkt + p \<noteq> 0" using assms(2) by (auto simp: word_gt_0 unat_eq_0)
  then have "window (hl_average_delay q) \<noteq> []" using w True by auto
  note mean = mean_ok [OF avg this, of root]
  show ?thesis
    using True ne mean assms(1) by (auto simp: hl_computeQueueDelay_def ivs_def hl_inv_def Suc_le_eq)
next
  case False
  obtain d ivs' where r: "computeUsingHistoryList pkt p q = Inr (d, q\<lparr>hl_free_interval_list := ivs'\<rparr>)"
    "unat (pkt + d) = unat pkt + unat d" "{unat (pkt + d)..<unat (pkt + d) + unat p} \<subseteq> covers ivs"
    "covers ivs' \<subseteq> covers ivs - {unat (pkt + d)..<unat (pkt + d) + unat p}"
    "\<forall>(lo, hi) \<in> set ivs. \<forall>t. unat pkt \<le> t \<and> unat lo \<le> t \<and> t + unat p \<le> unat hi \<longrightarrow> unat (pkt + d) \<le> t"
    "spaced (hl_min_processing_time q) ivs'" "length ivs' \<le> unat (hl_max_free_interval_list_size q)"
    "unat (pkt + d) + unat p + unat (hl_min_processing_time q) \<le> 2 ^ 63 \<longrightarrow> ivs' \<noteq> [] \<and> snd (last ivs') = push_bit 63 1"
    unfolding ivs_def by (rule computeUsingHistoryList_ok [OF assms(1,3,4)]) blast
  have avg: "ma_inv (hl_average_delay q)" "sum_ok (hl_average_delay q)" and ne: "ivs \<noteq> []" and n: "0 < hl_max_free_interval_list_size q"
    and ty: "ma_type (hl_average_delay q) = ARITHMETIC_MEAN"
    using assms(1) by (simp_all add: hl_inv_def ivs_def)
  obtain a where a: "ma_update d (hl_average_delay q) = Inr a" "ma_inv a" "sum_ok a" "ma_type a = ma_type (hl_average_delay q)"
    "window a = slide (unat (ma_max_window_size (hl_average_delay q))) d (window (hl_average_delay q))"
    by (rule ma_update_ok [OF avg]) blast
  define q' where "q' = q\<lparr>hl_free_interval_list := ivs', hl_average_delay := a, hl_utilized_time := hl_utilized_time q + p,
    hl_total_requests := hl_total_requests q + 1, hl_total_queue_delay := hl_total_queue_delay q + d\<rparr>"
  have run: "hl_computeQueueDelay root pkt p q = Inr (d, q')"
    using False ne r(1) a(1) by (auto simp: hl_computeQueueDelay_def ivs_def Suc_le_eq q'_def)
  have "window a \<noteq> []" by (simp add: a(5) slide_def)
  then have "hl_inv q'" if "unat (pkt + d) + unat p + unat (hl_min_processing_time q) \<le> 2 ^ 63"
    using r(6-8) that a(2-4) n ty by (simp add: hl_inv_def q'_def)
  moreover have "hl_free_interval_list q' = ivs'" by (simp add: q'_def)
  ultimately show ?thesis using run r(2-5) False by auto
qed

section \<open>Exclusive queues\<close>

text \<open>A sequence of requests, each with its arrival and processing time; the result has the start times.\<close>

fun serve_all :: "(time \<Rightarrow> time \<Rightarrow> 'q \<Rightarrow> (time \<times> 'q) result) \<Rightarrow> (time \<times> time) list \<Rightarrow> 'q \<Rightarrow> ((time \<times> time) list \<times> 'q) result" where
  "serve_all compute [] q = Inr ([], q)"
| "serve_all compute ((t, p) # rs) q =
     bindE (compute t p q) (\<lambda>(d, q1). mapE (\<lambda>(ss, q2). ((t + d, p) # ss, q2)) (serve_all compute rs q1))"

text \<open>Every request of the sequence satisfies a condition on the queue it meets and the delay it gets.\<close>

fun all_allowed :: "(time \<Rightarrow> time \<Rightarrow> 'q \<Rightarrow> (time \<times> 'q) result) \<Rightarrow> ('q \<Rightarrow> time \<Rightarrow> time \<Rightarrow> time \<Rightarrow> bool) \<Rightarrow> (time \<times> time) list \<Rightarrow> 'q \<Rightarrow> bool" where
  "all_allowed compute allowed [] q \<longleftrightarrow> True"
| "all_allowed compute allowed ((t, p) # rs) q \<longleftrightarrow>
     (case compute t p q of Inl e \<Rightarrow> True | Inr (d, q') \<Rightarrow> allowed q t p d \<and> all_allowed compute allowed rs q')"

abbreviation stretch :: "time \<times> time \<Rightarrow> nat set" where
  "stretch r \<equiv> {unat (fst r)..<unat (fst r) + unat (snd r)}"

text \<open>
  A queue that gives every request a stretch of free time. \<open>allowed\<close> says for which requests, given the
  start time they get.
\<close>

locale exclusive_queue =
  fixes compute :: "time \<Rightarrow> time \<Rightarrow> 'q \<Rightarrow> (time \<times> 'q) result" and queue_ok :: "'q \<Rightarrow> bool" and free :: "'q \<Rightarrow> nat set"
    and allowed :: "'q \<Rightarrow> time \<Rightarrow> time \<Rightarrow> time \<Rightarrow> bool"
  assumes served_free: "queue_ok q \<Longrightarrow> compute t p q = Inr (d, q') \<Longrightarrow> allowed q t p d \<Longrightarrow>
      t \<le> t + d \<and> stretch (t + d, p) \<subseteq> free q \<and> free q' \<subseteq> free q - stretch (t + d, p) \<and> queue_ok q'"
begin

lemma stretches_disjoint:
  assumes "queue_ok q" "serve_all compute rs q = Inr (ss, q')" "all_allowed compute allowed rs q"
  shows "sorted_wrt (\<lambda>a b. stretch a \<inter> stretch b = {}) ss \<and> (\<forall>s \<in> set ss. stretch s \<subseteq> free q) \<and> queue_ok q' \<and>
    list_all2 (\<lambda>(t, p) (s, p'). t \<le> s \<and> p' = p) rs ss"
  using assms
proof (induction rs arbitrary: q ss)
  case (Cons r rs)
  obtain t p where r: "r = (t, p)" by (cases r)
  from Cons.prems(2) obtain d q1 ss1 where one: "compute t p q = Inr (d, q1)" and rest: "serve_all compute rs q1 = Inr (ss1, q')" and ss: "ss = (t + d, p) # ss1"
    by (auto simp: r result_simps)
  have al: "allowed q t p d" "all_allowed compute allowed rs q1" using Cons.prems(3) one by (auto simp: r)
  from served_free [OF Cons.prems(1) one al(1)] have f: "t \<le> t + d" "stretch (t + d, p) \<subseteq> free q"
    "free q1 \<subseteq> free q - stretch (t + d, p)" "queue_ok q1" by blast+
  from Cons.IH [OF f(4) rest al(2)] have ih: "sorted_wrt (\<lambda>a b. stretch a \<inter> stretch b = {}) ss1" "\<forall>s \<in> set ss1. stretch s \<subseteq> free q1" "queue_ok q'"
    "list_all2 (\<lambda>(t, p) (s, p'). t \<le> s \<and> p' = p) rs ss1" by blast+
  have "stretch (t + d, p) \<inter> stretch s = {}" "stretch s \<subseteq> free q" if "s \<in> set ss1" for s using that ih(2) f(3) by blast+
  then show ?case using ih f(1,2) by (simp add: ss r)
qed simp

end

interpretation basic: exclusive_queue "qb_computeQueueDelay root" "\<lambda>q. qb_moving_average q = None" "\<lambda>q. {unat (qb_queue_time q)..}"
    "\<lambda>q t p d. unat (max (qb_queue_time q) t) + unat p < 2 ^ 64" for root
proof
  fix q t p d q' assume a: "qb_moving_average q = None" "qb_computeQueueDelay root t p q = Inr (d, q')" "unat (max (qb_queue_time q) t) + unat p < 2 ^ 64"
  note s = qb_served [OF a]
  have "unat (qb_queue_time q') = unat (t + d) + unat p" using a(3) by (simp add: s(1,3) unat_word_ariths(1))
  moreover have "t \<le> t + d" by (simp add: s(1))
  ultimately show "t \<le> t + d \<and> stretch (t + d, p) \<subseteq> {unat (qb_queue_time q)..} \<and>
      {unat (qb_queue_time q')..} \<subseteq> {unat (qb_queue_time q)..} - stretch (t + d, p) \<and> qb_moving_average q' = None"
    using s(2,5) by (auto simp: word_le_nat_alt)
qed

text \<open>The history list without the analytical model.\<close>

interpretation history: exclusive_queue "hl_computeQueueDelay root" "\<lambda>q. hl_inv q \<and> \<not> hl_analytical_model_enabled q" "\<lambda>q. covers (hl_free_interval_list q)"
    "\<lambda>q t p d. 0 < p \<and> p \<le> hl_min_processing_time q \<and> unat t + unat p \<le> 2 ^ 63 \<and> unat (t + d) + unat p + unat (hl_min_processing_time q) \<le> 2 ^ 63" for root
proof
  fix q t p d q' assume q: "hl_inv q \<and> \<not> hl_analytical_model_enabled q" and run: "hl_computeQueueDelay root t p q = Inr (d, q')"
    and a: "0 < p \<and> p \<le> hl_min_processing_time q \<and> unat t + unat p \<le> 2 ^ 63 \<and> unat (t + d) + unat p + unat (hl_min_processing_time q) \<le> 2 ^ 63"
  have "\<not> hl_analytical_model_enabled q'"
    using q run by (auto simp: hl_computeQueueDelay_def computeUsingHistoryList_def result_simps split_def Let_def)
  then show "t \<le> t + d \<and> stretch (t + d, p) \<subseteq> covers (hl_free_interval_list q) \<and>
      covers (hl_free_interval_list q') \<subseteq> covers (hl_free_interval_list q) - stretch (t + d, p) \<and> hl_inv q' \<and> \<not> hl_analytical_model_enabled q'"
    using hl_computeQueueDelay_ok [of q p t root] q a run by (auto simp: word_le_nat_alt)
qed

text \<open>
  The last free interval has no end: it starts where it did or where the request ends. So requests
  that arrive early enough are all served, one after the other.
\<close>

lemma hl_latest:
  assumes "hl_inv q" "\<not> hl_analytical_model_enabled q" "hl_computeQueueDelay root t p q = Inr (d, q')" "p \<le> hl_min_processing_time q"
    "unat t + unat p \<le> 2 ^ 63" "unat (t + d) + unat p + unat (hl_min_processing_time q) \<le> 2 ^ 63"
  shows "fst (last (hl_free_interval_list q')) = fst (last (hl_free_interval_list q)) \<or> fst (last (hl_free_interval_list q')) = t + d + p"
    "hl_min_processing_time q' = hl_min_processing_time q"
proof -
  let ?ivs = "hl_free_interval_list q" and ?n = "unat (hl_max_free_interval_list_size q)"
  have q: "?ivs \<noteq> []" "snd (last ?ivs) = push_bit 63 1" "spaced (hl_min_processing_time q) ?ivs" "0 < ?n"
    using assms(1) by (simp_all add: hl_inv_def word_gt_0 unat_gt_0)
  from assms(2,3) obtain ivs where found: "find_interval (hl_min_processing_time q) t p ?ivs = Some (d, ivs)"
    and ivs: "hl_free_interval_list q' = (if ?n < length ivs then tl ivs else ivs)"
    and keep: "hl_min_processing_time q' = hl_min_processing_time q"
    by (auto simp: hl_computeQueueDelay_def computeUsingHistoryList_def result_simps Let_def split_def split: option.splits)
  from keep show "hl_min_processing_time q' = hl_min_processing_time q" .
  have "served (hl_min_processing_time q) t p ?ivs d ivs" using find_interval_served [OF found q(3) assms(4)] assms(5) by simp
  from served_last [OF this q(2) assms(6)] q(4) ivs
  show "fst (last (hl_free_interval_list q')) = fst (last ?ivs) \<or> fst (last (hl_free_interval_list q')) = t + d + p"
    by (cases ivs) (auto simp: last_tl split: if_splits)
qed

lemma hl_start_bound:
  assumes "hl_inv q" "\<not> hl_analytical_model_enabled q" "hl_computeQueueDelay root t p q = Inr (d, q')" "0 < p" "p \<le> hl_min_processing_time q"
    "unat t \<le> b" "unat (fst (last (hl_free_interval_list q))) \<le> b" "b + unat p \<le> 2 ^ 63"
  shows "unat (t + d) \<le> b"
proof -
  let ?lo = "fst (last (hl_free_interval_list q))"
  have q: "hl_free_interval_list q \<noteq> []" "snd (last (hl_free_interval_list q)) = push_bit 63 1" using assms(1) by (simp_all add: hl_inv_def)
  then have "last (hl_free_interval_list q) = (?lo, push_bit 63 1)" by (metis prod.collapse)
  then have "(?lo, push_bit 63 1) \<in> set (hl_free_interval_list q)" using last_in_set [OF q(1)] by metis
  moreover have "\<forall>(lo, hi) \<in> set (hl_free_interval_list q). \<forall>x. unat t \<le> x \<and> unat lo \<le> x \<and> x + unat p \<le> unat hi \<longrightarrow> unat (t + d) \<le> x"
  proof -
    have "unat t + unat p \<le> 2 ^ 63" using assms(6,8) by linarith
    from hl_computeQueueDelay_ok [OF assms(1,4,5) this, of root] assms(2,3) show ?thesis by (simp del: split_paired_All) auto
  qed
  ultimately show ?thesis using assms(6-8) by (force simp: push_bit_eq_mult)
qed

lemma hl_serves_all:
  assumes "hl_inv q" "\<not> hl_analytical_model_enabled q" "hl_min_processing_time q = least"
    "unat (fst (last (hl_free_interval_list q))) \<le> b" "\<forall>(t, p) \<in> set rs. unat t \<le> b \<and> 0 < p \<and> p \<le> least"
    "b + (length rs + 2) * unat least \<le> 2 ^ 63"
  shows "\<exists>ss q'. serve_all (hl_computeQueueDelay root) rs q = Inr (ss, q') \<and>
    all_allowed (hl_computeQueueDelay root) (\<lambda>q t p d. 0 < p \<and> p \<le> hl_min_processing_time q \<and> unat t + unat p \<le> 2 ^ 63 \<and>
      unat (t + d) + unat p + unat (hl_min_processing_time q) \<le> 2 ^ 63) rs q"
  using assms
proof (induction rs arbitrary: q b)
  case (Cons r rs)
  obtain t p where r: "r = (t, p)" by (cases r)
  have p: "0 < p" "p \<le> least" "unat p \<le> unat least" "unat t \<le> b" using Cons.prems(5) by (auto simp: r word_le_nat_alt)
  have room: "b + unat least + (length rs + 2) * unat least \<le> 2 ^ 63" using Cons.prems(6) by (simp add: algebra_simps)
  then have b: "b + unat least + unat least + unat least \<le> 2 ^ 63" by (simp add: algebra_simps)
  then have tp: "unat t + unat p \<le> 2 ^ 63" using p(3,4) by linarith
  obtain d q1 where run: "hl_computeQueueDelay root t p q = Inr (d, q1)"
    using hl_computeQueueDelay_ok [OF Cons.prems(1) p(1) _ tp, of root] p(2) Cons.prems(3) by blast
  have start: "unat (t + d) \<le> b"
    by (rule hl_start_bound [OF Cons.prems(1,2) run p(1) _ p(4) Cons.prems(4)]) (use p b Cons.prems(3) in auto)
  have al: "p \<le> hl_min_processing_time q" "unat (t + d) + unat p + unat (hl_min_processing_time q) \<le> 2 ^ 63"
    using start p(2,3) b by (simp_all add: Cons.prems(3))
  note nx = hl_latest [OF Cons.prems(1,2) run al(1) tp al(2)]
  have q1: "hl_inv q1" "\<not> hl_analytical_model_enabled q1"
    using history.served_free [of q root t p d q1] Cons.prems(1,2) run p(1) al tp by blast+
  have "unat (t + d + p) \<le> unat (t + d) + unat p" by (simp add: unat_word_ariths(1))
  then have "unat (fst (last (hl_free_interval_list q1))) \<le> b + unat least"
    using nx(1) start p(3) Cons.prems(4) by auto
  then obtain ss q' where "serve_all (hl_computeQueueDelay root) rs q1 = Inr (ss, q')"
    "all_allowed (hl_computeQueueDelay root) (\<lambda>q t p d. 0 < p \<and> p \<le> hl_min_processing_time q \<and> unat t + unat p \<le> 2 ^ 63 \<and>
      unat (t + d) + unat p + unat (hl_min_processing_time q) \<le> 2 ^ 63) rs q1"
    using Cons.IH [OF q1, of "b + unat least"] nx(2) Cons.prems(3,5) room by fastforce
  then show ?case using run p(1) al tp by (simp add: r)
qed simp

text \<open>A request longer than the least one can leave a free interval that ends before it starts.\<close>

lemma long_request_reverses_interval:
  "find_interval 10 50 40 [(100, 110), (200, push_bit 63 1)] = Some (50, [(140, 110), (200, push_bit 63 1)])"
  by code_simp

section \<open>The M/G/1 window\<close>

text \<open>While less than ten window lengths have passed, the limit wraps around and the window is emptied.\<close>

lemma wm_remove_all: "\<forall>(t, sv) \<in> set ivs. t < e \<Longrightarrow> wm_window (wm_remove e ivs q) = []"
  by (induction ivs arbitrary: q) auto

lemma mg1_forgets_early:
  assumes "unat pkt < 10 * unat (wm_window_size q)" "10 * unat (wm_window_size q) < 2 ^ 63" "\<forall>(t, sv) \<in> set (wm_window q). unat t < 2 ^ 63"
  shows "wm_window (wm_removeItems (max g (pkt - 10 * wm_window_size q)) q) = []"
proof -
  have "unat (10 * wm_window_size q) = 10 * unat (wm_window_size q)" using assms(2) by (simp add: unat_word_ariths(2))
  then have "unat (pkt - 10 * wm_window_size q) \<ge> 2 ^ 63" using assms(1,2) by (simp add: unat_sub_if_size word_size)
  then have "t < max g (pkt - 10 * wm_window_size q)" if "unat t < 2 ^ 63" for t using that by (auto simp: word_less_nat_alt max_def word_le_nat_alt)
  then show ?thesis unfolding wm_removeItems_def using assms(3) by (intro wm_remove_all) auto
qed

end
