(* ===== verification/Memory_Timing.thy ===== *)
theory Memory_Timing
  imports Queue_Models Dram
begin

text \<open>
  \<open>performance_model/queue_model.cc\<close>, \<open>dram_perf_model*.cc\<close> and \<open>nvm_perf_model*.cc\<close>: the choice of the
  queue model and the time a memory access takes. The bandwidth is a floating-point number; the time a
  packet needs on the bus is the function \<open>processing\<close> of its size in bits. The model with normally
  distributed latencies is not repeated.
\<close>

section \<open>QueueModel\<close>

text \<open>The parts of the queue models that compute in floating point, and the time of the barrier.\<close>

record queue_env =
  qe_root :: "time \<Rightarrow> UInt32 \<Rightarrow> time"
  qe_estimate :: "time \<Rightarrow> UInt64 \<Rightarrow> UInt64 \<Rightarrow> UInt64 \<Rightarrow> time"
  qe_global_time :: time

record queue_cfg =
  qf_moving_avg_enabled :: bool
  qf_moving_avg_window_size :: UInt32
  qf_moving_avg_type :: string
  qf_analytical_model_enabled :: bool
  qf_max_list_size :: UInt32
  qf_window_size :: time

datatype queue =
    QueueModelBasic queue_basic
  | QueueModelHistoryList history_list
  | QueueModelContention contention
  | QueueModelWindowedMG1 windowed_mg1

definition QueueModel_create :: "queue_cfg \<Rightarrow> string \<Rightarrow> time \<Rightarrow> queue result" where
  "QueueModel_create cfg model_type min_processing_time =
     (if model_type = ''basic''
      then mapE QueueModelBasic (QueueModelBasic_new (qf_moving_avg_enabled cfg) (qf_moving_avg_window_size cfg) (qf_moving_avg_type cfg))
      else if model_type = ''history_list''
      then Inr (QueueModelHistoryList (QueueModelHistoryList_new min_processing_time (qf_analytical_model_enabled cfg) (qf_max_list_size cfg)))
      else if model_type = ''contention'' then Inr (QueueModelContention (QueueModelContention_new 1))
      else if model_type = ''windowed_mg1'' then Inr (QueueModelWindowedMG1 (QueueModelWindowedMG1_new (qf_window_size cfg)))
      else Inl (Print_Error ''Unrecognized Queue Model Type''))"

definition queueDelay :: "queue_env \<Rightarrow> time \<Rightarrow> time \<Rightarrow> queue \<Rightarrow> (time \<times> queue) result" where
  "queueDelay env pkt_time processing_time q =
     (case q of
        QueueModelBasic b \<Rightarrow> mapE (map_prod id QueueModelBasic) (qb_computeQueueDelay (qe_root env) pkt_time processing_time b)
      | QueueModelHistoryList h \<Rightarrow> mapE (map_prod id QueueModelHistoryList) (hl_computeQueueDelay (qe_root env) pkt_time processing_time h)
      | QueueModelContention c \<Rightarrow> Inr (map_prod id QueueModelContention (qc_computeQueueDelay pkt_time processing_time c))
      | QueueModelWindowedMG1 w \<Rightarrow>
          Inr (map_prod id QueueModelWindowedMG1 (wm_computeQueueDelay (qe_estimate env) (qe_global_time env) pkt_time processing_time w)))"

definition optDelay :: "queue_env \<Rightarrow> time \<Rightarrow> time \<Rightarrow> queue option \<Rightarrow> (time \<times> queue option) result" where
  "optDelay env pkt_time processing_time q =
     (case q of None \<Rightarrow> Inr (0, None) | Some m \<Rightarrow> mapE (map_prod id Some) (queueDelay env pkt_time processing_time m))"

section \<open>Constant latency\<close>

text \<open>Requests of cores that are not application cores, and all requests while the model is off, take no time.\<close>

definition untimed :: "bool \<Rightarrow> core_id_t \<Rightarrow> core_id_t \<Rightarrow> bool" where
  "untimed enabled application_cores requester \<longleftrightarrow> \<not> enabled \<or> sint requester \<ge> sint application_cores"

record dram_constant =
  dp_enabled :: bool
  dp_application_cores :: core_id_t
  dp_processing :: "UInt64 \<Rightarrow> time"
  dp_queue_model :: "queue option"
  dp_access_cost :: time
  dp_num_accesses :: UInt64
  dp_total_queueing_delay :: time
  dp_total_access_latency :: time

definition DramPerfModelConstant_new :: "core_id_t \<Rightarrow> (UInt64 \<Rightarrow> time) \<Rightarrow> time \<Rightarrow> UInt32 \<Rightarrow> queue_cfg \<Rightarrow> string option \<Rightarrow> dram_constant result" where
  "DramPerfModelConstant_new application_cores processing latency cache_block_size cfg queue_model_type =
     mapE (\<lambda>q. \<lparr>dp_enabled = False, dp_application_cores = application_cores, dp_processing = processing, dp_queue_model = q,
               dp_access_cost = latency, dp_num_accesses = 0, dp_total_queueing_delay = 0, dp_total_access_latency = 0\<rparr>)
       (case queue_model_type of
          None \<Rightarrow> Inr None | Some ty \<Rightarrow> mapE Some (QueueModel_create cfg ty (processing (ucast (8 * cache_block_size)))))"

definition dp_getAccessLatency :: "queue_env \<Rightarrow> time \<Rightarrow> UInt64 \<Rightarrow> core_id_t \<Rightarrow> dram_constant \<Rightarrow> (time \<times> dram_constant) result" where
  "dp_getAccessLatency env pkt_time pkt_size requester m =
     (if untimed (dp_enabled m) (dp_application_cores m) requester then Inr (0, m)
      else (let processing_time = dp_processing m (8 * pkt_size)
            in bindE (optDelay env pkt_time processing_time (dp_queue_model m)) (\<lambda>(queue_delay, q).
               (let access_latency = queue_delay + processing_time + dp_access_cost m
                in Inr (access_latency,
                        m\<lparr>dp_queue_model := q, dp_num_accesses := dp_num_accesses m + 1,
                          dp_total_access_latency := dp_total_access_latency m + access_latency,
                          dp_total_queueing_delay := dp_total_queueing_delay m + queue_delay\<rparr>)))))"

record nvm_constant =
  np_enabled :: bool
  np_application_cores :: core_id_t
  np_processing :: "UInt64 \<Rightarrow> time"
  np_queue_model :: "queue option"
  np_read_cost :: time
  np_write_cost :: time
  np_log_cost :: time
  np_num_accesses :: UInt64
  np_total_queueing_delay :: time
  np_total_access_latency :: time

text \<open>The configuration of non-volatile memory: latencies of reads and writes default to the latency of DRAM.\<close>

record nvm_cfg =
  nf_latency :: time
  nf_read_latency :: "time option"
  nf_write_latency :: "time option"
  nf_log_latency :: "time option"

definition getReadLatency :: "nvm_cfg \<Rightarrow> time" where
  "getReadLatency cfg = (case nf_read_latency cfg of None \<Rightarrow> nf_latency cfg | Some t \<Rightarrow> t)"

definition getWriteLatency :: "nvm_cfg \<Rightarrow> time" where
  "getWriteLatency cfg = (case nf_write_latency cfg of None \<Rightarrow> nf_latency cfg | Some t \<Rightarrow> t)"

definition getLogLatency :: "nvm_cfg \<Rightarrow> time" where
  "getLogLatency cfg = (case nf_log_latency cfg of None \<Rightarrow> 0 | Some t \<Rightarrow> t)"

definition NvmPerfModelConstant_new :: "core_id_t \<Rightarrow> (UInt64 \<Rightarrow> time) \<Rightarrow> nvm_cfg \<Rightarrow> UInt32 \<Rightarrow> queue_cfg \<Rightarrow> string option \<Rightarrow> nvm_constant result" where
  "NvmPerfModelConstant_new application_cores processing ncfg cache_block_size cfg queue_model_type =
     mapE (\<lambda>q. \<lparr>np_enabled = False, np_application_cores = application_cores, np_processing = processing, np_queue_model = q,
               np_read_cost = getReadLatency ncfg, np_write_cost = getWriteLatency ncfg, np_log_cost = getLogLatency ncfg,
               np_num_accesses = 0, np_total_queueing_delay = 0, np_total_access_latency = 0\<rparr>)
       (case queue_model_type of
          None \<Rightarrow> Inr None | Some ty \<Rightarrow> mapE Some (QueueModel_create cfg ty (processing (ucast (8 * cache_block_size)))))"

definition np_getAccessLatency :: "queue_env \<Rightarrow> time \<Rightarrow> UInt64 \<Rightarrow> core_id_t \<Rightarrow> dram_access \<Rightarrow> nvm_constant \<Rightarrow> (time \<times> nvm_constant) result" where
  "np_getAccessLatency env pkt_time pkt_size requester access_type m =
     (if untimed (np_enabled m) (np_application_cores m) requester then Inr (0, m)
      else (let processing_time = np_processing m (8 * pkt_size)
            in bindE (optDelay env pkt_time processing_time (np_queue_model m)) (\<lambda>(queue_delay, q).
               (let access_cost = (if access_type = DRAM_WRITE then np_write_cost m else np_read_cost m);
                    access_latency = queue_delay + processing_time + access_cost
                in Inr (access_latency,
                        m\<lparr>np_queue_model := q, np_num_accesses := np_num_accesses m + 1,
                          np_total_access_latency := np_total_access_latency m + access_latency,
                          np_total_queueing_delay := np_total_queueing_delay m + queue_delay\<rparr>)))))"

section \<open>Separate queues for reads and writes\<close>

record memory_readwrite =
  rw_enabled :: bool
  rw_application_cores :: core_id_t
  rw_processing :: "UInt64 \<Rightarrow> time"
  rw_queues :: "(queue \<times> queue) option"
  rw_read_cost :: time
  rw_write_cost :: time
  rw_shared_readwrite :: bool
  rw_num_accesses :: UInt64
  rw_total_read_queueing_delay :: time
  rw_total_write_queueing_delay :: time
  rw_total_access_latency :: time

definition readwrite_queues :: "queue_cfg \<Rightarrow> string option \<Rightarrow> time \<Rightarrow> (queue \<times> queue) option result" where
  "readwrite_queues cfg queue_model_type least =
     (case queue_model_type of
        None \<Rightarrow> Inr None
      | Some ty \<Rightarrow> bindE (QueueModel_create cfg ty least) (\<lambda>r. mapE (\<lambda>w. Some (r, w)) (QueueModel_create cfg ty least)))"

definition DramPerfModelReadWrite_new ::
  "core_id_t \<Rightarrow> (UInt64 \<Rightarrow> time) \<Rightarrow> time \<Rightarrow> bool \<Rightarrow> UInt32 \<Rightarrow> queue_cfg \<Rightarrow> string option \<Rightarrow> memory_readwrite result" where
  "DramPerfModelReadWrite_new application_cores processing latency shared cache_block_size cfg queue_model_type =
     mapE (\<lambda>qs. \<lparr>rw_enabled = False, rw_application_cores = application_cores, rw_processing = processing, rw_queues = qs,
               rw_read_cost = latency, rw_write_cost = latency, rw_shared_readwrite = shared, rw_num_accesses = 0,
               rw_total_read_queueing_delay = 0, rw_total_write_queueing_delay = 0, rw_total_access_latency = 0\<rparr>)
       (readwrite_queues cfg queue_model_type (processing (ucast (8 * cache_block_size))))"

text \<open>Here the latencies of reads and writes have no default.\<close>

definition NvmPerfModelReadWrite_new ::
  "core_id_t \<Rightarrow> (UInt64 \<Rightarrow> time) \<Rightarrow> nvm_cfg \<Rightarrow> bool \<Rightarrow> UInt32 \<Rightarrow> queue_cfg \<Rightarrow> string option \<Rightarrow> memory_readwrite result" where
  "NvmPerfModelReadWrite_new application_cores processing ncfg shared cache_block_size cfg queue_model_type =
     (case (nf_read_latency ncfg, nf_write_latency ncfg) of
        (Some r, Some w) \<Rightarrow>
          mapE (\<lambda>qs. \<lparr>rw_enabled = False, rw_application_cores = application_cores, rw_processing = processing, rw_queues = qs,
                    rw_read_cost = r, rw_write_cost = w, rw_shared_readwrite = shared, rw_num_accesses = 0,
                    rw_total_read_queueing_delay = 0, rw_total_write_queueing_delay = 0, rw_total_access_latency = 0\<rparr>)
            (readwrite_queues cfg queue_model_type (processing (ucast (8 * cache_block_size))))
      | _ \<Rightarrow> Inl (Print_Error ''Configuration key not found''))"

definition rw_queueDelay :: "queue_env \<Rightarrow> time \<Rightarrow> time \<Rightarrow> dram_access \<Rightarrow> bool \<Rightarrow> (queue \<times> queue) option \<Rightarrow> (time \<times> (queue \<times> queue) option) result" where
  "rw_queueDelay env pkt_time processing_time access_type shared qs =
     (case qs of
        None \<Rightarrow> Inr (0, None)
      | Some (r, w) \<Rightarrow>
          if access_type = DRAM_READ
          then bindE (queueDelay env pkt_time processing_time r) (\<lambda>(d, r').
               if shared then mapE (\<lambda>(_, w'). (d, Some (r', w'))) (queueDelay env pkt_time processing_time w)
               else Inr (d, Some (r', w)))
          else mapE (\<lambda>(d, w'). (d, Some (r, w'))) (queueDelay env pkt_time processing_time w))"

definition rw_getAccessLatency :: "queue_env \<Rightarrow> time \<Rightarrow> UInt64 \<Rightarrow> core_id_t \<Rightarrow> dram_access \<Rightarrow> memory_readwrite \<Rightarrow> (time \<times> memory_readwrite) result" where
  "rw_getAccessLatency env pkt_time pkt_size requester access_type m =
     (if untimed (rw_enabled m) (rw_application_cores m) requester then Inr (0, m)
      else (let processing_time = rw_processing m (8 * pkt_size)
            in bindE (rw_queueDelay env pkt_time processing_time access_type (rw_shared_readwrite m) (rw_queues m)) (\<lambda>(queue_delay, qs).
               (let access_cost = (if access_type = DRAM_WRITE then rw_write_cost m else rw_read_cost m);
                    access_latency = queue_delay + processing_time + access_cost;
                    m1 = m\<lparr>rw_queues := qs, rw_num_accesses := rw_num_accesses m + 1,
                           rw_total_access_latency := rw_total_access_latency m + access_latency\<rparr>
                in Inr (access_latency,
                        if access_type = DRAM_READ then m1\<lparr>rw_total_read_queueing_delay := rw_total_read_queueing_delay m1 + queue_delay\<rparr>
                        else m1\<lparr>rw_total_write_queueing_delay := rw_total_write_queueing_delay m1 + queue_delay\<rparr>)))))"

section \<open>The queue in front of the memory\<close>

text \<open>
  What the locale of exclusive queues asks for, for the queue model that is chosen at run time. The
  contention and the M/G/1 model give no exclusive use of the bus.
\<close>

fun queue_ok :: "queue \<Rightarrow> bool" where
  "queue_ok (QueueModelBasic b) \<longleftrightarrow> qb_moving_average b = None"
| "queue_ok (QueueModelHistoryList h) \<longleftrightarrow> hl_inv h \<and> \<not> hl_analytical_model_enabled h"
| "queue_ok _ \<longleftrightarrow> False"

fun queue_free :: "queue \<Rightarrow> nat set" where
  "queue_free (QueueModelBasic b) = {unat (qb_queue_time b)..}"
| "queue_free (QueueModelHistoryList h) = covers (hl_free_interval_list h)"
| "queue_free _ = {}"

fun queue_allowed :: "queue \<Rightarrow> time \<Rightarrow> time \<Rightarrow> time \<Rightarrow> bool" where
  "queue_allowed (QueueModelBasic b) t p d \<longleftrightarrow> unat (max (qb_queue_time b) t) + unat p < 2 ^ 64"
| "queue_allowed (QueueModelHistoryList h) t p d \<longleftrightarrow> 0 < p \<and> p \<le> hl_min_processing_time h \<and> unat t + unat p \<le> 2 ^ 63 \<and>
     unat (t + d) + unat p + unat (hl_min_processing_time h) \<le> 2 ^ 63"
| "queue_allowed _ t p d \<longleftrightarrow> False"

interpretation bus: exclusive_queue "queueDelay env" queue_ok queue_free queue_allowed for env
proof
  fix q t p d q' assume a: "queue_ok q" "queueDelay env t p q = Inr (d, q')" "queue_allowed q t p d"
  show "t \<le> t + d \<and> stretch (t + d, p) \<subseteq> queue_free q \<and> queue_free q' \<subseteq> queue_free q - stretch (t + d, p) \<and> queue_ok q'"
  proof (cases q)
    case (QueueModelBasic b)
    with a(2) obtain b' where "qb_computeQueueDelay (qe_root env) t p b = Inr (d, b')" "q' = QueueModelBasic b'"
      by (auto simp: queueDelay_def result_simps)
    with basic.served_free [of b "qe_root env" t p d b'] a QueueModelBasic show ?thesis by simp
  next
    case (QueueModelHistoryList h)
    with a(2) obtain h' where "hl_computeQueueDelay (qe_root env) t p h = Inr (d, h')" "q' = QueueModelHistoryList h'"
      by (auto simp: queueDelay_def result_simps)
    with history.served_free [of h "qe_root env" t p d h'] a QueueModelHistoryList show ?thesis by simp
  qed (use a(1) in simp_all)
qed

lemma created_queue_ok:
  assumes "QueueModel_create cfg ty least = Inr q" "ty = ''basic'' \<or> ty = ''history_list''"
    "\<not> qf_moving_avg_enabled cfg" "\<not> qf_analytical_model_enabled cfg"
    "0 < least" "unat least \<le> 2 ^ 63" "0 < qf_max_list_size cfg" "unat (qf_max_list_size cfg) < 2 ^ 31"
  shows "queue_ok q"
proof -
  have "hl_inv (QueueModelHistoryList_new least False (qf_max_list_size cfg))" using assms(6-8) by (intro hl_new_inv) simp_all
  moreover have "\<not> hl_analytical_model_enabled (QueueModelHistoryList_new least False (qf_max_list_size cfg))"
    by (simp add: QueueModelHistoryList_new_def)
  ultimately show ?thesis using assms(1-4) by (auto simp: QueueModel_create_def QueueModelBasic_new_def result_simps)
qed

section \<open>DRAM and non-volatile memory\<close>

text \<open>The DRAM model that a model of non-volatile memory with equal costs behaves as.\<close>

definition as_dram :: "nvm_constant \<Rightarrow> dram_constant" where
  "as_dram m = \<lparr>dp_enabled = np_enabled m, dp_application_cores = np_application_cores m, dp_processing = np_processing m,
     dp_queue_model = np_queue_model m, dp_access_cost = np_read_cost m, dp_num_accesses = np_num_accesses m,
     dp_total_queueing_delay = np_total_queueing_delay m, dp_total_access_latency = np_total_access_latency m\<rparr>"

lemma nvm_new_as_dram:
  "mapE as_dram (NvmPerfModelConstant_new cores processing ncfg sz cfg ty) = DramPerfModelConstant_new cores processing (getReadLatency ncfg) sz cfg ty"
  by (auto simp: NvmPerfModelConstant_new_def DramPerfModelConstant_new_def as_dram_def mapE_def split: option.splits sum.splits)

lemma nvm_new_costs:
  "NvmPerfModelConstant_new cores processing ncfg sz cfg ty = Inr m \<Longrightarrow> np_read_cost m = getReadLatency ncfg \<and> np_write_cost m = getWriteLatency ncfg"
  by (auto simp: NvmPerfModelConstant_new_def result_simps)

lemma nvm_latency_as_dram:
  assumes "ty = DRAM_WRITE \<Longrightarrow> np_write_cost m = np_read_cost m"
  shows "mapE (map_prod id as_dram) (np_getAccessLatency env t sz r ty m) = dp_getAccessLatency env t sz r (as_dram m)"
  using assms by (auto simp: np_getAccessLatency_def dp_getAccessLatency_def as_dram_def Let_def mapE_def bindE_def split: sum.splits)

text \<open>A sequence of accesses with the time of each: arrival, size, requester and kind.\<close>

fun accesses :: "(time \<Rightarrow> UInt64 \<Rightarrow> core_id_t \<Rightarrow> dram_access \<Rightarrow> 'm \<Rightarrow> (time \<times> 'm) result) \<Rightarrow>
    (time \<times> UInt64 \<times> core_id_t \<times> dram_access) list \<Rightarrow> 'm \<Rightarrow> (time list \<times> 'm) result" where
  "accesses latency [] m = Inr ([], m)"
| "accesses latency ((t, sz, r, ty) # as) m =
     bindE (latency t sz r ty m) (\<lambda>(l, m1). mapE (\<lambda>(ls, m2). (l # ls, m2)) (accesses latency as m1))"

text \<open>Two models whose accesses agree step by step agree on sequences.\<close>

lemma accesses_simulation:
  assumes step: "\<And>t sz r ty m. (t, sz, r, ty) \<in> set as \<Longrightarrow> good m \<Longrightarrow> mapE (map_prod id proj) (f t sz r ty m) = g t sz r ty (proj m)"
    and good: "\<And>t sz r ty m l m'. f t sz r ty m = Inr (l, m') \<Longrightarrow> good m \<Longrightarrow> good m'"
    and "good m"
  shows "mapE (map_prod id proj) (accesses f as m) = accesses g as (proj m)"
  using step \<open>good m\<close>
proof (induction as arbitrary: m)
  case (Cons a as)
  obtain t sz r ty where a: "a = (t, sz, r, ty)" by (metis prod_cases4)
  have one: "g t sz r ty (proj m) = mapE (map_prod id proj) (f t sz r ty m)"
    by (rule Cons.prems(1) [symmetric]) (use Cons.prems(2) in \<open>simp_all add: a\<close>)
  show ?case
  proof (cases "f t sz r ty m")
    case (Inr lm)
    obtain l m1 where lm: "lm = (l, m1)" by (cases lm)
    have "mapE (map_prod id proj) (accesses f as m1) = accesses g as (proj m1)"
      by (rule Cons.IH [OF Cons.prems(1)]) (use Cons.prems(2) good [of t sz r ty m l m1] Inr in \<open>simp_all add: lm\<close>)
    then show ?thesis using one Inr by (cases "accesses f as m1") (auto simp: a lm dest: sym)
  qed (use one in \<open>simp add: a\<close>)
qed simp

definition equal_costs :: "nvm_constant \<Rightarrow> bool" where
  "equal_costs m \<longleftrightarrow> np_write_cost m = np_read_cost m"

lemma np_keeps_costs: "np_getAccessLatency env t sz r ty m = Inr (l, m') \<Longrightarrow> equal_costs m \<Longrightarrow> equal_costs m'"
  by (auto simp: np_getAccessLatency_def equal_costs_def result_simps Let_def split: if_splits)

lemma nvm_accesses_as_dram:
  assumes "equal_costs m"
  shows "mapE (map_prod id as_dram) (accesses (np_getAccessLatency env) as m) = accesses (\<lambda>t sz r ty. dp_getAccessLatency env t sz r) as (as_dram m)"
proof (rule accesses_simulation [where good = equal_costs])
  fix t sz r ty and m :: nvm_constant assume "equal_costs m"
  then show "mapE (map_prod id as_dram) (np_getAccessLatency env t sz r ty m) = dp_getAccessLatency env t sz r (as_dram m)"
    by (simp add: nvm_latency_as_dram equal_costs_def)
qed (use assms np_keeps_costs in auto)

text \<open>Without writes, separate queues are one queue.\<close>

definition read_side :: "memory_readwrite \<Rightarrow> dram_constant" where
  "read_side m = \<lparr>dp_enabled = rw_enabled m, dp_application_cores = rw_application_cores m, dp_processing = rw_processing m,
     dp_queue_model = map_option fst (rw_queues m), dp_access_cost = rw_read_cost m, dp_num_accesses = rw_num_accesses m,
     dp_total_queueing_delay = rw_total_read_queueing_delay m, dp_total_access_latency = rw_total_access_latency m\<rparr>"

lemma readwrite_read_as_dram:
  assumes "\<not> rw_shared_readwrite m"
  shows "mapE (map_prod id read_side) (rw_getAccessLatency env t sz r DRAM_READ m) = dp_getAccessLatency env t sz r (read_side m)"
  using assms
  by (auto simp: rw_getAccessLatency_def dp_getAccessLatency_def read_side_def rw_queueDelay_def optDelay_def Let_def mapE_def bindE_def
      split: sum.splits option.splits)

lemma rw_keeps_sharing: "rw_getAccessLatency env t sz r ty m = Inr (l, m') \<Longrightarrow> rw_shared_readwrite m' = rw_shared_readwrite m"
  by (auto simp: rw_getAccessLatency_def result_simps Let_def split: if_splits)

lemma readwrite_reads_as_dram:
  assumes "\<not> rw_shared_readwrite m" "\<forall>(t, sz, r, ty) \<in> set as. ty = DRAM_READ"
  shows "mapE (map_prod id read_side) (accesses (rw_getAccessLatency env) as m) = accesses (\<lambda>t sz r ty. dp_getAccessLatency env t sz r) as (read_side m)"
proof (rule accesses_simulation [where good = "\<lambda>m. \<not> rw_shared_readwrite m"])
  fix t sz r ty and m :: memory_readwrite assume "(t, sz, r, ty) \<in> set as" "\<not> rw_shared_readwrite m"
  then show "mapE (map_prod id read_side) (rw_getAccessLatency env t sz r ty m) = dp_getAccessLatency env t sz r (read_side m)"
    using assms(2) by (auto simp: readwrite_read_as_dram)
qed (use assms(1) rw_keeps_sharing in auto)

section \<open>Totals\<close>

text \<open>The statistic every memory model keeps: the sum of the latencies it has given out.\<close>

locale latency_total =
  fixes latency :: "time \<Rightarrow> UInt64 \<Rightarrow> core_id_t \<Rightarrow> dram_access \<Rightarrow> 'm \<Rightarrow> (time \<times> 'm) result" and total :: "'m \<Rightarrow> time"
  assumes total_step: "latency t sz r ty m = Inr (l, m') \<Longrightarrow> total m' = total m + l"
begin

lemma total_of_accesses: "accesses latency as m = Inr (ls, m') \<Longrightarrow> total m' = total m + sum_list ls"
proof (induction as arbitrary: m ls)
  case (Cons a as)
  obtain t sz r ty where a: "a = (t, sz, r, ty)" by (metis prod_cases4)
  from Cons.prems obtain l m1 ls1 where "latency t sz r ty m = Inr (l, m1)" "accesses latency as m1 = Inr (ls1, m')" "ls = l # ls1"
    by (auto simp: a result_simps)
  with Cons.IH total_step show ?case by (simp add: add.assoc)
qed simp

end

interpretation dram_total: latency_total "\<lambda>t sz r ty. dp_getAccessLatency env t sz r" dp_total_access_latency for env
  by unfold_locales (auto simp: dp_getAccessLatency_def result_simps Let_def split: if_splits)

interpretation nvm_total: latency_total "np_getAccessLatency env" np_total_access_latency for env
  by unfold_locales (auto simp: np_getAccessLatency_def result_simps Let_def split: if_splits)

interpretation readwrite_total: latency_total "rw_getAccessLatency env" rw_total_access_latency for env
  by unfold_locales (auto simp: rw_getAccessLatency_def result_simps Let_def split: if_splits)

section \<open>Transfers on the bus\<close>

text \<open>A timed access waits for the bus, is transferred, and waits for the memory.\<close>

definition dram_requests :: "dram_constant \<Rightarrow> (time \<times> UInt64 \<times> core_id_t \<times> dram_access) list \<Rightarrow> (time \<times> time) list" where
  "dram_requests m as = map (\<lambda>(t, sz, r, ty). (t, dp_processing m (8 * sz))) as"

lemma dram_accesses_serve:
  assumes "dp_enabled m" "dp_queue_model m = Some q" "\<forall>(t, sz, r, ty) \<in> set as. sint r < sint (dp_application_cores m)"
    "serve_all (queueDelay env) (dram_requests m as) q = Inr (ss, q')"
  shows "\<exists>m'. accesses (\<lambda>t sz r ty. dp_getAccessLatency env t sz r) as m =
      Inr (map2 (\<lambda>(t, sz, r, ty) (s, p). s - t + p + dp_access_cost m) as ss, m') \<and> dp_queue_model m' = Some q'"
  using assms
proof (induction as arbitrary: m q ss)
  case (Cons a as)
  obtain t sz r ty where a: "a = (t, sz, r, ty)" by (metis prod_cases4)
  let ?p = "dp_processing m (8 * sz)"
  from Cons.prems(4) obtain d q1 ss1 where one: "queueDelay env t ?p q = Inr (d, q1)" and ss: "ss = (t + d, ?p) # ss1"
    and rest: "serve_all (queueDelay env) (dram_requests m as) q1 = Inr (ss1, q')"
    by (auto simp: a dram_requests_def result_simps)
  define m1 where "m1 = m\<lparr>dp_queue_model := Some q1, dp_num_accesses := dp_num_accesses m + 1,
      dp_total_access_latency := dp_total_access_latency m + (d + ?p + dp_access_cost m), dp_total_queueing_delay := dp_total_queueing_delay m + d\<rparr>"
  have "dp_getAccessLatency env t sz r m = Inr (d + ?p + dp_access_cost m, m1)"
    using Cons.prems(1-3) one by (simp add: a dp_getAccessLatency_def untimed_def optDelay_def m1_def Let_def)
  moreover have "serve_all (queueDelay env) (dram_requests m1 as) q1 = Inr (ss1, q')" using rest by (simp add: dram_requests_def m1_def)
  ultimately show ?case
    using Cons.IH [of m1 q1 ss1] Cons.prems(1-3) by (auto simp: a ss m1_def add.assoc)
qed (auto simp: dram_requests_def)

lemma history_bus:
  "serve_all (queueDelay env) rs (QueueModelHistoryList h) = mapE (map_prod id QueueModelHistoryList) (serve_all (hl_computeQueueDelay (qe_root env)) rs h)"
  "all_allowed (queueDelay env) queue_allowed rs (QueueModelHistoryList h) \<longleftrightarrow>
     all_allowed (hl_computeQueueDelay (qe_root env)) (\<lambda>h. queue_allowed (QueueModelHistoryList h)) rs h"
  by (induction rs arbitrary: h)
    (auto simp: queueDelay_def bindE_def mapE_def split: sum.splits)

lemma history_queue_new:
  assumes "QueueModel_create cfg ''history_list'' least = Inr q" "\<not> qf_analytical_model_enabled cfg"
    "unat least \<le> 2 ^ 63" "0 < qf_max_list_size cfg" "unat (qf_max_list_size cfg) < 2 ^ 31"
  obtains h where "q = QueueModelHistoryList h" "hl_inv h" "\<not> hl_analytical_model_enabled h" "hl_min_processing_time h = least"
    "fst (last (hl_free_interval_list h)) = 0"
proof (rule that)
  let ?h = "QueueModelHistoryList_new least (qf_analytical_model_enabled cfg) (qf_max_list_size cfg)"
  show "q = QueueModelHistoryList ?h" using assms(1) by (simp add: QueueModel_create_def)
  show "hl_inv ?h" using assms(3-5) by (intro hl_new_inv) simp_all
qed (use assms(2) in \<open>simp_all add: QueueModelHistoryList_new_def\<close>)

text \<open>The history list serves every request on a bus of its own, none at the same time as another.\<close>

lemma history_bus_serves:
  assumes "hl_inv h" "\<not> hl_analytical_model_enabled h" "fst (last (hl_free_interval_list h)) = 0"
    "\<forall>(t, p) \<in> set rs. unat t \<le> b \<and> 0 < p \<and> p \<le> hl_min_processing_time h"
    "b + (length rs + 2) * unat (hl_min_processing_time h) \<le> 2 ^ 63"
  obtains ss q' where "serve_all (queueDelay env) rs (QueueModelHistoryList h) = Inr (ss, q')"
    "sorted_wrt (\<lambda>a b. stretch a \<inter> stretch b = {}) ss" "list_all2 (\<lambda>(t, p) (s, p'). t \<le> s \<and> p' = p) rs ss"
proof -
  have z: "unat (fst (last (hl_free_interval_list h))) \<le> b" using assms(3) by simp
  have fn: "(\<lambda>h. queue_allowed (QueueModelHistoryList h)) = (\<lambda>q t p d. 0 < p \<and> p \<le> hl_min_processing_time q \<and> unat t + unat p \<le> 2 ^ 63 \<and>
      unat (t + d) + unat p + unat (hl_min_processing_time q) \<le> 2 ^ 63)" by (intro ext) simp
  obtain ss h' where run: "serve_all (hl_computeQueueDelay (qe_root env)) rs h = Inr (ss, h')"
    and al: "all_allowed (hl_computeQueueDelay (qe_root env)) (\<lambda>h. queue_allowed (QueueModelHistoryList h)) rs h"
    unfolding fn using hl_serves_all [OF assms(1,2) refl z assms(4,5), of "qe_root env"] by blast
  have "serve_all (queueDelay env) rs (QueueModelHistoryList h) = Inr (ss, QueueModelHistoryList h')"
    "all_allowed (queueDelay env) queue_allowed rs (QueueModelHistoryList h)" using run al by (simp_all add: history_bus)
  with bus.stretches_disjoint [OF _ this] assms(1,2) that show ?thesis by simp
qed

lemma transfers_of_starts:
  assumes "list_all2 (\<lambda>(t, p) (s, p'). t \<le> s \<and> p' = p) (map (\<lambda>(t, sz, r, ty). (t, processing (8 * sz))) as) ss"
  shows "map2 (\<lambda>(t, sz, r, ty) (s, p). s - t + p + cost) as ss = map2 (\<lambda>(t, sz, r, ty) s. s - t + processing (8 * sz) + cost) as (map fst ss)"
    and "list_all2 (\<lambda>(t, sz, r, ty) s. t \<le> s) as (map fst ss)"
    and "sorted_wrt (\<lambda>a b. stretch a \<inter> stretch b = {}) ss \<Longrightarrow>
      sorted_wrt (\<lambda>((_, sz, _), s) ((_, sz', _), s'). stretch (s, processing (8 * sz)) \<inter> stretch (s', processing (8 * sz')) = {}) (zip as (map fst ss))"
proof -
  have len: "length ss = length as" using assms by (simp add: list_all2_conv_all_nth)
  have nth: "fst (as ! i) \<le> fst (ss ! i)" "snd (ss ! i) = processing (8 * fst (snd (as ! i)))" if "i < length as" for i
    using assms that by (auto simp: list_all2_conv_all_nth split_beta)
  show "map2 (\<lambda>(t, sz, r, ty) (s, p). s - t + p + cost) as ss = map2 (\<lambda>(t, sz, r, ty) s. s - t + processing (8 * sz) + cost) as (map fst ss)"
    by (rule nth_equalityI) (simp_all add: len nth split_beta)
  show "list_all2 (\<lambda>(t, sz, r, ty) s. t \<le> s) as (map fst ss)"
    by (simp add: list_all2_conv_all_nth len nth(1) split_beta)
  assume "sorted_wrt (\<lambda>a b. stretch a \<inter> stretch b = {}) ss"
  then show "sorted_wrt (\<lambda>((_, sz, _), s) ((_, sz', _), s'). stretch (s, processing (8 * sz)) \<inter> stretch (s', processing (8 * sz')) = {}) (zip as (map fst ss))"
    by (simp add: sorted_wrt_iff_nth_less len split_beta nth(2))
qed

text \<open>The timing of a controller's memory, for \<open>Dram\<close>; an access that stops the simulator is given no time.\<close>

primcorec constant_perf :: "queue_env \<Rightarrow> dram_constant \<Rightarrow> perf_model" where
  "getAccessLatency (constant_perf env m) = (\<lambda>t sz r a ty.
     map_prod id (constant_perf env) (case dp_getAccessLatency env t sz r m of Inl e \<Rightarrow> (0, m) | Inr lm \<Rightarrow> lm))"

lemma runDramPerfModel_constant:
  assumes "dr_perf d = constant_perf env m" "dp_getAccessLatency env t (of_nat (dr_block_size d)) r m = Inr (l, m')"
  shows "runDramPerfModel r t a ty d = (l, d\<lparr>dr_perf := constant_perf env m'\<rparr>)"
  using assms by (simp add: runDramPerfModel_def)

end
