(* ===== verification/Placement.thy ===== *)
theory Placement
  imports Machine
begin

text \<open>
  \<open>memory_manager_base.cc\<close>, \<open>network/network_model.cc\<close> and the constructor of \<open>memory_manager.cc\<close>: which
  nodes have a memory controller and which have a tag directory. Node numbers are integers here; the
  configuration keeps them far below $2^{31}$.
\<close>

section \<open>Configuration\<close>

datatype network_type = NETWORK_MAGIC | NETWORK_EMESH_HOP_COUNTER | NETWORK_EMESH_HOP_BY_HOP | NETWORK_BUS

definition parseNetworkType :: "string \<Rightarrow> network_type option" where
  "parseNetworkType str =
     (if str = ''magic'' then Some NETWORK_MAGIC
      else if str = ''emesh_hop_counter'' then Some NETWORK_EMESH_HOP_COUNTER
      else if str = ''emesh_hop_by_hop'' then Some NETWORK_EMESH_HOP_BY_HOP
      else if str = ''bus'' then Some NETWORK_BUS
      else None)"

text \<open>The size of the mesh is computed in floating point; it is a value of the configuration here.\<close>

record placement_cfg =
  pl_core_count :: int
  pl_num_controllers :: int
  pl_controllers_interleaving :: int
  pl_smt_cores :: int
  pl_controller_positions :: string
  pl_network :: string
  pl_mesh_width :: int
  pl_mesh_height :: int
  pl_mesh_dimensions :: int
  pl_mesh_concentration :: int
  pl_locations :: string
  pl_directory_interleaving :: int
  pl_llc_shared_cores :: int

section \<open>Positions from the configuration\<close>

text \<open>\<open>atoi\<close>: white space, a sign, and the digits up to the first other character.\<close>

definition is_space :: "char \<Rightarrow> bool" where
  "is_space c \<longleftrightarrow> c = CHR '' '' \<or> ((9 :: nat) \<le> of_char c \<and> (of_char c :: nat) \<le> 13)"

definition is_digit :: "char \<Rightarrow> bool" where
  "is_digit c \<longleftrightarrow> (48 :: nat) \<le> of_char c \<and> (of_char c :: nat) \<le> 57"

definition digits_value :: "string \<Rightarrow> int" where
  "digits_value ds = foldl (\<lambda>n c. 10 * n + (of_char c - 48)) 0 ds"

definition atoi :: "string \<Rightarrow> int" where
  "atoi s =
     (case dropWhile is_space s of
        [] \<Rightarrow> 0
      | c # cs \<Rightarrow>
          if c = CHR ''-'' then - digits_value (takeWhile is_digit cs)
          else if c = CHR ''+'' then digits_value (takeWhile is_digit cs)
          else digits_value (takeWhile is_digit (c # cs)))"

fun split_commas :: "string \<Rightarrow> string list" where
  "split_commas [] = [[]]"
| "split_commas (c # cs) =
     (if c = CHR '','' then [] # split_commas cs
      else (case split_commas cs of p # ps \<Rightarrow> (c # p) # ps | [] \<Rightarrow> [[c]]))"

fun check_cores :: "int \<Rightarrow> string list \<Rightarrow> int list result" where
  "check_cores core_count [] = Inr []"
| "check_cores core_count (p # ps) =
     check (atoi p < core_count) (Assert ''core_num >= num_cores'') (mapE (Cons (atoi p)) (check_cores core_count ps))"

definition parseMemoryControllerList :: "string \<Rightarrow> int \<Rightarrow> int list result" where
  "parseMemoryControllerList positions core_count = (if positions = [] then Inr [] else check_cores core_count (split_commas positions))"

section \<open>Positions from the network\<close>

definition spread :: "int \<Rightarrow> int \<Rightarrow> int \<Rightarrow> int list result" where
  "spread n spacing core_count =
     (let cores = map (\<lambda>i. int i * spacing) [0..<nat n]
      in check (list_all (\<lambda>c. c < core_count) cores) (Assert ''i * spacing < core_count'') (Inr cores))"

text \<open>The cores along the edge of the chip, clockwise from the first one.\<close>

definition perimeter :: "int \<Rightarrow> int \<Rightarrow> int \<Rightarrow> int list" where
  "perimeter dimensions w h =
     [0..w - 1] @
     (if 1 < dimensions \<and> 1 < h
      then map (\<lambda>i. i * w + w - 1) [1..h - 2] @ map (\<lambda>i. (h - 1) * w + i) (rev [0..w - 1]) @ map (\<lambda>i. i * w) (rev [1..h - 2])
      else [])"

definition emesh_positions :: "placement_cfg \<Rightarrow> int \<Rightarrow> int list result" where
  "emesh_positions cfg n =
     (let w = pl_mesh_width cfg; h = pl_mesh_height cfg; edge = perimeter (pl_mesh_dimensions cfg) w h; len = int (length edge)
      in check (1 < pl_mesh_dimensions cfg \<and> 1 < h \<longrightarrow> len = 2 * (w + h - 2)) (Assert ''size of the perimeter'')
        (check (0 \<le> n \<and> n \<le> len) (Assert ''num memory controllers'')
        (check (n \<noteq> 0) (Undefined ''division by zero'')
          (Inr (map (\<lambda>i. pl_mesh_concentration cfg * pl_smt_cores cfg * (edge ! nat ((int i * (len div n) + w div 2) mod len))) [0..<nat n])))))"

definition computeMemoryControllerPositions :: "placement_cfg \<Rightarrow> network_type \<Rightarrow> int \<Rightarrow> int list result" where
  "computeMemoryControllerPositions cfg ty n =
     (case ty of
        NETWORK_EMESH_HOP_BY_HOP \<Rightarrow> emesh_positions cfg n
      | _ \<Rightarrow> check (n \<noteq> 0) (Undefined ''division by zero'') (spread n (pl_core_count cfg div n) (pl_core_count cfg)))"

section \<open>Memory controllers\<close>

definition getCoreListWithMemoryControllers :: "placement_cfg \<Rightarrow> int list result" where
  "getCoreListWithMemoryControllers cfg =
     (let n = pl_num_controllers cfg; core_count = pl_core_count cfg; interleaving = pl_controllers_interleaving cfg * pl_smt_cores cfg
      in check (n \<le> core_count) (Assert ''num_memory_controllers <= core_count'')
        (if n \<noteq> - 1
         then bindE (parseMemoryControllerList (pl_controller_positions cfg) core_count) (\<lambda>listed.
              check (listed = [] \<or> int (length listed) = n) (Assert ''num_controller_positions'')
                (if listed \<noteq> [] then Inr listed
                 else (case parseNetworkType (pl_network cfg) of
                         None \<Rightarrow> Inl (Print_Error ''Unrecognized network type'')
                       | Some ty \<Rightarrow> computeMemoryControllerPositions cfg ty n)))
         else if interleaving \<noteq> 0
         then spread ((core_count + interleaving - 1) div interleaving) interleaving core_count
         else Inr [0..core_count - 1]))"

section \<open>Tag directories\<close>

text \<open>Every so many cores; a step that does not go forward never ends.\<close>

function every :: "int \<Rightarrow> int \<Rightarrow> int \<Rightarrow> int list result" where
  "every core_count step core =
     (if core_count \<le> core then Inr []
      else if step \<le> 0 then Inl Diverges
      else mapE (Cons core) (every core_count step (core + step)))"
  by pat_completeness auto
termination
  by (relation "measure (\<lambda>(n, s, c). nat (n - c))") auto

declare every.simps [simp del]

definition tagDirectoryInterleaving :: "placement_cfg \<Rightarrow> int result" where
  "tagDirectoryInterleaving cfg =
     (if pl_locations cfg = ''llc'' then Inr (pl_llc_shared_cores cfg)
      else if pl_locations cfg = ''interleaved'' then Inr (pl_directory_interleaving cfg * pl_smt_cores cfg)
      else Inl (Print_Error ''Invalid perf_model/dram_directory/locations value''))"

definition coreListWithTagDirectories :: "placement_cfg \<Rightarrow> int list \<Rightarrow> int list result" where
  "coreListWithTagDirectories cfg memory =
     (if pl_locations cfg = ''dram'' then Inr memory
      else bindE (tagDirectoryInterleaving cfg) (\<lambda>step. every (pl_core_count cfg) step 0))"

text \<open>Both must be at the first core of those that share a last-level cache.\<close>

definition core_id_master :: "placement_cfg \<Rightarrow> int \<Rightarrow> int" where
  "core_id_master cfg core = core - core mod pl_llc_shared_cores cfg"

definition at_masters :: "placement_cfg \<Rightarrow> int list \<Rightarrow> bool" where
  "at_masters cfg nodes \<longleftrightarrow> list_all (\<lambda>c. c \<in> set nodes \<longrightarrow> core_id_master cfg c = c) [0..pl_core_count cfg - 1]"

definition placeMemory :: "placement_cfg \<Rightarrow> (int list \<times> int list) result" where
  "placeMemory cfg =
     bindE (getCoreListWithMemoryControllers cfg) (\<lambda>memory.
     bindE (coreListWithTagDirectories cfg memory) (\<lambda>directories.
       check (pl_llc_shared_cores cfg \<noteq> 0) (Undefined ''division by zero'')
      (check (at_masters cfg memory) (Assert ''DRAM controllers may only be at master node of shared caches'')
      (check (at_masters cfg directories) (Assert ''Tag directories may only be at master node of shared caches'')
         (Inr (memory, directories))))))"

section \<open>Where they are\<close>

lemma every_set: "every n step c = Inr cs \<Longrightarrow> set cs = {k. c \<le> k \<and> k < n \<and> step dvd k - c} \<and> sorted_wrt (<) cs"
proof (induction n step c arbitrary: cs rule: every.induct)
  case (1 n step c)
  show ?case
  proof (cases "n \<le> c")
    case True
    then show ?thesis using "1.prems" by (subst (asm) every.simps) auto
  next
    case False
    with "1.prems" obtain cs1 where pos: "0 < step" and run: "every n step (c + step) = Inr cs1" and cs: "cs = c # cs1"
      by (subst (asm) every.simps) (auto simp: result_simps split: if_splits)
    from "1.IH" [OF False _ run] pos have ih: "set cs1 = {k. c + step \<le> k \<and> k < n \<and> step dvd k - (c + step)}" "sorted_wrt (<) cs1" by auto
    have "step dvd k - (c + step) \<longleftrightarrow> step dvd k - c" for k
      using dvd_add_triv_right_iff [of step "k - (c + step)"] by (simp add: algebra_simps)
    moreover have "c + step \<le> k" if "c \<le> k" "step dvd k - c" "k \<noteq> c" for k
      using zdvd_imp_le [of step "k - c"] that by simp
    ultimately show ?thesis using ih pos False by (auto simp: cs)
  qed
qed

lemma every_total: "0 < step \<Longrightarrow> \<exists>cs. every n step c = Inr cs"
proof (induction n step c rule: every.induct)
  case (1 n step c)
  then show ?case by (cases "n \<le> c") (subst every.simps; auto)+
qed

lemma le_div_int: "0 < q \<Longrightarrow> a \<le> b div q \<longleftrightarrow> a * q \<le> (b :: int)"
  using pos_imp_zdiv_nonneg_iff [of q "b + (- a) * q"] div_mult_self1 [of q b "- a"] by simp

lemma spread_set:
  assumes "spread ((n + il - 1) div il) il n = Inr cs" "0 < il"
  shows "set cs = {k. 0 \<le> k \<and> k < n \<and> il dvd k} \<and> sorted_wrt (<) cs"
proof -
  let ?m = "(n + il - 1) div il"
  have cs: "cs = map (\<lambda>i. int i * il) [0..<nat ?m]" using assms(1) by (simp add: spread_def Let_def result_simps)
  have less: "int i < ?m \<longleftrightarrow> int i * il < n" for i
    using le_div_int [OF assms(2), of "int i + 1" "n + il - 1"] by (simp add: algebra_simps) linarith
  have "set cs = {int i * il | i. int i * il < n}" by (auto simp: cs less zless_nat_eq_int_zless)
  also have "\<dots> = {k. 0 \<le> k \<and> k < n \<and> il dvd k}"
  proof safe
    fix k assume "0 \<le> k" "k < n" "il dvd k"
    then obtain j where "k = il * j" by blast
    moreover have "0 \<le> j" using \<open>0 \<le> k\<close> \<open>k = il * j\<close> assms(2) by (simp add: zero_le_mult_iff)
    ultimately show "\<exists>i. k = int i * il \<and> int i * il < n" using \<open>k < n\<close> by (intro exI [of _ "nat j"]) (simp add: mult.commute)
  qed (use assms(2) in auto)
  finally show ?thesis using assms(2) by (auto simp: cs sorted_wrt_map sorted_wrt_iff_nth_less)
qed

lemma spread_total:
  assumes "0 < il"
  shows "\<exists>cs. spread ((n + il - 1) div il) il n = Inr cs"
proof -
  have "int i * il < n" if "int i < (n + il - 1) div il" for i
    using le_div_int [OF assms, of "int i + 1" "n + il - 1"] that by (simp add: algebra_simps)
  then have "list_all (\<lambda>c. c < n) (map (\<lambda>i. int i * il) [0..<nat ((n + il - 1) div il)])" by (auto simp: list_all_iff zless_nat_eq_int_zless)
  then show ?thesis by (simp add: spread_def Let_def)
qed

text \<open>
  With controllers at every \<open>il\<close>-th core, every tag directory has a memory controller beside it exactly if
  directories are placed at the controllers, the distance of directories is a multiple of that of
  controllers, or there is one directory.
\<close>

lemma multiples_subset:
  fixes n :: int
  assumes "0 < n" "0 < a" "0 < b"
  shows "{k. 0 \<le> k \<and> k < n \<and> b dvd k} \<subseteq> {k. 0 \<le> k \<and> k < n \<and> a dvd k} \<longleftrightarrow> a dvd b \<or> n \<le> b"
proof
  assume sub: "{k. 0 \<le> k \<and> k < n \<and> b dvd k} \<subseteq> {k. 0 \<le> k \<and> k < n \<and> a dvd k}"
  show "a dvd b \<or> n \<le> b"
  proof (cases "n \<le> b")
    case False
    then have "b \<in> {k. 0 \<le> k \<and> k < n \<and> b dvd k}" using assms(3) by simp
    with sub show ?thesis by blast
  qed simp
next
  assume "a dvd b \<or> n \<le> b"
  moreover have "k = 0" if "0 \<le> k" "k < n" "b dvd k" "n \<le> b" for k using zdvd_imp_le [of b k] that by (cases "k = 0") auto
  ultimately show "{k. 0 \<le> k \<and> k < n \<and> b dvd k} \<subseteq> {k. 0 \<le> k \<and> k < n \<and> a dvd k}" by (auto intro: dvd_trans)
qed

lemma directories_beside_memory:
  assumes "placeMemory cfg = Inr (memory, directories)" "pl_num_controllers cfg = - 1" "il = pl_controllers_interleaving cfg * pl_smt_cores cfg"
    "0 < il" "0 < pl_core_count cfg"
  shows "set directories \<subseteq> set memory \<longleftrightarrow>
    pl_locations cfg = ''dram'' \<or> (\<exists>step. tagDirectoryInterleaving cfg = Inr step \<and> (il dvd step \<or> pl_core_count cfg \<le> step))"
proof (cases "pl_locations cfg = ''dram''")
  case True
  then show ?thesis using assms(1) by (simp add: placeMemory_def coreListWithTagDirectories_def result_simps)
next
  case False
  with assms(1) obtain step where m: "getCoreListWithMemoryControllers cfg = Inr memory" and st: "tagDirectoryInterleaving cfg = Inr step"
    and d: "every (pl_core_count cfg) step 0 = Inr directories"
    by (auto simp: placeMemory_def coreListWithTagDirectories_def result_simps)
  have pos: "0 < step" using d assms(5) by (subst (asm) every.simps) (auto split: if_splits)
  have "spread ((pl_core_count cfg + il - 1) div il) il (pl_core_count cfg) = Inr memory"
    using m assms(2,4) by (simp add: getCoreListWithMemoryControllers_def Let_def result_simps flip: assms(3))
  from spread_set [OF this assms(4)] every_set [OF d] multiples_subset [OF assms(5,4) pos] st False show ?thesis by auto
qed

section \<open>Homes\<close>

text \<open>The nodes that are the home of some address are those of the list.\<close>

lemma getHome_range:
  assumes "wf_ahl ahl"
  shows "range (getHome ahl) = Inr ` set (m_core_list ahl)"
proof
  show "range (getHome ahl) \<subseteq> Inr ` set (m_core_list ahl)" using getHome_total [OF assms] by auto
  show "Inr ` set (m_core_list ahl) \<subseteq> range (getHome ahl)"
  proof safe
    fix c assume "c \<in> set (m_core_list ahl)"
    then obtain i where i: "i < length (m_core_list ahl)" "c = m_core_list ahl ! i" by (metis in_set_conv_nth)
    let ?p = "unat (m_ahl_param ahl)"
    have wf: "?p < 31" "length (m_core_list ahl) < 2 ^ 31" using assms by (simp_all add: wf_ahl_def)
    have "(2 :: nat) ^ ?p < 2 ^ 31" by (rule power_strict_increasing [OF wf(1)]) simp
    moreover have "i < 2 ^ 31" using i(1) wf(2) by linarith
    moreover define x where "x = i * 2 ^ ?p"
    ultimately have "x < 2 ^ 31 * 2 ^ 31" unfolding x_def by (intro mult_strict_mono) simp_all
    then have "unat (of_nat x :: IntPtr) = x" by (simp add: unat_of_nat)
    then have "unat (module_num ahl (of_nat x)) = i" using i(1) by (simp add: unat_module_num [OF assms] x_def)
    then have "getHome ahl (of_nat x) = Inr c" using getHome_total(1) [OF assms, of "of_nat x"] i(2) by simp
    then show "Inr c \<in> range (getHome ahl)" by (metis rangeI)
  qed
qed

lemma of_int_core_inj:
  assumes "0 \<le> a" "a < 2 ^ 31" "0 \<le> b" "b < 2 ^ 31" "(of_int a :: core_id_t) = of_int b"
  shows "a = b"
proof -
  have "uint (of_int x :: core_id_t) = x" if "0 \<le> x" "x < 2 ^ 31" for x
    using that by (simp add: uint_word_of_int)
  with assms show ?thesis by metis
qed

text \<open>So every home of a tag directory has memory exactly under the condition above.\<close>

lemma homes_have_memory:
  assumes "AddressHomeLookup_new param (map of_int directories) bs = Inr ahl" "directories \<noteq> []" "length directories < 2 ^ 31"
    "\<forall>d \<in> set directories \<union> set memory. 0 \<le> d \<and> d < 2 ^ 31"
  shows "(\<forall>a. \<exists>h \<in> set memory. getHome ahl a = Inr (of_int h)) \<longleftrightarrow> set directories \<subseteq> set memory"
proof -
  have wf: "wf_ahl ahl" using AddressHomeLookup_new_wf [OF assms(1)] assms(2,3) by simp
  have l: "m_core_list ahl = map of_int directories" using assms(1) by (auto simp: AddressHomeLookup_new_def result_simps)
  have r: "range (getHome ahl) = (\<lambda>d. Inr (of_int d)) ` set directories" using getHome_range [OF wf] by (auto simp: l)
  show ?thesis
  proof
    assume all: "\<forall>a. \<exists>h \<in> set memory. getHome ahl a = Inr (of_int h)"
    show "set directories \<subseteq> set memory"
    proof
      fix d assume d: "d \<in> set directories"
      then obtain a where "getHome ahl a = Inr (of_int d)" using r by (metis (no_types, lifting) imageE imageI)
      with all obtain h where "h \<in> set memory" "(of_int h :: core_id_t) = of_int d" by (metis sum.inject(2))
      with of_int_core_inj [of h d] assms(4) d show "d \<in> set memory" by auto
    qed
  next
    assume "set directories \<subseteq> set memory"
    moreover have "\<exists>d \<in> set directories. getHome ahl a = Inr (of_int d)" for a using r by blast
    ultimately show "\<forall>a. \<exists>h \<in> set memory. getHome ahl a = Inr (of_int h)" by blast
  qed
qed

lemma placed_in_range:
  assumes "placeMemory cfg = Inr (memory, directories)" "pl_num_controllers cfg = - 1" "il = pl_controllers_interleaving cfg * pl_smt_cores cfg"
    "0 < il" "0 < pl_core_count cfg" "pl_core_count cfg < 2 ^ 31"
  shows "\<forall>d \<in> set directories \<union> set memory. 0 \<le> d \<and> d < 2 ^ 31" "directories \<noteq> []" "length directories < 2 ^ 31"
proof -
  from assms(1) have m: "getCoreListWithMemoryControllers cfg = Inr memory" by (auto simp: placeMemory_def result_simps)
  have "spread ((pl_core_count cfg + il - 1) div il) il (pl_core_count cfg) = Inr memory"
    using m assms(2,4) by (simp add: getCoreListWithMemoryControllers_def Let_def result_simps flip: assms(3))
  from spread_set [OF this assms(4)] have mem: "set memory = {k. 0 \<le> k \<and> k < pl_core_count cfg \<and> il dvd k}" "sorted_wrt (<) memory" by blast+
  have dir: "(\<exists>step. set directories = {k. 0 \<le> k \<and> k < pl_core_count cfg \<and> step dvd k}) \<and> sorted_wrt (<) directories"
  proof (cases "pl_locations cfg = ''dram''")
    case True
    then have "directories = memory" using assms(1) by (auto simp: placeMemory_def coreListWithTagDirectories_def result_simps)
    with mem show ?thesis by blast
  next
    case False
    with assms(1) obtain step where "every (pl_core_count cfg) step 0 = Inr directories"
      by (auto simp: placeMemory_def coreListWithTagDirectories_def result_simps)
    from every_set [OF this] show ?thesis by auto
  qed
  then obtain step where st: "set directories = {k. 0 \<le> k \<and> k < pl_core_count cfg \<and> step dvd k}" by blast
  have sub: "set directories \<subseteq> {0..<pl_core_count cfg}" unfolding st by auto
  have ne: "0 \<in> set directories" unfolding st using assms(5) by simp
  have "set memory \<subseteq> {0..<pl_core_count cfg}" unfolding mem(1) by auto
  with sub assms(6) show "\<forall>d \<in> set directories \<union> set memory. 0 \<le> d \<and> d < 2 ^ 31"
    by (metis Un_iff atLeastLessThan_iff order_less_trans subset_iff)
  show "directories \<noteq> []" using ne by auto
  have "distinct directories" using dir by (simp add: strict_sorted_iff)
  then have "length directories = card (set directories)" by (simp add: distinct_card)
  also have "\<dots> \<le> card {0..<pl_core_count cfg}" using sub by (intro card_mono) auto
  finally show "length directories < 2 ^ 31" using assms(5,6) by (simp add: nat_less_iff)
qed

end
