(* ===== verification/Branch_Predictors.thy ===== *)
theory Branch_Predictors
  imports Cache_Base
begin

text \<open>
  \<open>performance_model/branch_predictor.cc\<close> and \<open>branch_predictors/\<close>: the one-bit, the Pentium M and the A53
  branch predictor. The vectors of the code are lists; an index outside a vector is undefined.
\<close>

section \<open>Counting\<close>

record predictions =
  bp_correct :: UInt64
  bp_incorrect :: UInt64

definition no_predictions :: predictions where
  "no_predictions = \<lparr>bp_correct = 0, bp_incorrect = 0\<rparr>"

definition updateCounters :: "bool \<Rightarrow> bool \<Rightarrow> predictions \<Rightarrow> predictions" where
  "updateCounters predicted actual c =
     (if predicted = actual then c\<lparr>bp_correct := bp_correct c + 1\<rparr> else c\<lparr>bp_incorrect := bp_incorrect c + 1\<rparr>)"

definition resetCounters :: "predictions \<Rightarrow> predictions" where
  "resetCounters c = c\<lparr>bp_correct := 0, bp_incorrect := 0\<rparr>"

section \<open>Saturating counters\<close>

text \<open>A counter of \<open>n\<close> bits; it never leaves their range, so the byte it is kept in does not overflow.\<close>

definition sat_predict :: "int \<Rightarrow> bool" where
  "sat_predict c \<longleftrightarrow> 0 \<le> c"

definition sat_reset :: "nat \<Rightarrow> bool \<Rightarrow> int" where
  "sat_reset n prediction = (if prediction then 2 ^ (n - 1) - 1 else - (2 ^ (n - 1)))"

definition sat_incr :: "nat \<Rightarrow> int \<Rightarrow> int" where
  "sat_incr n c = (if c \<noteq> 2 ^ (n - 1) - 1 then c + 1 else c)"

definition sat_decr :: "nat \<Rightarrow> int \<Rightarrow> int" where
  "sat_decr n c = (if c \<noteq> - (2 ^ (n - 1)) then c - 1 else c)"

definition sat_update :: "nat \<Rightarrow> bool \<Rightarrow> int \<Rightarrow> int" where
  "sat_update n actual c = (if actual then sat_incr n c else sat_decr n c)"

definition sat_ok :: "nat \<Rightarrow> int \<Rightarrow> bool" where
  "sat_ok n c \<longleftrightarrow> - (2 ^ (n - 1)) \<le> c \<and> c \<le> 2 ^ (n - 1) - 1"

lemma sat_ok_steps [simp]: "sat_ok n c \<Longrightarrow> sat_ok n (sat_update n b c)" "sat_ok n (sat_reset n b)" "sat_ok n 0"
  by (auto simp: sat_ok_def sat_update_def sat_incr_def sat_decr_def sat_reset_def)

section \<open>OneBitBranchPredictor\<close>

record one_bit =
  ob_bits :: "bool list"
  ob_counts :: predictions

definition OneBitBranchPredictor_new :: "UInt32 \<Rightarrow> one_bit" where
  "OneBitBranchPredictor_new bits = \<lparr>ob_bits = replicate (unat bits) False, ob_counts = no_predictions\<rparr>"

definition ob_index :: "IntPtr \<Rightarrow> one_bit \<Rightarrow> nat" where
  "ob_index ip p = unat ip mod length (ob_bits p)"

definition ob_predict :: "bool \<Rightarrow> IntPtr \<Rightarrow> IntPtr \<Rightarrow> one_bit \<Rightarrow> (bool \<times> one_bit) result" where
  "ob_predict indirect ip target p =
     check (ob_bits p \<noteq> []) (Undefined ''division by zero'') (Inr (ob_bits p ! ob_index ip p, p))"

definition ob_update :: "bool \<Rightarrow> bool \<Rightarrow> bool \<Rightarrow> IntPtr \<Rightarrow> IntPtr \<Rightarrow> one_bit \<Rightarrow> one_bit result" where
  "ob_update predicted actual indirect ip target p =
     check (ob_bits p \<noteq> []) (Undefined ''division by zero'')
       (Inr (p\<lparr>ob_counts := updateCounters predicted actual (ob_counts p), ob_bits := (ob_bits p)[ob_index ip p := actual]\<rparr>))"

section \<open>SimpleBimodalTable\<close>

record bimodal =
  bm_mask :: IntPtr
  bm_table :: "int list"

fun ilog2_loop :: "nat \<Rightarrow> UInt32 \<Rightarrow> UInt32 \<Rightarrow> UInt32" where
  "ilog2_loop 0 n i = i"
| "ilog2_loop (Suc k) n i = (if 0 < n then ilog2_loop k (drop_bit 1 n) (i + 1) else i)"

definition ilog2 :: "UInt32 \<Rightarrow> UInt32" where
  "ilog2 n = ilog2_loop 32 n 0 - 1"

definition SimpleBimodalTable_new :: "UInt32 \<Rightarrow> bimodal" where
  "SimpleBimodalTable_new entries =
     \<lparr>bm_mask = foldl (\<lambda>m i. m OR push_bit i 1) 0 [0..<unat (ilog2 entries)], bm_table = replicate (unat entries) (sat_reset 2 False)\<rparr>"

definition bm_index :: "IntPtr \<Rightarrow> bimodal \<Rightarrow> nat" where
  "bm_index ip t = unat (ucast (ip AND bm_mask t) :: UInt32)"

definition bm_predict :: "IntPtr \<Rightarrow> bimodal \<Rightarrow> bool result" where
  "bm_predict ip t = mapE sat_predict (at (bm_table t) (bm_index ip t))"

definition bm_update :: "bool \<Rightarrow> IntPtr \<Rightarrow> bimodal \<Rightarrow> bimodal result" where
  "bm_update actual ip t =
     mapE (\<lambda>c. t\<lparr>bm_table := (bm_table t)[bm_index ip t := sat_update 2 actual c]\<rparr>) (at (bm_table t) (bm_index ip t))"

section \<open>Ways\<close>

text \<open>The loops over the ways of a table: the first way that matches, and the one used longest ago.\<close>

definition first_way :: "('w \<Rightarrow> bool) \<Rightarrow> 'w list \<Rightarrow> nat option" where
  "first_way matches ways = find (\<lambda>w. matches (ways ! w)) [0..<length ways]"

definition least_used :: "('w \<Rightarrow> UInt64) \<Rightarrow> 'w list \<Rightarrow> nat" where
  "least_used lru ways = foldl (\<lambda>l w. if lru (ways ! w) < lru (ways ! l) then w else l) 0 [0..<length ways]"

lemma first_way_less: "first_way m ways = Some w \<Longrightarrow> w < length ways"
  unfolding first_way_def by (auto simp: find_Some_iff)

lemma least_used_less: "ways \<noteq> [] \<Longrightarrow> least_used lru ways < length ways"
proof -
  have "foldl (\<lambda>l w. if lru (ways ! w) < lru (ways ! l) then w else l) i ws < length ways" if "i < length ways" "set ws \<subseteq> {..<length ways}" for i ws
    using that by (induction ws arbitrary: i) auto
  then show "ways \<noteq> [] \<Longrightarrow> least_used lru ways < length ways" unfolding least_used_def by (simp add: atLeast_upt)
qed

text \<open>A vector in every way has the given number of entries.\<close>

definition change_way :: "nat \<Rightarrow> ('w \<Rightarrow> 'w) \<Rightarrow> 'w list \<Rightarrow> 'w list" where
  "change_way w f ways = ways[w := f (ways ! w)]"

lemma change_way_all: "list_all P ways \<Longrightarrow> w < length ways \<Longrightarrow> (P (ways ! w) \<Longrightarrow> P (f (ways ! w))) \<Longrightarrow> list_all P (change_way w f ways)"
  by (auto simp: change_way_def list_all_length nth_list_update)

section \<open>GlobalPredictor\<close>

record gp_entry =
  ge_valid :: bool
  ge_tag :: UInt8
  ge_predictor :: int
  ge_lru :: UInt64

record global_predictor =
  gp_lru_use_count :: UInt64
  gp_ways :: "gp_entry list list"

definition GlobalPredictor_new :: "UInt32 \<Rightarrow> UInt32 \<Rightarrow> global_predictor" where
  "GlobalPredictor_new entries ways =
     \<lparr>gp_lru_use_count = 0,
      gp_ways = replicate (unat ways) (replicate (unat (entries div ways)) \<lparr>ge_valid = False, ge_tag = 0, ge_predictor = 0, ge_lru = 0\<rparr>)\<rparr>"

definition gp_index :: "IntPtr \<Rightarrow> IntPtr \<Rightarrow> nat" where
  "gp_index ip pir = unat ((drop_bit 4 ip XOR drop_bit 6 pir) AND 0x1FF)"

definition gp_tag :: "IntPtr \<Rightarrow> IntPtr \<Rightarrow> UInt32" where
  "gp_tag ip pir = ucast ((drop_bit 13 ip XOR pir) AND 0x3F)"

definition gp_hit :: "IntPtr \<Rightarrow> IntPtr \<Rightarrow> gp_entry list \<Rightarrow> bool" where
  "gp_hit ip pir way \<longleftrightarrow> ge_valid (way ! gp_index ip pir) \<and> ucast (ge_tag (way ! gp_index ip pir)) = gp_tag ip pir"

definition in_ways :: "nat \<Rightarrow> 'e list list \<Rightarrow> 'b result \<Rightarrow> 'b result" where
  "in_ways i ways r = check (list_all (\<lambda>way. i < length way) ways) (Undefined ''index out of range'') r"

text \<open>Hit and prediction.\<close>

definition gp_lookup :: "IntPtr \<Rightarrow> IntPtr \<Rightarrow> global_predictor \<Rightarrow> (bool \<times> bool) result" where
  "gp_lookup ip pir p =
     in_ways (gp_index ip pir) (gp_ways p)
       (Inr (case first_way (gp_hit ip pir) (gp_ways p) of
               None \<Rightarrow> (False, False)
             | Some w \<Rightarrow> (True, sat_predict (ge_predictor (gp_ways p ! w ! gp_index ip pir)))))"

definition gp_update :: "bool \<Rightarrow> IntPtr \<Rightarrow> IntPtr \<Rightarrow> global_predictor \<Rightarrow> global_predictor result" where
  "gp_update actual ip pir p =
     (let i = gp_index ip pir; ways = gp_ways p; count = gp_lru_use_count p
      in in_ways i ways
          (case first_way (gp_hit ip pir) ways of
             Some w \<Rightarrow>
               Inr (p\<lparr>gp_lru_use_count := count + 1,
                      gp_ways := change_way w (\<lambda>way. way[i := (way ! i)\<lparr>ge_predictor := sat_update 2 actual (ge_predictor (way ! i)), ge_lru := count\<rparr>]) ways\<rparr>)
           | None \<Rightarrow>
               check (ways \<noteq> []) (Undefined ''index out of range'')
                (Inr (p\<lparr>gp_lru_use_count := count + 1,
                       gp_ways := change_way (least_used (\<lambda>way. ge_lru (way ! i)) ways)
                         (\<lambda>way. way[i := \<lparr>ge_valid = True, ge_tag = ucast (gp_tag ip pir), ge_predictor = sat_reset 2 actual, ge_lru = count\<rparr>]) ways\<rparr>))))"

definition gp_evict :: "IntPtr \<Rightarrow> IntPtr \<Rightarrow> global_predictor \<Rightarrow> global_predictor result" where
  "gp_evict ip pir p =
     (let i = gp_index ip pir
      in in_ways i (gp_ways p)
          (Inr (case first_way (gp_hit ip pir) (gp_ways p) of
                  None \<Rightarrow> p
                | Some w \<Rightarrow> p\<lparr>gp_ways := change_way w (\<lambda>way. way[i := (way ! i)\<lparr>ge_valid := False\<rparr>]) (gp_ways p)\<rparr>)))"

section \<open>PentiumMBranchTargetBuffer\<close>

record btb =
  bt_lru_use_count :: UInt64
  bt_ways :: "(UInt32 \<times> UInt64) list list"

definition PentiumMBranchTargetBuffer_new :: btb where
  "PentiumMBranchTargetBuffer_new = \<lparr>bt_lru_use_count = 0, bt_ways = replicate 4 (replicate 512 (0, 0))\<rparr>"

definition bt_index :: "IntPtr \<Rightarrow> nat" where
  "bt_index ip = unat (drop_bit 4 ip AND 0x1ff)"

definition bt_tag :: "IntPtr \<Rightarrow> UInt32" where
  "bt_tag ip = ucast (ip AND 0x3fe00f)"

definition bt_lookup :: "IntPtr \<Rightarrow> btb \<Rightarrow> bool result" where
  "bt_lookup ip b = in_ways (bt_index ip) (bt_ways b) (Inr (first_way (\<lambda>way. fst (way ! bt_index ip) = bt_tag ip) (bt_ways b) \<noteq> None))"

definition bt_update :: "IntPtr \<Rightarrow> btb \<Rightarrow> btb result" where
  "bt_update ip b =
     (let i = bt_index ip; ways = bt_ways b; count = bt_lru_use_count b
      in in_ways i ways
          (case first_way (\<lambda>way. fst (way ! i) = bt_tag ip) ways of
             Some w \<Rightarrow> Inr (b\<lparr>bt_lru_use_count := count + 1, bt_ways := change_way w (\<lambda>way. way[i := (fst (way ! i), count)]) ways\<rparr>)
           | None \<Rightarrow>
               check (ways \<noteq> []) (Undefined ''index out of range'')
                (Inr (b\<lparr>bt_lru_use_count := count + 1,
                       bt_ways := change_way (least_used (\<lambda>way. snd (way ! i)) ways) (\<lambda>way. way[i := (bt_tag ip, count)]) ways\<rparr>))))"

section \<open>LoopBranchPredictor\<close>

record lp_entry =
  le_tag :: UInt8
  le_previous_actual :: bool
  le_enabled :: bool
  le_predictor :: int
  le_lru :: UInt64
  le_count :: UInt32
  le_limit :: UInt32

record loop_predictor =
  lp_lru_use_count :: UInt64
  lp_ways :: "lp_entry list list"

definition LoopBranchPredictor_new :: "UInt32 \<Rightarrow> UInt32 \<Rightarrow> loop_predictor" where
  "LoopBranchPredictor_new entries ways =
     \<lparr>lp_lru_use_count = 0,
      lp_ways = replicate (unat ways) (replicate (unat (entries div ways))
        \<lparr>le_tag = 0, le_previous_actual = False, le_enabled = False, le_predictor = 0, le_lru = 0, le_count = 0, le_limit = 0\<rparr>)\<rparr>"

definition lp_index :: "IntPtr \<Rightarrow> nat" where
  "lp_index ip = unat (drop_bit 4 ip AND 0x3F)"

definition lp_tag :: "IntPtr \<Rightarrow> UInt32" where
  "lp_tag ip = ucast (drop_bit 10 ip AND 0x3F)"

definition lp_lookup :: "IntPtr \<Rightarrow> loop_predictor \<Rightarrow> ((bool \<times> bool) \<times> loop_predictor) result" where
  "lp_lookup ip p =
     (let i = lp_index ip
      in in_ways i (lp_ways p)
          (case first_way (\<lambda>way. le_enabled (way ! i) \<and> ucast (le_tag (way ! i)) = lp_tag ip) (lp_ways p) of
             None \<Rightarrow> Inr ((False, False), p)
           | Some w \<Rightarrow>
               (let e = lp_ways p ! w ! i; direction = sat_predict (le_predictor e)
                in Inr ((True, if le_count e = le_limit e then \<not> direction else direction),
                        p\<lparr>lp_lru_use_count := lp_lru_use_count p + 1,
                          lp_ways := change_way w (\<lambda>way. way[i := (way ! i)\<lparr>le_lru := lp_lru_use_count p\<rparr>]) (lp_ways p)\<rparr>))))"

definition prediction_match :: "bool \<Rightarrow> lp_entry \<Rightarrow> bool" where
  "prediction_match actual e =
     (if le_count e = le_limit e then sat_predict (le_predictor e) \<noteq> actual else sat_predict (le_predictor e) = actual)"

text \<open>Counter, limit and enabled flag if the direction of the loop has not changed.\<close>

definition same_direction :: "bool \<Rightarrow> lp_entry \<Rightarrow> UInt32 \<times> UInt32 \<times> bool" where
  "same_direction actual e =
     (let count = le_count e; limit = le_limit e
      in if \<not> prediction_match actual e
         then (if count < limit then (0, count, le_enabled e) else (count + 1, count + 1, False))
         else (if count = limit then 0 else count + 1, limit, le_enabled e))"

definition lp_step :: "bool \<Rightarrow> lp_entry \<Rightarrow> lp_entry" where
  "lp_step actual e =
     (let against = (actual = (\<not> sat_predict (le_predictor e))); (counter, limit, enabled) = same_direction actual e;
          e1 = (if le_previous_actual e = actual \<and> against
                then e\<lparr>le_count := 1, le_limit := 1, le_predictor := sat_update 1 actual (le_predictor e), le_enabled := False\<rparr>
                else if le_previous_actual e \<noteq> actual \<and> against \<and> \<not> le_enabled e
                then e\<lparr>le_enabled := True, le_count := 0\<rparr>
                else e\<lparr>le_enabled := enabled, le_count := counter, le_limit := limit\<rparr>)
      in e1\<lparr>le_previous_actual := actual\<rparr>)"

definition lp_update :: "bool \<Rightarrow> IntPtr \<Rightarrow> loop_predictor \<Rightarrow> loop_predictor result" where
  "lp_update actual ip p =
     (let i = lp_index ip; ways = lp_ways p; count = lp_lru_use_count p
      in in_ways i ways
          (case first_way (\<lambda>way. ucast (le_tag (way ! i)) = lp_tag ip) ways of
             Some w \<Rightarrow>
               Inr (p\<lparr>lp_lru_use_count := count + 1, lp_ways := change_way w (\<lambda>way. way[i := (lp_step actual (way ! i))\<lparr>le_lru := count\<rparr>]) ways\<rparr>)
           | None \<Rightarrow>
               check (ways \<noteq> []) (Undefined ''index out of range'')
                (Inr (p\<lparr>lp_lru_use_count := count + 1,
                       lp_ways := change_way (least_used (\<lambda>way. le_lru (way ! i)) ways)
                         (\<lambda>way. way[i := (way ! i)\<lparr>le_tag := ucast (lp_tag ip), le_predictor := sat_reset 1 actual, le_previous_actual := actual,
                                             le_lru := count, le_count := 1, le_limit := 1\<rparr>]) ways\<rparr>))))"

section \<open>IndirectBranchTargetBuffer\<close>

record ibtb =
  ib_history :: UInt32
  ib_lru :: nat
  ib_table :: "(UInt32 \<times> IntPtr) list"

definition IndirectBranchTargetBuffer_new :: "UInt32 \<Rightarrow> ibtb" where
  "IndirectBranchTargetBuffer_new entries = \<lparr>ib_history = 0xFFF, ib_lru = 0, ib_table = replicate (unat entries) (0, 0)\<rparr>"

definition ib_predict :: "IntPtr \<Rightarrow> IntPtr \<Rightarrow> ibtb \<Rightarrow> bool" where
  "ib_predict ip target b = (case find (\<lambda>e. fst e = ucast ip) (ib_table b) of None \<Rightarrow> False | Some e \<Rightarrow> snd e = target)"

text \<open>Every entry that has the address or is empty is overwritten.\<close>

definition ib_update :: "bool \<Rightarrow> IntPtr \<Rightarrow> IntPtr \<Rightarrow> ibtb \<Rightarrow> ibtb result" where
  "ib_update actual ip target b =
     (if \<not> actual then Inr (b\<lparr>ib_history := drop_bit 1 (ib_history b)\<rparr>)
      else (let mine = (\<lambda>e. fst e = ucast ip \<or> fst e = 0);
                b1 = b\<lparr>ib_history := drop_bit 1 (ib_history b) OR 0x800\<rparr>
            in if list_ex mine (ib_table b)
               then Inr (b1\<lparr>ib_table := map (\<lambda>e. if mine e then (ucast ip, target) else e) (ib_table b)\<rparr>)
               else check (ib_lru b < length (ib_table b)) (Undefined ''index out of range'')
                     (Inr (b1\<lparr>ib_table := (ib_table b)[ib_lru b := (ucast ip, target)], ib_lru := (ib_lru b + 1) mod length (ib_table b)\<rparr>))))"

section \<open>PentiumMBranchPredictor\<close>

record pentium_m =
  pm_counts :: predictions
  pm_global_predictor :: global_predictor
  pm_btb :: btb
  pm_bimodal_table :: bimodal
  pm_lpb :: loop_predictor
  pm_ibtb :: ibtb
  pm_pir :: IntPtr
  pm_last_gp_hit :: bool
  pm_last_bm_pred :: bool
  pm_last_lpb_hit :: bool

text \<open>\<open>m_last_bm_pred\<close> is not initialised; its first value is an argument.\<close>

definition PentiumMBranchPredictor_new :: "bool \<Rightarrow> pentium_m" where
  "PentiumMBranchPredictor_new bm_pred =
     \<lparr>pm_counts = no_predictions, pm_global_predictor = GlobalPredictor_new 2048 4, pm_btb = PentiumMBranchTargetBuffer_new,
      pm_bimodal_table = SimpleBimodalTable_new 4096, pm_lpb = LoopBranchPredictor_new 128 2, pm_ibtb = IndirectBranchTargetBuffer_new 256,
      pm_pir = 0, pm_last_gp_hit = False, pm_last_bm_pred = bm_pred, pm_last_lpb_hit = False\<rparr>"

definition pm_predict :: "bool \<Rightarrow> IntPtr \<Rightarrow> IntPtr \<Rightarrow> pentium_m \<Rightarrow> (bool \<times> pentium_m) result" where
  "pm_predict indirect ip target p =
     bindE (gp_lookup ip (pm_pir p) (pm_global_predictor p)) (\<lambda>(gp_hit, gp_prediction).
     bindE (bt_lookup ip (pm_btb p)) (\<lambda>btb_hit.
     bindE (lp_lookup ip (pm_lpb p)) (\<lambda>((lpb_hit, lpb_prediction), lpb).
     bindE (bm_predict ip (pm_bimodal_table p)) (\<lambda>bimodal_out.
       (let outcome = (if gp_hit then gp_prediction else if lpb_hit \<and> btb_hit then lpb_prediction else bimodal_out)
        in Inr (outcome \<and> ib_predict ip target (pm_ibtb p),
                p\<lparr>pm_lpb := lpb, pm_last_gp_hit := gp_hit, pm_last_bm_pred := bimodal_out, pm_last_lpb_hit := lpb_hit \<and> btb_hit\<rparr>))))))"

datatype branch_type = InvalidBranch | DirectBranch | IndirectBranch | UnconditionalBranch | ConditionalBranch

definition update_pir :: "bool \<Rightarrow> IntPtr \<Rightarrow> IntPtr \<Rightarrow> branch_type \<Rightarrow> IntPtr \<Rightarrow> IntPtr" where
  "update_pir actual ip target ty pir =
     (if ty = ConditionalBranch \<and> actual then (push_bit 2 pir XOR drop_bit 4 ip) AND 0x7fff
      else if ty = IndirectBranch then (push_bit 2 pir XOR (drop_bit 4 ip OR target)) AND 0x7fff
      else pir)"

definition pm_update :: "bool \<Rightarrow> bool \<Rightarrow> bool \<Rightarrow> IntPtr \<Rightarrow> IntPtr \<Rightarrow> pentium_m \<Rightarrow> pentium_m result" where
  "pm_update predicted actual indirect ip target p =
     bindE (ib_update actual ip target (pm_ibtb p)) (\<lambda>ib.
     bindE (bt_update ip (pm_btb p)) (\<lambda>bt.
     bindE (lp_update actual ip (pm_lpb p)) (\<lambda>lpb.
     bindE (if \<not> pm_last_gp_hit p \<and> \<not> pm_last_lpb_hit p then bm_update actual ip (pm_bimodal_table p) else Inr (pm_bimodal_table p)) (\<lambda>bm.
       (let lpb_or_bm_hit = (pm_last_lpb_hit p \<or> pm_last_bm_pred p = actual); g = pm_global_predictor p
        in bindE (if pm_last_gp_hit p
                  then (if predicted \<noteq> actual \<and> lpb_or_bm_hit then gp_evict ip (pm_pir p) g else gp_update actual ip (pm_pir p) g)
                  else if predicted \<noteq> actual \<and> \<not> lpb_or_bm_hit then gp_update actual ip (pm_pir p) g
                  else Inr g) (\<lambda>gp.
             Inr (p\<lparr>pm_counts := updateCounters predicted actual (pm_counts p), pm_ibtb := ib, pm_btb := bt, pm_lpb := lpb, pm_bimodal_table := bm,
                    pm_global_predictor := gp, pm_pir := update_pir actual ip target ConditionalBranch (pm_pir p)\<rparr>)))))))"

section \<open>A53BranchPredictor\<close>

datatype a53_state = StronglyNotTaken | WeakelyTaken | WeakelyNotTaken | StronglyTaken

definition nextState :: "a53_state \<Rightarrow> bool \<Rightarrow> a53_state" where
  "nextState st input =
     (case st of
        StronglyNotTaken \<Rightarrow> if input then WeakelyTaken else StronglyNotTaken
      | WeakelyNotTaken \<Rightarrow> if input then WeakelyTaken else StronglyNotTaken
      | WeakelyTaken \<Rightarrow> if input then StronglyTaken else WeakelyNotTaken
      | StronglyTaken \<Rightarrow> if input then StronglyTaken else WeakelyTaken)"

definition statePrediction :: "a53_state \<Rightarrow> bool" where
  "statePrediction st \<longleftrightarrow> st \<noteq> StronglyNotTaken \<and> st \<noteq> WeakelyNotTaken"

record a53 =
  a5_counts :: predictions
  a5_num_registers :: int
  a5_size :: int
  a5_ibtb :: ibtb
  a5_pattern_history_table :: "a53_state list"
  a5_branch_history_register :: "int list"

text \<open>
  The product of the two sizes is an \<open>int\<close>, and a vector of negative length throws, which the caller reports as an error.
  The history register is an unbounded integer here: it is masked before each use, so the bits above 32 never matter.
\<close>

definition A53BranchPredictor_new :: "int \<Rightarrow> int \<Rightarrow> a53 result" where
  "A53BranchPredictor_new num_registers entries =
     check (- (2 ^ 31) \<le> num_registers * entries \<and> num_registers * entries < 2 ^ 31) (Undefined ''signed overflow'')
    (check (0 \<le> num_registers \<and> 0 \<le> num_registers * entries) (Print_Error ''Config info not available while constructing branch predictor.'')
      (Inr \<lparr>a5_counts = no_predictions, a5_num_registers = num_registers, a5_size = entries, a5_ibtb = IndirectBranchTargetBuffer_new 256,
            a5_pattern_history_table = replicate (nat (num_registers * entries)) StronglyNotTaken,
            a5_branch_history_register = replicate (nat num_registers) 0\<rparr>))"

text \<open>The index of the register is a signed character.\<close>

definition a5_register :: "IntPtr \<Rightarrow> a53 \<Rightarrow> int" where
  "a5_register ip p = (let i = (uint ip mod a5_num_registers p) mod 256 in if i < 128 then i else i - 256)"

definition a5_indices :: "IntPtr \<Rightarrow> a53 \<Rightarrow> (nat \<times> int \<times> nat) result" where
  "a5_indices ip p =
     check (a5_num_registers p \<noteq> 0) (Undefined ''division by zero'')
    (let r = a5_register ip p
     in check (0 \<le> r \<and> r < int (length (a5_branch_history_register p))) (Undefined ''index out of range'')
       (let v = a5_branch_history_register p ! nat r AND (a5_size p - 1); h = v + r * a5_size p
        in check (0 \<le> h \<and> h < int (length (a5_pattern_history_table p))) (Undefined ''index out of range'') (Inr (nat r, v, nat h))))"

definition a5_predict :: "bool \<Rightarrow> IntPtr \<Rightarrow> IntPtr \<Rightarrow> a53 \<Rightarrow> (bool \<times> a53) result" where
  "a5_predict indirect ip target p =
     (if indirect then Inr (ib_predict ip target (a5_ibtb p), p)
      else mapE (\<lambda>(r, v, h). (statePrediction (a5_pattern_history_table p ! h), p)) (a5_indices ip p))"

definition a5_update :: "bool \<Rightarrow> bool \<Rightarrow> bool \<Rightarrow> IntPtr \<Rightarrow> IntPtr \<Rightarrow> a53 \<Rightarrow> a53 result" where
  "a5_update predicted actual indirect ip target p =
     (let p1 = p\<lparr>a5_counts := updateCounters predicted actual (a5_counts p)\<rparr>
      in if indirect then mapE (\<lambda>b. p1\<lparr>a5_ibtb := b\<rparr>) (ib_update actual ip target (a5_ibtb p))
         else mapE (\<lambda>(r, v, h). p1\<lparr>a5_pattern_history_table := (a5_pattern_history_table p)[h := nextState (a5_pattern_history_table p ! h) actual],
                                   a5_branch_history_register := (a5_branch_history_register p)[r := push_bit 1 v OR of_bool actual]\<rparr>)
                (a5_indices ip p))"

section \<open>BranchPredictor\<close>

datatype branch_predictor = OneBitBranchPredictor one_bit | PentiumMBranchPredictor pentium_m | A53BranchPredictor a53

definition BranchPredictor_create :: "string \<Rightarrow> UInt32 \<Rightarrow> int \<Rightarrow> bool \<Rightarrow> branch_predictor option result" where
  "BranchPredictor_create ty entries num_history_registers bm_pred =
     (if ty = ''none'' then Inr None
      else if ty = ''one_bit'' then Inr (Some (OneBitBranchPredictor (OneBitBranchPredictor_new entries)))
      else if ty = ''pentium_m'' then Inr (Some (PentiumMBranchPredictor (PentiumMBranchPredictor_new bm_pred)))
      else if ty = ''a53'' then mapE (\<lambda>p. Some (A53BranchPredictor p)) (A53BranchPredictor_new num_history_registers (sint entries))
      else Inl (Print_Error ''Invalid branch predictor type.''))"

definition bp_predict :: "bool \<Rightarrow> IntPtr \<Rightarrow> IntPtr \<Rightarrow> branch_predictor \<Rightarrow> (bool \<times> branch_predictor) result" where
  "bp_predict indirect ip target b =
     (case b of
        OneBitBranchPredictor p \<Rightarrow> mapE (map_prod id OneBitBranchPredictor) (ob_predict indirect ip target p)
      | PentiumMBranchPredictor p \<Rightarrow> mapE (map_prod id PentiumMBranchPredictor) (pm_predict indirect ip target p)
      | A53BranchPredictor p \<Rightarrow> mapE (map_prod id A53BranchPredictor) (a5_predict indirect ip target p))"

definition bp_update :: "bool \<Rightarrow> bool \<Rightarrow> bool \<Rightarrow> IntPtr \<Rightarrow> IntPtr \<Rightarrow> branch_predictor \<Rightarrow> branch_predictor result" where
  "bp_update predicted actual indirect ip target b =
     (case b of
        OneBitBranchPredictor p \<Rightarrow> mapE OneBitBranchPredictor (ob_update predicted actual indirect ip target p)
      | PentiumMBranchPredictor p \<Rightarrow> mapE PentiumMBranchPredictor (pm_update predicted actual indirect ip target p)
      | A53BranchPredictor p \<Rightarrow> mapE A53BranchPredictor (a5_update predicted actual indirect ip target p))"

text \<open>\<open>Core::accessBranchPredictor\<close>: a branch is predicted, and the predictor learns what happened.\<close>

definition accessBranchPredictor :: "IntPtr \<Rightarrow> bool \<Rightarrow> bool \<Rightarrow> IntPtr \<Rightarrow> branch_predictor option \<Rightarrow> (bool \<times> branch_predictor option) result" where
  "accessBranchPredictor eip taken indirect target bp =
     (case bp of
        None \<Rightarrow> Inr (False, None)
      | Some b \<Rightarrow>
          bindE (bp_predict indirect eip target b) (\<lambda>(prediction, b1).
          mapE (\<lambda>b2. (prediction \<noteq> taken, Some b2)) (bp_update prediction taken indirect eip target b1)))"

section \<open>What every predictor keeps\<close>

definition table_ok :: "nat \<Rightarrow> ('e \<Rightarrow> bool) \<Rightarrow> 'e list list \<Rightarrow> bool" where
  "table_ok n P ways \<longleftrightarrow> ways \<noteq> [] \<and> list_all (\<lambda>way. length way = n \<and> list_all P way) ways"

lemma table_ok_in: "table_ok n P ways \<Longrightarrow> i < n \<Longrightarrow> in_ways i ways r = r"
  by (auto simp: in_ways_def table_ok_def list_all_iff)

lemma table_ok_change:
  assumes "table_ok n P ways" "w < length ways" "i < n" "P (ways ! w ! i) \<Longrightarrow> P (g (ways ! w))"
  shows "table_ok n P (change_way w (\<lambda>way. way[i := g way]) ways)"
proof -
  have "length (ways ! w) = n" "list_all P (ways ! w)" using assms(1,2) by (auto simp: table_ok_def list_all_length)
  then have "list_all (\<lambda>way. length way = n \<and> list_all P way) (change_way w (\<lambda>way. way[i := g way]) ways)"
    using assms(1,2,4) assms(3) by (intro change_way_all) (auto simp: table_ok_def list_all_length nth_list_update)
  then show ?thesis using assms(1) by (auto simp: table_ok_def change_way_def)
qed

lemma table_ok_ne: "table_ok n P ways \<Longrightarrow> ways \<noteq> []"
  by (simp add: table_ok_def)

lemma table_ok_replicate: "0 < k \<Longrightarrow> P e \<Longrightarrow> table_ok n P (replicate k (replicate n e))"
  by (auto simp: table_ok_def list_all_iff)

text \<open>Masks keep the indices inside the tables.\<close>

lemma mask_less: "unat ((x :: IntPtr) AND 0x1FF) < 512" "unat ((x :: IntPtr) AND 0x3F) < 64" "unat ((x :: IntPtr) AND 0xFFF) < 4096"
  using unat_and_mask [of x 9] unat_and_mask [of x 6] unat_and_mask [of x 12] by (simp_all add: push_bit_eq_mult)

definition gp_inv :: "global_predictor \<Rightarrow> bool" where
  "gp_inv p \<longleftrightarrow> table_ok 512 (\<lambda>e. sat_ok 2 (ge_predictor e)) (gp_ways p)"

lemma gp_index_less: "gp_index ip pir < 512"
  by (simp add: gp_index_def mask_less)

lemma gp_lookup_ok: "gp_inv p \<Longrightarrow> \<exists>r. gp_lookup ip pir p = Inr r"
  by (simp add: gp_lookup_def gp_inv_def table_ok_in gp_index_less)

lemma gp_update_ok: "gp_inv p \<Longrightarrow> \<exists>p'. gp_update actual ip pir p = Inr p' \<and> gp_inv p'"
  using table_ok_ne [of _ _ "gp_ways p"]
  by (cases "first_way (gp_hit ip pir) (gp_ways p)")
    (auto simp: gp_update_def gp_inv_def table_ok_in gp_index_less Let_def intro!: table_ok_change first_way_less least_used_less)

lemma gp_evict_ok: "gp_inv p \<Longrightarrow> \<exists>p'. gp_evict ip pir p = Inr p' \<and> gp_inv p'"
  by (auto simp: gp_evict_def gp_inv_def table_ok_in gp_index_less Let_def split: option.splits intro!: table_ok_change first_way_less)

definition bt_inv :: "btb \<Rightarrow> bool" where
  "bt_inv b \<longleftrightarrow> table_ok 512 (\<lambda>_. True) (bt_ways b)"

lemma bt_index_less: "bt_index ip < 512"
  by (simp add: bt_index_def mask_less)

lemma bt_lookup_ok: "bt_inv b \<Longrightarrow> \<exists>r. bt_lookup ip b = Inr r"
  by (simp add: bt_lookup_def bt_inv_def table_ok_in bt_index_less)

lemma bt_update_ok: "bt_inv b \<Longrightarrow> \<exists>b'. bt_update ip b = Inr b' \<and> bt_inv b'"
  using table_ok_ne [of _ _ "bt_ways b"]
  by (cases "first_way (\<lambda>way. fst (way ! bt_index ip) = bt_tag ip) (bt_ways b)")
    (auto simp: bt_update_def bt_inv_def table_ok_in bt_index_less Let_def intro!: table_ok_change first_way_less least_used_less)

definition lp_inv :: "loop_predictor \<Rightarrow> bool" where
  "lp_inv p \<longleftrightarrow> table_ok 64 (\<lambda>e. sat_ok 1 (le_predictor e)) (lp_ways p)"

lemma lp_index_less: "lp_index ip < 64"
  by (simp add: lp_index_def mask_less)

lemma lp_lookup_ok: "lp_inv p \<Longrightarrow> \<exists>r p'. lp_lookup ip p = Inr (r, p') \<and> lp_inv p'"
  by (auto simp: lp_lookup_def lp_inv_def table_ok_in lp_index_less Let_def split: option.splits intro!: table_ok_change first_way_less)

lemma lp_step_ok: "sat_ok 1 (le_predictor e) \<Longrightarrow> sat_ok 1 (le_predictor (lp_step actual e))"
  using sat_ok_steps(1) [of 1 "le_predictor e" actual] by (auto simp: lp_step_def Let_def split_def)

lemma lp_update_ok: "lp_inv p \<Longrightarrow> \<exists>p'. lp_update actual ip p = Inr p' \<and> lp_inv p'"
  using table_ok_ne [of _ _ "lp_ways p"]
  by (cases "first_way (\<lambda>way. ucast (le_tag (way ! lp_index ip)) = lp_tag ip) (lp_ways p)")
    (auto simp: lp_update_def lp_inv_def table_ok_in lp_index_less Let_def lp_step_ok [unfolded One_nat_def] intro!: table_ok_change first_way_less least_used_less)

definition bm_inv :: "bimodal \<Rightarrow> bool" where
  "bm_inv t \<longleftrightarrow> bm_mask t = 0xFFF \<and> length (bm_table t) = 4096 \<and> list_all (sat_ok 2) (bm_table t)"

lemma bm_index_less: "bm_inv t \<Longrightarrow> bm_index ip t < 4096"
  using mask_less(3) [of ip] by (simp add: bm_index_def bm_inv_def unsigned_ucast_eq take_bit_nat_def)

lemma bm_predict_ok: "bm_inv t \<Longrightarrow> \<exists>b. bm_predict ip t = Inr b"
  using bm_index_less [of t ip] by (auto simp: bm_predict_def at_def bm_inv_def)

lemma bm_update_ok: "bm_inv t \<Longrightarrow> \<exists>t'. bm_update actual ip t = Inr t' \<and> bm_inv t'"
  using bm_index_less [of t ip] by (auto simp: bm_update_def at_def bm_inv_def list_all_length nth_list_update)

definition ib_inv :: "ibtb \<Rightarrow> bool" where
  "ib_inv b \<longleftrightarrow> ib_lru b < length (ib_table b)"

lemma ib_update_ok:
  assumes "ib_inv b"
  shows "\<exists>b'. ib_update actual ip target b = Inr b' \<and> ib_inv b'"
proof -
  have "0 < length (ib_table b)" using assms unfolding ib_inv_def by linarith
  then have "Suc (ib_lru b) mod length (ib_table b) < length (ib_table b)" by (rule mod_less_divisor)
  then show ?thesis using assms by (auto simp: ib_update_def ib_inv_def Let_def)
qed

definition pm_inv :: "pentium_m \<Rightarrow> bool" where
  "pm_inv p \<longleftrightarrow> gp_inv (pm_global_predictor p) \<and> bt_inv (pm_btb p) \<and> bm_inv (pm_bimodal_table p) \<and> lp_inv (pm_lpb p) \<and> ib_inv (pm_ibtb p)"

lemma bimodal_4096: "bm_mask (SimpleBimodalTable_new 4096) = 0xFFF"
  by code_simp

lemma pm_new_inv: "pm_inv (PentiumMBranchPredictor_new b)"
proof -
  have "bm_inv (SimpleBimodalTable_new 4096)"
    using bimodal_4096 by (auto simp: bm_inv_def SimpleBimodalTable_new_def list_all_iff)
  then show ?thesis
    by (simp add: pm_inv_def PentiumMBranchPredictor_new_def gp_inv_def bt_inv_def lp_inv_def ib_inv_def GlobalPredictor_new_def
        PentiumMBranchTargetBuffer_new_def LoopBranchPredictor_new_def IndirectBranchTargetBuffer_new_def table_ok_replicate)
qed

definition a5_inv :: "a53 \<Rightarrow> bool" where
  "a5_inv p \<longleftrightarrow> 0 < a5_num_registers p \<and> a5_num_registers p \<le> 128 \<and> 0 < a5_size p \<and> ib_inv (a5_ibtb p) \<and>
     length (a5_branch_history_register p) = nat (a5_num_registers p) \<and>
     length (a5_pattern_history_table p) = nat (a5_num_registers p * a5_size p)"

lemma a5_indices_ok:
  assumes "a5_inv p"
  shows "\<exists>r v h. a5_indices ip p = Inr (r, v, h)"
proof -
  let ?n = "a5_num_registers p" and ?s = "a5_size p"
  have inv: "0 < ?n" "?n \<le> 128" "0 < ?s" using assms by (simp_all add: a5_inv_def)
  define r where "r = uint ip mod ?n"
  have r: "0 \<le> r" "r < ?n" using inv(1) by (simp_all add: r_def)
  then have reg: "a5_register ip p = r" using inv(2) by (simp add: a5_register_def Let_def r_def [symmetric])
  define v where "v = a5_branch_history_register p ! nat r AND (?s - 1)"
  have v: "0 \<le> v" "v < ?s" using inv(3) AND_upper2 [of "?s - 1" "a5_branch_history_register p ! nat r"] by (simp_all add: v_def)
  have "v + r * ?s < ?s + r * ?s" using v by simp
  also have "\<dots> = (r + 1) * ?s" by (simp add: algebra_simps)
  also have "\<dots> \<le> ?n * ?s" using r(2) inv(3) by (intro mult_right_mono) simp_all
  finally have "v + r * ?s < ?n * ?s" .
  moreover have "0 \<le> v + r * ?s" using v r inv(3) by simp
  ultimately show ?thesis using assms r by (simp add: a5_indices_def reg Let_def a5_inv_def v_def)
qed

fun bp_inv :: "branch_predictor \<Rightarrow> bool" where
  "bp_inv (OneBitBranchPredictor p) \<longleftrightarrow> ob_bits p \<noteq> []"
| "bp_inv (PentiumMBranchPredictor p) \<longleftrightarrow> pm_inv p"
| "bp_inv (A53BranchPredictor p) \<longleftrightarrow> a5_inv p"

fun bp_counts :: "branch_predictor \<Rightarrow> predictions" where
  "bp_counts (OneBitBranchPredictor p) = ob_counts p"
| "bp_counts (PentiumMBranchPredictor p) = pm_counts p"
| "bp_counts (A53BranchPredictor p) = a5_counts p"

section \<open>Predictors\<close>

text \<open>
  What the core relies on: a prediction is always given and does not count; an update counts the
  prediction as right or wrong.
\<close>

locale predictor =
  fixes pred :: "bool \<Rightarrow> IntPtr \<Rightarrow> IntPtr \<Rightarrow> 'p \<Rightarrow> (bool \<times> 'p) result"
    and learn :: "bool \<Rightarrow> bool \<Rightarrow> bool \<Rightarrow> IntPtr \<Rightarrow> IntPtr \<Rightarrow> 'p \<Rightarrow> 'p result"
    and ok :: "'p \<Rightarrow> bool" and counts :: "'p \<Rightarrow> predictions"
  assumes predicts: "ok p \<Longrightarrow> \<exists>b p'. pred indirect ip target p = Inr (b, p') \<and> ok p' \<and> counts p' = counts p"
    and learns: "ok p \<Longrightarrow> \<exists>p'. learn predicted actual indirect ip target p = Inr p' \<and> ok p' \<and> counts p' = updateCounters predicted actual (counts p)"
begin

lemma branch:
  assumes "ok p"
  shows "\<exists>b p1 p2. pred indirect ip target p = Inr (b, p1) \<and> learn b actual indirect ip target p1 = Inr p2 \<and> ok p2 \<and>
    counts p2 = updateCounters b actual (counts p)"
proof -
  obtain b p1 where "pred indirect ip target p = Inr (b, p1)" "ok p1" "counts p1 = counts p" using predicts [OF assms] by blast
  moreover from learns [OF this(2)] obtain p2 where "learn b actual indirect ip target p1 = Inr p2" "ok p2" "counts p2 = updateCounters b actual (counts p1)"
    by blast
  ultimately show ?thesis by metis
qed

end

interpretation one_bit: predictor ob_predict ob_update "\<lambda>p. ob_bits p \<noteq> []" ob_counts
  by unfold_locales (auto simp: ob_predict_def ob_update_def)

interpretation pentium: predictor pm_predict pm_update pm_inv pm_counts
proof
  fix p indirect ip target assume "pm_inv p"
  then show "\<exists>b p'. pm_predict indirect ip target p = Inr (b, p') \<and> pm_inv p' \<and> pm_counts p' = pm_counts p"
    using gp_lookup_ok [of "pm_global_predictor p" ip "pm_pir p"] bt_lookup_ok [of "pm_btb p" ip] lp_lookup_ok [of "pm_lpb p" ip]
      bm_predict_ok [of "pm_bimodal_table p" ip]
    by (auto simp: pm_inv_def pm_predict_def Let_def)
next
  fix p predicted actual indirect ip target assume inv: "pm_inv p"
  obtain ib where ib: "ib_update actual ip target (pm_ibtb p) = Inr ib" "ib_inv ib" using ib_update_ok inv by (metis pm_inv_def)
  obtain bt where bt: "bt_update ip (pm_btb p) = Inr bt" "bt_inv bt" using bt_update_ok inv by (metis pm_inv_def)
  obtain lpb where lpb: "lp_update actual ip (pm_lpb p) = Inr lpb" "lp_inv lpb" using lp_update_ok inv by (metis pm_inv_def)
  obtain bm where bm: "bm_update actual ip (pm_bimodal_table p) = Inr bm" "bm_inv bm" using bm_update_ok inv by (metis pm_inv_def)
  obtain g1 where g1: "gp_update actual ip (pm_pir p) (pm_global_predictor p) = Inr g1" "gp_inv g1" using gp_update_ok inv by (metis pm_inv_def)
  obtain g2 where g2: "gp_evict ip (pm_pir p) (pm_global_predictor p) = Inr g2" "gp_inv g2" using gp_evict_ok inv by (metis pm_inv_def)
  show "\<exists>p'. pm_update predicted actual indirect ip target p = Inr p' \<and> pm_inv p' \<and> pm_counts p' = updateCounters predicted actual (pm_counts p)"
    using inv ib bt lpb bm g1 g2 by (simp add: pm_update_def pm_inv_def Let_def)
qed

interpretation a53: predictor a5_predict a5_update a5_inv a5_counts
proof
  fix p indirect ip target assume "a5_inv p"
  then show "\<exists>b p'. a5_predict indirect ip target p = Inr (b, p') \<and> a5_inv p' \<and> a5_counts p' = a5_counts p"
    using a5_indices_ok [of p ip] by (auto simp: a5_predict_def)
next
  fix p predicted actual indirect ip target assume inv: "a5_inv p"
  obtain ib where "ib_update actual ip target (a5_ibtb p) = Inr ib" "ib_inv ib" using ib_update_ok inv by (metis a5_inv_def)
  then show "\<exists>p'. a5_update predicted actual indirect ip target p = Inr p' \<and> a5_inv p' \<and> a5_counts p' = updateCounters predicted actual (a5_counts p)"
    using inv a5_indices_ok [OF inv, of ip] by (auto simp: a5_update_def Let_def a5_inv_def)
qed

interpretation chosen: predictor bp_predict bp_update bp_inv bp_counts
proof
  fix p indirect ip target assume "bp_inv p"
  show "\<exists>b p'. bp_predict indirect ip target p = Inr (b, p') \<and> bp_inv p' \<and> bp_counts p' = bp_counts p"
  proof (cases p)
    case (OneBitBranchPredictor q)
    then show ?thesis using one_bit.predicts [of q indirect ip target] \<open>bp_inv p\<close> by (auto simp: bp_predict_def)
  next
    case (PentiumMBranchPredictor q)
    then show ?thesis using pentium.predicts [of q indirect ip target] \<open>bp_inv p\<close> by (auto simp: bp_predict_def)
  next
    case (A53BranchPredictor q)
    then show ?thesis using a53.predicts [of q indirect ip target] \<open>bp_inv p\<close> by (auto simp: bp_predict_def)
  qed
next
  fix p predicted actual indirect ip target assume "bp_inv p"
  show "\<exists>p'. bp_update predicted actual indirect ip target p = Inr p' \<and> bp_inv p' \<and> bp_counts p' = updateCounters predicted actual (bp_counts p)"
  proof (cases p)
    case (OneBitBranchPredictor q)
    then show ?thesis using one_bit.learns [of q predicted actual indirect ip target] \<open>bp_inv p\<close> by (auto simp: bp_update_def)
  next
    case (PentiumMBranchPredictor q)
    then show ?thesis using pentium.learns [of q predicted actual indirect ip target] \<open>bp_inv p\<close> by (auto simp: bp_update_def)
  next
    case (A53BranchPredictor q)
    then show ?thesis using a53.learns [of q predicted actual indirect ip target] \<open>bp_inv p\<close> by (auto simp: bp_update_def)
  qed
qed

text \<open>A trace of branches: address, outcome, whether the branch is indirect, and target.\<close>

fun branches :: "(IntPtr \<times> bool \<times> bool \<times> IntPtr) list \<Rightarrow> branch_predictor option \<Rightarrow> (bool list \<times> branch_predictor option) result" where
  "branches [] bp = Inr ([], bp)"
| "branches ((ip, taken, indirect, target) # bs) bp =
     bindE (accessBranchPredictor ip taken indirect target bp) (\<lambda>(m, bp1). mapE (\<lambda>(ms, bp2). (m # ms, bp2)) (branches bs bp1))"

lemma branches_ok:
  assumes "bp_inv b"
  shows "\<exists>ms b'. branches bs (Some b) = Inr (ms, Some b') \<and> bp_inv b' \<and> length ms = length bs \<and>
    bp_incorrect (bp_counts b') = bp_incorrect (bp_counts b) + of_nat (length (filter (\<lambda>m. m) ms)) \<and>
    bp_correct (bp_counts b') = bp_correct (bp_counts b) + of_nat (length (filter Not ms))"
  using assms
proof (induction bs arbitrary: b)
  case (Cons r bs)
  obtain ip taken indirect target where r: "r = (ip, taken, indirect, target)" by (metis prod_cases4)
  obtain x b1 b2 where 1: "bp_predict indirect ip target b = Inr (x, b1)" "bp_update x taken indirect ip target b1 = Inr b2" "bp_inv b2"
    "bp_counts b2 = updateCounters x taken (bp_counts b)" using chosen.branch [OF Cons.prems] by blast
  obtain ms b' where 2: "branches bs (Some b2) = Inr (ms, Some b')" "bp_inv b'" "length ms = length bs"
    "bp_incorrect (bp_counts b') = bp_incorrect (bp_counts b2) + of_nat (length (filter (\<lambda>m. m) ms))"
    "bp_correct (bp_counts b') = bp_correct (bp_counts b2) + of_nat (length (filter Not ms))" using Cons.IH [OF 1(3)] by blast
  have "branches (r # bs) (Some b) = Inr ((x \<noteq> taken) # ms, Some b')" using 1(1,2) 2(1) by (simp add: r accessBranchPredictor_def)
  moreover have "bp_incorrect (bp_counts b') = bp_incorrect (bp_counts b) + of_nat (length (filter (\<lambda>m. m) ((x \<noteq> taken) # ms)))"
    "bp_correct (bp_counts b') = bp_correct (bp_counts b) + of_nat (length (filter Not ((x \<noteq> taken) # ms)))"
    using 1(4) 2(4,5) by (auto simp: updateCounters_def)
  ultimately show ?case using 2(2,3) by auto
qed simp

lemma created_inv:
  assumes "BranchPredictor_create ty entries registers b = Inr (Some p)" "0 < sint entries" "0 < registers" "registers \<le> 128"
  shows "bp_inv p" "bp_counts p = no_predictions"
proof -
  have "unat entries \<noteq> 0" using assms(2) by (metis less_irrefl sint_0 unat_eq_0)
  moreover have "a5_inv q \<and> a5_counts q = no_predictions" if "A53BranchPredictor_new registers (sint entries) = Inr q" for q
    using that assms(2-4) by (auto simp: a5_inv_def A53BranchPredictor_new_def ib_inv_def IndirectBranchTargetBuffer_new_def check_eq_Inr)
  ultimately show "bp_inv p" "bp_counts p = no_predictions"
    using assms(1) pm_new_inv
    by (auto simp: BranchPredictor_create_def OneBitBranchPredictor_new_def PentiumMBranchPredictor_new_def mapE_eq_Inr split: if_splits)
qed

section \<open>What the tables do\<close>

text \<open>The first branch that is taken fills the whole buffer of indirect targets.\<close>

lemma first_branch_fills_ibtb:
  "ib_update True ip target (IndirectBranchTargetBuffer_new n) = Inr b \<Longrightarrow> 0 < n \<Longrightarrow> ib_table b = replicate (unat n) (ucast ip, target)"
  by (auto simp: ib_update_def IndirectBranchTargetBuffer_new_def Let_def list_ex_iff split: if_splits)

text \<open>An entry of the loop predictor that is taken over for another branch stays enabled.\<close>

lemma change_way_keeps: "(w < length ways \<Longrightarrow> g (f (ways ! w)) = g (ways ! w)) \<Longrightarrow> map g (change_way w f ways) = map g ways"
  by (cases "w < length ways") (simp_all add: change_way_def map_update list_update_same_conv list_update_beyond)

lemma takeover_keeps_enabled:
  assumes "lp_inv p" "first_way (\<lambda>way. ucast (le_tag (way ! lp_index ip)) = lp_tag ip) (lp_ways p) = None" "lp_update actual ip p = Inr p'"
  shows "map (\<lambda>way. le_enabled (way ! lp_index ip)) (lp_ways p') = map (\<lambda>way. le_enabled (way ! lp_index ip)) (lp_ways p)"
proof -
  define l where "l = least_used (\<lambda>way. le_lru (way ! lp_index ip)) (lp_ways p)"
  have "w < length (lp_ways p) \<Longrightarrow> lp_index ip < length (lp_ways p ! w)" for w
    using assms(1) lp_index_less [of ip] by (simp add: lp_inv_def table_ok_def list_all_length)
  moreover have "in_ways (lp_index ip) (lp_ways p) r = r" for r :: "loop_predictor result"
    using assms(1) lp_index_less by (auto simp: lp_inv_def intro: table_ok_in)
  then have "lp_ways p' = change_way l (\<lambda>way. way[lp_index ip := (way ! lp_index ip)\<lparr>le_tag := ucast (lp_tag ip), le_predictor := sat_reset 1 actual,
      le_previous_actual := actual, le_lru := lp_lru_use_count p, le_count := 1, le_limit := 1\<rparr>]) (lp_ways p)"
    using assms(2,3) by (auto simp: lp_update_def check_def Let_def l_def split: if_splits)
  ultimately show ?thesis by (simp add: change_way_keeps)
qed

text \<open>From strongly not taken, one taken branch is enough to predict the next one as taken.\<close>

lemma first_taken_skips_weakly_not_taken: "nextState StronglyNotTaken True = WeakelyTaken" "statePrediction (nextState StronglyNotTaken True)"
  by (simp_all add: nextState_def statePrediction_def)

text \<open>Two equal outcomes in a row make a two-bit counter predict them.\<close>

lemma two_outcomes_suffice: "sat_ok 2 c \<Longrightarrow> sat_predict (sat_update 2 b (sat_update 2 b c)) = b"
  by (auto simp: sat_ok_def sat_predict_def sat_update_def sat_incr_def sat_decr_def)

end
