(* ===== verification/Cntlr_Behaviour.thy ===== *)
theory Cntlr_Behaviour
  imports Cntlr_Coherence
begin

text \<open>
  What single operations of the controllers do: which states allow an operation, when a request to
  the directory is sent, how a reply wakes the waiting cores, what a write-back adds to the undo
  log and what an eviction leaves behind.
\<close>

section \<open>Directory requests\<close>

lemma sendMsg_Inr:
  "sendMsg i ty rq rc a buf n th s = Inr (u, s') \<longleftrightarrow>
     i < length (h_cntlrs s) \<and> ((buf = NULL) = (n = 0)) \<and>
     s' = s\<lparr>h_net := h_net s @ [\<lparr>pk_time = h_clock s (cc_core_id (h_cntlrs s ! i)) th,
       pk_sender = cc_core_id_master (h_cntlrs s ! i), pk_receiver = rc,
       pk_msg = \<lparr>msg_type = ty, msg_sender_component = LAST_LEVEL_CACHE, msg_receiver_component = TAG_DIR,
         msg_requester = rq, msg_where = WHERE_UNKNOWN, msg_address = a, msg_data_buf = buf, msg_data_length = n\<rparr>\<rparr>]\<rparr>"
  by (auto simp: sendMsg_def action_simps)

definition sent :: "hier \<Rightarrow> hier \<Rightarrow> (msg_t \<times> IntPtr) list" where
  "sent s s' = map (\<lambda>p. (msg_type (pk_msg p), msg_address (pk_msg p))) (drop (length (h_net s)) (h_net s'))"

lemma sent_same: "h_net s' = h_net s \<Longrightarrow> sent s s' = []"
  by (simp add: sent_def)

lemma homeOf_same: "homeOf i a s = Inr (h, s') \<Longrightarrow> s' = s"
  by (auto simp: homeOf_def action_simps)

lemma set_state_net: "setCacheState i a st s = Inr (r, s') \<Longrightarrow> h_net s' = h_net s"
  by (auto simp: setCacheState_def setCState_def modBlock_def action_simps put_master_def)

lemma request_sent:
  "processExReqToDirectory i a s = Inr (u, s') \<Longrightarrow> sent s s' = [(EX_REQ, a)]"
  "processShReqToDirectory i a s = Inr (u, s') \<Longrightarrow> sent s s' = [(SH_REQ, a)]"
  "processUpgradeReqToDirectory i a th s = Inr (u, s') \<Longrightarrow> sent s s' = [(UPGRADE_REQ, a)]"
proof -
  show "processExReqToDirectory i a s = Inr (u, s') \<Longrightarrow> sent s s' = [(EX_REQ, a)]"
    unfolding processExReqToDirectory_def
    by (elim bindA_E thenA_E) (auto simp: getC_Inr getCacheState_Inr assertA_Inr sendMsg_Inr sent_def dest!: homeOf_same)
  show "processShReqToDirectory i a s = Inr (u, s') \<Longrightarrow> sent s s' = [(SH_REQ, a)]"
    unfolding processShReqToDirectory_def
    by (elim bindA_E thenA_E) (auto simp: getC_Inr sendMsg_Inr sent_def dest!: homeOf_same)
  show "processUpgradeReqToDirectory i a th s = Inr (u, s') \<Longrightarrow> sent s s' = [(UPGRADE_REQ, a)]"
    unfolding processUpgradeReqToDirectory_def
    by (elim bindA_E thenA_E)
       (auto simp: getC_Inr getCacheState_Inr assertA_Inr sendMsg_Inr sent_def dest!: homeOf_same set_state_net)
qed

text \<open>Only the first waiter for an address talks to the directory.\<close>

lemma initiate_sends:
  assumes "initiateDirectoryAccess i op a pf t s = Inr (u, s')" "length (pending (cm_waiters (master_at s i)) a) < 2 ^ 32 - 1"
  shows "sent s s' =
    (if pending (cm_waiters (master_at s i)) a \<noteq> [] then []
     else if op = READ then [(SH_REQ, a)]
     else if line_state a (cm_cache (master_at s i)) = Inr SHARED then [(UPGRADE_REQ, a)] else [(EX_REQ, a)])"
proof -
  let ?w = "\<lparr>w_exclusive = (op = READ_EX \<or> op = WRITE), w_isPrefetch = pf, w_cntlr = i, w_t_issue = t\<rparr>"
  let ?k = "cc_master (h_cntlrs s ! i)" and ?q = "cm_waiters (master_at s i)"
  define s1 where "s1 = put_master ?k ((master_at s i)\<lparr>cm_waiters := enqueue a ?w ?q\<rparr>) s"
  from assms(1) have op: "op \<noteq> INVALID_MEM_OP" and l: "linked s i"
    and rest: "(if rq_size a (enqueue a ?w ?q) = 1
       then (if op = READ_EX \<or> op = WRITE
             then bindA (getCacheState i a) (\<lambda>st. if st = SHARED then processUpgradeReqToDirectory i a USER_THREAD
                                                 else processExReqToDirectory i a)
             else processShReqToDirectory i a) s1 = Inr (u, s')
       else s' = s1)"
    by (auto simp: initiateDirectoryAccess_def Let_def thenA_Inr bindA_Inr modM_Inr getM_Inr assertA_Inr whenA_Inr
        linked_def s1_def put_master_def master_at_def split: if_splits)
  have net: "sent s t = sent s1 t" for t by (simp add: sent_def s1_def put_master_def)
  have cache: "cm_cache (master_at s1 i) = cm_cache (master_at s i)" using l by (simp add: s1_def linked_def master_at_def put_master_def)
  have one: "rq_size a (enqueue a ?w ?q) = 1 \<longleftrightarrow> pending ?q a = []"
  proof -
    have "rq_size a (enqueue a ?w ?q) = of_nat (Suc (length (pending ?q a)))"
      by (simp add: rq_size_pending enqueue_pending)
    moreover have "unat (of_nat (Suc (length (pending ?q a))) :: UInt32) = Suc (length (pending ?q a))"
      using assms(2) unat_of_nat [where 'a = 32, of "Suc (length (pending ?q a))"] by simp
    ultimately show ?thesis by (metis length_0_conv nat.inject unat_1 One_nat_def word_unat_eq_iff)
  qed
  show ?thesis
  proof (cases "pending ?q a = []")
    case False
    with rest one show ?thesis by (simp add: net sent_same)
  next
    case True
    with rest one op show ?thesis
      by (cases op) (auto simp: net bindA_Inr getCacheState_Inr cache dest!: request_sent split: if_splits)
  qed
qed

section \<open>Replies\<close>

text \<open>
  A reply serves the queue of its address in order. The loop ends when no core waits any more or
  when the first waiting core needs more than the reply gave: then an upgrade is requested.
\<close>

lemma wakeWaiters_end:
  assumes "wakeWaiters n usr i msg s = Inr (u, s')"
  shows "rq_empty (msg_address msg) (cm_waiters (master_at s' i)) \<or>
    (\<exists>t. sent t s' = [(UPGRADE_REQ, msg_address msg)] \<and>
         line_state (msg_address msg) (cm_cache (master_at t i)) = Inr SHARED \<and>
         (\<exists>w. rq_front (msg_address msg) (cm_waiters (master_at t i)) = Inr w \<and> w_exclusive w))"
  using assms
proof (induction n arbitrary: s)
  case (Suc n)
  let ?a = "msg_address msg"
  show ?case
  proof (cases "rq_empty ?a (cm_waiters (master_at s i))")
    case True
    with Suc.prems show ?thesis by (auto simp: Let_def bindA_Inr getM_Inr retA_Inr)
  next
    case False
    with Suc.prems obtain w st where w: "rq_front ?a (cm_waiters (master_at s i)) = Inr w"
      and st: "line_state ?a (cm_cache (master_at s i)) = Inr st"
      by (auto simp: Let_def bindA_Inr getM_Inr liftA_Inr getCacheState_Inr)
    show ?thesis
    proof (cases "w_exclusive w \<and> st = SHARED")
      case True
      with Suc.prems False w st have "processUpgradeReqToDirectory i ?a SIM_THREAD s = Inr (u, s')"
        by (auto simp: Let_def bindA_Inr getM_Inr liftA_Inr getCacheState_Inr)
      then have "sent s s' = [(UPGRADE_REQ, ?a)]" by (rule request_sent(3))
      with True w st show ?thesis by auto
    next
      case upgrade: False
      with Suc.prems False w st obtain t where "wakeWaiters n usr i msg t = Inr (u, s')"
        by (auto simp: Let_def bindA_Inr thenA_Inr getM_Inr liftA_Inr getCacheState_Inr)
      then show ?thesis by (rule Suc.IH)
    qed
  qed
qed (simp add: failA_Inr)

text \<open>
  The loop over the waiting cores takes one of them per round, so every bound above their number
  gives the same result, provided the woken cores leave the queue of the address alone.
\<close>

definition waiting :: "nat \<Rightarrow> IntPtr \<Rightarrow> nat \<Rightarrow> hier \<Rightarrow> bool" where
  "waiting i a k s \<longleftrightarrow> rq_inv (cm_waiters (master_at s i)) \<and> length (pending (cm_waiters (master_at s i)) a) = k"

lemma waiting_frame:
  "cm_waiters (master_at s' i) = cm_waiters (master_at s i) \<Longrightarrow> waiting i a k s' = waiting i a k s"
  by (simp add: waiting_def)

lemma master_at_put_cntlr: "cc_master c = cc_master (h_cntlrs s ! j) \<Longrightarrow> master_at (put_cntlr j c s) i = master_at s i"
  by (cases "j < length (h_cntlrs s)") (auto simp: master_at_def put_cntlr_def nth_list_update list_update_beyond)

lemma waiting_put_master:
  "cm_waiters m = cm_waiters (h_masters s ! j) \<Longrightarrow> waiting i a k (put_master j m s) = waiting i a k s"
  by (rule waiting_frame, cases "j < length (h_masters s)") (auto simp: master_at_def put_master_def nth_list_update list_update_beyond)

lemma waiting_modM: "(\<And>m. cm_waiters (f m) = cm_waiters m) \<Longrightarrow> keeps (waiting i a k) (modM j f)"
  by (auto simp: keeps_def modM_Inr waiting_put_master master_at_def)

lemma waiting_reads [keeps_rules]:
  "keeps (waiting i a k) (getM j)" "keeps (waiting i a k) (getCacheState j b)" "keeps (waiting i a k) (getCacheBlockInfo j b)"
  "keeps (waiting i a k) (deref p)" "keeps (waiting i a k) (now j th)"
  by (auto simp: keeps_def action_simps)

lemma waiting_quiet [keeps_rules]:
  "keeps (waiting i a k) (modBlock j r g)" "keeps (waiting i a k) (cleanupMshr j)"
  "keeps (waiting i a k) (updateUncoreStatistics j w)" "keeps (waiting i a k) (setTime j th t)"
proof -
  show "keeps (waiting i a k) (modBlock j r g)" unfolding modBlock_def by (rule waiting_modM) simp
  show "keeps (waiting i a k) (cleanupMshr j)" unfolding cleanupMshr_def by (intro keeps_rules waiting_modM) simp
  show "keeps (waiting i a k) (updateUncoreStatistics j w)"
    by (auto simp: keeps_def updateUncoreStatistics_def modC_Inr waiting_def master_at_put_cntlr)
  show "keeps (waiting i a k) (setTime j th t)"
    by (auto simp: keeps_def setTime_def action_simps waiting_def master_at_def)
qed

lemma dequeue_waiting:
  assumes "waiting i a k s" "dequeueWaiter i a s = Inr (u, s')"
  shows "\<exists>k'. k = Suc k' \<and> waiting i a k' s'"
proof -
  from assms(2) obtain x q where q: "dequeue a (cm_waiters (master_at s i)) = Inr (x, q)"
    and s': "s' = put_master (cc_master (h_cntlrs s ! i)) ((master_at s i)\<lparr>cm_waiters := q\<rparr>) s"
    and i: "cc_master (h_cntlrs s ! i) < length (h_masters s)"
    by (auto simp: dequeueWaiter_def bindA_Inr getM_Inr liftA_Inr modM_Inr)
  have "cm_waiters (master_at s' i) = q" using i by (simp add: s' master_at_def put_master_def)
  with dequeue_pending(2) [OF _ q] assms(1) show ?thesis by (auto simp: waiting_def)
qed

lemma wakeWaiters_bound:
  assumes "\<And>j k. keeps (waiting i (msg_address msg) k) (usr j)" "k < n" "k < m"
  shows "agree (waiting i (msg_address msg) k) (wakeWaiters n usr i msg) (wakeWaiters m usr i msg)"
  using assms(2,3)
proof (induction n arbitrary: m k)
  case (Suc n)
  let ?a = "msg_address msg"
  from Suc.prems(2) obtain m' where m: "m = Suc m'" by (cases m) auto
  have tail: "agree (waiting i ?a k) (thenA (dequeueWaiter i ?a) (wakeWaiters n usr i msg))
                                     (thenA (dequeueWaiter i ?a) (wakeWaiters m' usr i msg))"
    unfolding agree_def
  proof (intro allI impI)
    fix s assume w: "waiting i ?a k s"
    show "thenA (dequeueWaiter i ?a) (wakeWaiters n usr i msg) s = thenA (dequeueWaiter i ?a) (wakeWaiters m' usr i msg) s"
    proof (cases "dequeueWaiter i ?a s")
      case (Inr r)
      obtain u s' where r: "r = (u, s')" by (cases r)
      from dequeue_waiting [OF w] Inr r obtain k' where "k = Suc k'" "waiting i ?a k' s'" by blast
      with Suc.IH [of k' m'] Suc.prems m show ?thesis by (simp add: thenA_def bindA_def Inr r agree_def)
    qed (simp add: thenA_def bindA_def)
  qed
  show ?case
    unfolding m wakeWaiters.simps Let_def
    by (intro agree_bindA agree_if agree_thenA agree_refl tail keeps_rules waiting_modM assms(1)) simp_all
qed simp

text \<open>
  An upgrade reply that finds the line gone hands the data of the message to \<open>updateCacheBlock\<close> as
  an output buffer. The line is not there, so nothing is written to it, and the check at the end of
  \<open>updateCacheBlock\<close> always stops the simulation.
\<close>

lemma updateLocal_absent_stops:
  assumes "peekSingleLine a (cm_cache (master_at s i)) = Inr None" "linked s i" "buf \<noteq> NULL"
  shows "updateLocal i a st reason buf sib s = Inl (Assert ''out_buf passed in but never written to'')"
proof -
  have p: "getCacheBlockInfo i a s = Inr (None, s)" using assms by (simp add: peek_Inr linked_def)
  have st: "getCacheState i a s = Inr (INVALID, s)" using assms by (simp add: getCacheState_Inr linked_def line_state_def mapE_def)
  have c: "getC i s = Inr (h_cntlrs s ! i, s)" using assms(2) by (simp add: getC_Inr linked_def)
  show ?thesis
    using assms(3)
    by (simp add: updateLocal_def bindA_def thenA_def c p st bindE_def retA_def stateOf_def assertA_def failA_def)
qed

lemma absent_peek:
  assumes "hier_inv s" "linked s i" "\<not> holds s i a"
  shows "peekSingleLine a (cm_cache (master_at s i)) = Inr None"
proof -
  have "cache_inv (cm_cache (master_at s i))"
    using assms(1,2) hier_inv_master by (simp add: linked_def master_at_def master_ok_def cache_ok_def)
  from peekSingleLine_cached [OF this, of a] obtain r where
    "peekSingleLine a (cm_cache (master_at s i)) = Inr r" "r \<noteq> None \<longleftrightarrow> holds s i a" by (auto simp: holds_def Let_def)
  with assms(3) show ?thesis by (cases r) simp_all
qed

lemma upgrade_reply_lost_line:
  assumes "hier_inv s" "linked s i" "\<not> holds s i (msg_address msg)"
  shows "processUpgradeRep i msg s \<noteq> Inr (u, s')"
proof
  let ?a = "msg_address msg"
  let ?c = "cm_cache (master_at s i)"
  assume run: "processUpgradeRep i msg s = Inr (u, s')"
  have peek: "peekSingleLine ?a ?c = Inr None" by (rule absent_peek [OF assms])
  then have "getCacheState i ?a s = Inr (INVALID, s)"
    using assms(2) by (simp add: getCacheState_Inr linked_def line_state_def mapE_def)
  with run have buf: "msg_data_buf msg \<noteq> NULL"
    and "\<exists>x. updateCacheBlock_upto (length (h_cntlrs s)) i ?a MODIFIED UPGRADE (msg_data_buf msg) s = Inr (x, s')"
    by (auto simp: processUpgradeRep_def bindA_Inr thenA_Inr assertA_Inr updateCacheBlock_def getCacheState_Inr retA_Inr split: if_splits)
  then obtain x n sib t f where "length (h_cntlrs s) = Suc n"
    and f: "f = (\<lambda>p sib. bindA (updateCacheBlock_upto n p ?a MODIFIED UPGRADE NULL) (\<lambda>(latency, hit, _). retA (sib \<or> hit)))"
    and fold: "foldA f (cm_prev (master_at s i)) False s = Inr (sib, t)"
    and l: "updateLocal i ?a MODIFIED UPGRADE (msg_data_buf msg) sib t = Inr (x, s')"
    by (cases "length (h_cntlrs s)") (auto simp: failA_Inr thenA_Inr bindA_Inr getM_Inr assertA_Inr)
  have "keeps (shrunk s) (foldA f (cm_prev (master_at s i)) False)"
    unfolding f by (intro keeps_rules shrink.keeps_updateCacheBlock_upto)
  from keepsD [OF this fold shrunk_refl [OF assms(1)]] have t: "shrunk s t" .
  then have lt: "linked t i" "\<not> holds t i ?a" "hier_inv t"
    using assms(2,3) topology_linked [of s t i] shrunk_holds [OF t assms(2)] by (auto simp: shrunk_def)
  from updateLocal_absent_stops [OF absent_peek [OF lt(3,1,2)] lt(1) buf] l show False by simp
qed

section \<open>Write-backs and the undo log\<close>

text \<open>
  The lines that PiCL adds to \<open>writeCacheBlock\<close> are \<open>stampEpoch\<close> on the block and on the undo buffer
  controller: the same result, and an error exactly when \<open>stampEpoch\<close> has one.
\<close>

definition logs_undo :: "hier \<Rightarrow> nat \<Rightarrow> bool" where
  "logs_undo s i \<longleftrightarrow> cc_picl_enabled (h_cntlrs s ! i) \<and> m_name (c_base (cm_cache (master_at s i))) = ''L3''"

definition in_cache :: "hier \<Rightarrow> nat \<Rightarrow> block_ref \<Rightarrow> bool" where
  "in_cache s i r \<longleftrightarrow> (let c = cm_cache (master_at s i) in fst r < length (c_sets c) \<and> snd r < length (cs_blocks (c_sets c ! fst r)))"

lemma modBlock_run:
  assumes "linked s i"
  shows "modBlock i r f s = Inr ((), put_master (cc_master (h_cntlrs s ! i))
    ((master_at s i)\<lparr>cm_cache := set_block r (f (block_at (cm_cache (master_at s i)) r)) (cm_cache (master_at s i))\<rparr>) s)"
  using assms by (simp add: modBlock_def modM_Inr linked_def)

lemma piclStamp_refines:
  assumes "linked s i" "cc_undo (h_cntlrs s ! i) = Some u" "u < length (h_undo s)" "in_cache s i r"
  shows "case stampEpoch (logs_undo s i) (block_at (cm_cache (master_at s i)) r) (undo_view s (h_undo s ! u)) of
      Inl e \<Rightarrow> piclStamp i r s = Inl e
    | Inr (b, p) \<Rightarrow> \<exists>s'. piclStamp i r s = Inr ((), s') \<and> block_at (cm_cache (master_at s' i)) r = b \<and>
        undo_view s' (h_undo s' ! u) = p"
proof -
  let ?b = "block_at (cm_cache (master_at s i)) r" and ?sys = "m_system_eid (h_em s)" and ?c = "h_cntlrs s ! i"
  have get: "getC i s = Inr (?c, s)" "getM i s = Inr (master_at s i, s)" "block i r s = Inr (?b, s)"
    using assms(1) by (auto simp: getC_Inr getM_Inr block_Inr linked_def)
  have stamp: "modBlock i r (\<lambda>b. b\<lparr>m_eid := ?sys\<rparr>) t = Inr ((), put_master (cc_master ?c)
      ((master_at s i)\<lparr>cm_cache := set_block r (?b\<lparr>m_eid := ?sys\<rparr>) (cm_cache (master_at s i))\<rparr>) t)"
    if "h_cntlrs t = h_cntlrs s" "h_masters t = h_masters s" for t
    using modBlock_run [of t i r] assms(1) that by (simp add: linked_def master_at_def)
  have same: "block_at (cm_cache (master_at (put_master (cc_master ?c)
      ((master_at s i)\<lparr>cm_cache := set_block r (?b\<lparr>m_eid := ?sys\<rparr>) (cm_cache (master_at s i))\<rparr>) t) i)) r = ?b\<lparr>m_eid := ?sys\<rparr>"
    if "h_cntlrs t = h_cntlrs s" "h_masters t = h_masters s" for t
    using assms(1,4) that by (simp add: linked_def master_at_def put_master_def block_at_set_block in_cache_def Let_def)
  have view: "m_system_eid (pc_em (undo_view s w)) = ?sys" for w by (simp add: undo_view_def)
  show ?thesis
  proof (cases "m_eid ?b \<noteq> ?sys \<and> logs_undo s i")
    case False
    then show ?thesis
      by (auto simp: piclStamp_def stampEpoch_def view getA_def bindA_def thenA_def bindE_def get whenA_def retA_def Let_def
          logs_undo_def stamp same)
         (simp_all add: undo_view_def put_master_def)
  next
    case True
    let ?p = "insertUndoEntry ?sys ?b (undo_view s (h_undo s ! u))"
    have on: "onUndo u (insertUndoEntry ?sys ?b) s =
      mapE (\<lambda>p. ((), s\<lparr>h_undo := (h_undo s)[u := pc_cntlr p], h_em := pc_em p, h_nvm := pc_nvm p\<rparr>)) ?p"
      using assms(3) by (cases ?p) (simp_all add: onUndo_def undo_view_def at_def bindE_def mapE_def check_def)
    have run: "piclStamp i r s = bindA (onUndo u (insertUndoEntry ?sys ?b)) (\<lambda>_. modBlock i r (\<lambda>b. b\<lparr>m_eid := ?sys\<rparr>)) s"
      using True assms(2)
      by (simp add: piclStamp_def getA_def bindA_def thenA_def bindE_def get whenA_def logs_undo_def deref_def retA_def)
    show ?thesis
    proof (cases ?p)
      case (Inl e)
      with True show ?thesis by (simp add: run stampEpoch_def view bindA_def on mapE_def bindE_def Let_def)
    next
      case (Inr p)
      with True show ?thesis
        by (simp add: run stampEpoch_def view bindA_def on mapE_def bindE_def Let_def stamp same)
           (simp add: undo_view_def put_master_def assms(3))
    qed
  qed
qed

section \<open>Copies on the side of the cores\<close>

text \<open>A controller below one of the previous levels of \<open>i\<close> other than the requester.\<close>

definition sibling :: "hier \<Rightarrow> nat option \<Rightarrow> nat \<Rightarrow> nat \<Rightarrow> bool" where
  "sibling s requester p i \<longleftrightarrow>
     (\<exists>j \<in> set (cm_prev (master_at s i)). Some j \<noteq> requester \<and> below s p j) \<and> cc_coherent (h_cntlrs s ! p)"

lemma sibling_linked: "sibling s rq p i \<Longrightarrow> linked s p"
  by (auto simp: sibling_def dest: below_linked)

lemma topology_sibling: "sibling s rq p i \<Longrightarrow> topology s = topology t \<Longrightarrow> linked s i \<Longrightarrow> sibling t rq p i"
proof -
  assume sib: "sibling s rq p i" and t: "topology s = topology t" and l: "linked s i"
  have "cc_coherent (h_cntlrs t ! p)"
    using sib topology_cntlr(3) [OF t, of p] sibling_linked [OF sib] by (simp add: sibling_def linked_def)
  with sib show ?thesis using topology_prev [OF t l] topology_below [OF _ t] by (auto simp: sibling_def)
qed

lemma shrunk_gone: "shrunk s t \<Longrightarrow> linked s p \<Longrightarrow> \<not> holds s p a \<Longrightarrow> \<not> holds t p a"
  using shrunk_holds by blast

lemma snoopPrev_invalidates:
  assumes "snoopPrev i rq a INVALID reason s = Inr (x, s')" "hier_inv s" "sibling s rq p i"
  shows "\<not> holds s' p a"
proof -
  let ?f = "\<lambda>p (latency, sibling_hit).
         if Some p = rq then retA (latency, sibling_hit)
         else bindA (updateCacheBlock p a INVALID reason NULL)
                (\<lambda>(l, hit, _). retA (max latency l, sibling_hit \<or> hit))"
  from assms(1) have f: "foldA ?f (cm_prev (master_at s i)) (0, False) s = Inr (x, s')"
    by (auto simp: snoopPrev_def bindA_Inr getM_Inr)
  from assms(3) obtain j where j: "j \<in> set (cm_prev (master_at s i))" "Some j \<noteq> rq" "below s p j" "cc_coherent (h_cntlrs s ! p)"
    by (auto simp: sibling_def)
  have kf: "keeps (shrunk s0) (?f q c)" for q c s0 by (intro keeps_rules)
  from foldA_visits [OF f j(1) shrunk_refl [OF assms(2)] kf] obtain c u d u' ys where
    u: "shrunk s u" "?f j c u = Inr (d, u')" "foldA ?f ys d u' = Inr (x, s')" by blast
  from u(2) j(2) obtain y where r: "updateCacheBlock_upto (length (h_cntlrs u)) j a INVALID reason NULL u = Inr (y, u')"
    by (auto simp: bindA_Inr retA_Inr updateCacheBlock_def split: prod.splits if_splits)
  have tu: "topology s = topology u" "hier_inv u" using u(1) by (simp_all add: shrunk_def)
  have p: "below u p j" "cc_coherent (h_cntlrs u ! p)"
    using topology_below [OF j(3) tu(1)] topology_cntlr(3) [OF tu(1), of p] j(4) below_linked [OF j(3)] by (simp_all add: linked_def)
  have nh: "\<not> holds u' p a" by (rule updateCacheBlock_invalidates [OF r tu(2) p])
  have "shrunk u u'" using keepsD [OF shrink.keeps_updateCacheBlock_upto r] shrunk_refl [OF tu(2)] .
  then have u': "hier_inv u'" "linked u' p"
    using below_linked [OF p(1)] topology_linked [of u u' p] by (simp_all add: shrunk_def)
  have "keeps (shrunk u') (foldA ?f ys d)" by (rule keeps_foldA) (rule kf)
  from keepsD [OF this u(3) shrunk_refl [OF u'(1)]] have "shrunk u' s'" .
  from shrunk_gone [OF this u'(2) nh] show ?thesis .
qed

lemma snoop_then:
  assumes "snoopAndWait i rq a INVALID reason th s = Inr (x, t)" "hier_inv s" "sibling s rq p i" "shrunk t s'"
  shows "\<not> holds s' p a"
proof -
  from assms(1) obtain l t0 t1 where snoop: "snoopPrev i rq a INVALID reason s = Inr ((l, x), t0)"
    and rest: "incrElapsedTime i l th t0 = Inr ((), t1)" "addStat i S_snoop_latency l t1 = Inr ((), t)"
    by (auto simp: snoopAndWait_def bindA_Inr thenA_Inr retA_Inr)
  have t0: "shrunk s t0" using keepsD [OF shrink.keeps_snoopPrev snoop shrunk_refl [OF assms(2)]] .
  then have "shrunk t0 t0" by (simp add: shrunk_def)
  from keepsD [OF shrink.keeps_addStat rest(2) keepsD [OF shrink.keeps_incrElapsedTime rest(1) this]] have "shrunk t0 t" .
  moreover have l: "linked t0 p" using t0 topology_linked [of s t0 p] sibling_linked [OF assms(3)] by (simp add: shrunk_def)
  ultimately have "\<not> holds t p a" "linked t p"
    using shrunk_gone [of t0 t p a] snoopPrev_invalidates [OF snoop assms(2,3)] topology_linked [of t0 t p] by (auto simp: shrunk_def)
  with assms(4) show ?thesis using shrunk_gone by blast
qed

text \<open>A write that hits leaves no copy with the other cores.\<close>

lemma write_hit_exclusive:
  assumes "reqHit i rq op a modeled pf r s = Inr (x, s')" "op \<noteq> READ" "hier_inv s" "sibling s (Some rq) p i" "linked s i"
  shows "\<not> holds s' p a"
proof -
  from assms(1) obtain ph t0 t1 sib t2 where pre: "hitCounters i pf r s = Inr (ph, t0)"
    "whenA modeled (reqHitDelay i a) t0 = Inr ((), t1)"
    and snoop: "snoopAndWait i (Some rq) a INVALID COHERENCY USER_THREAD t1 = Inr (sib, t2)"
    and rest: "reqHitWhere i sib ph t2 = Inr (x, s')"
    using assms(2) unfolding reqHit_def by (elim bindA_E thenA_E) (auto simp: block_Inr)
  have k: "keeps (shrunk s0) (whenA modeled (reqHitDelay i a))"
    "keeps (shrunk s0) (snoopAndWait i (Some rq) a INVALID COHERENCY USER_THREAD)" for s0
    by (intro keeps_rules)+
  have t1: "shrunk s t1"
    using keepsD [OF k(1) pre(2) keepsD [OF shrink.keeps_hitCounters pre(1) shrunk_refl [OF assms(3)]]] .
  have "shrunk t2 s'"
    using keepsD [OF shrink.keeps_reqHitWhere rest] shrunk_self [OF keepsD [OF k(2) snoop t1]] .
  moreover have "sibling t1 (Some rq) p i" "hier_inv t1"
    using t1 topology_sibling [OF assms(4) _ assms(5)] by (simp_all add: shrunk_def)
  ultimately show ?thesis using snoop_then [OF snoop] by blast
qed

text \<open>An eviction leaves no copy of the evicted line, here or with the cores.\<close>

lemma evictBlock_leaves_nothing:
  assumes "evictBlock i a info buf th s = Inr (u, s')" "hier_inv s" "linked s i"
  shows "\<not> holds s' i a"
    and "sibling s None p i \<Longrightarrow> \<not> holds s' p a"
proof -
  from assms(1) obtain t0 buf' t1 where
    pre: "thenA (count i (S_evict (m_cstate info))) (thenA (whenA (hasOption PREFETCH info) (count i S_evict_prefetch))
        (whenA (hasOption WARMUP info) (count i S_evict_warmup))) s = Inr ((), t0)"
    and binv: "backInvalidate i a buf th t0 = Inr (buf', t1)"
    and rest: "disposeEvicted i a info buf' th t1 = Inr ((), s')" and st: "getCacheState i a s' = Inr (INVALID, s')"
    by (auto simp: evictBlock_def thenA_Inr bindA_Inr assertA_Inr getCacheState_Inr)
  have "keeps (shrunk s) (thenA (count i (S_evict (m_cstate info))) (thenA (whenA (hasOption PREFETCH info) (count i S_evict_prefetch))
        (whenA (hasOption WARMUP info) (count i S_evict_warmup))))" by (intro keeps_rules)
  from keepsD [OF this pre shrunk_refl [OF assms(2)]] have t0: "shrunk s t0" .
  have "keeps (shrunk s0) (backInvalidate i a buf th)" for s0 by (intro keeps_rules)
  from keepsD [OF this binv] have t1: "shrunk s0 t1" if "shrunk s0 t0" for s0 using that .
  have "keeps (shrunk s0) (disposeEvicted i a info buf' th)" for s0 by (intro keeps_rules)
  from keepsD [OF this rest] have s': "shrunk s0 s'" if "shrunk s0 t1" for s0 using that .
  have "hier_inv s'" using s' [OF t1 [OF t0]] by (simp add: shrunk_def)
  from invalid_not_held [OF this st] show "\<not> holds s' i a" .
  assume "sibling s None p i"
  then have sib: "sibling t0 None p i" using t0 topology_sibling [OF _ _ assms(3)] by (simp add: shrunk_def)
  then have "cm_prev (master_at t0 i) \<noteq> []" by (auto simp: sibling_def)
  with binv obtain u1 x u2 where "u1 = put_master (cc_master (h_cntlrs t0 ! i)) ((master_at t0 i)\<lparr>cm_evicting := Some (a, buf)\<rparr>) t0"
    and snoop: "snoopAndWait i None a INVALID BACK_INVAL th u1 = Inr (x, u2)"
    and last: "modM i (\<lambda>m. m\<lparr>cm_evicting := None\<rparr>) u2 = Inr ((), t1)" and l0: "linked t0 i"
    by (auto simp: backInvalidate_def bindA_Inr thenA_Inr getM_Inr modM_Inr retA_Inr linked_def)
  have mf: "keeps (shrunk s0) (modM i (\<lambda>m. m\<lparr>cm_evicting := e\<rparr>))" for s0 e
    by (rule shrink.keeps_modM) (simp add: master_frame_def)
  have "modM i (\<lambda>m. m\<lparr>cm_evicting := Some (a, buf)\<rparr>) t0 = Inr ((), u1)"
    using l0 \<open>u1 = _\<close> by (simp add: modM_Inr linked_def)
  from keepsD [OF mf this shrunk_self [OF t0]] have u1: "shrunk t0 u1" .
  have "keeps (shrunk u1) (snoopAndWait i None a INVALID BACK_INVAL th)" by (intro keeps_rules)
  from shrunk_self [OF keepsD [OF this snoop shrunk_self [OF u1]]] have "shrunk u2 u2" .
  from s' [OF keepsD [OF mf last this]] have "shrunk u2 s'" .
  moreover have "sibling u1 None p i" "hier_inv u1"
    using u1 topology_sibling [OF sib _ l0] by (simp_all add: shrunk_def)
  ultimately show "\<not> holds s' p a" using snoop_then [OF snoop] by blast
qed

end
