(* ===== verification/Cntlr_Demo.thy ===== *)
theory Cntlr_Demo
  imports Cntlr_Behaviour
begin

text \<open>
  A small machine on which the definitions are run: two cores with a first-level cache of one line
  each, and a shared L3 of one line, in epoch 5, with an undo buffer of one entry. The L3 reads
  memory directly or goes to the tag directory.
\<close>

primcorec fixed_latency :: "time \<Rightarrow> perf_model" where
  "getAccessLatency (fixed_latency t) = (\<lambda>_ _ _ _ _. (t, fixed_latency t))"

declare fixed_latency.code [code del]

definition demo_line :: "IntPtr \<Rightarrow> cstate_t \<Rightarrow> UInt64 \<Rightarrow> block_info" where
  "demo_line t st e = (CacheBlockInfo_new SHARED_CACHE t st 0)\<lparr>m_eid := e\<rparr>"

definition demo_cache :: "string \<Rightarrow> block_info \<Rightarrow> cache" where
  "demo_cache name b =
     \<lparr>c_base = \<lparr>m_name = name, m_cache_size = 64, m_associativity = 1, m_blocksize = 64, m_hash = HASH_MASK, m_num_sets = 1,
               m_ahl = None, m_log_blocksize = 6, m_log_num_sets = 0\<rparr>,
      c_enabled = False, c_num_accesses = 0, c_num_hits = 0, c_type = SHARED_CACHE,
      c_sets = [\<lparr>cs_blocks = [b], cs_data = None, cs_blocksize = 64\<rparr>], c_policies = [CacheSetNRU (nru_new 1)], c_set_info = None, c_fault = None\<rparr>"

definition demo_cntlr :: "nat \<Rightarrow> core_id_t \<Rightarrow> mem_component \<Rightarrow> nat option \<Rightarrow> cache_cntlr" where
  "demo_cntlr master core component nxt =
     \<lparr>cc_mem_component = component, cc_core_id = core, cc_core_id_master = core, cc_master = master, cc_next = nxt,
      cc_undo = Some 0, cc_perfect = False, cc_passthrough = False, cc_coherent = True, cc_writethrough = False,
      cc_l1_mshr = False, cc_prefetch_on_prefetch_hit = False, cc_train_prefetcher_on_hit = False, cc_prefetch_delay = False,
      cc_block_size = 64, cc_shared_cores = 1, cc_writeback_time = 3, cc_next_read_delay = None,
      cc_perf_model = \<lparr>cp_model = CACHE_PERF_MODEL_PARALLEL, cp_enabled = True, cp_data_access_time = 4, cp_tags_access_time = 1\<rparr>,
      cc_home = demo_home, cc_last_remote_hit_where = WHERE_UNKNOWN, cc_picl_enabled = True, cc_acs_gap = 3,
      cc_stats = (\<lambda>_. 0)\<rparr>"

definition demo_master :: "string \<Rightarrow> block_info \<Rightarrow> nat list \<Rightarrow> bool \<Rightarrow> cache_master" where
  "demo_master name b prev direct =
     \<lparr>cm_cache = demo_cache name b, cm_prev = prev, cm_prefetcher = None, cm_dram = direct, cm_dram_writebacks = None,
      cm_mshr = [], cm_l1_mshr = ContentionModel_new 1, cm_next_read = ContentionModel_new 1, cm_waiters = rq_new,
      cm_evicting = None, cm_atds = [], cm_prefetch_list = [], cm_prefetch_next = 0\<rparr>"

definition demo_hier :: "bool \<Rightarrow> block_info \<Rightarrow> block_info \<Rightarrow> block_info \<Rightarrow> hier" where
  "demo_hier direct b0 b1 b2 =
     \<lparr>h_cntlrs = [demo_cntlr 0 0 L1_DCACHE (Some 2), demo_cntlr 1 1 L1_DCACHE (Some 2), demo_cntlr 2 0 L3_CACHE None],
      h_masters = [demo_master ''L1-D'' b0 [] False, demo_master ''L1-D'' b1 [] False, demo_master ''L3'' b2 [0, 1] direct],
      h_undo = [pc_cntlr (demo_picl 1 5 [])], h_em = pc_em (demo_picl 1 5 []), h_nvm = [], h_net = [],
      h_clock = (\<lambda>_ _. 0), h_cache_only = False, h_efficiency = None,
      h_dram = \<lparr>dr_block_size = 64, dr_fim = False, dr_fault = None, dr_data = (\<lambda>_. None), dr_perf = fixed_latency 50,
                dr_reads = 0, dr_writes = 0\<rparr>\<rparr>"

definition demo_op :: "nat \<Rightarrow> mem_op_t \<Rightarrow> IntPtr \<Rightarrow> (where_t \<times> buffer) hact" where
  "demo_op i op a = processMemOpFromCore (\<lambda>_. retA ()) i NO_SIGNAL op a 0 NULL 8 True True"

text \<open>What one sees of a state: the lines of each cache, the undo buffer, the log and the messages.\<close>

definition demo_view ::
  "hier \<Rightarrow> (IntPtr \<times> cstate_t \<times> UInt64) list list \<times> undo_entry list list \<times> log_msg list \<times> (msg_t \<times> IntPtr) list" where
  "demo_view s =
     (map (\<lambda>m. map (\<lambda>b. (m_tag b, m_cstate b, m_eid b)) (concat (map cs_blocks (c_sets (cm_cache m))))) (h_masters s),
      map (\<lambda>u. ub_entries (uc_buffer u)) (h_undo s), h_nvm s,
      map (\<lambda>p. (msg_type (pk_msg p), msg_address (pk_msg p))) (h_net s))"

definition demo_run :: "'a hact \<Rightarrow> hier \<Rightarrow> _ result" where
  "demo_run m s = mapE (\<lambda>(_, s'). demo_view s') (m s)"

text \<open>The empty line.\<close>

abbreviation no_line :: block_info where
  "no_line \<equiv> demo_line (NOT 0) INVALID 0"

section \<open>The machine satisfies the invariant\<close>

lemma demo_cache_ok:
  assumes "t \<in> {64, 128} \<and> st \<noteq> INVALID \<or> t = NOT 0"
  shows "cache_ok (demo_cache name (demo_line t st e))"
proof -
  let ?c = "demo_cache name (demo_line t st e)"
  have base: "wf_index (c_base ?c)"
    using floorLog2_power2 [of 0] by (auto simp: demo_cache_def wf_index_def wf_base_def intro!: exI [of _ 6])
  have "policy_inv 1 (CacheSetNRU (nru_new 1), None)" using nru_inv_new [of 1] by (simp add: policy_inv_def)
  moreover have "\<forall>x \<in> tags [demo_line t st e]. splitAddress (c_base ?c) (tagToAddress (c_base ?c) x) = Inr (x, 0)"
    using assms by (auto simp: tags_iff demo_line_def isValid_def CacheBlockInfo_new_def demo_cache_def) (code_simp, code_simp)
  ultimately have "cache_inv ?c"
    using base by (auto simp: cache_inv_def set_ok_def set_state_def demo_cache_def unique_tags_def)
  moreover have "resident_ok ?c"
    using assms by (auto simp: resident_ok_def demo_cache_def block_at_def demo_line_def isValid_def CacheBlockInfo_new_def)
  ultimately show ?thesis by (simp add: cache_ok_def)
qed

lemma demo_hier_inv:
  assumes "t0 \<in> {64, 128} \<and> st0 \<noteq> INVALID \<or> t0 = NOT 0" "t1 \<in> {64, 128} \<and> st1 \<noteq> INVALID \<or> t1 = NOT 0"
    and "t2 \<in> {64, 128} \<and> st2 \<noteq> INVALID \<or> t2 = NOT 0"
  shows "hier_inv (demo_hier direct (demo_line t0 st0 e0) (demo_line t1 st1 e1) (demo_line t2 st2 e2))"
proof -
  have "picl_inv (demo_picl 1 5 [])"
    by (rule demo_picl_inv) simp_all
  then show ?thesis
    using demo_cache_ok [OF assms(1)] demo_cache_ok [OF assms(2)] demo_cache_ok [OF assms(3)]
    by (simp add: hier_inv_def demo_hier_def demo_master_def master_ok_def undo_view_def demo_picl_def)
qed

section \<open>Runs\<close>

text \<open>
  Core 0 has written the line; core 1 reads it. The copy of core 0 is written back to the L3, which
  logs the old version of the line. Then core 1 receives the line in the state of the L3,
  \<open>MODIFIED\<close>, while core 0 keeps its copy. A later write of core 1 hits in its own cache and does not
  reach the copy of core 0.
\<close>

lemma read_request_run:
  "demo_run (processShmemReqFromPrevCache 2 1 READ 0x1000 True True NONE 0)
     (demo_hier True (demo_line 64 MODIFIED 3) no_line (demo_line 64 MODIFIED 2)) =
   Inr ([[(64, SHARED, 3)], [(NOT 0, INVALID, 0)], [(64, MODIFIED, 5)]], [[UndoEntry_new 5 (demo_line 64 MODIFIED 2)]], [], [])"
  by code_simp

lemma read_copy_run:
  "demo_run (copyDataFromNextLevel 1 READ 0x1000 True 0)
     (demo_hier True (demo_line 64 SHARED 3) no_line (demo_line 64 MODIFIED 5)) =
   Inr ([[(64, SHARED, 3)], [(64, MODIFIED, 0)], [(64, MODIFIED, 5)]], [[]], [], [])"
  by code_simp

lemma write_after_read_run:
  "demo_run (demo_op 1 WRITE 0x1000) (demo_hier True (demo_line 64 SHARED 3) (demo_line 64 MODIFIED 0) (demo_line 64 MODIFIED 5)) =
     Inr ([[(64, SHARED, 3)], [(64, MODIFIED, 5)], [(64, MODIFIED, 5)]], [[]], [], [])"
  by code_simp

text \<open>
  The L3 evicts a line that core 0 has modified in the running epoch. The data of core 0 goes
  through the eviction buffer to memory; the line was last stamped in epoch 2 and nothing is logged.
\<close>

lemma evict_unlogged_run:
  "demo_run (insertCacheBlock 2 0x2000 SHARED NULL 0 USER_THREAD)
     (demo_hier False (demo_line 64 MODIFIED 5) no_line (demo_line 64 MODIFIED 2)) =
   Inr ([[(NOT 0, INVALID, 0)], [(NOT 0, INVALID, 0)], [(128, SHARED, 0)]], [[]], [], [(FLUSH_REP, 0x1000)])"
  by code_simp

lemma invalidate_run:
  "demo_run (updateCacheBlock 2 0x1000 INVALID COHERENCY (Buf None))
     (demo_hier True (demo_line 64 MODIFIED 3) no_line (demo_line 64 MODIFIED 2)) =
   Inr ([[(NOT 0, INVALID, 0)], [(NOT 0, INVALID, 0)], [(NOT 0, INVALID, 0)]], [[UndoEntry_new 5 (demo_line 64 MODIFIED 2)]], [], [])"
  by code_simp

text \<open>Messages and requests.\<close>

definition demo_msg :: "msg_t \<Rightarrow> IntPtr \<Rightarrow> shmem_msg" where
  "demo_msg ty a =
     \<lparr>msg_type = ty, msg_sender_component = TAG_DIR, msg_receiver_component = LAST_LEVEL_CACHE, msg_requester = 0,
      msg_where = HIT_DRAM, msg_address = a, msg_data_buf = NULL, msg_data_length = 0\<rparr>"

lemma inv_request_run:
  "demo_run (handleMsgFromDramDirectory 1 (\<lambda>_. retA ()) 2 0 (demo_msg INV_REQ 0x1000))
     (demo_hier False (demo_line 64 SHARED 3) no_line (demo_line 64 SHARED 2)) =
   Inr ([[(NOT 0, INVALID, 0)], [(NOT 0, INVALID, 0)], [(NOT 0, INVALID, 0)]], [[]], [], [(INV_REP, 0x1000)])"
  by code_simp

lemma write_hit_run:
  "demo_run (reqHit 2 1 WRITE 0x1000 True NONE (0, 0))
     (demo_hier True (demo_line 64 MODIFIED 3) no_line (demo_line 64 MODIFIED 2)) =
   Inr ([[(NOT 0, INVALID, 0)], [(NOT 0, INVALID, 0)], [(64, MODIFIED, 5)]], [[UndoEntry_new 5 (demo_line 64 MODIFIED 2)]], [], [])"
  by code_simp

lemma evict_run:
  "demo_run (evictBlock 2 0x1000 (demo_line 64 MODIFIED 2) (Buf None) USER_THREAD)
     (demo_hier False (demo_line 64 MODIFIED 5) no_line (demo_line 128 SHARED 0)) =
   Inr ([[(NOT 0, INVALID, 0)], [(NOT 0, INVALID, 0)], [(128, SHARED, 0)]], [[]], [], [(FLUSH_REP, 0x1000)])"
  by code_simp

lemma directory_request_run:
  "demo_run (initiateDirectoryAccess 2 WRITE 0x1000 False 0)
     (demo_hier False no_line no_line (demo_line 64 SHARED 2)) =
   Inr ([[(NOT 0, INVALID, 0)], [(NOT 0, INVALID, 0)], [(64, SHARED_UPGRADING, 2)]], [[]], [], [(UPGRADE_REQ, 0x1000)])"
  by code_simp

lemma wake_run:
  "demo_run (thenA (initiateDirectoryAccess 2 READ 0x1000 False 0)
       (wakeWaiters 2 (\<lambda>_. retA ()) 2 (demo_msg SH_REP 0x1000)))
     (demo_hier False no_line no_line (demo_line 64 SHARED 2)) =
   Inr ([[(NOT 0, INVALID, 0)], [(NOT 0, INVALID, 0)], [(64, SHARED, 2)]], [[]], [], [(SH_REQ, 0x1000)])"
  by code_simp

lemma demo_runD: "demo_run m s = Inr v \<Longrightarrow> \<exists>x s'. m s = Inr (x, s') \<and> demo_view s' = v"
  by (auto simp: demo_run_def result_simps)

text \<open>The links of the machine.\<close>

definition demo_level :: "nat \<Rightarrow> nat" where
  "demo_level i = (if i = 2 then 1 else 0)"

lemma demo_linked: "i < 3 \<Longrightarrow> linked (demo_hier direct b0 b1 b2) i"
  by (auto simp: linked_def demo_hier_def demo_cntlr_def less_Suc_eq numeral_3_eq_3)

lemma demo_levels: "levels demo_level (demo_hier direct b0 b1 b2)"
proof -
  have "i < 3 \<Longrightarrow> i = 0 \<or> i = 1 \<or> i = (2 :: nat)" for i by linarith
  then show ?thesis
    by (auto simp: levels_def linked_def master_at_def demo_hier_def demo_cntlr_def demo_master_def demo_level_def less_Suc_eq)
qed

lemma demo_sibling: "sibling (demo_hier direct b0 b1 b2) rq 0 2" if "rq \<noteq> Some 0"
proof -
  let ?s = "demo_hier direct b0 b1 b2"
  have "below ?s 0 0" by (rule below.here) (simp add: demo_linked)
  moreover have "0 \<in> set (cm_prev (master_at ?s 2))" "cc_coherent (h_cntlrs ?s ! 0)"
    by (simp_all add: master_at_def demo_hier_def demo_cntlr_def demo_master_def)
  ultimately show ?thesis using that by (auto simp: sibling_def)
qed

text \<open>After the first request, one core waits.\<close>

lemma demo_one_waits:
  assumes "initiateDirectoryAccess 2 READ 0x1000 False 0 (demo_hier False no_line no_line (demo_line 64 SHARED 2)) = Inr ((), s)"
  shows "waiting 2 0x1000 1 s"
proof -
  have "mapE (\<lambda>(_, s). (length (pending (cm_waiters (master_at s 2)) 0x1000), cc_master (h_cntlrs s ! 2) < length (h_masters s)))
    (initiateDirectoryAccess 2 READ 0x1000 False 0 (demo_hier False no_line no_line (demo_line 64 SHARED 2))) = Inr (1, True)"
    by code_simp
  with assms have "length (pending (cm_waiters (master_at s 2)) 0x1000) = 1" and k: "cc_master (h_cntlrs s ! 2) < length (h_masters s)"
    by (simp_all add: mapE_def)
  moreover have "hier_inv s"
    by (rule keepsD [OF inv.keeps_initiateDirectoryAccess assms]) (rule demo_hier_inv, simp_all)
  then have "rq_inv (cm_waiters (master_at s 2))" using k by (auto simp: hier_inv_def master_ok_def master_at_def)
  ultimately show ?thesis by (simp add: waiting_def)
qed

end
