(* ===== verification/Directory_Demo.thy ===== *)
theory Directory_Demo
  imports Directory_Behaviour Cntlr_Demo
begin

text \<open>
  A small tag directory on which the definitions are run: one entry, 64 caches, no NUCA cache, memory
  on node 0.
\<close>

section \<open>A directory with one entry\<close>

definition demo_entry :: "IntPtr \<Rightarrow> dstate_t \<Rightarrow> core_id_t \<Rightarrow> nat list \<Rightarrow> dir_entry" where
  "demo_entry a st owner cs =
     \<lparr>de_address = a, de_dstate = st, de_owner = owner, de_forwarder = INVALID_CORE_ID,
      de_sharers = map (\<lambda>j. j \<in> set cs) [0..<64], de_kind = LimitedNoBroadcast Random_new\<rparr>"

definition demo_table :: "dir_entry \<Rightarrow> ddcache" where
  "demo_table e =
     \<lparr>dc_directory = \<lparr>dir_type = FULL_MAP, dir_num_entries = 1, dir_allocated = 1, dir_max_hw_sharers = 64, dir_use_max_hw_sharers = 64,
        dir_max_num_sharers = 64, dir_penalty = 0, dir_list = [Some 0], dir_heap = [Some e], dir_forwarder0 = INVALID_CORE_ID\<rparr>,
      dc_replacement_ptrs = [0], dc_replaced = [], dc_total_entries = 1, dc_associativity = 1, dc_num_sets = 1, dc_block_size = 64,
      dc_log_num_sets = 0, dc_log_block_size = 6, dc_access_time = 7\<rparr>"

definition demo_dir :: "dir_entry \<Rightarrow> shmem_req req_queue \<Rightarrow> dircntlr" where
  "demo_dir e q =
     \<lparr>dd_core_id = 0, dd_core_id_master = 0, dd_home = demo_home, dd_cache = demo_table e, dd_queue = q, dd_nuca = None,
      dd_block_size = 64, dd_clock = (\<lambda>_ _. 5), dd_protocol = MSI, dd_evict = (\<lambda>_. 0), dd_forward = 0, dd_forward_failed = 0, dd_net = []\<rparr>"

definition demo_request :: "msg_t \<Rightarrow> IntPtr \<Rightarrow> core_id_t \<Rightarrow> buffer \<Rightarrow> UInt32 \<Rightarrow> shmem_msg" where
  "demo_request ty a requester buf n =
     \<lparr>msg_type = ty, msg_sender_component = LAST_LEVEL_CACHE, msg_receiver_component = TAG_DIR, msg_requester = requester,
      msg_where = WHERE_UNKNOWN, msg_address = a, msg_data_buf = buf, msg_data_length = n\<rparr>"

definition demo_waiting :: "core_id_t \<Rightarrow> shmem_req" where
  "demo_waiting requester =
     \<lparr>sr_msg = demo_request EX_REQ 0x1000 requester NULL 0, sr_time = 5, sr_wait_for_data = False, sr_forwarding_from = INVALID_CORE_ID\<rparr>"

lemma demo_sharers: "set cs \<subseteq> {..<64} \<Longrightarrow> sharers (demo_entry a st ow cs) = set cs"
  by (auto simp: sharers_def demo_entry_def)

lemma demo_slot: "slot (demo_table e) k = (if k = 0 then Some 0 else None)"
  by (simp add: slot_def demo_table_def)

lemma demo_dc_inv: "de_address e \<noteq> NO_ADDRESS \<Longrightarrow> dc_inv (demo_table e)"
proof (rule dc_invI)
  show "dc_geometry (demo_table e)" by (simp add: dc_geometry_def demo_table_def)
  have "set_of (demo_table e) a = 0" for a by (simp add: set_of_def dc_splitAddress_def demo_table_def Let_def)
  then show "\<exists>a. addr (demo_table e) p = Some a \<and> (a = NO_ADDRESS \<or> k div assoc (demo_table e) = set_of (demo_table e) a)"
    if "slot (demo_table e) k = Some p" for k p
    using that by (auto simp: demo_slot addr_Some entry_at_Inr split: if_splits) (auto simp: demo_table_def)
qed (auto simp: demo_slot ptrs_def split: if_splits, auto simp: demo_table_def)

lemma demo_dir_line:
  "de_address e = a \<Longrightarrow> a \<noteq> NO_ADDRESS \<Longrightarrow> line (demo_dir e q) a 0 e"
  using demo_dc_inv [of e] demo_slot [of e 0]
  by (auto simp: line_def demo_dir_def ptrs_def hw_ok_def entry_at_Inr) (simp_all add: demo_table_def)

lemma demo_clock: "clock_room (demo_dir (demo_entry a st ow cs) q) (demo_entry a st ow cs)"
  by (simp add: clock_room_def latest_def demo_dir_def demo_table_def demo_entry_def getLatency_def)

section \<open>A directory that has just been built\<close>

definition demo_new_dir :: dircntlr where
  "demo_new_dir =
     (demo_dir undefined rq_new)\<lparr>dd_cache :=
       \<lparr>dc_directory = \<lparr>dir_type = FULL_MAP, dir_num_entries = 1, dir_allocated = 0, dir_max_hw_sharers = 64, dir_use_max_hw_sharers = 64,
          dir_max_num_sharers = 64, dir_penalty = 0, dir_list = [None], dir_heap = [], dir_forwarder0 = INVALID_CORE_ID\<rparr>,
        dc_replacement_ptrs = [0], dc_replaced = [], dc_total_entries = 1, dc_associativity = 1, dc_num_sets = 1, dc_block_size = 64,
        dc_log_num_sets = 0, dc_log_block_size = 6, dc_access_time = 7\<rparr>\<rparr>"

lemma demo_new_dir_starts: "dir_start demo_new_dir"
proof -
  let ?d = "\<lparr>dir_type = FULL_MAP, dir_num_entries = 1, dir_allocated = 0, dir_max_hw_sharers = 64, dir_use_max_hw_sharers = 64,
     dir_max_num_sharers = 64, dir_penalty = 0, dir_list = [None], dir_heap = [], dir_forwarder0 = INVALID_CORE_ID\<rparr>"
  have d: "Directory_new ''full_map'' 1 64 64 0 INVALID_CORE_ID = Inr ?d"
    by (simp add: Directory_new_def parseDirectoryType_def)
  have log: "floorLog2 (1 :: UInt32) = 0" "floorLog2 (64 :: UInt32) = 6" by code_simp+
  have c: "DramDirectoryCache_new ?d 1 1 64 7 [0] = Inr (dd_cache demo_new_dir)"
    by (simp add: DramDirectoryCache_new_def demo_new_dir_def check_def log)
  have s: "DramDirectoryCntlr_new 0 0 demo_home None (dd_cache demo_new_dir) 64 (\<lambda>_ _. 5) ''msi'' = Inr demo_new_dir"
    by (simp add: DramDirectoryCntlr_new_def parseProtocol_def demo_new_dir_def demo_dir_def rq_new_def)
  show ?thesis unfolding dir_start_def using d c s by blast
qed

end
