(* ===== verification/System_Demo.thy ===== *)
theory System_Demo
  imports Core_Memory Memory_Timing Placement Branch_Predictors Directory_Demo
begin

text \<open>
  A small machine on which the definitions of the whole memory system are run: the caches of
  \<open>Cntlr_Demo\<close> with two undo buffers, the tag directory of \<open>Directory_Demo\<close> and non-volatile memory,
  both on node 0.
\<close>

section \<open>Two undo buffers\<close>

definition demo_undo :: "UInt64 \<Rightarrow> undo_entry" where
  "demo_undo till = UndoEntry_new till (demo_line 64 MODIFIED 1)"

definition demo_buffers :: "UInt64 \<Rightarrow> UInt64 \<Rightarrow> undo_entry list \<Rightarrow> undo_entry list \<Rightarrow> hier" where
  "demo_buffers sys persisted es0 es1 =
     (demo_hier False no_line no_line no_line)
       \<lparr>h_undo := [pc_cntlr (demo_picl 1 sys es0), pc_cntlr (demo_picl 1 sys es1)], h_em := \<lparr>m_system_eid = sys, m_persisted_eid = persisted\<rparr>\<rparr>"

lemma demo_buffers_inv:
  assumes "length es0 \<le> 1" "length es1 \<le> 1" "\<forall>e \<in> set es0 \<union> set es1. ue_till e \<le> sys"
  shows "hier_inv (demo_buffers sys persisted es0 es1)"
proof -
  have es: "length es \<le> 1 \<Longrightarrow> sorted (map ue_till es)" for es by (cases es) auto
  have "picl_inv (demo_picl 1 sys es0)" "picl_inv (demo_picl 1 sys es1)"
    using assms es [of es0] es [of es1] by (auto intro!: demo_picl_inv)
  then show ?thesis
    using demo_hier_inv [of "NOT 0" INVALID "NOT 0" INVALID "NOT 0" INVALID False 0 0 0]
    by (simp add: hier_inv_def demo_buffers_def undo_view_def picl_inv_def demo_picl_def volatile_def)
qed

lemma demo_buffers_frame:
  "h_undo (demo_buffers sys persisted es0 es1) = [pc_cntlr (demo_picl 1 sys es0), pc_cntlr (demo_picl 1 sys es1)]"
  "h_em (demo_buffers sys persisted es0 es1) = \<lparr>m_system_eid = sys, m_persisted_eid = persisted\<rparr>"
  "h_nvm (demo_buffers sys persisted es0 es1) = []"
  by (simp_all add: demo_buffers_def demo_hier_def)

lemma demo_gap: "uc_acs_gap (pc_cntlr (demo_picl n sys es)) = 3"
  by (simp add: demo_picl_def OnChipUndoBufferCntlr_new_def DEFAULT_ACS_GAP_def)

lemma demo_entries: "ub_entries (uc_buffer (pc_cntlr (demo_picl n sys es))) = es"
  by (simp add: demo_picl_def)

lemma demo_till: "ue_till (demo_undo t) = t"
  by (simp add: demo_undo_def UndoEntry_new_def)

text \<open>
  In epoch 5 both buffers hold an entry that ends in epoch 2. The first buffer overflows and reports
  epoch 2 as persisted; the entry of the second buffer is still on the chip.
\<close>

definition buffers_view :: "hier \<Rightarrow> UInt64 \<times> undo_entry list list \<times> undo_entry list" where
  "buffers_view s = (m_persisted_eid (h_em s), map (\<lambda>c. ub_entries (uc_buffer c)) (h_undo s), map lm_entry (h_nvm s))"

lemma overflow_speaks_for_all_run:
  "mapE (\<lambda>(_, s). buffers_view s) (onUndo 0 (insertUndoEntry 5 (demo_line 128 MODIFIED 4)) (demo_buffers 5 1 [demo_undo 2] [demo_undo 2])) =
   Inr (2, [[UndoEntry_new 5 (demo_line 128 MODIFIED 4)], [demo_undo 2]], [demo_undo 2])"
  by code_simp

section \<open>A directory and memory\<close>

definition demo_memory :: mem_cntlr where
  "demo_memory = createMemCntlr (Some ''nvm'') (h_dram (demo_hier False no_line no_line no_line))"

definition demo_machine :: "hier \<Rightarrow> dircntlr \<Rightarrow> machine" where
  "demo_machine h d =
     \<lparr>mc_hier = h, mc_dirs = [0 \<mapsto> d], mc_mems = [0 \<mapsto> Memory demo_memory], mc_tlbs = (\<lambda>_. \<lparr>mt_itlb = None, mt_dtlb = None, mt_stlb = None\<rparr>),
      mc_cntlrs = (\<lambda>c k. if k = L1_DCACHE then Some (unat c) else if k = L3_CACHE then Some 2 else None), mc_last_level = L3_CACHE,
      mc_tag_directory_present = (\<lambda>c. c = 0), mc_master = id, mc_block_size = 64, mc_tlb_miss_penalty = 0, mc_tlb_miss_parallel = False,
      mc_pseudo = (\<lambda>_. []), mc_net = []\<rparr>"

lemma demo_memory_latency:
  "mem_get a r t demo_memory = Inr (l, w, out, c) \<Longrightarrow> l = 50"
  by (auto simp: demo_memory_def createMemCntlr_def mem_get_def NvmCntlr_new_def demo_hier_def nvm_get_eq getDataFromDram_def runDramPerfModel_def
      result_simps split_def Let_def)

lemma demo_memory_fim: "\<not> mem_fim demo_memory"
  by (simp add: demo_memory_def createMemCntlr_def mem_fim_def NvmCntlr_new_def demo_hier_def)

lemma demo_dir_inv:
  assumes "entry_ok e" "de_address e \<noteq> NO_ADDRESS"
  shows "dir_inv (demo_dir e rq_new)"
proof -
  have "heap_ok (dc_directory (demo_table e))" using assms(1) by (auto simp: heap_ok_def entry_at_Inr demo_table_def nth_Cons split: nat.splits)
  then show ?thesis using demo_dc_inv [OF assms(2)] by (simp add: dir_inv_def dir_wf_def demo_dir_def keyed_def rq_new_def rq_inv_def pending_def)
qed

lemma demo_machine_inv: "hier_inv h \<Longrightarrow> dir_inv d \<Longrightarrow> machine_inv (demo_machine h d)"
  by (auto simp: machine_inv_def demo_machine_def split: if_splits)

definition demo_log :: "core_id_t \<Rightarrow> log_msg" where
  "demo_log node = \<lparr>lm_sender = ONCHIP_UNDO_BUFFER, lm_receiver = DRAM, lm_requester = 0, lm_dest = node, lm_address = getLogAddress, lm_length = 64,
     lm_entry = demo_undo 2\<rparr>"

definition demo_packet :: packet where
  "demo_packet = \<lparr>pk_time = 5, pk_sender = 3, pk_receiver = 0, pk_msg = demo_request EX_REQ 0x1000 3 NULL 0\<rparr>"

section \<open>A DRAM cache\<close>

definition demo_dram_cache :: dram_cache where
  "demo_dram_cache =
     \<lparr>dk_core_id = 0, dk_block_size = 64, dk_data_access_time = 20, dk_tags_access_time = 5, dk_processing_time = 2, dk_cntlr = demo_memory,
      dk_cache = demo_cache ''dram-cache'' (demo_line 64 SHARED 0), dk_queue_model = None, dk_prefetcher = None, dk_prefetch_on_prefetch_hit = False,
      dk_prefetch_mshr = ContentionModel_new 1, dk_reads = 0, dk_writes = 0, dk_read_misses = 0, dk_write_misses = 0, dk_hits_prefetch = 0,
      dk_prefetches = 0, dk_prefetch_mshr_delay = 0\<rparr>"

lemma demo_read_hit:
  "mapE (\<lambda>(latency, hit_where, _, k). (latency, hit_where, dk_reads k, dk_read_misses k)) (dk_getDataFromDram 0x1000 0 100 demo_dram_cache) =
   Inr (27, WHERE_DRAM_CACHE, 1, 0)"
  by code_simp

section \<open>Cores\<close>

definition demo_cores :: "machine \<Rightarrow> cores" where
  "demo_cores m =
     \<lparr>co_machine = m, co_icache_last_block = (\<lambda>_. - 1), co_elapsed_time = (\<lambda>_. 100), co_perf_enabled = (\<lambda>_. True),
      co_pseudo_instructions = (\<lambda>_. []), co_memory_latencies = (\<lambda>_. []), co_shmem_enabled = (\<lambda>_. True), co_num_memory_accesses = (\<lambda>_. 0),
      co_total_memory_access_latency = (\<lambda>_. 0), co_l1_hit_latency = (\<lambda>_. 1), co_simulation_mode = STANDALONE, co_copies = []\<rparr>"

text \<open>An access of 12 bytes whose first 4 bytes end a line.\<close>

lemma demo_pieces: "accessPieces 64 0x103c 12 = Inr [(0x1000, 60, 4), (0x1040, 0, 8)]"
  by code_simp

text \<open>A read of 8 bytes that hits in the cache of core 0.\<close>

lemma demo_core_read:
  "mapE (\<lambda>((hit_where, _), s). (hit_where, co_copies s, co_num_memory_accesses s 0))
     (accessMemory (\<lambda>_. retA ()) 0 NO_SIGNAL READ 0x1004 (Buf (Some [])) 8 MEM_MODELED_TIME MaxTime False
       (demo_cores (demo_machine (demo_hier True (demo_line 64 MODIFIED 3) no_line (demo_line 64 MODIFIED 2)) demo_new_dir))) =
   Inr (3, [(STANDALONE, 0, READ, 0x1004, 8)], 1)"
  by code_simp

section \<open>Memory timing\<close>

definition demo_env :: queue_env where
  "demo_env = \<lparr>qe_root = (\<lambda>_ _. 0), qe_estimate = (\<lambda>_ _ _ _. 0), qe_global_time = 0\<rparr>"

definition demo_queue_cfg :: queue_cfg where
  "demo_queue_cfg = \<lparr>qf_moving_avg_enabled = False, qf_moving_avg_window_size = 0, qf_moving_avg_type = [], qf_analytical_model_enabled = False,
     qf_max_list_size = 100, qf_window_size = 0\<rparr>"

definition demo_nvm_cfg :: nvm_cfg where
  "demo_nvm_cfg = \<lparr>nf_latency = 100, nf_read_latency = None, nf_write_latency = Some 100, nf_log_latency = None\<rparr>"

definition demo_accesses :: "(time \<times> UInt64 \<times> core_id_t \<times> dram_access) list" where
  "demo_accesses = [(0, 64, 0, DRAM_READ), (0, 64, 1, DRAM_WRITE), (1000, 64, 2, DRAM_READ)]"

lemma demo_nvm_run:
  "bindE (NvmPerfModelConstant_new 4 (\<lambda>n. n div 8) demo_nvm_cfg 64 demo_queue_cfg (Some ''history_list'')) (\<lambda>m.
     mapE fst (accesses (np_getAccessLatency demo_env) demo_accesses (m\<lparr>np_enabled := True\<rparr>))) = Inr [164, 228, 164]"
  by code_simp

lemma demo_dram_new:
  "\<exists>m. DramPerfModelConstant_new 4 (\<lambda>n. n div 8) 100 64 demo_queue_cfg (Some ''history_list'') = Inr m"
  by (simp add: DramPerfModelConstant_new_def QueueModel_create_def)

section \<open>Placement\<close>

definition demo_placement :: "string \<Rightarrow> placement_cfg" where
  "demo_placement locations =
     \<lparr>pl_core_count = 4, pl_num_controllers = - 1, pl_controllers_interleaving = 2, pl_smt_cores = 1, pl_controller_positions = [],
      pl_network = ''magic'', pl_mesh_width = 2, pl_mesh_height = 2, pl_mesh_dimensions = 2, pl_mesh_concentration = 1,
      pl_locations = locations, pl_directory_interleaving = 1, pl_llc_shared_cores = 1\<rparr>"

lemma demo_placed:
  "placeMemory (demo_placement ''dram'') = Inr ([0, 2], [0, 2])" "placeMemory (demo_placement ''interleaved'') = Inr ([0, 2], [0, 1, 2, 3])"
  by code_simp+

lemma demo_positions: "parseMemoryControllerList ''0, 2,12x'' 16 = Inr [0, 2, 12]"
  by code_simp

end
