(* ===== verification/Spec2Isabelle.thy ===== *)
theory Spec2Isabelle
  imports System_Demo
begin

text \<open>
  A model of PiCL, crash consistency by in-cache-line logging, as the repository implements it inside
  the Sniper simulator (\<open>src/sniper\<close>), and proofs that the model does what PiCL promises.

  \<^bold>\<open>The program.\<close> Every core has a hierarchy of caches (\<open>cache_cntlr.cc\<close> over \<open>cache/cache.cc\<close>) kept
  coherent by a tag directory. Time is cut into epochs: the periodic instruction hook (\<open>core.cc\<close>,
  \<open>hooks_manager.cc\<close>) makes \<open>epoch_manager.cc\<close> start the next epoch. When a dirty line is written into
  the last-level cache, \<open>writeCacheBlock\<close> puts an undo entry with the tag and the epochs between which
  the old version was current into a small on-chip buffer (\<open>onchip_undo_buffer.cc\<close>) and stamps the
  line with the running epoch. The buffer's controller (\<open>onchip_undo_buffer_cntlr.cc\<close>) writes old
  entries to the log in memory at every epoch boundary, when the buffer overflows and when the
  application ends, and reports the newest epoch whose entries have all left the chip.

  \<^bold>\<open>Theories and sources.\<close> Paths are relative to \<open>src/sniper/common\<close>; the operations keep the names
  of the methods they model.
  \<^item> \<open>Prelude\<close>, \<open>Action\<close>: machine words, the ways the simulator stops as error values
    (\<open>LOG_ASSERT_ERROR\<close>, \<open>LOG_PRINT_ERROR\<close>, undefined behaviour), index loops, steps on a state that may
    stop, and the rules for what such steps keep.
  \<^item> \<open>Utils\<close>: \<open>misc/utils.cc\<close>, \<open>misc/rng.h\<close>, \<open>misc/random.h\<close>.
  \<^item> \<open>Cache_Block\<close>, \<open>Cache_Base\<close>: \<open>cache/cache_block_info.cc\<close>, \<open>cache/cache_state.h\<close>,
    \<open>address_home_lookup.cc\<close>, \<open>cache/cache_base.cc\<close>: line annotations, home nodes, set index and tag.
  \<^item> \<open>Recency\<close>, \<open>Policy_Recency\<close>, \<open>Policy_Counters\<close>, \<open>Replacement_Policy\<close>: the eight
    \<open>cache/cache_set_*.cc\<close> policies. The locales \<open>replacement_policy\<close>, \<open>fills_invalid_first\<close> and
    \<open>never_stuck\<close> state what a policy owes the cache set; each policy and the dynamic dispatch are
    interpretations.
  \<^item> \<open>Cache_Set\<close>, \<open>Cache\<close>, \<open>Fault_Injection\<close>: \<open>cache/cache_set.cc\<close>, \<open>cache/cache.cc\<close>,
    \<open>fault_injection/\<close>. The abstract content of a cache is the set of its lines (\<open>cached\<close>).
  \<^item> \<open>Undo_Buffer\<close>, \<open>Epochs\<close>, \<open>Undo_Cntlr\<close>: the PiCL classes and the hooks; \<open>picl\<close> is a controller
    with the epoch manager and the log it writes to.
  \<^item> \<open>Undo_Recovery\<close>: the specification of undo logging as a machine with values, snapshots and a log,
    and the locale \<open>undo_log\<close> that relates it to the controller.
  \<^item> \<open>Contention\<close>, \<open>Shmem\<close>, \<open>Dram\<close>, \<open>ATD\<close>, \<open>Prefetchers\<close>: \<open>performance_model/contention_model.cc\<close>,
    the coherence messages, request queues and clocks, \<open>dram_cntlr.cc\<close>, \<open>cache_atd.cc\<close> and the three
    prefetchers.
  \<^item> \<open>Hierarchy\<close>, \<open>Cntlr_Blocks\<close>, \<open>Cntlr_Requests\<close>: \<open>parametric_dram_directory_msi/cache_cntlr.cc\<close>.
    The state \<open>hier\<close> holds all controllers, caches, undo buffers and the messages sent; a pointer
    between objects is an index. \<open>Cntlr_Blocks\<close> has the operations on lines (insertion with eviction,
    updates through the previous levels, writing back), \<open>Cntlr_Requests\<close> the requests of cores, of
    the previous levels and of the tag directory.
  \<^item> \<open>Cntlr_Steps\<close>: the elementary steps all controller operations are made of, as step relations, and
    the locales \<open>quiet_closed\<close> and \<open>step_closed\<close>: a property closed under the steps is kept by every
    operation. \<open>Cntlr_Invariant\<close>, \<open>Cntlr_Coherence\<close> interpret them with the invariant of the hierarchy,
    its topology, the shrinking of caches and the order of the levels.
  \<^item> \<open>Cntlr_Behaviour\<close>: what single operations achieve. \<open>Cntlr_Demo\<close>: a machine of two cores with one
    private level and one shared level, and runs on it.
  \<^item> \<open>Directory_Entry\<close>, \<open>Directory_Cache\<close>, \<open>Nuca\<close>, \<open>Directory_Cntlr\<close>: the other side of the protocol,
    \<open>directory_schemes/\<close>, \<open>dram_directory_cache.cc\<close>, \<open>nuca_cache.cc\<close> and \<open>dram_directory_cntlr.cc\<close>. The
    state \<open>dircntlr\<close> holds the table of entries (a heap of entries with slots and a list of replaced
    entries), one request queue per line, and the messages sent.
  \<^item> \<open>Directory_Table\<close>: the table has one entry per line. \<open>Directory_Steps\<close>: the elementary steps of the
    directory and the locales \<open>dir_closed\<close>, \<open>dir_queue_closed\<close>, \<open>dir_message_closed\<close>, interpreted in
    \<open>Directory_Invariant\<close>. \<open>Directory_Termination\<close>: the recursion over waiting requests.
    \<open>Directory_Behaviour\<close>: what the handlers do with a line. \<open>Directory_Demo\<close>: small directories.
  \<^item> \<open>Dram_Cache\<close>, \<open>Tlb\<close>: \<open>nvm_cntlr.cc\<close>, \<open>dram/dram_cache.cc\<close>, \<open>tlb.cc\<close>.
  \<^item> \<open>Epoch_System\<close>: the undo buffers of all cores under the hooks they share; the locale \<open>undo_flush\<close>
    states what the hook of one controller promises, and the scan and the final flush interpret it.
  \<^item> \<open>Memory_Manager\<close>: \<open>memory_manager.cc\<close> and \<open>dram/dram_cntlr_interface.cc\<close>. The state \<open>machine\<close> has the
    cache hierarchy of all cores, the directories and memories by node and the packets under way; a
    memory manager takes requests of its core and hands messages to the component they are meant for.
  \<^item> \<open>Machine\<close>: the steps of the machine (a message arrives, a core accesses memory, an epoch or the
    application ends), the locale \<open>machine_closed\<close> for what they keep, a write miss from the request
    to the data, and the way of the undo log to memory.
  \<^item> \<open>Core_Memory\<close>: the memory accesses of \<open>core/core.cc\<close>, which cut an access into cache lines, and the
    steps of the cores on top of the machine. \<open>System_Demo\<close>: a small machine with cores and memory timing.
  \<^item> \<open>Moving_Average\<close>, \<open>Queue_Models\<close>, \<open>Memory_Timing\<close>: \<open>misc/moving_average.h\<close>, the queue models and the
    timing of DRAM and non-volatile memory (\<open>performance_model/\<close>). The locale \<open>exclusive_queue\<close> states what
    a queue model promises, a stretch of free time of its own for every request; the basic model, the
    history list and the queue chosen at run time interpret it. \<open>latency_total\<close> is the statistic the
    memory models share.
  \<^item> \<open>Placement\<close>: which nodes have a memory controller and which a tag directory,
    \<open>core/memory_subsystem/memory_manager_base.cc\<close>, \<open>network/network_model.cc\<close>, the mesh of
    \<open>network_model_emesh_hop_by_hop.cc\<close> and the constructor of the memory manager.
  \<^item> \<open>Branch_Predictors\<close>: \<open>performance_model/branch_predictor.cc\<close> and \<open>branch_predictors/\<close>. The locale
    \<open>predictor\<close> states the contract of a predictor (it predicts and learns every branch, keeps its
    tables in range and counts); the three predictors and the one chosen at run time interpret it.

  \<^bold>\<open>What is shown.\<close> C1 to C7 concern PiCL: the controller refines undo logging, so that the log
  recovers the end of every completed epoch; nothing is lost or reordered on overflow, at an epoch
  boundary of all cores or at exit; the exact condition under which the reported epoch keeps its
  promise for all cores; and the arrival of the log in memory. C8 to C16 concern the cache
  controllers: the PiCL lines of \<open>writeCacheBlock\<close>, the invariant of the whole machine in every state
  it reaches, invalidation, exclusive writing, inclusion, one directory request per address,
  and the pieces of an access. C17 to C24 concern the tag directory: its invariant in every reachable state,
  the invalidation of sharers before a write is granted, write misses through directory and memory,
  checkpoints, the order of requests, the end of its recursion, and lookups. C25 to C27 concern
  memory and address translation, C28 to C33 caches and replacement, C34 and C35 addresses and the
  nodes that have a memory controller, C36 to C39 the memory bus, queues, averages and hooks, C40
  branch prediction.

  \<^bold>\<open>Bounds and parameters.\<close> The recursion between levels is bounded by the number of controllers; the
  lemmas \<open>updateCacheBlock_upto_agree\<close> and \<open>processShmemReq_upto_agree\<close> show that any larger bound gives the same result. The recursion of the directory over the
  waiting requests of a line is bounded by their number; C23 shows the same for it. \<open>wakeWaiters\<close>
  takes a bound on the waiting cores as an argument; it stops with \<open>Diverges\<close> when the bound is too
  small, so a returned result never depends on it. Loops that may not end are partial functions
  (\<open>overflow_loop\<close>, \<open>cleanup_loop\<close>, \<open>pieces\<close>, round-robin and random replacement); C3, C16, C33 and the
  lemmas on \<open>cleanup_loop\<close> say when they return. While a core waits for the directory, the network thread runs:
  its steps are the argument \<open>net\<close> of \<open>processMemOpFromCore\<close>, and the steps of the woken core the
  argument \<open>usr\<close> of \<open>handleMsgFromDramDirectory\<close>. DRAM timing is a \<open>perf_model\<close>, a stream of latencies that
  depend on the access; \<open>constant_perf\<close> of \<open>Memory_Timing\<close> is the one of the constant DRAM model. What the
  timing computes in floating point (the time of a packet on the bus, the root of the geometric mean,
  the M/G/1 estimate) is an argument; configuration values are arguments.

  \<^bold>\<open>Not modelled.\<close> Locks and semaphores order steps and have no state of their own.
  Statistics that are only printed, the break-down of latencies (\<open>ShmemPerf\<close>), memory latencies drawn
  from a normal distribution, core timing, the network, the front ends, the decoders, scripting and
  configuration parsing do not change the memory state PiCL protects; they are input, output or
  third-party code.
\<close>

section \<open>The undo log of PiCL\<close>

text \<open>
  C1. Epoch recovery. Start the undo buffer controller with an empty log while all lines carry the
  epoch \<open>e0\<close>. For every sequence of writes and epoch boundaries that does not overflow the epoch
  counter, the controller runs without error, and the entries it has made durable followed by those
  still on chip are exactly the log of the specification machine, in order; applying that log gives
  back the value every line had at the end of each completed epoch since \<open>e0\<close>.
\<close>

theorem picl_recovers_epochs:
  assumes "picl_inv p" "durable p @ volatile p = []" "\<forall>t. m_tag (bl t) = t \<and> m_eid (bl t) = e0"
    and "e0 \<le> m_system_eid (pc_em p)" "no_wrap evs (m_system_eid (pc_em p))"
  shows "\<exists>bl' p'. impl_run (stampEpoch True) (epoch_boundary 0) evs bl p = Inr (bl', p') \<and>
    (let sp = spec_run evs (spec_start (m_system_eid (pc_em p)) e0 val)
     in durable p' @ volatile p' = map fst (sp_log sp) \<and>
        (\<forall>P t. e0 \<le> P \<and> P < m_system_eid (pc_em p') \<longrightarrow> recover (sp_log sp) P (sp_val sp) t = sp_snap sp P t))"
proof -
  let ?sp = "spec_run evs (spec_start (m_system_eid (pc_em p)) e0 val)"
  have "spec_inv e0 ?sp" using assms(4,5) by (intro spec_run_inv spec_start_inv) (simp_all add: spec_start_def)
  moreover obtain bl' p' where "impl_run (stampEpoch True) (epoch_boundary 0) evs bl p = Inr (bl', p')"
    "m_system_eid (pc_em p') = sp_sys ?sp" "durable p' @ volatile p' = map fst (sp_log ?sp)"
    using picl_run [OF assms(1-3,5), of val] by blast
  ultimately show ?thesis by (auto simp: spec_inv_def Let_def)
qed

theorem picl_recovers_epochs_witness:
  "\<exists>bl' p'. impl_run (stampEpoch True) (epoch_boundary 0) [Write 9 1, Boundary, Write 9 2, Write 7 (3 :: nat), Boundary]
      (\<lambda>t. demo_block t 5) (demo_picl 1 5 []) = Inr (bl', p') \<and>
    (let sp = spec_run [Write 9 1, Boundary, Write 9 2, Write 7 (3 :: nat), Boundary] (spec_start 5 5 (\<lambda>_. 0))
     in durable p' @ volatile p' = map fst (sp_log sp) \<and>
        (\<forall>P t. 5 \<le> P \<and> P < m_system_eid (pc_em p') \<longrightarrow> recover (sp_log sp) P (sp_val sp) t = sp_snap sp P t))"
proof -
  have "m_system_eid (pc_em (demo_picl 1 5 [])) = 5" by (simp add: demo_picl_def)
  moreover have "durable (demo_picl 1 5 []) @ volatile (demo_picl 1 5 []) = []"
    by (simp add: demo_picl_def durable_def volatile_def)
  moreover have "\<forall>t. m_tag (demo_block t 5) = t \<and> m_eid (demo_block t 5) = 5" by (simp add: demo_block_def CacheBlockInfo_new_def)
  moreover have "picl_inv (demo_picl 1 5 [])" by (rule demo_picl_inv) simp_all
  ultimately show ?thesis
    using picl_recovers_epochs [of "demo_picl 1 5 []" "\<lambda>t. demo_block t 5" 5
      "[Write 9 1, Boundary, Write 9 2, Write 7 (3 :: nat), Boundary]" "\<lambda>_. 0"]
    by (simp only: no_wrap_def) simp
qed

text \<open>
  C2. Inserting an undo entry always succeeds on a well-formed controller, overflow included: no
  entry is lost or reordered, the new entry comes last, the buffer stays within its capacity and
  the statistics count the log writes that were issued.
\<close>

theorem undo_insert_fifo:
  assumes "picl_inv p"
  shows "\<exists>p'. insertUndoEntry (m_system_eid (pc_em p)) b p = Inr p' \<and> picl_inv p' \<and>
    durable p' @ volatile p' = durable p @ volatile p @ [UndoEntry_new (m_system_eid (pc_em p)) b] \<and>
    length (volatile p') \<le> unat (ub_num_entries (uc_buffer (pc_cntlr p'))) \<and>
    log_writes p' - log_writes p = of_nat (length (durable p') - length (durable p))"
  using insertUndoEntry_ok [OF assms, of b] by blast

theorem undo_insert_fifo_witness:
  "\<exists>p'. insertUndoEntry 5 (demo_block 9 1) (demo_picl 1 5 [UndoEntry_new 5 (demo_block 8 2)]) = Inr p' \<and> picl_inv p' \<and>
    durable p' @ volatile p' = [UndoEntry_new 5 (demo_block 8 2), UndoEntry_new 5 (demo_block 9 1)]"
proof -
  have "picl_inv (demo_picl 1 5 [UndoEntry_new 5 (demo_block 8 2)])"
    by (rule demo_picl_inv) (simp_all add: UndoEntry_new_def)
  from undo_insert_fifo [OF this, of "demo_block 9 1"] show ?thesis
    by (auto simp: demo_picl_def durable_def volatile_def)
qed

text \<open>
  C3. The overflow loop of \<open>insertUndoEntry\<close>, which lowers the gap until there is room, returns for
  every gap: it leaves room in the buffer, moves a prefix of the buffer to the log and reports an
  epoch after which every remaining entry ends.
\<close>

theorem overflow_loop_returns:
  assumes "picl_inv p"
  shows "\<exists>p' old g. overflow_loop (m_system_eid (pc_em p)) gap p = Some (Inr p') \<and> picl_inv p' \<and>
    durable p' = durable p @ old \<and> volatile p = old @ volatile p' \<and> \<not> isFull (uc_buffer (pc_cntlr p')) \<and>
    g \<le> gap \<and> m_persisted_eid (pc_em p') = m_system_eid (pc_em p) - ucast g \<and>
    (\<forall>e \<in> set (volatile p'). m_persisted_eid (pc_em p') < ue_till e)"
  using overflow_loop_ok [OF assms refl, of gap] by blast

theorem overflow_loop_returns_witness:
  "\<exists>p'. overflow_loop 5 3 (demo_picl 1 5 [UndoEntry_new 5 (demo_block 8 2)]) = Some (Inr p') \<and>
    \<not> isFull (uc_buffer (pc_cntlr p'))"
proof -
  have "picl_inv (demo_picl 1 5 [UndoEntry_new 5 (demo_block 8 2)])"
    by (rule demo_picl_inv) (simp_all add: UndoEntry_new_def)
  from overflow_loop_returns [OF this, of 3] show ?thesis by (auto simp: demo_picl_def)
qed

text \<open>
  C4. An epoch boundary of the whole machine. The hooks of all undo buffer controllers succeed and the
  next epoch starts. Every buffer has moved its oldest entries, in order, to the log in memory, and
  nothing else; and the epoch that lies the scan gap behind is reported as persisted, rightly so: no
  buffer of any core still has an entry that ends at or before it.
\<close>

theorem epoch_boundary_of_all_cores:
  assumes "hier_inv s" "h_undo s \<noteq> []" "\<forall>c \<in> set (h_undo s). uc_acs_gap c = gap"
    and "ucast gap \<le> m_system_eid (h_em s)" "m_system_eid (h_em s) \<noteq> - 1"
  shows "\<exists>s' old. system_boundary icount s = Inr s' \<and> hier_inv s' \<and> m_system_eid (h_em s') = m_system_eid (h_em s) + 1 \<and>
    m_persisted_eid (h_em s') = m_system_eid (h_em s) - ucast gap \<and> system_persisted_ok s' \<and>
    (\<forall>u < length (h_undo s). buffered s u = old u @ buffered s' u) \<and>
    logged s' = logged s @ concat (map old [0..<length (h_undo s)])"
proof -
  from system_boundary_ok [OF assms, of icount] obtain s' old where
    s': "system_boundary icount s = Inr s'" "hier_inv s'" "m_system_eid (h_em s') = m_system_eid (h_em s) + 1"
      "m_persisted_eid (h_em s') = m_system_eid (h_em s) - ucast gap" "length (h_undo s') = length (h_undo s)"
      "\<forall>u < length (h_undo s). buffered s u = old u @ buffered s' u \<and> (\<forall>e \<in> set (buffered s' u). m_persisted_eid (h_em s') < ue_till e)"
      "logged s' = logged s @ concat (map old [0..<length (h_undo s)])" by blast
  then have "system_persisted_ok s'" by (simp add: system_persisted_ok_def)
  with s' show ?thesis by blast
qed

theorem epoch_boundary_of_all_cores_witness:
  "\<exists>s'. system_boundary 1000 (demo_buffers 5 0 [demo_undo 2] [demo_undo 4]) = Inr s' \<and> m_system_eid (h_em s') = 6 \<and>
    m_persisted_eid (h_em s') = 2 \<and> system_persisted_ok s'"
proof -
  let ?s = "demo_buffers 5 0 [demo_undo 2] [demo_undo 4]"
  have "hier_inv ?s" by (rule demo_buffers_inv) (simp_all add: demo_till)
  moreover have "h_undo ?s \<noteq> []" "\<forall>c \<in> set (h_undo ?s). uc_acs_gap c = 3" "m_system_eid (h_em ?s) = 5"
    by (simp_all add: demo_buffers_frame demo_gap)
  ultimately show ?thesis using epoch_boundary_of_all_cores [of ?s 3 1000] by auto
qed

text \<open>
  C5. When the application ends, the undo buffers of all cores are written to the log, the entries of
  each buffer together and in order, and the running epoch is reported as persisted.
\<close>

theorem application_exit_drains_all:
  assumes "hier_inv s" "h_undo s \<noteq> []" "\<forall>c \<in> set (h_undo s). uc_acs_gap c = gap" "m_system_eid (h_em s) \<noteq> 0"
  shows "\<exists>s'. system_exit app s = Inr s' \<and> hier_inv s' \<and> m_persisted_eid (h_em s') = m_system_eid (h_em s) \<and>
    (\<forall>u < length (h_undo s). buffered s' u = []) \<and> logged s' = logged s @ concat (map (buffered s) [0..<length (h_undo s)])"
  by (rule system_exit_ok [OF assms])

theorem application_exit_drains_all_witness:
  "\<exists>s'. system_exit 0 (demo_buffers 5 0 [demo_undo 2] [demo_undo 4]) = Inr s' \<and> m_persisted_eid (h_em s') = 5 \<and>
    logged s' = [demo_undo 2, demo_undo 4] \<and> buffered s' 0 = [] \<and> buffered s' 1 = []"
proof -
  let ?s = "demo_buffers 5 0 [demo_undo 2] [demo_undo 4]"
  have "hier_inv ?s" by (rule demo_buffers_inv) (simp_all add: demo_till)
  moreover have "h_undo ?s \<noteq> []" "\<forall>c \<in> set (h_undo ?s). uc_acs_gap c = 3" "m_system_eid (h_em ?s) = 5" "length (h_undo ?s) = 2"
    "logged ?s = []" "map (buffered ?s) [0..<2] = [[demo_undo 2], [demo_undo 4]]"
    by (simp_all add: demo_buffers_frame demo_gap demo_entries numeral_2_eq_2)
  ultimately show ?thesis using application_exit_drains_all [of ?s 3 0] by auto
qed

text \<open>
  C6. The persisted epoch after an insertion. If the promise of the persisted epoch held for all
  buffers, then after an insertion into one of them it holds exactly when the reported epoch lies
  before the running one and before the ends of all entries of the other buffers: an overflow reports
  for the whole machine but flushes only its own buffer.
\<close>

theorem insertion_keeps_persisted_iff:
  assumes "hier_inv s" "u < length (h_undo s)" "system_persisted_ok s"
    and "onUndo u (insertUndoEntry (m_system_eid (h_em s)) b) s = Inr ((), s')"
  shows "system_persisted_ok s' \<longleftrightarrow> m_persisted_eid (h_em s') < m_system_eid (h_em s) \<and>
    (\<forall>v < length (h_undo s). v \<noteq> u \<longrightarrow> (\<forall>e \<in> set (buffered s v). m_persisted_eid (h_em s') < ue_till e))"
  by (rule insertion_speaks_for_all [OF assms])

theorem insertion_keeps_persisted_iff_witness:
  "\<exists>s'. onUndo 0 (insertUndoEntry 5 (demo_line 128 MODIFIED 4)) (demo_buffers 5 1 [demo_undo 2] [demo_undo 2]) = Inr ((), s') \<and>
    m_persisted_eid (h_em s') = 2 \<and> \<not> system_persisted_ok s'"
proof -
  let ?s = "demo_buffers 5 1 [demo_undo 2] [demo_undo 2]" and ?b = "demo_line 128 MODIFIED 4"
  from overflow_speaks_for_all_run obtain s' where run: "onUndo 0 (insertUndoEntry 5 ?b) ?s = Inr ((), s')" and p: "m_persisted_eid (h_em s') = 2"
    by (auto simp: result_simps buffers_view_def)
  have "hier_inv ?s" by (rule demo_buffers_inv) (simp_all add: demo_till)
  moreover have len: "length (h_undo ?s) = 2" and es: "buffered ?s 0 = [demo_undo 2]" "buffered ?s 1 = [demo_undo 2]"
    and sys: "m_system_eid (h_em ?s) = 5" "m_persisted_eid (h_em ?s) = 1"
    by (simp_all add: demo_buffers_frame demo_entries)
  moreover have "system_persisted_ok ?s"
    using es by (auto simp: system_persisted_ok_def len sys demo_till less_2_cases_iff)
  ultimately have "system_persisted_ok s' \<longleftrightarrow> m_persisted_eid (h_em s') < 5 \<and>
      (\<forall>v < 2. v \<noteq> 0 \<longrightarrow> (\<forall>e \<in> set (buffered ?s v). m_persisted_eid (h_em s') < ue_till e))"
    using insertion_keeps_persisted_iff [of ?s 0 ?b s'] run by (simp add: len sys)
  moreover have "(1 :: nat) < 2 \<and> demo_undo 2 \<in> set (buffered ?s 1) \<and> \<not> m_persisted_eid (h_em s') < ue_till (demo_undo 2)"
    using es p by (simp add: demo_till)
  ultimately have "\<not> system_persisted_ok s'" by (metis zero_neq_one)
  with run p show ?thesis by blast
qed



section \<open>The cache controllers\<close>



text \<open>
  C9. The whole machine: whatever messages arrive at whatever node, and in whatever order the cores
  fetch instructions and access data and epochs end, the caches, the undo buffers and the tag directories stay well
  formed, and no controller, cache or directory is added, removed or rewired.
\<close>

theorem machine_keeps_invariant:
  assumes "cores_reachable s0 s" "hier_inv (mc_hier (co_machine s0))" "\<forall>c d. mc_dirs (co_machine s0) c = Some d \<longrightarrow> dir_inv d"
  shows "hier_inv (mc_hier (co_machine s)) \<and> (\<forall>c d. mc_dirs (co_machine s) c = Some d \<longrightarrow> dir_inv d) \<and>
    wiring (co_machine s) = wiring (co_machine s0)"
  using cores_reachable_inv [OF assms(1)] assms(2,3) by (simp add: machine_inv_def)

theorem machine_keeps_invariant_witness:
  "\<exists>s' d. cores_reachable (demo_cores (demo_machine (demo_buffers 5 0 [] []) demo_new_dir)) s' \<and> m_system_eid (h_em (mc_hier (co_machine s'))) = 6 \<and>
    mc_dirs (co_machine s') 0 = Some d \<and> dir_inv d \<and> hier_inv (mc_hier (co_machine s'))"
proof -
  let ?h = "demo_buffers 5 0 [] []"
  let ?m = "demo_machine ?h demo_new_dir" and ?s = "demo_cores (demo_machine (demo_buffers 5 0 [] []) demo_new_dir)"
  have h: "hier_inv ?h" by (rule demo_buffers_inv) simp_all
  have s: "h_undo ?h \<noteq> []" "\<forall>c \<in> set (h_undo ?h). uc_acs_gap c = 3" "m_system_eid (h_em ?h) = 5"
    by (simp_all add: demo_buffers_frame demo_gap)
  then obtain h' where h': "system_boundary 1000 ?h = Inr h'" "m_system_eid (h_em h') = 6"
    using system_boundary_ok [OF h s(1,2), of 1000] by auto
  have m: "mc_hier ?m = ?h" "mc_dirs ?m = [0 \<mapsto> demo_new_dir]" "co_machine ?s = ?m" by (simp_all add: demo_machine_def demo_cores_def)
  have "machine_step ?m (?m\<lparr>mc_hier := h'\<rparr>)" by (rule machine_step.boundary) (use s h'(1) in \<open>simp_all add: m\<close>)
  then have "core_step ?s (?s\<lparr>co_machine := ?m\<lparr>mc_hier := h'\<rparr>\<rparr>)" by (intro core_step.system) (simp add: m)
  then have r: "cores_reachable ?s (?s\<lparr>co_machine := ?m\<lparr>mc_hier := h'\<rparr>\<rparr>)" by (blast intro: cores_reachable.intros)
  have "\<forall>c d. mc_dirs (co_machine ?s) c = Some d \<longrightarrow> dir_inv d" using dir_start_inv [OF demo_new_dir_starts] by (simp add: m)
  with machine_keeps_invariant [OF r] h r h'(2) show ?thesis by (auto simp: m)
qed

text \<open>
  C10. Invalidation reaches the cores: when \<open>updateCacheBlock\<close> returns from an invalidation, the line
  is in none of the coherent caches below the controller, the controller's own cache included.
\<close>

theorem invalidation_reaches_cores:
  assumes "updateCacheBlock i a INVALID reason buf s = Inr (x, s')" "hier_inv s" "below s p i"
    and "cc_coherent (h_cntlrs s ! p)"
  shows "\<not> holds s' p a"
  using updateCacheBlock_invalidates assms by (simp add: updateCacheBlock_def)

theorem invalidation_reaches_cores_witness:
  "\<exists>x s'. updateCacheBlock 2 0x1000 INVALID COHERENCY (Buf None)
      (demo_hier True (demo_line 64 MODIFIED 3) no_line (demo_line 64 MODIFIED 2)) = Inr (x, s') \<and> \<not> holds s' 2 0x1000"
proof -
  let ?s = "demo_hier True (demo_line 64 MODIFIED 3) no_line (demo_line 64 MODIFIED 2)"
  have "hier_inv ?s" by (rule demo_hier_inv) simp_all
  moreover obtain x s' where "updateCacheBlock 2 0x1000 INVALID COHERENCY (Buf None) ?s = Inr (x, s')"
    using demo_runD [OF invalidate_run] by blast
  moreover have "below ?s 2 2" by (rule below.here) (simp add: demo_linked)
  moreover have "cc_coherent (h_cntlrs ?s ! 2)" by (simp add: demo_hier_def demo_cntlr_def)
  ultimately show ?thesis using invalidation_reaches_cores [of 2 "0x1000" COHERENCY "Buf None" ?s x s' 2] by blast
qed

text \<open>
  C11. A request for writing that hits in a shared cache takes the line away from every coherent cache
  below the other previous levels.
\<close>

theorem write_request_exclusive:
  assumes "reqHit i rq op a modeled pf r s = Inr (x, s')" "op \<noteq> READ" "hier_inv s" "sibling s (Some rq) p i" "linked s i"
  shows "\<not> holds s' p a"
  by (rule write_hit_exclusive [OF assms])

theorem write_request_exclusive_witness:
  "\<exists>x s'. reqHit 2 1 WRITE 0x1000 True NONE (0, 0)
      (demo_hier True (demo_line 64 MODIFIED 3) no_line (demo_line 64 MODIFIED 2)) = Inr (x, s') \<and> \<not> holds s' 0 0x1000"
proof -
  let ?s = "demo_hier True (demo_line 64 MODIFIED 3) no_line (demo_line 64 MODIFIED 2)"
  have "hier_inv ?s" by (rule demo_hier_inv) simp_all
  moreover obtain x s' where "reqHit 2 1 WRITE 0x1000 True NONE (0, 0) ?s = Inr (x, s')"
    using demo_runD [OF write_hit_run] by blast
  moreover have "sibling ?s (Some 1) 0 2" "linked ?s 2" by (simp_all add: demo_sibling demo_linked)
  ultimately show ?thesis using write_request_exclusive [of 2 1 WRITE "0x1000" True NONE "(0, 0)" ?s x s' 0] by auto
qed

text \<open>
  C12. Inclusion at evictions: when the eviction of a line returns, the line is neither in the own
  cache nor in any coherent cache below the previous levels.
\<close>

theorem eviction_leaves_no_copy:
  assumes "evictBlock i a info buf th s = Inr (u, s')" "hier_inv s" "linked s i" "sibling s None p i"
  shows "\<not> holds s' i a \<and> \<not> holds s' p a"
  using evictBlock_leaves_nothing [OF assms(1-3)] assms(4) by blast

theorem eviction_leaves_no_copy_witness:
  "\<exists>s'. evictBlock 2 0x1000 (demo_line 64 MODIFIED 2) (Buf None) USER_THREAD
      (demo_hier False (demo_line 64 MODIFIED 5) no_line (demo_line 128 SHARED 0)) = Inr ((), s') \<and>
    \<not> holds s' 2 0x1000 \<and> \<not> holds s' 0 0x1000"
proof -
  let ?s = "demo_hier False (demo_line 64 MODIFIED 5) no_line (demo_line 128 SHARED 0)"
  have "hier_inv ?s" by (rule demo_hier_inv) simp_all
  moreover obtain s' where "evictBlock 2 0x1000 (demo_line 64 MODIFIED 2) (Buf None) USER_THREAD ?s = Inr ((), s')"
    using demo_runD [OF evict_run] by auto
  moreover have "sibling ?s None 0 2" "linked ?s 2" by (simp_all add: demo_sibling demo_linked)
  ultimately show ?thesis
    using eviction_leaves_no_copy [of 2 "0x1000" "demo_line 64 MODIFIED 2" "Buf None" USER_THREAD ?s "()" s' 0] by blast
qed

text \<open>
  C13. Only the first core that waits for an address sends a request to the directory: a shared
  request for a read, an upgrade request for a write to a shared line, an exclusive request otherwise.
\<close>

theorem one_request_per_address:
  assumes "initiateDirectoryAccess i op a pf t s = Inr (u, s')" "length (pending (cm_waiters (master_at s i)) a) < 2 ^ 32 - 1"
  shows "sent s s' =
    (if pending (cm_waiters (master_at s i)) a \<noteq> [] then []
     else if op = READ then [(SH_REQ, a)]
     else if line_state a (cm_cache (master_at s i)) = Inr SHARED then [(UPGRADE_REQ, a)] else [(EX_REQ, a)])"
  by (rule initiate_sends [OF assms])

theorem one_request_per_address_witness:
  "\<exists>s'. initiateDirectoryAccess 2 READ 0x1000 False 0 (demo_hier False no_line no_line (demo_line 64 SHARED 2)) = Inr ((), s') \<and>
    sent (demo_hier False no_line no_line (demo_line 64 SHARED 2)) s' = [(SH_REQ, 0x1000)]"
proof -
  let ?s = "demo_hier False no_line no_line (demo_line 64 SHARED 2)"
  obtain s' where "initiateDirectoryAccess 2 READ 0x1000 False 0 ?s = Inr ((), s')"
    using demo_runD [OF wake_run] by (auto simp: thenA_Inr)
  moreover have "pending (cm_waiters (master_at ?s 2)) 0x1000 = []"
    by (simp add: master_at_def demo_hier_def demo_cntlr_def demo_master_def)
  ultimately show ?thesis using one_request_per_address [of 2 READ "0x1000" False 0 ?s "()" s'] by simp
qed



text \<open>
  C15. An upgrade reply for a line that is no longer in the cache never completes: the branch that
  handles it passes the data of the message as an output buffer, which is never written to.
\<close>

theorem upgrade_reply_for_lost_line_stops:
  assumes "hier_inv s" "linked s i" "\<not> holds s i (msg_address msg)"
  shows "\<exists>e. processUpgradeRep i msg s = Inl e"
  using upgrade_reply_lost_line [OF assms] by (cases "processUpgradeRep i msg s") auto

theorem upgrade_reply_for_lost_line_stops_witness:
  "\<exists>e. processUpgradeRep 2 (demo_msg UPGRADE_REP 0x1000) (demo_hier False no_line no_line (demo_line 128 SHARED 2)) = Inl e"
proof -
  let ?s = "demo_hier False no_line no_line (demo_line 128 SHARED 2)"
  have "hier_inv ?s" by (rule demo_hier_inv) simp_all
  moreover have "\<not> holds ?s 2 0x1000"
    by (simp add: holds_def Let_def master_at_def demo_hier_def demo_cntlr_def demo_master_def demo_cache_def cached_def
        tags_iff demo_line_def CacheBlockInfo_new_def line_of_def lessThan_Suc)
  ultimately show ?thesis
    using upgrade_reply_for_lost_line_stops [of ?s 2 "demo_msg UPGRADE_REP 0x1000"] demo_linked [of 2] by (simp add: demo_msg_def)
qed

text \<open>
  C16. A memory access of a core is cut into pieces that are exactly the bytes of the access, in order and
  none twice, and every piece lies in one cache line; the loop ends unless the access comes close to the
  end of the address space.
\<close>

theorem access_split_into_lines:
  assumes "0 < bs" "0 < n" "unat a + unat n + unat bs < 2 ^ 64"
  shows "\<exists>ps. accessPieces bs a n = Inr ps \<and> (\<forall>(line, off, k) \<in> set ps. unat bs dvd unat line \<and> 0 < k \<and> unat off + unat k \<le> unat bs) \<and>
    concat (map (\<lambda>(line, off, k). [unat line + unat off..<unat line + unat off + unat k]) ps) = [unat a..<unat a + unat n]"
  using accessPieces_ok [OF assms] by (auto simp: piece_ok_def piece_bytes_def list_all_iff)

theorem access_split_into_lines_witness:
  "\<exists>ps. accessPieces 64 0x103c 12 = Inr ps \<and>
    concat (map (\<lambda>(line, off, k). [unat line + unat off..<unat line + unat off + unat k]) ps) = [0x103c..<0x1048] \<and> length ps = 2"
  using access_split_into_lines [of 64 12 "0x103c"] by (simp add: demo_pieces)

section \<open>The tag directory\<close>

text \<open>
  C17. In every state the tag directory reaches from its start by handling messages, an entry in use
  is the only one of its line, a line is uncached exactly when it has no sharer, a modified or
  exclusive line has its owner as only sharer, and every waiting request is in the queue of its line.
\<close>

theorem directory_tracks_lines:
  assumes "dir_reachable s" "p \<in> ptrs (dd_cache s)" "entry_at p (dirOf s) = Inr e"
  shows "(de_dstate e = UNCACHED \<longleftrightarrow> sharers e = {}) \<and>
    (de_dstate e \<in> {DIR_MODIFIED, DIR_EXCLUSIVE} \<longrightarrow> sharers e = {unat (de_owner e)}) \<and>
    (\<forall>q \<in> ptrs (dd_cache s). \<forall>e'. entry_at q (dirOf s) = Inr e' \<and> de_address e' = de_address e \<and> de_address e \<noteq> NO_ADDRESS \<longrightarrow> q = p) \<and>
    (\<forall>a. \<forall>r \<in> set (pending (dd_queue s) a). msg_address (sr_msg r) = a)"
proof -
  have "dir_inv s" by (rule dir_reachable_inv [OF assms(1)])
  then have "dc_inv (dd_cache s)" "keyed (dd_queue s)" "entry_ok e"
    using assms(3) by (auto simp: dir_inv_def dir_wf_def heap_ok_def)
  then show ?thesis using dc_invD(7) [of "dd_cache s" _ p] assms(2,3) by (auto simp: entry_ok_def keyed_def addr_Some)
qed

theorem directory_tracks_lines_witness:
  "\<exists>s e. dir_reachable s \<and> entry_at 0 (dirOf s) = Inr e \<and> de_dstate e = DIR_MODIFIED \<and> sharers e = {unat (de_owner e)} \<and> de_owner e = 3"
proof -
  let ?run = "handleMsgFromL2Cache 3 (demo_request EX_REQ 0x1000 3 NULL 0) demo_new_dir"
  have "mapE (\<lambda>(u, s). (dir_list (dirOf s), mapE (\<lambda>e. (de_dstate e, de_owner e)) (entry_at 0 (dirOf s)))) ?run =
      Inr ([Some 0], Inr (DIR_MODIFIED, 3))" by code_simp
  then obtain u s e where run: "?run = Inr (u, s)" and s: "dir_list (dirOf s) = [Some 0]" "entry_at 0 (dirOf s) = Inr e"
      "de_dstate e = DIR_MODIFIED" "de_owner e = 3"
    by (auto simp: result_simps)
  have "dir_reachable s"
    by (rule dir_reachable.from_cache [OF dir_reachable.started [OF demo_new_dir_starts] _ run]) (simp add: demo_request_def NO_ADDRESS_def)
  moreover have "slot (dd_cache s) 0 = Some 0" using s(1) by (simp add: slot_def)
  then have "0 \<in> ptrs (dd_cache s)" by (auto simp: ptrs_def)
  ultimately show ?thesis using directory_tracks_lines [of s 0 e] s by auto
qed

text \<open>
  C18. A write request for a line that other caches share: the directory asks exactly the sharers to
  give the line up, each with one invalidation request, grants nothing yet, and keeps the request as
  the first of the line.
\<close>

theorem write_request_invalidates_sharers:
  assumes "line s a p e" "clock_room s e" "pending (dd_queue s) a = []" "de_dstate e = DIR_SHARED"
    and "msg_type msg = EX_REQ" "msg_address msg = a" "msg_data_buf msg = NULL" "entry_ok e"
  shows "\<exists>s' r. handleMsgFromL2Cache c msg s = Inr ((), s') \<and>
    dd_net s' = dd_net s @ map (inv_packet s' (msg_requester msg) a) (sharer_list e) \<and>
    unat ` set (sharer_list e) = sharers e \<and> distinct (sharer_list e) \<and>
    line s' a p e \<and> pending (dd_queue s') a = [r] \<and> sr_msg r = msg"
proof -
  obtain s' r where s': "handleMsgFromL2Cache c msg s = Inr ((), s')" "line s' a p e" "dd_queue s' = enqueue a r (dd_queue s)" "sr_msg r = msg"
    "dd_net s' = dd_net s @ map (inv_packet s' (msg_requester msg) a) (sharer_list e)"
    by (rule write_to_shared_line [OF assms(1-7)])
  have "length (de_sharers e) < 2 ^ 32" using assms(8) by (simp add: entry_ok_def)
  note l = sharer_list_set [OF this] sharer_list_distinct [OF this]
  have "pending (dd_queue s') a = [r]" using assms(3) s'(3) by (simp add: enqueue_pending)
  with s' l show ?thesis by blast
qed

theorem write_request_invalidates_sharers_witness:
  "\<exists>s' :: dircntlr. handleMsgFromL2Cache 3 (demo_request EX_REQ 0x1000 3 NULL 0) (demo_dir (demo_entry 0x1000 DIR_SHARED INVALID_CORE_ID [1, 2]) rq_new) = Inr ((), s') \<and>
    map (\<lambda>pk. (pk_receiver pk, msg_type (pk_msg pk))) (dd_net s') = [(1, INV_REQ), (2, INV_REQ)]"
proof -
  let ?e = "demo_entry 0x1000 DIR_SHARED INVALID_CORE_ID [1, 2]" and ?m = "demo_request EX_REQ 0x1000 3 NULL 0"
  have e: "de_address ?e = 0x1000" "de_dstate ?e = DIR_SHARED" "entry_ok ?e"
    using demo_sharers [of "[1, 2]" "0x1000" DIR_SHARED INVALID_CORE_ID] by (auto simp: demo_entry_def entry_ok_def)
  have m: "msg_type ?m = EX_REQ" "msg_address ?m = 0x1000" "msg_data_buf ?m = NULL" by (simp_all add: demo_request_def)
  have s: "line (demo_dir ?e rq_new) 0x1000 0 ?e" "pending (dd_queue (demo_dir ?e rq_new)) 0x1000 = []" "dd_net (demo_dir ?e rq_new) = []"
    using demo_dir_line [OF e(1)] by (simp_all add: demo_dir_def NO_ADDRESS_def pending_def rq_new_def)
  have l: "sharer_list ?e = [1, 2]" by code_simp
  from write_request_invalidates_sharers [OF s(1) demo_clock s(2) e(2) m e(3), of 3] show ?thesis
    unfolding l s(3) by (auto simp: dir_packet_def)
qed







text \<open>
  C22. A request for a line the directory is busy with only waits: it comes last in the queue of the
  line, nothing is sent, and the entry and the other queues stay as they are.
\<close>

theorem request_for_busy_line_waits:
  assumes "line s a p e" "clock_room s e" "pending (dd_queue s) a \<noteq> []" "length (pending (dd_queue s) a) < 2 ^ 32 - 1"
    and "msg_type msg \<in> {EX_REQ, SH_REQ, UPGRADE_REQ}" "msg_address msg = a" "msg_data_buf msg = NULL"
  shows "\<exists>s' r. handleMsgFromL2Cache c msg s = Inr ((), s') \<and> dd_net s' = dd_net s \<and> line s' a p e \<and> sr_msg r = msg \<and>
    (\<forall>b. pending (dd_queue s') b = (if b = a then pending (dd_queue s) a @ [r] else pending (dd_queue s) b))"
  by (rule request_waits [OF assms]) (auto simp: enqueue_pending)

theorem request_for_busy_line_waits_witness:
  "\<exists>s' r. handleMsgFromL2Cache 4 (demo_request SH_REQ 0x1000 4 NULL 0)
      (demo_dir (demo_entry 0x1000 DIR_SHARED INVALID_CORE_ID [2]) (enqueue 0x1000 (demo_waiting 3) rq_new)) = Inr ((), s') \<and>
    pending (dd_queue s') 0x1000 = [demo_waiting 3, r] \<and> msg_requester (sr_msg r) = 4 \<and> dd_net s' = []"
proof -
  let ?e = "demo_entry 0x1000 DIR_SHARED INVALID_CORE_ID [2]" and ?q = "enqueue 0x1000 (demo_waiting 3) rq_new"
  let ?m = "demo_request SH_REQ 0x1000 4 NULL 0" and ?s = "demo_dir ?e ?q"
  have e: "de_address ?e = 0x1000" by (simp add: demo_entry_def)
  have m: "msg_type ?m \<in> {EX_REQ, SH_REQ, UPGRADE_REQ}" "msg_address ?m = 0x1000" "msg_data_buf ?m = NULL" "msg_requester ?m = 4"
    by (simp_all add: demo_request_def)
  have s: "line ?s 0x1000 0 ?e" "pending (dd_queue ?s) 0x1000 = [demo_waiting 3]" "dd_net ?s = []"
    using demo_dir_line [OF e(1)] by (simp_all add: demo_dir_def NO_ADDRESS_def enqueue_pending)
  have "pending (dd_queue ?s) 0x1000 \<noteq> []" "length (pending (dd_queue ?s) 0x1000) < 2 ^ 32 - 1" unfolding s(2) by simp_all
  from request_for_busy_line_waits [OF s(1) demo_clock this m(1-3), of 4] show ?thesis unfolding s(2,3) by (auto simp: m(4))
qed



text \<open>
  C24. Looking up a line in the directory always returns, keeps one entry per line, and changes no
  entry that is in use; it returns the entry of the line, a new one where the set has room, or
  nothing when the set is full and has no entry of the line.
\<close>

theorem directory_lookup_correct:
  assumes "dc_inv c" "a \<noteq> NO_ADDRESS" "hw_ok c"
  shows "\<exists>r ts c'. dc_getDirectoryEntry a modeled c = Inr (r, ts, c') \<and> dc_inv c' \<and>
    (case r of Some p \<Rightarrow> p \<in> ptrs c' \<and> addr c' p = Some a
     | None \<Rightarrow> (\<forall>q \<in> ptrs c'. addr c' q \<noteq> Some a) \<and> full c' (set_of c' a)) \<and>
    (\<forall>q e. entry_at q (dc_directory c) = Inr e \<and> de_address e \<noteq> NO_ADDRESS \<longrightarrow> entry_at q (dc_directory c') = Inr e)"
proof -
  obtain r ts c' where run: "dc_getDirectoryEntry a modeled c = Inr (r, ts, c')" using lookup_total [OF assms(1,2)] by blast
  from getDirectoryEntry_spec [OF assms(1,2) run] lookup_keeps [OF run assms(1,3)] run show ?thesis by blast
qed

theorem directory_lookup_correct_witness:
  "\<exists>r ts c'. dc_getDirectoryEntry 0x2000 False (demo_table (demo_entry 0x1000 DIR_SHARED INVALID_CORE_ID [2])) = Inr (r, ts, c') \<and>
    entry_at 0 (dc_directory c') = Inr (demo_entry 0x1000 DIR_SHARED INVALID_CORE_ID [2])"
proof -
  let ?e = "demo_entry 0x1000 DIR_SHARED INVALID_CORE_ID [2]"
  have e: "de_address ?e \<noteq> NO_ADDRESS" by (simp add: demo_entry_def NO_ADDRESS_def)
  have "dc_inv (demo_table ?e)" "hw_ok (demo_table ?e)" "entry_at 0 (dc_directory (demo_table ?e)) = Inr ?e"
    using demo_dc_inv [OF e] by (simp_all add: hw_ok_def entry_at_Inr) (simp_all add: demo_table_def)
  with directory_lookup_correct [of "demo_table ?e" "0x2000" False] e show ?thesis by (fastforce simp: NO_ADDRESS_def)
qed

section \<open>Memory and address translation\<close>

text \<open>
  C25. Non-volatile memory whose writes cost as much as its reads is timed like DRAM with that cost: any
  sequence of accesses gets the same latencies from both models, or the same error, whatever queue
  model is chosen and whether the model is switched on or off.
\<close>

theorem nvm_timed_like_dram:
  assumes "NvmPerfModelConstant_new cores processing ncfg sz cfg ty = Inr m" "getWriteLatency ncfg = getReadLatency ncfg"
  shows "\<exists>d. DramPerfModelConstant_new cores processing (getReadLatency ncfg) sz cfg ty = Inr d \<and>
    mapE fst (accesses (np_getAccessLatency env) as (m\<lparr>np_enabled := b\<rparr>)) =
    mapE fst (accesses (\<lambda>t sz r ty. dp_getAccessLatency env t sz r) as (d\<lparr>dp_enabled := b\<rparr>))"
proof -
  have "equal_costs (m\<lparr>np_enabled := b\<rparr>)" using nvm_new_costs [OF assms(1)] assms(2) by (simp add: equal_costs_def)
  note same = nvm_accesses_as_dram [OF this, of env as, symmetric]
  have "(as_dram m)\<lparr>dp_enabled := b\<rparr> = as_dram (m\<lparr>np_enabled := b\<rparr>)" by (simp add: as_dram_def)
  moreover have "DramPerfModelConstant_new cores processing (getReadLatency ncfg) sz cfg ty = Inr (as_dram m)"
    using nvm_new_as_dram [of cores processing ncfg sz cfg ty] assms(1) by simp
  ultimately show ?thesis using same by (cases "accesses (np_getAccessLatency env) as (m\<lparr>np_enabled := b\<rparr>)") auto
qed

theorem nvm_timed_like_dram_witness:
  "\<exists>d. DramPerfModelConstant_new 4 (\<lambda>n. n div 8) 100 64 demo_queue_cfg (Some ''history_list'') = Inr d \<and>
    mapE fst (accesses (\<lambda>t sz r ty. dp_getAccessLatency demo_env t sz r) demo_accesses (d\<lparr>dp_enabled := True\<rparr>)) = Inr [164, 228, 164]"
proof -
  have cfg: "getReadLatency demo_nvm_cfg = 100" "getWriteLatency demo_nvm_cfg = 100"
    by (simp_all add: demo_nvm_cfg_def getReadLatency_def getWriteLatency_def)
  obtain m where m: "NvmPerfModelConstant_new 4 (\<lambda>n. n div 8) demo_nvm_cfg 64 demo_queue_cfg (Some ''history_list'') = Inr m"
    "mapE fst (accesses (np_getAccessLatency demo_env) demo_accesses (m\<lparr>np_enabled := True\<rparr>)) = Inr [164, 228, 164]"
    using demo_nvm_run by (auto simp: bindE_eq_Inr)
  from nvm_timed_like_dram [OF m(1), of demo_env demo_accesses True] m(2) show ?thesis by (auto simp: cfg)
qed


text \<open>
  C27. A lookup in a TLB leaves the page in the first level, adds no other page to it and counts the
  access and the miss. It hits if the page is in the first level, and otherwise exactly if the next
  level has it.
\<close>

theorem tlb_lookup_brings_page:
  assumes "tlb_lookup a True (t # rest) = Inr (hit, ts)" "cache_inv (tl_cache t)"
  shows "\<exists>t' rest'. ts = t' # rest' \<and> cache_inv (tl_cache t') \<and> page_of t a \<in> cached (tl_cache t') \<and>
    cached (tl_cache t') \<subseteq> insert (page_of t a) (cached (tl_cache t)) \<and> tl_access t' = tl_access t + 1 \<and>
    (if page_of t a \<in> cached (tl_cache t)
     then hit \<and> rest' = rest \<and> cached (tl_cache t') = cached (tl_cache t) \<and> tl_miss t' = tl_miss t
     else tl_miss t' = tl_miss t + 1 \<and> (hit \<longleftrightarrow> rest \<noteq> [] \<and> (\<exists>n. tlb_lookup a False rest = Inr (True, n))))"
  by (rule lookup_first [OF assms]) (auto split: if_splits)

theorem tlb_lookup_brings_page_witness:
  "\<exists>d ts. TLB_new ''dtlb'' demo_tlb_cfg 1 1 = Inr d \<and> tlb_lookup 0x1000 True [d] = Inr (False, ts) \<and> cache_inv (tl_cache (hd ts)) \<and>
    page_of d 0x1000 \<in> cached (tl_cache (hd ts)) \<and> tl_miss (hd ts) = 1"
proof -
  have "mapE (\<lambda>(hit, _). hit) (bindE (TLB_new ''dtlb'' demo_tlb_cfg 1 1) (\<lambda>d. tlb_lookup 0x1000 True [d])) = Inr False" by code_simp
  then obtain d ts where d: "TLB_new ''dtlb'' demo_tlb_cfg 1 1 = Inr d" and l: "tlb_lookup 0x1000 True [d] = Inr (False, ts)"
    by (auto simp: result_simps simp del: tlb_lookup.simps)
  have "cache_inv (tl_cache d)" "pages d = {}" "tl_miss d = 0"
    by (rule TLB_new_inv [OF d]; simp add: demo_tlb_cfg_def)+
  with tlb_lookup_brings_page [OF l] d l show ?thesis by (auto simp del: tlb_lookup.simps)
qed

section \<open>Caches and replacement\<close>

text \<open>
  C28. Inserting a line that is not cached: the cache stays well formed, exactly this line is added
  and exactly the reported line is removed if there is an eviction, and the new line is found.
\<close>

theorem insert_then_lookup:
  assumes "cache_inv c" "line_of c x \<notin> cached c"
    and "insertSingleLine x fill ev want cn c = Inr (out, evict_addr, c')"
  shows "cache_inv c' \<and>
    cached c' = insert (line_of c x) (cached c - (if ins_eviction out then {line_of c evict_addr} else {})) \<and>
    (ins_eviction out \<longrightarrow> line_of c evict_addr \<in> cached c) \<and>
    (\<exists>r. peekSingleLine x c' = Inr (Some r) \<and> m_tag (block_at c' r) = line_of c x)"
proof -
  note ins = insertSingleLine_cached [OF assms]
  have base: "line_of c' x = line_of c x" using insert_base [OF assms(3)] by (simp add: line_of_def)
  have "line_of c' x \<in> cached c'" using ins(2) base by simp
  with peekSingleLine_cached [OF ins(1), of x] obtain r where
    "peekSingleLine x c' = Inr (Some r)" "m_tag (block_at c' r) = line_of c' x" by auto
  with ins base show ?thesis by auto
qed

theorem insert_then_lookup_witness:
  "\<exists>out ea c'. insertSingleLine 0x2000 None no_line True None (demo_cache ''L3'' (demo_line 64 SHARED 2)) = Inr (out, ea, c') \<and>
    cache_inv c' \<and> cached c' = {128} \<and> (\<exists>r. peekSingleLine 0x2000 c' = Inr (Some r))"
proof -
  let ?c = "demo_cache ''L3'' (demo_line 64 SHARED 2)"
  have inv: "cache_inv ?c" using demo_cache_ok [of 64 SHARED "''L3''" 2] by (simp add: cache_ok_def)
  have "mapE (\<lambda>(out, ea, c). (ins_eviction out, ea)) (insertSingleLine 0x2000 None no_line True None ?c) = Inr (True, 0x1000)"
    by code_simp
  then obtain out c' where run: "insertSingleLine 0x2000 None no_line True None ?c = Inr (out, 0x1000, c')" "ins_eviction out"
    by (auto simp: result_simps)
  have c: "cached ?c = {64}" "line_of ?c 0x2000 = 128" "line_of ?c 0x1000 = 64"
    by (auto simp: cached_def tags_iff demo_cache_def demo_line_def CacheBlockInfo_new_def isValid_def line_of_def)
  then have "line_of ?c 0x2000 \<notin> cached ?c" by simp
  from insert_then_lookup [OF inv this run(1)] c run(2) show ?thesis using run(1) by auto
qed

text \<open>
  C29. A cache built by the constructor is well formed and empty, for every replacement policy and
  hash function the configuration can name, within the limits the code assumes.
\<close>

theorem new_cache_empty:
  assumes "Cache_new name cfg num_sets ways (2 ^ lb) pol cache_type hash fi ao = Inr c"
    and "1 \<le> lb" "lb < 32" "\<And>a. ao = Some a \<Longrightarrow> wf_ahl a \<and> lb \<le> unat (m_ahl_param a)"
    and "hash = HASH_XOR_MOD \<Longrightarrow> \<exists>k. unat num_sets = 2 ^ k" "hash = HASH_MER_MOD \<Longrightarrow> 1 < unat num_sets"
    and "0 < unat ways" "unat ways \<le> 256" "pol = ''nmru'' \<Longrightarrow> 2 \<le> unat ways"
    and "0 < cfg_qbs_attempts cfg" "1 \<le> cfg_srrip_bits cfg" "cfg_srrip_bits cfg \<le> 8"
  shows "cache_inv c \<and> cached c = {}"
  using Cache_new_inv [OF assms] by blast

theorem new_cache_empty_witness:
  "\<exists>c. Cache_new ''L2'' \<lparr>cfg_qbs_attempts = 1, cfg_srrip_bits = 2, cfg_time = 0\<rparr> 4 2 (2 ^ 6) ''lru'' SHARED_CACHE HASH_MASK None None = Inr c \<and>
    cache_inv c \<and> cached c = {}"
proof -
  let ?cfg = "\<lparr>cfg_qbs_attempts = 1, cfg_srrip_bits = 2, cfg_time = 0\<rparr>"
  have "mapE (\<lambda>c. length (c_sets c)) (Cache_new ''L2'' ?cfg 4 2 (2 ^ 6) ''lru'' SHARED_CACHE HASH_MASK None None) = Inr 4" by code_simp
  then obtain c where "Cache_new ''L2'' ?cfg 4 2 (2 ^ 6) ''lru'' SHARED_CACHE HASH_MASK None None = Inr c" by (auto simp: result_simps)
  with new_cache_empty [OF this] show ?thesis by simp
qed

text \<open>
  C30. The age counters of the LRU, MRU and NMRU policies encode a recency stack: moving a way to the
  most recently used position moves it to the front of the stack and keeps the order of the others.
\<close>

theorem ages_are_recency_stack:
  assumes "age_inv n bits" "a < n"
  shows "age_inv n (moveToMRU a bits) \<and> recency_stack (moveToMRU a bits) = a # remove1 a (recency_stack bits)"
  using age_inv_moveToMRU [OF assms] recency_stack_moveToMRU [OF assms] by blast

theorem ages_are_recency_stack_witness:
  "recency_stack (moveToMRU 2 (age_init 4)) = 2 # remove1 2 (recency_stack (age_init 4))"
  using ages_are_recency_stack [of 4 "age_init 4" 2] age_inv_init [of 4] by simp

text \<open>
  C31. LRU without query-based selection evicts the least recently used way of a full set and makes
  it the most recently used one, when no line of the set is being upgraded.
\<close>

theorem lru_evicts_least_recent:
  assumes "lru_inv (length blocks) (s, info)" "blocks \<noteq> []" "lru_num_attempts s = 1"
    and "\<forall>b \<in> set blocks. isValid b" "\<forall>b \<in> set blocks. m_cstate b \<noteq> SHARED_UPGRADING"
  shows "lru_getReplacementIndex cn blocks (s, info) =
    Inr (last (recency_stack (lru_bits s)),
         (s\<lparr>lru_bits := moveToMRU (last (recency_stack (lru_bits s))) (lru_bits s)\<rparr>, info), 0)"
proof -
  have "age_inv (length blocks) (lru_bits s)" using assms(1) by (simp add: lru_inv_def)
  with assms(2,5) have "lru_victim (lru_bits s) blocks = last (recency_stack (lru_bits s))" by (intro lru_victim_last) auto
  with lru_get_full [OF assms(1-4), of cn] show ?thesis by simp
qed

theorem lru_evicts_least_recent_witness:
  "mapE fst (lru_getReplacementIndex None [demo_line 64 SHARED 0, demo_line 128 SHARED 0] (lru_new 2 1, CacheSetInfoLRU_new 2 1)) =
   Inr (last (recency_stack (age_init 2)))"
proof -
  have "lru_inv (length [demo_line 64 SHARED 0, demo_line 128 SHARED 0]) (lru_new 2 1, CacheSetInfoLRU_new 2 1)"
    using lru_inv_new [of 2 1] by (simp add: numeral_2_eq_2)
  from lru_evicts_least_recent [OF this, of None] show ?thesis
    by (simp add: demo_line_def CacheBlockInfo_new_def isValid_def lru_new_def mapE_def)
qed

text \<open>
  C32. Every replacement policy, through the common interface, names a way of the set and keeps its
  own state well formed.
\<close>

theorem replacement_in_range:
  assumes "policy_inv (length blocks) st" "getReplacementIndex cn blocks st = Inr (i, st', cost)"
  shows "i < length blocks \<and> policy_inv (length blocks) st'"
  by (rule policy_get_ok [OF assms])

theorem replacement_in_range_witness:
  "\<exists>i st' cost. getReplacementIndex None [demo_line 64 SHARED 0] (CacheSetNRU (nru_new 1), None) = Inr (i, st', cost) \<and> i < 1"
proof -
  let ?b = "[demo_line 64 SHARED 0]"
  have "policy_inv (length ?b) (CacheSetNRU (nru_new 1), None)" using nru_inv_new [of 1] by (simp add: policy_inv_def)
  moreover have "mapE fst (getReplacementIndex None ?b (CacheSetNRU (nru_new 1), None)) = Inr 0" by code_simp
  then obtain st' cost where "getReplacementIndex None ?b (CacheSetNRU (nru_new 1), None) = Inr (0, st', cost)"
    by (auto simp: result_simps)
  ultimately show ?thesis using replacement_in_range [of ?b "(CacheSetNRU (nru_new 1), None)" None 0 st' cost] by auto
qed

text \<open>
  C33. Every replacement policy finds a victim while no line of the set is being upgraded (SRRIP only
  without query-based selection).
\<close>

theorem replacement_finds_victim:
  assumes "policy_live_inv (length blocks) st" "blocks \<noteq> []" "\<forall>i < length blocks. isValidReplacement blocks i"
  shows "\<exists>i st' cost. getReplacementIndex (Some c) blocks st = Inr (i, st', cost)"
  by (rule policy_get_total [OF assms])

theorem replacement_finds_victim_witness:
  "\<exists>i st' cost. getReplacementIndex (Some (\<lambda>_. False)) [demo_line 64 SHARED 0]
     (CacheSetSRRIP (srrip_new 1 2 1), Some (CacheSetInfoLRU_new 1 1)) = Inr (i, st', cost)"
proof -
  let ?b = "[demo_line 64 SHARED 0]" and ?st = "(CacheSetSRRIP (srrip_new 1 2 1), Some (CacheSetInfoLRU_new 1 1))"
  have "policy_live_inv (length ?b) ?st"
    using srrip_inv_new [of 2 1 1] by (simp add: policy_live_inv_def policy_inv_def srrip_new_def)
  moreover have "\<forall>i < length ?b. isValidReplacement ?b i"
    by (simp add: isValidReplacement_def demo_line_def CacheBlockInfo_new_def)
  ultimately show ?thesis using replacement_finds_victim [of ?b ?st "\<lambda>_. False"] by simp
qed

section \<open>Addresses and helpers\<close>

text \<open>
  C34. Splitting an address and joining the parts gives the address back: the tag determines the
  start of the block and the set, and the offset lies within the block.
\<close>

theorem split_address_roundtrip:
  assumes "wf_base c" "splitAddress_offset c x = Inr (tag, s, off)"
  shows "unat x = unat (tagToAddress c tag) + unat off \<and> unat off < unat (m_blocksize c) \<and>
    splitAddress c (tagToAddress c tag) = Inr (tag, s)"
proof -
  from assms(2) have "splitAddress c x = Inr (tag, s)" by (auto simp: splitAddress_offset_def result_simps Let_def)
  with splitAddress_offset_roundtrip [OF assms] tagToAddress_split [OF assms(1)] show ?thesis by blast
qed

theorem split_address_roundtrip_witness:
  "splitAddress (c_base (demo_cache ''L3'' no_line)) (tagToAddress (c_base (demo_cache ''L3'' no_line)) 64) = Inr (64, 0)"
proof -
  let ?b = "c_base (demo_cache ''L3'' no_line)"
  have "wf_base ?b" using demo_cache_ok [of "NOT 0" INVALID "''L3''" 0] by (simp add: cache_ok_def cache_inv_def wf_index_def)
  moreover have "splitAddress_offset ?b 0x1009 = Inr (64, 0, 9)" by code_simp
  ultimately show ?thesis using split_address_roundtrip [of ?b "0x1009" 64 0 9] by blast
qed

text \<open>
  C35. Memory beside the directories. With memory controllers at every so many cores, every node the
  directory lookup can name, for the undo log or any other line, has a memory controller exactly if the
  directories are placed at the controllers, their distance is a multiple of that of the controllers, or
  there is only one.
\<close>

theorem homes_have_memory_iff:
  assumes "placeMemory cfg = Inr (memory, directories)" "pl_num_controllers cfg = - 1"
    and "il = pl_controllers_interleaving cfg * pl_smt_cores cfg" "0 < il" "0 < pl_core_count cfg" "pl_core_count cfg < 2 ^ 31"
    and "AddressHomeLookup_new param (map of_int directories) bs = Inr lookup"
  shows "(\<forall>a. \<exists>h \<in> set memory. getHome lookup a = Inr (of_int h)) \<longleftrightarrow>
    pl_locations cfg = ''dram'' \<or> (\<exists>step. tagDirectoryInterleaving cfg = Inr step \<and> (il dvd step \<or> pl_core_count cfg \<le> step))"
  using homes_have_memory [OF assms(7) placed_in_range(2,3,1) [OF assms(1-6)]] directories_beside_memory [OF assms(1-5)] by simp

theorem homes_have_memory_iff_witness:
  "\<exists>lookup. AddressHomeLookup_new 12 (map of_int [0, 1, 2, 3]) 64 = Inr lookup \<and> \<not> (\<forall>a. \<exists>h \<in> {0, 2}. getHome lookup a = Inr (of_int h))"
proof -
  obtain lookup where l: "AddressHomeLookup_new 12 (map of_int [0, 1, 2, 3]) 64 = Inr lookup" by (simp add: AddressHomeLookup_new_def)
  have "tagDirectoryInterleaving (demo_placement ''interleaved'') = Inr 1" "pl_locations (demo_placement ''interleaved'') = ''interleaved''"
    "pl_core_count (demo_placement ''interleaved'') = 4" by (simp_all add: tagDirectoryInterleaving_def demo_placement_def)
  with homes_have_memory_iff [OF demo_placed(2) _ refl _ _ _ l] show ?thesis using l by (auto simp: demo_placement_def)
qed

section \<open>Timing, queues, prefetching and observation\<close>



text \<open>
  C37. The request queues keep one first-in first-out queue per address: a queued request comes last,
  taking one out gives the oldest and leaves the other addresses alone, and it fails exactly when
  nothing is queued.
\<close>

theorem request_queue_fifo:
  assumes "rq_inv q"
  shows "pending (enqueue a r q) b = (if b = a then pending q a @ [r] else pending q b) \<and> rq_inv (enqueue a r q) \<and>
    (case dequeue a q of
       Inl e \<Rightarrow> pending q a = []
     | Inr (x, q') \<Rightarrow> rq_inv q' \<and> pending q a = x # pending q' a \<and> (\<forall>b. b \<noteq> a \<longrightarrow> pending q' b = pending q b))"
  using dequeue_pending [OF assms, of a] enqueue_pending [of a r q b] enqueue_inv [OF assms, of a r]
  by (auto split: sum.splits)

theorem request_queue_fifo_witness:
  "pending (enqueue 64 (1 :: nat) (enqueue 64 2 rq_new)) 64 = [2, 1]"
proof -
  have "rq_inv (enqueue 64 (2 :: nat) rq_new)" by (simp add: enqueue_inv)
  from request_queue_fifo [OF this, of 64 1 64] show ?thesis by (simp add: enqueue_pending)
qed

text \<open>
  C38. The moving average of the queue models is the mean of the last values: after any sequence of
  updates the ring buffer holds the last \<open>n\<close> of them, and their sum, kept incrementally, divided by
  their number is what \<open>compute\<close> returns.
\<close>

theorem moving_average_of_last_values:
  assumes "0 < n" "unat n < 2 ^ 31" "xs \<noteq> []"
  shows "\<exists>m. ma_updates xs (createAvgType ARITHMETIC_MEAN n) = Inr m \<and> window m = drop (length xs - unat n) xs \<and>
    ma_compute root m = Inr (sum_list (drop (length xs - unat n) xs) div of_nat (min (unat n) (length xs)))"
proof -
  note new = createAvgType_ok [OF assms(1,2), of ARITHMETIC_MEAN]
  have sz: "ma_max_window_size (createAvgType ARITHMETIC_MEAN n) = n" "ma_type (createAvgType ARITHMETIC_MEAN n) = ARITHMETIC_MEAN"
    by (simp_all add: createAvgType_def)
  obtain m where m: "ma_updates xs (createAvgType ARITHMETIC_MEAN n) = Inr m" "ma_inv m" "sum_ok m" "ma_type m = ARITHMETIC_MEAN"
    "window m = drop (length xs - unat n) xs"
    using ma_updates_ok [OF new(1,3), of xs] new(2) sz by auto
  have n: "0 < unat n" "0 < length xs" using assms(1,3) by (simp_all add: word_gt_0 unat_gt_0)
  have len: "length (window m) = min (unat n) (length xs)" using m(5) by simp
  moreover have "window m \<noteq> []" using len n by (auto simp: min_def split: if_splits)
  ultimately show ?thesis using mean_ok [OF m(2-4), of root] m(1,5) by simp
qed

theorem moving_average_of_last_values_witness:
  "\<exists>m. ma_updates [10, 2, 4, 6] (createAvgType ARITHMETIC_MEAN 3) = Inr m \<and> window m = [2, 4, 6] \<and> ma_compute (\<lambda>_ _. 0) m = Inr 4"
  using moving_average_of_last_values [of 3 "[10, 2, 4, 6]" "\<lambda>_ _. 0"] by simp


text \<open>
  C40. Every branch predictor, through the common interface, predicts every branch of any trace: no
  index leaves its table, and the statistics are the numbers of right and wrong predictions.
\<close>

theorem branch_predictions_counted:
  assumes "BranchPredictor_create ty entries registers b = Inr (Some p)" "0 < sint entries" "0 < registers" "registers \<le> 128"
  shows "\<exists>ms p'. branches bs (Some p) = Inr (ms, Some p') \<and> length ms = length bs \<and>
    bp_incorrect (bp_counts p') = of_nat (length (filter (\<lambda>m. m) ms)) \<and> bp_correct (bp_counts p') = of_nat (length (filter Not ms))"
  using branches_ok [OF created_inv(1) [OF assms], of bs] created_inv(2) [OF assms] by (auto simp: no_predictions_def)

theorem branch_predictions_counted_witness:
  "\<exists>ms p'. branches [(0x400, True, False, 0x500), (0x400, True, False, 0x500)] (Some (PentiumMBranchPredictor (PentiumMBranchPredictor_new False))) = Inr (ms, Some p') \<and>
    length ms = 2 \<and> bp_correct (bp_counts p') = of_nat (length (filter Not ms))"
  using branch_predictions_counted [of "''pentium_m''" 1 1 False "PentiumMBranchPredictor (PentiumMBranchPredictor_new False)"
      "[(0x400, True, False, 0x500), (0x400, True, False, 0x500)]"]
  by (auto simp: BranchPredictor_create_def)

end
